(* ===== verification/Dub_Prelude.thy ===== *)
theory Dub_Prelude
  imports Complex_Main "HOL-Library.List_Lexorder" "HOL-Library.Char_ord" "HOL-Library.Multiset"
begin

text \<open>
  The vocabulary every component of the development shares: the JavaScript values that
  reach the services as \<open>unknown\<close> request bodies, the string and array operations of
  the language the sources use, and the generic lemmas on lists and options.

  Strings are lists of HOL characters, that is of code units below 256, compared code unit
  by code unit as JavaScript compares them. Numbers are exact rationals (\<open>NaN\<close> and the
  infinities never come out of \<open>JSON.parse\<close>, so no request body holds one); the rounding
  of doubles is not modelled.
\<close>

named_theorems js_simps \<open>evaluation of the JavaScript primitives\<close>

section \<open>Values\<close>

datatype js =
    Undef
  | Null
  | JBool bool
  | JNum rat
  | JStr string
  | JArr "js list"
  | JObj "(string \<times> js) list"

type_synonym ms = int  \<comment> \<open>milliseconds since the epoch\<close>

definition js_get :: "js \<Rightarrow> string \<Rightarrow> js" where
  "js_get v k = (case v of JObj kvs \<Rightarrow> (case map_of kvs k of Some x \<Rightarrow> x | None \<Rightarrow> Undef) | _ \<Rightarrow> Undef)"

definition is_nullish :: "js \<Rightarrow> bool" where
  "is_nullish v = (v = Undef \<or> v = Null)"

definition js_int :: "js \<Rightarrow> int option" where
  \<comment> \<open>the number of \<open>typeof v === "number" \&\& Number.isInteger(v)\<close>\<close>
  "js_int v = (case v of JNum r \<Rightarrow> (let (p, q) = quotient_of r in if q = 1 then Some p else None) | _ \<Rightarrow> None)"

definition js_str :: "js \<Rightarrow> string option" where
  "js_str v = (case v of JStr s \<Rightarrow> Some s | _ \<Rightarrow> None)"

definition js_bool :: "js \<Rightarrow> bool option" where
  "js_bool v = (case v of JBool b \<Rightarrow> Some b | _ \<Rightarrow> None)"

definition js_record :: "js \<Rightarrow> (string \<times> js) list option" where
  \<comment> \<open>\<open>typeof v === "object" \&\& v !== null \&\& !Array.isArray(v)\<close>, with \<open>Object.entries(v)\<close>\<close>
  "js_record v = (case v of JObj kvs \<Rightarrow> Some kvs | _ \<Rightarrow> None)"

definition js_items :: "js \<Rightarrow> js list" where
  "js_items v = (case v of JArr xs \<Rightarrow> xs | _ \<Rightarrow> [])"

lemma js_int_of_int [simp]: "js_int (JNum (of_int i)) = Some i"
  by (simp add: js_int_def quotient_of_int)

lemma js_int_Some: "js_int v = Some i \<longleftrightarrow> v = JNum (of_int i)"
proof
  assume a: "js_int v = Some i"
  then obtain r where v: "v = JNum r" by (auto simp: js_int_def split: js.splits)
  obtain p q where pq: "quotient_of r = (p, q)" by fastforce
  with a v have "q = 1" "p = i" by (auto simp: js_int_def split: if_splits)
  with pq show "v = JNum (of_int i)"
    using quotient_of_div[OF pq] v by simp
qed simp

lemma js_int_numeral [simp]:
  "js_int (JNum (numeral n)) = Some (numeral n)"
  "js_int (JNum 0) = Some 0"
  "js_int (JNum 1) = Some 1"
  by (simp_all add: js_int_Some)

lemma js_int_simps [simp]:
  "js_int Undef = None" "js_int Null = None" "js_int (JBool b) = None"
  "js_int (JStr s) = None" "js_int (JArr xs) = None" "js_int (JObj kvs) = None"
  by (simp_all add: js_int_def)

lemma js_str_simps [simp]:
  "js_str (JStr s) = Some s" "js_str Undef = None" "js_str Null = None" "js_str (JBool b) = None"
  "js_str (JNum r) = None" "js_str (JArr xs) = None" "js_str (JObj kvs) = None"
  by (simp_all add: js_str_def)

lemma js_str_Some: "js_str v = Some s \<longleftrightarrow> v = JStr s"
  by (cases v) auto

section \<open>Numbers\<close>

definition js_trunc :: "rat \<Rightarrow> int" where
  \<comment> \<open>\<open>Math.trunc\<close>\<close>
  "js_trunc r = (if r < 0 then \<lceil>r\<rceil> else \<lfloor>r\<rfloor>)"

lemma js_trunc_of_int [simp]: "js_trunc (of_int i) = i"
  by (simp add: js_trunc_def)

lemma js_trunc_simps [simp]:
  "js_trunc 0 = 0" "js_trunc 1 = 1" "js_trunc (numeral n) = numeral n" "js_trunc (- numeral n) = - numeral n"
  by (simp_all add: js_trunc_def)

section \<open>Strings\<close>

definition is_space :: "char \<Rightarrow> bool" where
  \<comment> \<open>the white space and line terminators below 256 that \<open>trim\<close> and \<open>\s\<close> recognise\<close>
  "is_space c = (of_char c \<in> {9, 10, 11, 12, 13, 32, 160 :: nat})"

definition trim :: "string \<Rightarrow> string" where
  "trim s = rev (dropWhile is_space (rev (dropWhile is_space s)))"

lemma length_trim: "length (trim s) \<le> length s"
  by (metis length_dropWhile_le length_rev order_trans trim_def)

lemma trim_Nil [simp]: "trim [] = []"
  by (simp add: trim_def)

lemma trim_idem: "trim (trim s) = trim s"
proof -
  define t where "t = dropWhile is_space s"
  define u where "u = dropWhile is_space (rev t)"
  have ru: "dropWhile is_space u = u" by (simp add: u_def)
  have "dropWhile is_space (rev u) = rev u"
  proof (cases "rev u")
    case (Cons c cs)
    obtain p where "rev t = p @ u"
      unfolding u_def by (metis takeWhile_dropWhile_id)
    then have "t = rev u @ rev p" by (metis rev_append rev_rev_ident)
    with Cons have "t = c # (cs @ rev p)" by simp
    moreover have "dropWhile is_space t = t" by (simp add: t_def)
    ultimately have "\<not> is_space c" by (metis dropWhile.simps(2) length_dropWhile_le impossible_Cons)
    with Cons show ?thesis by simp
  qed simp
  then show ?thesis
    by (simp add: trim_def t_def[symmetric] u_def[symmetric] ru)
qed

fun index_of :: "char \<Rightarrow> string \<Rightarrow> nat option" where
  \<comment> \<open>\<open>indexOf\<close> of one character; \<open>None\<close> for -1\<close>
  "index_of c [] = None"
| "index_of c (x # xs) = (if x = c then Some 0 else map_option Suc (index_of c xs))"

fun split_on :: "char \<Rightarrow> string \<Rightarrow> string list" where
  "split_on c [] = [[]]"
| "split_on c (x # xs) =
     (if x = c then [] # split_on c xs
      else (case split_on c xs of p # ps \<Rightarrow> (x # p) # ps | [] \<Rightarrow> [[x]]))"

lemma split_on_nonempty: "split_on c xs \<noteq> []"
  by (induction xs) (auto split: list.splits)

lemma split_on_free: "c \<notin> set xs \<Longrightarrow> split_on c xs = [xs]"
  by (induction xs) auto

lemma split_on_append: "c \<notin> set xs \<Longrightarrow> split_on c (xs @ c # ys) = xs # split_on c ys"
  by (induction xs) auto

lemma index_of_append: "c \<notin> set xs \<Longrightarrow> index_of c (xs @ c # ys) = Some (length xs)"
  by (induction xs) auto

definition starts_with :: "string \<Rightarrow> string \<Rightarrow> bool" where
  "starts_with p s = (take (length p) s = p)"

fun join_with :: "string \<Rightarrow> string list \<Rightarrow> string" where
  \<comment> \<open>\<open>xs.join(sep)\<close>\<close>
  "join_with sep [] = []"
| "join_with sep [x] = x"
| "join_with sep (x # xs) = x @ sep @ join_with sep xs"

definition char_between :: "char \<Rightarrow> char \<Rightarrow> char \<Rightarrow> bool" where
  \<comment> \<open>a range in a character class\<close>
  "char_between a b c = (of_char a \<le> (of_char c :: nat) \<and> of_char c \<le> (of_char b :: nat))"

fun nat_string :: "nat \<Rightarrow> string" where
  "nat_string n = (if n < 10 then [char_of (48 + n)] else nat_string (n div 10) @ [char_of (48 + n mod 10)])"

declare nat_string.simps [simp del]

definition int_string :: "int \<Rightarrow> string" where
  "int_string i = (if i < 0 then ''-'' @ nat_string (nat (- i)) else nat_string (nat i))"

section \<open>Lists\<close>

text \<open>\<open>[...new Set(xs)]\<close> keeps the first occurrence of each element, in order.\<close>

definition uniq :: "'a list \<Rightarrow> 'a list" where
  "uniq xs = rev (remdups (rev xs))"

lemma set_uniq [simp]: "set (uniq xs) = set xs"
  by (simp add: uniq_def)

lemma distinct_uniq [simp]: "distinct (uniq xs)"
  by (simp add: uniq_def)

lemma uniq_Nil [simp]: "uniq [] = []"
  by (simp add: uniq_def)

lemma uniq_distinct: "distinct xs \<Longrightarrow> uniq xs = xs"
  by (simp add: uniq_def distinct_remdups_id)

lemma uniq_snoc: "uniq (xs @ [x]) = (if x \<in> set xs then uniq xs else uniq xs @ [x])"
  by (simp add: uniq_def)

text \<open>
  \<open>const o = xs.find(P); if (o) Object.assign(o, ...)\<close>: the first element that satisfies
  the test is changed in place.
\<close>

fun upd_first :: "('a \<Rightarrow> bool) \<Rightarrow> ('a \<Rightarrow> 'a) \<Rightarrow> 'a list \<Rightarrow> 'a list" where
  "upd_first P f [] = []"
| "upd_first P f (x # xs) = (if P x then f x # xs else x # upd_first P f xs)"

lemma length_upd_first [simp]: "length (upd_first P f xs) = length xs"
  by (induction xs) auto

lemma upd_first_none: "find P xs = None \<Longrightarrow> upd_first P f xs = xs"
  by (induction xs) (auto split: if_splits)

lemma upd_first_split:
  "find P xs = Some x \<Longrightarrow>
     \<exists>ys zs. xs = ys @ x # zs \<and> (\<forall>y\<in>set ys. \<not> P y) \<and> P x \<and> upd_first P f xs = ys @ f x # zs"
proof (induction xs)
  case (Cons a xs)
  show ?case
  proof (cases "P a")
    case True
    with Cons.prems show ?thesis by force
  next
    case False
    with Cons obtain ys zs where "xs = ys @ x # zs" "\<forall>y\<in>set ys. \<not> P y" "P x"
      "upd_first P f xs = ys @ f x # zs" by auto
    with False show ?thesis by (intro exI[of _ "a # ys"] exI[of _ zs]) simp
  qed
qed simp

lemma map_upd_first:
  "(\<And>x. P x \<Longrightarrow> g (f x) = g x) \<Longrightarrow> map g (upd_first P f xs) = map g xs"
  by (induction xs) auto

lemma find_Some_in: "find P xs = Some x \<Longrightarrow> x \<in> set xs \<and> P x"
  by (auto simp: find_Some_iff)

lemma find_distinct_key:
  "distinct (map k xs) \<Longrightarrow> x \<in> set xs \<Longrightarrow> find (\<lambda>y. k y = k x) xs = Some x"
  by (induction xs) auto

lemma find_key_None: "find (\<lambda>y. k y = a) xs = None \<longleftrightarrow> a \<notin> k ` set xs"
  by (auto simp: find_None_iff)

section \<open>Sums over lists\<close>

text \<open>\<open>xs.reduce((n, x) => n + f(x), 0)\<close>\<close>

definition sum_by :: "('a \<Rightarrow> int) \<Rightarrow> 'a list \<Rightarrow> int" where
  "sum_by f xs = sum_list (map f xs)"

lemma sum_by_simps [simp]:
  "sum_by f [] = 0"
  "sum_by f (x # xs) = f x + sum_by f xs"
  "sum_by f (xs @ ys) = sum_by f xs + sum_by f ys"
  by (simp_all add: sum_by_def)

lemma sum_by_nonneg: "(\<And>x. x \<in> set xs \<Longrightarrow> 0 \<le> f x) \<Longrightarrow> 0 \<le> sum_by f xs"
  by (induction xs) auto

lemma sum_by_mono: "(\<And>x. x \<in> set xs \<Longrightarrow> f x \<le> g x) \<Longrightarrow> sum_by f xs \<le> sum_by g xs"
  by (induction xs) (auto intro: add_mono)

lemma sum_by_cong: "(\<And>x. x \<in> set xs \<Longrightarrow> f x = g x) \<Longrightarrow> sum_by f xs = sum_by g xs"
  by (induction xs) auto

lemma sum_by_filter: "sum_by f (filter P xs) = sum_by (\<lambda>x. if P x then f x else 0) xs"
  by (induction xs) auto

lemma sum_by_concat: "sum_by f (concat xss) = sum_by (sum_by f) xss"
  by (induction xss) auto

lemma sum_by_map: "sum_by f (map g xs) = sum_by (f \<circ> g) xs"
  by (induction xs) auto

lemma sum_by_upd_first:
  "find P xs = Some x \<Longrightarrow> sum_by f (upd_first P g xs) = sum_by f xs - f x + f (g x)"
  by (induction xs) (auto split: if_splits)

section \<open>Sequencing computations that may throw\<close>

text \<open>\<open>Inl\<close> carries what was thrown, \<open>Inr\<close> what was returned.\<close>

definition try_bind :: "'e + 'a \<Rightarrow> ('a \<Rightarrow> 'e + 'b) \<Rightarrow> 'e + 'b" where
  "try_bind r f = (case r of Inl e \<Rightarrow> Inl e | Inr a \<Rightarrow> f a)"

lemma try_bind_simps [simp]: "try_bind (Inl e) f = Inl e" "try_bind (Inr a) f = f a"
  by (simp_all add: try_bind_def)

lemma try_bind_Inr: "try_bind r f = Inr b \<longleftrightarrow> (\<exists>a. r = Inr a \<and> f a = Inr b)"
  by (cases r) auto

fun map_try :: "('a \<Rightarrow> 'e + 'b) \<Rightarrow> 'a list \<Rightarrow> 'e + 'b list" where
  \<comment> \<open>\<open>xs.map(f)\<close> where \<open>f\<close> may throw\<close>
  "map_try f [] = Inr []"
| "map_try f (x # xs) = try_bind (f x) (\<lambda>y. try_bind (map_try f xs) (\<lambda>ys. Inr (y # ys)))"

lemma map_try_Inr: "map_try f xs = Inr ys \<longleftrightarrow> list_all2 (\<lambda>x y. f x = Inr y) xs ys"
  by (induction xs arbitrary: ys) (auto simp: try_bind_Inr list_all2_Cons1)

fun fold_try :: "('a \<Rightarrow> 's \<Rightarrow> 'e + 's) \<Rightarrow> 'a list \<Rightarrow> 's \<Rightarrow> 'e + 's" where
  \<comment> \<open>a \<open>for\<close> loop whose body may throw\<close>
  "fold_try f [] s = Inr s"
| "fold_try f (x # xs) s = try_bind (f x s) (fold_try f xs)"

lemma fold_try_pure:
  "(\<And>x s. x \<in> set xs \<Longrightarrow> f x s = Inr (g x s)) \<Longrightarrow> fold_try f xs s = Inr (fold g xs s)"
  by (induction xs arbitrary: s) auto

section \<open>One pass over an ordered table\<close>

text \<open>
  A pass visits the keys of a table in order and rewrites each entry from its old value and
  from the entries it \<open>reads\<close>. When every key comes after the keys it reads, the pass computes
  the solution of the recursive equations \<open>N v = upd v N\<close>.
\<close>

locale table_pass =
  fixes reads :: "'k \<Rightarrow> 'k set"
    and upd :: "'k \<Rightarrow> ('k \<rightharpoonup> 'v) \<Rightarrow> 'v"
  assumes upd_cong: "N v = N' v \<Longrightarrow> (\<And>u. u \<in> reads v \<Longrightarrow> N u = N' u) \<Longrightarrow> upd v N = upd v N'"
begin

lemma pass_solves:
  assumes "distinct order"
    and "\<And>us v vs. order = us @ v # vs \<Longrightarrow> reads v \<subseteq> set us"
  shows "(\<forall>v\<in>set order. fold (\<lambda>v N. N(v \<mapsto> upd v N)) order N0 v
            = Some (upd v ((fold (\<lambda>v N. N(v \<mapsto> upd v N)) order N0)(v := N0 v))))
       \<and> (\<forall>v. v \<notin> set order \<longrightarrow> fold (\<lambda>v N. N(v \<mapsto> upd v N)) order N0 v = N0 v)"
  using assms
proof (induction order rule: rev_induct)
  case (snoc x xs)
  define N where "N = fold (\<lambda>v N. N(v \<mapsto> upd v N)) xs N0"
  have closed: "\<And>us v vs. xs = us @ v # vs \<Longrightarrow> reads v \<subseteq> set us" using snoc.prems(2) by fastforce
  have "distinct xs" using snoc.prems(1) by simp
  then have IH: "(\<forall>v\<in>set xs. N v = Some (upd v (N(v := N0 v)))) \<and> (\<forall>v. v \<notin> set xs \<longrightarrow> N v = N0 v)"
    unfolding N_def by (rule snoc.IH) (rule closed)
  have ih: "\<And>v. v \<in> set xs \<Longrightarrow> N v = Some (upd v (N(v := N0 v)))"
      "\<And>v. v \<notin> set xs \<Longrightarrow> N v = N0 v"
    using IH by blast+
  have x: "x \<notin> set xs" using snoc.prems(1) by simp
  have rx: "reads x \<subseteq> set xs" using snoc.prems(2)[of xs x "[]"] by simp
  define M where "M = N(x \<mapsto> upd x N)"
  have M: "fold (\<lambda>v N. N(v \<mapsto> upd v N)) (xs @ [x]) N0 = M" by (simp add: M_def N_def)
  have old: "M v = Some (upd v (M(v := N0 v)))" if v: "v \<in> set xs" for v
  proof -
    obtain us vs where "xs = us @ v # vs" using v by (meson split_list)
    then have "reads v \<subseteq> set xs" using snoc.prems(2)[of us v "vs @ [x]"] by auto
    then have "upd v (N(v := N0 v)) = upd v (M(v := N0 v))"
      using x by (intro upd_cong) (auto simp: M_def)
    with ih(1)[OF v] v x show ?thesis by (auto simp: M_def)
  qed
  have "upd x N = upd x (M(x := N0 x))"
    using rx x ih(2)[OF x] by (intro upd_cong) (auto simp: M_def)
  then have new: "M x = Some (upd x (M(x := N0 x)))" by (simp add: M_def)
  have others: "M v = N0 v" if "v \<notin> set (xs @ [x])" for v using that ih(2)[of v] by (simp add: M_def)
  show ?case unfolding M using old new others by (metis Un_iff empty_iff empty_set insert_iff list.set(2) set_append)
qed simp

lemma pass_entry:
  assumes "distinct order" "\<forall>us v vs. order = us @ v # vs \<longrightarrow> reads v \<subseteq> set us" "v \<in> set order"
  shows "fold (\<lambda>v N. N(v \<mapsto> upd v N)) order N0 v
    = Some (upd v ((fold (\<lambda>v N. N(v \<mapsto> upd v N)) order N0)(v := N0 v)))"
  using pass_solves[of order N0] assms by blast

end

lemma position_before:
  assumes "distinct xs" "i < j" "j < length xs" "xs ! i = u" "xs ! j = v"
  shows "xs = us @ v # vs \<Longrightarrow> u \<in> set us" "xs = us @ u # vs \<Longrightarrow> v \<in> set vs"
proof -
  assume xs: "xs = us @ v # vs"
  then have "j = length us" using assms nth_eq_iff_index_eq[OF assms(1), of j "length us"] by simp
  with xs assms(2,4) show "u \<in> set us" by (auto simp: nth_append)
next
  assume xs: "xs = us @ u # vs"
  then have "i = length us" using assms nth_eq_iff_index_eq[OF assms(1), of i "length us"] by simp
  then have "v = vs ! (j - Suc i)" "j - Suc i < length vs" using xs assms(2,3,5) by (auto simp: nth_append nth_Cons')
  then show "v \<in> set vs" by simp
qed

end
