(* ===== verification/Dub_Errors.thy ===== *)
theory Dub_Errors
  imports Dub_Prelude
begin

text \<open>
  \<open>packages/errors/src/index.ts\<close> and \<open>wire.ts\<close>: the unified \<open>DubError\<close>, its wire form
  and its reconstruction at a service boundary. \<open>details\<close> is a JavaScript value, \<open>Undef\<close>
  where the field is absent. \<open>cause\<close> never reaches the wire and is not modelled.
\<close>

section \<open>The error type\<close>

record dub_error =
  err_code :: string
  err_message :: string
  err_status :: int
  err_details :: js
  err_retryable :: bool
  err_service :: "string option"

record error_options =
  opt_status :: "int option"
  opt_details :: js
  opt_retryable :: "bool option"
  opt_service :: "string option"

definition no_options :: error_options where
  "no_options = \<lparr>opt_status = None, opt_details = Undef, opt_retryable = None, opt_service = None\<rparr>"

definition STATUS_BY_CODE :: "(string \<times> int) list" where
  "STATUS_BY_CODE =
    [(''UNAUTHENTICATED'', 401), (''FORBIDDEN'', 403), (''NOT_FOUND'', 404), (''VALIDATION_FAILED'', 400),
     (''CONFLICT'', 409), (''PRECONDITION_FAILED'', 412), (''RATE_LIMITED'', 429),
     (''PAYLOAD_TOO_LARGE'', 413), (''UPSTREAM_UNAVAILABLE'', 502), (''UPSTREAM_TIMEOUT'', 504),
     (''INTERNAL'', 500)]"

definition RETRYABLE_BY_DEFAULT :: "string list" where
  "RETRYABLE_BY_DEFAULT = [''UPSTREAM_UNAVAILABLE'', ''UPSTREAM_TIMEOUT'', ''RATE_LIMITED'']"

definition statusForCode :: "string \<Rightarrow> int option \<Rightarrow> int" where
  "statusForCode code explicit =
     (case explicit of Some s \<Rightarrow> s
      | None \<Rightarrow> (case map_of STATUS_BY_CODE code of Some s \<Rightarrow> s | None \<Rightarrow> 500))"

definition retryableForCode :: "string \<Rightarrow> bool option \<Rightarrow> bool" where
  "retryableForCode code explicit =
     (case explicit of Some b \<Rightarrow> b | None \<Rightarrow> code \<in> set RETRYABLE_BY_DEFAULT)"

definition DubError :: "string \<Rightarrow> string \<Rightarrow> error_options \<Rightarrow> dub_error" where
  "DubError code message options =
     \<lparr>err_code = code, err_message = message,
      err_status = statusForCode code (opt_status options),
      err_details = opt_details options,
      err_retryable = retryableForCode code (opt_retryable options),
      err_service = opt_service options\<rparr>"

text \<open>What a \<open>catch\<close> can hold: a \<open>DubError\<close>, another \<open>Error\<close>, a string, or anything else.\<close>

datatype thrown = TDub dub_error | TError string | TStr string | TOther

definition wrapUnknown :: "thrown \<Rightarrow> string option \<Rightarrow> dub_error" where
  "wrapUnknown value service =
     (case value of
        TDub e \<Rightarrow> e
      | _ \<Rightarrow> DubError ''INTERNAL''
               (case value of TError m \<Rightarrow> m | TStr s \<Rightarrow> s | _ \<Rightarrow> ''Internal error'')
               (no_options\<lparr>opt_service := service, opt_retryable := Some False, opt_status := Some 500\<rparr>))"

section \<open>Factories\<close>

definition unauthenticated :: "string \<Rightarrow> dub_error" where
  "unauthenticated message = DubError ''UNAUTHENTICATED'' message no_options"

definition forbidden :: "string \<Rightarrow> js \<Rightarrow> dub_error" where
  "forbidden message details = DubError ''FORBIDDEN'' message (no_options\<lparr>opt_details := details\<rparr>)"

definition notFound :: "string \<Rightarrow> string option \<Rightarrow> dub_error" where
  "notFound resource rid =
     (let msg = (case rid of
           Some i \<Rightarrow> if i \<noteq> '''' then resource @ '' not found: '' @ i else resource @ '' not found''
         | None \<Rightarrow> resource @ '' not found'')
      in DubError ''NOT_FOUND'' msg
           (no_options\<lparr>opt_details :=
              JObj [(''resource'', JStr resource), (''id'', case rid of Some i \<Rightarrow> JStr i | None \<Rightarrow> Undef)]\<rparr>))"

type_synonym field_error = "string \<times> string"  \<comment> \<open>field and reason\<close>

definition js_field_error :: "field_error \<Rightarrow> js" where
  "js_field_error fe = JObj [(''field'', JStr (fst fe)), (''reason'', JStr (snd fe))]"

definition validationFailed :: "field_error list \<Rightarrow> dub_error" where
  "validationFailed fes =
     DubError ''VALIDATION_FAILED'' ''Validation failed'' (no_options\<lparr>opt_details := JArr (map js_field_error fes)\<rparr>)"

definition conflict :: "string \<Rightarrow> js \<Rightarrow> dub_error" where
  "conflict message details = DubError ''CONFLICT'' message (no_options\<lparr>opt_details := details\<rparr>)"

definition preconditionFailed :: "string \<Rightarrow> dub_error" where
  "preconditionFailed message = DubError ''PRECONDITION_FAILED'' message no_options"

definition rateLimited :: "rat \<Rightarrow> dub_error" where
  "rateLimited retryAfterSec =
     DubError ''RATE_LIMITED'' ''Rate limited'' (no_options\<lparr>opt_details := JObj [(''retryAfterSec'', JNum retryAfterSec)]\<rparr>)"

definition upstreamUnavailable :: "string \<Rightarrow> dub_error" where
  "upstreamUnavailable target =
     DubError ''UPSTREAM_UNAVAILABLE'' (''Upstream unavailable: '' @ target) (no_options\<lparr>opt_service := Some target\<rparr>)"

definition upstreamTimeout :: "string \<Rightarrow> dub_error" where
  "upstreamTimeout target =
     DubError ''UPSTREAM_TIMEOUT'' (''Upstream timeout: '' @ target) (no_options\<lparr>opt_service := Some target\<rparr>)"

definition internal :: "string \<Rightarrow> dub_error" where
  "internal message = DubError ''INTERNAL'' message (no_options\<lparr>opt_retryable := Some False\<rparr>)"

section \<open>The wire form\<close>

record format_options =
  requestId :: "string option"
  redactInternal :: "bool option"

definition toErrorResponse :: "thrown \<Rightarrow> format_options \<Rightarrow> js" where
  "toErrorResponse err opts =
     (let de = wrapUnknown err None;
          redact = (case redactInternal opts of Some b \<Rightarrow> b | None \<Rightarrow> True);
          is5xx = (500 \<le> err_status de)
      in JObj [(''error'', JObj (
           [(''code'', JStr (err_code de)),
            (''message'', JStr (if redact \<and> is5xx then ''Internal error'' else err_message de)),
            (''retryable'', JBool (err_retryable de))]
           @ (if \<not> (redact \<and> is5xx) \<and> err_details de \<noteq> Undef then [(''details'', err_details de)] else [])
           @ (case requestId opts of Some r \<Rightarrow> [(''requestId'', JStr r)] | None \<Rightarrow> [])
           @ (case err_service de of Some s \<Rightarrow> [(''service'', JStr s)] | None \<Rightarrow> [])))])"

definition is_object :: "js \<Rightarrow> bool" where
  \<comment> \<open>\<open>v !== null \&\& typeof v === "object"\<close>\<close>
  "is_object v = (case v of JObj _ \<Rightarrow> True | JArr _ \<Rightarrow> True | _ \<Rightarrow> False)"

definition isErrorResponse :: "js \<Rightarrow> bool" where
  "isErrorResponse body =
     (if \<not> is_object body then False
      else let e = js_get body ''error''
           in if \<not> is_object e then False
              else js_str (js_get e ''code'') \<noteq> None
                 \<and> js_str (js_get e ''message'') \<noteq> None
                 \<and> js_bool (js_get e ''retryable'') \<noteq> None)"

definition isRateLimitDetails :: "js \<Rightarrow> bool" where
  "isRateLimitDetails d = (is_object d \<and> (case js_get d ''retryAfterSec'' of JNum _ \<Rightarrow> True | _ \<Rightarrow> False))"

text \<open>The \<open>content-type\<close> header is always set; \<open>retry-after\<close> is the only other one.\<close>

record response =
  resp_body :: js
  resp_status :: int
  resp_retry_after :: "js option"

definition toResponse :: "thrown \<Rightarrow> format_options \<Rightarrow> response" where
  "toResponse err opts =
     (let de = wrapUnknown err None
      in \<lparr>resp_body = toErrorResponse (TDub de) opts,
          resp_status = err_status de,
          resp_retry_after =
            (if err_code de = ''RATE_LIMITED'' \<and> isRateLimitDetails (err_details de)
             then Some (js_get (err_details de) ''retryAfterSec'') else None)\<rparr>)"

definition js_str_or :: "string \<Rightarrow> js \<Rightarrow> string" where
  "js_str_or d v = (case v of JStr s \<Rightarrow> s | _ \<Rightarrow> d)"

definition fromResponse :: "int \<Rightarrow> js \<Rightarrow> dub_error" where
  "fromResponse status body =
     (if isErrorResponse body then
        let e = js_get body ''error''
        in DubError (js_str_or [] (js_get e ''code'')) (js_str_or [] (js_get e ''message''))
             \<lparr>opt_status = Some status, opt_details = js_get e ''details'',
              opt_retryable = js_bool (js_get e ''retryable''), opt_service = js_str (js_get e ''service'')\<rparr>
      else DubError ''UPSTREAM_UNAVAILABLE'' ''Upstream returned an unrecognized error body''
             (no_options\<lparr>opt_status := Some (if 500 \<le> status then status else 502), opt_retryable := Some True\<rparr>))"

definition isRetryable :: "thrown \<Rightarrow> bool" where
  "isRetryable err = (case err of TDub e \<Rightarrow> err_retryable e | _ \<Rightarrow> False)"

definition dubErrorHandler :: "string \<Rightarrow> bool option \<Rightarrow> string option \<Rightarrow> thrown \<Rightarrow> response" where
  \<comment> \<open>the request id is the value of the request-id header, if any\<close>
  "dubErrorHandler service redact reqId err =
     (let de = wrapUnknown err (Some service);
          withService =
            (case err_service de of
               Some s \<Rightarrow> if s \<noteq> '''' then de
                  else DubError (err_code de) (err_message de)
                    \<lparr>opt_status = Some (err_status de), opt_details = err_details de,
                     opt_retryable = Some (err_retryable de), opt_service = Some service\<rparr>
             | None \<Rightarrow> DubError (err_code de) (err_message de)
                    \<lparr>opt_status = Some (err_status de), opt_details = err_details de,
                     opt_retryable = Some (err_retryable de), opt_service = Some service\<rparr>)
      in toResponse (TDub withService) \<lparr>requestId = reqId, redactInternal = redact\<rparr>)"

section \<open>What a hop between services preserves\<close>

lemma wrapUnknown_TDub [simp]: "wrapUnknown (TDub e) s = e"
  by (simp add: wrapUnknown_def)

lemma wrapUnknown_status: "(\<forall>e. v \<noteq> TDub e) \<Longrightarrow> err_status (wrapUnknown v s) = 500 \<and> \<not> err_retryable (wrapUnknown v s)"
  by (auto simp: wrapUnknown_def DubError_def statusForCode_def retryableForCode_def no_options_def split: thrown.splits)

lemmas wire_defs = toErrorResponse_def fromResponse_def isErrorResponse_def is_object_def js_get_def
  js_str_or_def js_bool_def js_str_def DubError_def statusForCode_def retryableForCode_def Let_def

lemma fromResponse_toErrorResponse:
  assumes "redactInternal opts = Some False \<or> err_status e < 500"
  shows "fromResponse (err_status e) (toErrorResponse (TDub e) opts) = e"
proof -
  have "\<not> ((case redactInternal opts of Some b \<Rightarrow> b | None \<Rightarrow> True) \<and> 500 \<le> err_status e)"
    using assms by auto
  then show ?thesis
    by (cases "requestId opts"; cases "err_service e"; cases "err_details e = Undef")
       (auto simp: wire_defs)
qed

lemma fromResponse_redacted:
  assumes "redactInternal opts \<noteq> Some False" and "500 \<le> err_status e"
  shows "fromResponse (err_status e) (toErrorResponse (TDub e) opts) =
           e\<lparr>err_message := ''Internal error'', err_details := Undef\<rparr>"
  using assms
  by (cases "requestId opts"; cases "err_service e"; cases "redactInternal opts")
     (auto simp: wire_defs)

definition with_service :: "string \<Rightarrow> dub_error \<Rightarrow> dub_error" where
  "with_service svc e =
     e\<lparr>err_service := Some (case err_service e of Some s \<Rightarrow> if s \<noteq> '''' then s else svc | None \<Rightarrow> svc)\<rparr>"

lemma dubErrorHandler_eq:
  "dubErrorHandler svc redact rid err =
     toResponse (TDub (with_service svc (wrapUnknown err (Some svc)))) \<lparr>requestId = rid, redactInternal = redact\<rparr>"
  by (cases "wrapUnknown err (Some svc)")
     (auto simp: dubErrorHandler_def with_service_def DubError_def statusForCode_def retryableForCode_def Let_def
      split: option.splits)

lemma toResponse_simps [simp]:
  "resp_status (toResponse (TDub e) opts) = err_status e"
  "resp_body (toResponse (TDub e) opts) = toErrorResponse (TDub e) opts"
  by (simp_all add: toResponse_def Let_def)

lemma with_service_simps [simp]:
  "err_status (with_service s e) = err_status e"
  "err_code (with_service s e) = err_code e"
  "err_message (with_service s e) = err_message e"
  "err_details (with_service s e) = err_details e"
  "err_retryable (with_service s e) = err_retryable e"
  by (simp_all add: with_service_def)

text \<open>
  An error crosses a service boundary unchanged: what a service throws, rendered by its
  error handler and read back by the caller from the response, is the same error with the
  throwing service's name filled in; for a 5xx status (whatever was thrown) only the message
  and the details are replaced.
\<close>
theorem error_crosses_boundary:
  fixes err rid svc
  defines "e \<equiv> wrapUnknown err (Some svc)"
  defines "r \<equiv> dubErrorHandler svc None rid err"
  shows "fromResponse (resp_status r) (resp_body r) =
           (if err_status e < 500 then with_service svc e
            else (with_service svc e)\<lparr>err_message := ''Internal error'', err_details := Undef\<rparr>)"
proof (cases "err_status e < 500")
  case True
  then show ?thesis
    using fromResponse_toErrorResponse[of "\<lparr>requestId = rid, redactInternal = None\<rparr>" "with_service svc e"]
    by (simp add: r_def e_def dubErrorHandler_eq)
next
  case False
  then show ?thesis
    using fromResponse_redacted[of "\<lparr>requestId = rid, redactInternal = None\<rparr>" "with_service svc e"]
    by (simp add: r_def e_def dubErrorHandler_eq)
qed

text \<open>
  Nothing internal leaks: with the default redaction two server-side failures that agree
  on code, retryability and service have the same wire form, whatever their messages and details.
\<close>
theorem redaction_hides_internals:
  assumes "500 \<le> err_status e" and "500 \<le> err_status e'"
    and "err_code e = err_code e'" and "err_retryable e = err_retryable e'" and "err_service e = err_service e'"
    and "redactInternal opts \<noteq> Some False"
  shows "toErrorResponse (TDub e) opts = toErrorResponse (TDub e') opts"
  using assms by (cases "redactInternal opts") (auto simp: toErrorResponse_def Let_def)

theorem redaction_hides_internals_witness:
  "toErrorResponse (TDub (internal ''connection string postgres://secret'')) \<lparr>requestId = Some ''r1'', redactInternal = None\<rparr>
   = toErrorResponse (TDub (internal ''disk full'')) \<lparr>requestId = Some ''r1'', redactInternal = None\<rparr>"
  by (rule redaction_hides_internals)
     (simp_all add: internal_def DubError_def statusForCode_def retryableForCode_def no_options_def STATUS_BY_CODE_def)

end
