(* ===== verification/Js_Date.thy ===== *)
theory Js_Date
  imports Dub_Prelude
begin

text \<open>
  The part of the language's \<open>Date\<close> the sources use: \<open>Date.parse\<close> on ISO 8601 strings and
  \<open>toISOString\<close>, over the proleptic Gregorian calendar in UTC (the zone of every Worker).
  Strings outside the ECMAScript date-time format are \<open>NaN\<close> (\<open>None\<close>) here; a day beyond the
  month's end rolls over into the next month, as the engine does it.

  The two facts the services rest on: a timestamp survives printing and parsing, and the
  canonical strings are ordered as the instants they denote, so that comparing two
  \<open>toISOString\<close> results with \<open><\<close> compares instants.
\<close>

section \<open>The calendar\<close>

definition days_of_civil :: "int \<Rightarrow> int \<Rightarrow> int \<Rightarrow> int" where
  \<comment> \<open>days since 1970-01-01 of a year, month 1..12 and day; years run from March inside\<close>
  "days_of_civil y m d =
     (let y' = (if m \<le> 2 then y - 1 else y); mp = (if m \<le> 2 then m + 9 else m - 3)
      in 365 * y' + y' div 4 - y' div 100 + y' div 400 + (153 * mp + 2) div 5 + d - 1 - 719468)"

definition march_of_days :: "int \<Rightarrow> int \<times> int" where
  \<comment> \<open>the March-based year and the day of it\<close>
  "march_of_days z =
     (let z' = z + 719468;
          n400 = z' div 146097; r400 = z' mod 146097;
          n100 = min 3 (r400 div 36524); r100 = r400 - 36524 * n100;
          n4 = r100 div 1461; r4 = r100 mod 1461;
          n1 = min 3 (r4 div 365)
      in (400 * n400 + 100 * n100 + 4 * n4 + n1, r4 - 365 * n1))"

definition civil_of_days :: "int \<Rightarrow> int \<times> int \<times> int" where
  "civil_of_days z =
     (let (y', doy) = march_of_days z;
          mp = (5 * doy + 2) div 153;
          d = doy - (153 * mp + 2) div 5 + 1
      in (if mp < 10 then (y', mp + 3, d) else (y' + 1, mp - 9, d)))"

lemma march_of_days_inverse:
  assumes "march_of_days z = (y, doy)"
  shows "z = 365 * y + y div 4 - y div 100 + y div 400 + doy - 719468" and "0 \<le> doy" and "doy \<le> 365"
proof -
  define n400 where "n400 = (z + 719468) div 146097"
  define r400 where "r400 = (z + 719468) mod 146097"
  define n100 where "n100 = min 3 (r400 div 36524)"
  define r100 where "r100 = r400 - 36524 * n100"
  define n4 where "n4 = r100 div 1461"
  define r4 where "r4 = r100 mod 1461"
  define n1 where "n1 = min 3 (r4 div 365)"
  have z: "z + 719468 = 146097 * n400 + r400" by (simp add: n400_def r400_def)
  have r400: "0 \<le> r400" "r400 < 146097" by (simp_all add: r400_def)
  have n100: "0 \<le> n100" "n100 \<le> 3" using r400 by (auto simp: n100_def)
  have r100: "0 \<le> r100" "r100 \<le> 36524" "n100 < 3 \<Longrightarrow> r100 < 36524"
    using r400 unfolding r100_def n100_def by linarith+
  have n4: "0 \<le> n4" "n4 \<le> 24" using r100 unfolding n4_def by linarith+
  have r4: "0 \<le> r4" "r4 < 1461" "r100 = 1461 * n4 + r4" by (simp_all add: r4_def n4_def)
  have n1: "0 \<le> n1" "n1 \<le> 3" using r4 by (auto simp: n1_def)
  have step: "march_of_days z = (400 * n400 + 100 * n100 + 4 * n4 + n1, r4 - 365 * n1)"
    by (simp only: march_of_days_def Let_def n400_def r400_def n100_def r100_def n4_def r4_def n1_def)
  have y: "y = 400 * n400 + 100 * n100 + 4 * n4 + n1" and doy: "doy = r4 - 365 * n1"
    using assms step by simp_all
  have y4: "y div 4 = 100 * n400 + 25 * n100 + n4" using n1 unfolding y by linarith
  have y100: "y div 100 = 4 * n400 + n100" using n1 n4 unfolding y by linarith
  have y400: "y div 400 = n400" using n1 n4 n100 unfolding y by linarith
  show "z = 365 * y + y div 4 - y div 100 + y div 400 + doy - 719468"
    using z r100_def r4(3) unfolding y4 y100 y400 doy by (simp add: y)
  show "0 \<le> doy" "doy \<le> 365" using r4 unfolding doy n1_def by linarith+
qed

lemma month_bounds:
  fixes doy :: int
  assumes "0 \<le> doy" "doy \<le> 365"
  defines "mp \<equiv> (5 * doy + 2) div 153"
  shows "0 \<le> mp" "mp \<le> 11" "1 \<le> doy - (153 * mp + 2) div 5 + 1" "doy - (153 * mp + 2) div 5 + 1 \<le> 31"
  using assms by (simp_all add: mp_def)

lemma civil_of_daysE:
  assumes "civil_of_days z = (y, m, d)"
  obtains y' doy mp where "march_of_days z = (y', doy)" "mp = (5 * doy + 2) div 153" "0 \<le> mp" "mp \<le> 11"
    "d = doy - (153 * mp + 2) div 5 + 1" "1 \<le> d" "d \<le> 31"
    "mp < 10 \<and> y = y' \<and> m = mp + 3 \<or> 10 \<le> mp \<and> y = y' + 1 \<and> m = mp - 9"
proof -
  obtain y' doy where md: "march_of_days z = (y', doy)" by fastforce
  define mp where "mp = (5 * doy + 2) div 153"
  note b = month_bounds[OF march_of_days_inverse(2,3)[OF md], folded mp_def]
  have "(if mp < 10 then (y', mp + 3, doy - (153 * mp + 2) div 5 + 1)
         else (y' + 1, mp - 9, doy - (153 * mp + 2) div 5 + 1)) = (y, m, d)"
    using assms by (simp only: civil_of_days_def md Let_def mp_def split_def fst_conv snd_conv)
  then have "d = doy - (153 * mp + 2) div 5 + 1"
    and "mp < 10 \<and> y = y' \<and> m = mp + 3 \<or> 10 \<le> mp \<and> y = y' + 1 \<and> m = mp - 9"
    by (auto split: if_splits)
  with that[OF md mp_def] b show thesis by simp
qed

lemma civil_of_days_bounds:
  assumes "civil_of_days z = (y, m, d)"
  shows "1 \<le> m" "m \<le> 12" "1 \<le> d" "d \<le> 31"
  using civil_of_daysE[OF assms] by (smt (verit))+

lemma days_of_civil_of_days:
  assumes "civil_of_days z = (y, m, d)"
  shows "days_of_civil y m d = z"
proof -
  obtain y' doy mp where md: "march_of_days z = (y', doy)" and "0 \<le> mp" "mp \<le> 11"
    and d: "d = doy - (153 * mp + 2) div 5 + 1"
    and c: "mp < 10 \<and> y = y' \<and> m = mp + 3 \<or> 10 \<le> mp \<and> y = y' + 1 \<and> m = mp - 9"
    using civil_of_daysE[OF assms] by metis
  have "(if m \<le> 2 then y - 1 else y) = y'" "(if m \<le> 2 then m + 9 else m - 3) = mp"
    using c \<open>0 \<le> mp\<close> \<open>mp \<le> 11\<close> by auto
  then have "days_of_civil y m d = 365 * y' + y' div 4 - y' div 100 + y' div 400 + (153 * mp + 2) div 5 + d - 1 - 719468"
    by (simp only: days_of_civil_def Let_def)
  also have "\<dots> = z"
    using march_of_days_inverse(1)[OF md] by (simp only: d)
  finally show ?thesis .
qed

text \<open>The calendar is monotone: later days have lexicographically later civil dates.\<close>

lemma leap_count_mono:
  fixes y :: int
  assumes "y' \<le> y"
  shows "y' div 4 - y' div 100 + y' div 400 \<le> y div 4 - y div 100 + y div 400"
proof -
  have "x div 100 = x div 4 div 25" for x :: int
    by (simp add: zdiv_zmult2_eq[symmetric])
  moreover have "y' div 4 \<le> y div 4" "y' div 400 \<le> y div 400"
    using assms by (simp_all add: zdiv_mono1)
  moreover have "a - a div 25 \<le> b - b div 25" if "a \<le> b" for a b :: int
    using that by linarith
  ultimately show ?thesis by (simp add: add_mono)
qed

lemma march_of_days_mono:
  assumes "z < z'" "march_of_days z = (y, doy)" "march_of_days z' = (y', doy')"
  shows "y < y' \<or> y = y' \<and> doy < doy'"
proof (rule ccontr)
  assume "\<not> ?thesis"
  then have c: "y' < y \<or> y' = y \<and> doy' \<le> doy" by auto
  note i = march_of_days_inverse[OF assms(2)] and i' = march_of_days_inverse[OF assms(3)]
  from c show False
  proof
    assume "y' = y \<and> doy' \<le> doy"
    with i(1) i'(1) assms(1) show False by simp
  next
    assume lt: "y' < y"
    define q where "q = (\<lambda>y::int. y div 4 - y div 100 + y div 400)"
    have "z' \<le> 365 * y' + q y' + 365 - 719468" "365 * y + q y - 719468 \<le> z"
      using i i' by (simp_all add: q_def)
    moreover have "q y' \<le> q y"
      using lt leap_count_mono[of y' y] by (simp add: q_def)
    ultimately have "z' \<le> z" using lt by simp
    with assms(1) show False by simp
  qed
qed

lemma civil_of_days_mono:
  assumes "z < z'" "civil_of_days z = (y, m, d)" "civil_of_days z' = (y', m', d')"
  shows "y < y' \<or> y = y' \<and> (m < m' \<or> m = m' \<and> d < d')"
proof -
  obtain a doy mp where md: "march_of_days z = (a, doy)" and mp: "mp = (5 * doy + 2) div 153" "0 \<le> mp" "mp \<le> 11"
    and d: "d = doy - (153 * mp + 2) div 5 + 1"
    and c: "mp < 10 \<and> y = a \<and> m = mp + 3 \<or> 10 \<le> mp \<and> y = a + 1 \<and> m = mp - 9"
    using civil_of_daysE[OF assms(2)] by metis
  obtain a' doy' mp' where md': "march_of_days z' = (a', doy')" and mp': "mp' = (5 * doy' + 2) div 153" "0 \<le> mp'" "mp' \<le> 11"
    and d': "d' = doy' - (153 * mp' + 2) div 5 + 1"
    and c': "mp' < 10 \<and> y' = a' \<and> m' = mp' + 3 \<or> 10 \<le> mp' \<and> y' = a' + 1 \<and> m' = mp' - 9"
    using civil_of_daysE[OF assms(3)] by metis
  have "doy \<le> doy' \<Longrightarrow> mp \<le> mp'"
    unfolding mp(1) mp'(1) by (simp add: zdiv_mono1)
  then have "a < a' \<or> a = a' \<and> (mp < mp' \<or> mp = mp' \<and> d < d')"
    using march_of_days_mono[OF assms(1) md md'] d d' by auto
  then show ?thesis
    using c c' mp(2,3) mp'(2,3) by auto
qed

section \<open>Printing: \<open>toISOString\<close>\<close>

definition digit :: "int \<Rightarrow> char" where
  "digit n = char_of (48 + n mod 10)"

fun pad :: "nat \<Rightarrow> int \<Rightarrow> string" where
  \<comment> \<open>the last \<open>k\<close> decimal digits\<close>
  "pad 0 n = []"
| "pad (Suc k) n = pad k (n div 10) @ [digit n]"

definition MS_PER_DAY :: int where
  "MS_PER_DAY = 86400000"

definition MAX_TIME :: int where
  \<comment> \<open>the largest time value a \<open>Date\<close> holds\<close>
  "MAX_TIME = 8640000000000000"

definition year_string :: "int \<Rightarrow> string" where
  "year_string y =
     (if 0 \<le> y \<and> y \<le> 9999 then pad 4 y
      else (if y < 0 then CHR ''-'' else CHR ''+'') # pad 6 \<bar>y\<bar>)"

definition iso_string :: "ms \<Rightarrow> string" where
  "iso_string t =
     (let (y, m, d) = civil_of_days (t div MS_PER_DAY); r = t mod MS_PER_DAY
      in year_string y @ ''-'' @ pad 2 m @ ''-'' @ pad 2 d @ ''T''
         @ pad 2 (r div 3600000) @ '':'' @ pad 2 (r div 60000 mod 60) @ '':'' @ pad 2 (r div 1000 mod 60)
         @ ''.'' @ pad 3 (r mod 1000) @ ''Z'')"

definition toISOString :: "ms \<Rightarrow> string option" where
  \<comment> \<open>\<open>None\<close> is the \<open>RangeError\<close> of an invalid date\<close>
  "toISOString t = (if \<bar>t\<bar> \<le> MAX_TIME then Some (iso_string t) else None)"

section \<open>Parsing: \<open>Date.parse\<close>\<close>

definition digit_val :: "char \<Rightarrow> int option" where
  "digit_val c = (let v = (of_char c :: int) in if 48 \<le> v \<and> v \<le> 57 then Some (v - 48) else None)"

definition digits_val :: "string \<Rightarrow> int option" where
  "digits_val s = foldl (\<lambda>acc c. case (acc, digit_val c) of (Some n, Some v) \<Rightarrow> Some (10 * n + v) | _ \<Rightarrow> None) (Some 0) s"

definition fixed :: "nat \<Rightarrow> string \<Rightarrow> int option" where
  "fixed k s = (if length s = k then digits_val s else None)"

definition in_range :: "int \<Rightarrow> int \<Rightarrow> int option \<Rightarrow> int option" where
  "in_range lo hi v = (case v of Some n \<Rightarrow> if lo \<le> n \<and> n \<le> hi then Some n else None | None \<Rightarrow> None)"

definition parse_year :: "string \<Rightarrow> (int \<times> string) option" where
  \<comment> \<open>\<open>YYYY\<close>, or a sign and six digits (not \<open>-000000\<close>), and what follows\<close>
  "parse_year s =
     (case s of
        c # rest \<Rightarrow>
          if c = CHR ''+'' then map_option (\<lambda>n. (n, drop 6 rest)) (fixed 6 (take 6 rest))
          else if c = CHR ''-'' then
            (case fixed 6 (take 6 rest) of Some n \<Rightarrow> if n = 0 then None else Some (- n, drop 6 rest) | None \<Rightarrow> None)
          else map_option (\<lambda>n. (n, drop 4 s)) (fixed 4 (take 4 s))
      | [] \<Rightarrow> None)"

definition parse_month_day :: "string \<Rightarrow> (int \<times> int) option" where
  \<comment> \<open>nothing, \<open>-MM\<close> or \<open>-MM-DD\<close>\<close>
  "parse_month_day s =
     (if s = [] then Some (1, 1)
      else if take 1 s \<noteq> ''-'' then None
      else case in_range 1 12 (fixed 2 (take 2 (drop 1 s))) of
        None \<Rightarrow> None
      | Some m \<Rightarrow>
          if drop 3 s = [] then Some (m, 1)
          else if take 1 (drop 3 s) \<noteq> ''-'' then None
          else map_option (\<lambda>d. (m, d)) (in_range 1 31 (fixed 2 (drop 4 s))))"

definition parse_zone :: "string \<Rightarrow> int option" where
  \<comment> \<open>the offset of the zone in ms; no zone is UTC, the zone the Workers run in\<close>
  "parse_zone s =
     (if s = [] \<or> s = ''Z'' then Some 0
      else if take 1 s = ''+'' \<or> take 1 s = ''-'' then
        (case (in_range 0 23 (fixed 2 (take 2 (drop 1 s))), take 1 (drop 3 s) = '':'', in_range 0 59 (fixed 2 (drop 4 s))) of
           (Some h, True, Some mi) \<Rightarrow> Some ((if take 1 s = ''-'' then -1 else 1) * (h * 3600000 + mi * 60000))
         | _ \<Rightarrow> None)
      else None)"

definition parse_seconds :: "string \<Rightarrow> (int \<times> string) option" where
  \<comment> \<open>nothing, \<open>:ss\<close> or \<open>:ss.sss\<close> in ms, and what follows\<close>
  "parse_seconds s =
     (if take 1 s \<noteq> '':'' then Some (0, s)
      else case in_range 0 59 (fixed 2 (take 2 (drop 1 s))) of
        None \<Rightarrow> None
      | Some sec \<Rightarrow>
          if take 1 (drop 3 s) = ''.'' then
            map_option (\<lambda>f. (sec * 1000 + f, drop 7 s)) (fixed 3 (take 3 (drop 4 s)))
          else Some (sec * 1000, drop 3 s))"

definition parse_time :: "string \<Rightarrow> int option" where
  \<comment> \<open>\<open>HH:mm\<close> with optional seconds and zone, as ms since UTC midnight\<close>
  "parse_time s =
     (case (in_range 0 24 (fixed 2 (take 2 s)), take 1 (drop 2 s) = '':'', in_range 0 59 (fixed 2 (take 2 (drop 3 s))),
            parse_seconds (drop 5 s)) of
        (Some h, True, Some mi, Some (sms, zone)) \<Rightarrow>
          if h = 24 \<and> (mi \<noteq> 0 \<or> sms \<noteq> 0) then None
          else map_option (\<lambda>off. h * 3600000 + mi * 60000 + sms - off) (parse_zone zone)
      | _ \<Rightarrow> None)"

definition date_parse :: "string \<Rightarrow> ms option" where
  "date_parse s =
     (let (ds, ts) = (case index_of CHR ''T'' s of Some i \<Rightarrow> (take i s, Some (drop (Suc i) s)) | None \<Rightarrow> (s, None))
      in case parse_year ds of
           None \<Rightarrow> None
         | Some (y, rest) \<Rightarrow>
             (case (parse_month_day rest, (case ts of None \<Rightarrow> Some 0 | Some t \<Rightarrow> parse_time t)) of
                (Some (m, d), Some tms) \<Rightarrow>
                  let t = days_of_civil y m d * MS_PER_DAY + tms
                  in if \<bar>t\<bar> \<le> MAX_TIME then Some t else None
              | _ \<Rightarrow> None))"

section \<open>Round trip\<close>

lemma length_pad [simp]: "length (pad k n) = k"
  by (induction k arbitrary: n) auto

lemma digit_val_digit [simp]: "digit_val (digit n) = Some (n mod 10)"
proof -
  have "0 \<le> n mod 10" "n mod 10 < 10" by simp_all
  then have "(of_char (digit n) :: int) = 48 + n mod 10"
    by (simp add: digit_def of_char_of)
  then show ?thesis
    using \<open>0 \<le> n mod 10\<close> \<open>n mod 10 < 10\<close> by (simp add: digit_val_def Let_def)
qed

lemma digits_val_snoc: "digits_val (s @ [c]) =
    (case (digits_val s, digit_val c) of (Some n, Some v) \<Rightarrow> Some (10 * n + v) | _ \<Rightarrow> None)"
  by (simp add: digits_val_def)

lemma digits_val_pad: "0 \<le> n \<Longrightarrow> n < 10 ^ k \<Longrightarrow> digits_val (pad k n) = Some n"
proof (induction k arbitrary: n)
  case 0
  then show ?case by (simp add: digits_val_def)
next
  case (Suc k)
  then have "0 \<le> n div 10" "n div 10 < 10 ^ k" by auto
  then show ?case using Suc.IH by (simp add: digits_val_snoc)
qed

lemma fixed_pad: "0 \<le> n \<Longrightarrow> n < 10 ^ k \<Longrightarrow> fixed k (pad k n) = Some n"
  by (simp add: fixed_def digits_val_pad)

lemma digit_neq: "digit_val c = None \<Longrightarrow> digit n \<noteq> c"
  by (metis digit_val_digit option.distinct(1))

lemma pad_free: "digit_val c = None \<Longrightarrow> c \<notin> set (pad k n)"
  by (induction k arbitrary: n) (auto dest: digit_neq)

lemma pad_Suc_Cons: "\<exists>m r. pad (Suc k) n = digit m # r"
proof (induction k arbitrary: n)
  case 0
  show ?case by auto
next
  case (Suc k)
  obtain m r where "pad (Suc k) (n div 10) = digit m # r" using Suc by blast
  then have "pad (Suc (Suc k)) n = digit m # (r @ [digit n])" by (simp only: pad.simps(2)[of "Suc k"]) simp
  then show ?case by blast
qed

lemma pad_hd: "0 < k \<Longrightarrow> \<exists>m r. pad k n = digit m # r"
  using pad_Suc_Cons[of "k - 1" n] by simp

lemma parse_year_string:
  assumes "\<bar>y\<bar> \<le> 999999"
  shows "parse_year (year_string y @ rest) = Some (y, rest)"
proof (cases "0 \<le> y \<and> y \<le> 9999")
  case True
  obtain m r where p: "pad 4 y = digit m # r" using pad_hd[of 4 y] by auto
  have "digit m \<noteq> CHR ''+''" "digit m \<noteq> CHR ''-''"
    by (intro digit_neq; simp add: digit_val_def)+
  moreover have "take 4 (pad 4 y @ rest) = pad 4 y" "drop 4 (pad 4 y @ rest) = rest" by simp_all
  moreover have "fixed 4 (pad 4 y) = Some y" using True by (simp add: fixed_pad)
  ultimately show ?thesis
    using True unfolding parse_year_def year_string_def by (simp add: p)
next
  case False
  have "fixed 6 (pad 6 \<bar>y\<bar>) = Some \<bar>y\<bar>" using assms by (simp add: fixed_pad)
  then show ?thesis
    using False by (auto simp: parse_year_def year_string_def)
qed

lemma parse_month_day_string:
  assumes "1 \<le> m" "m \<le> 12" "1 \<le> d" "d \<le> 31"
  shows "parse_month_day (''-'' @ pad 2 m @ ''-'' @ pad 2 d) = Some (m, d)"
proof -
  have "fixed 2 (pad 2 m) = Some m" "fixed 2 (pad 2 d) = Some d" using assms by (simp_all add: fixed_pad)
  then show ?thesis using assms by (simp add: parse_month_day_def in_range_def del: pad.simps)
qed

lemma parse_time_string:
  assumes "0 \<le> h" "h < 24" "0 \<le> mi" "mi < 60" "0 \<le> sec" "sec < 60" "0 \<le> f" "f < 1000"
  shows "parse_time (pad 2 h @ '':'' @ pad 2 mi @ '':'' @ pad 2 sec @ ''.'' @ pad 3 f @ ''Z'') =
           Some (h * 3600000 + mi * 60000 + sec * 1000 + f)"
proof -
  have fx: "fixed 2 (pad 2 h) = Some h" "fixed 2 (pad 2 mi) = Some mi" "fixed 2 (pad 2 sec) = Some sec"
    "fixed 3 (pad 3 f) = Some f" using assms by (simp_all add: fixed_pad)
  have "parse_seconds ('':'' @ pad 2 sec @ ''.'' @ pad 3 f @ ''Z'') = Some (sec * 1000 + f, ''Z'')"
    using assms fx by (simp add: parse_seconds_def in_range_def)
  then show ?thesis
    using assms fx by (simp add: parse_time_def in_range_def parse_zone_def)
qed

lemma year_free: "CHR ''T'' \<notin> set (year_string y)"
  by (auto simp: year_string_def digit_val_def dest: pad_free[THEN notE, rotated])

lemma time_fields:
  fixes r :: int
  shows "r div 3600000 * 3600000 + r div 60000 mod 60 * 60000 + r div 1000 mod 60 * 1000 + r mod 1000 = r"
proof -
  define s where "s = r div 1000"
  define mi where "mi = s div 60"
  define h where "h = mi div 60"
  have "r div 60000 = mi" "r div 3600000 = h"
    by (simp_all add: h_def mi_def s_def zdiv_zmult2_eq[symmetric])
  moreover have "r = 1000 * s + r mod 1000" "s = 60 * mi + s mod 60" "mi = 60 * h + mi mod 60"
    by (simp_all add: h_def mi_def s_def)
  ultimately show ?thesis by (simp add: s_def[symmetric])
qed

lemma date_parse_iso_string:
  assumes "\<bar>t\<bar> \<le> MAX_TIME"
  shows "date_parse (iso_string t) = Some t"
proof -
  define dd where "dd = t div MS_PER_DAY"
  define r where "r = t mod MS_PER_DAY"
  obtain y m d where c: "civil_of_days dd = (y, m, d)" by (metis prod_cases3)
  have b: "1 \<le> m" "m \<le> 12" "1 \<le> d" "d \<le> 31" using civil_of_days_bounds[OF c] by auto
  have r: "0 \<le> r" "r < 86400000" by (simp_all add: r_def MS_PER_DAY_def)
  have dd: "\<bar>dd\<bar> \<le> 100000000"
    using assms unfolding dd_def MS_PER_DAY_def MAX_TIME_def by linarith
  have y: "\<bar>y\<bar> \<le> 999999"
  proof -
    obtain y' doy mp where "march_of_days dd = (y', doy)" and "y = y' \<or> y = y' + 1"
      using civil_of_daysE[OF c] by metis
    moreover have "365 * y' + (y' div 4 - y' div 100 + y' div 400) = dd - doy + 719468" "0 \<le> doy" "doy \<le> 365"
      using march_of_days_inverse[OF calculation(1)] by simp_all
    moreover have "0 \<le> y' \<Longrightarrow> 0 \<le> y' div 4 - y' div 100 + y' div 400"
      "y' \<le> 0 \<Longrightarrow> y' div 4 - y' div 100 + y' div 400 \<le> 0"
      using leap_count_mono[of 0 y'] leap_count_mono[of y' 0] by simp_all
    ultimately show ?thesis using dd by linarith
  qed
  define date where "date = year_string y @ ''-'' @ pad 2 m @ ''-'' @ pad 2 d"
  define time where "time = pad 2 (r div 3600000) @ '':'' @ pad 2 (r div 60000 mod 60) @ '':''
    @ pad 2 (r div 1000 mod 60) @ ''.'' @ pad 3 (r mod 1000) @ ''Z''"
  have iso: "iso_string t = date @ CHR ''T'' # time"
    by (simp add: iso_string_def dd_def[symmetric] r_def[symmetric] c date_def time_def)
  have "CHR ''T'' \<notin> set date"
    using year_free pad_free[of "CHR ''T''"] by (auto simp: date_def digit_val_def)
  then have idx: "index_of CHR ''T'' (date @ CHR ''T'' # time) = Some (length date)"
    by (rule index_of_append)
  have py: "parse_year date = Some (y, ''-'' @ pad 2 m @ ''-'' @ pad 2 d)"
    unfolding date_def by (rule parse_year_string[OF y])
  have "r div 3600000 < 24" using r by linarith
  then have pt: "parse_time time = Some (r div 3600000 * 3600000 + r div 60000 mod 60 * 60000 + r div 1000 mod 60 * 1000 + r mod 1000)"
    unfolding time_def using r by (intro parse_time_string) auto
  also have "\<dots> = Some r" by (simp add: time_fields)
  finally have pt: "parse_time time = Some r" .
  have "days_of_civil y m d * MS_PER_DAY + r = t"
    by (simp add: days_of_civil_of_days[OF c] dd_def r_def)
  then show ?thesis
    using idx py pt assms
    by (simp add: iso date_parse_def parse_month_day_string[OF b, simplified] Let_def)
qed

section \<open>Order\<close>

lemma lex_append:
  fixes xs xs' :: "'a::linorder list"
  assumes "length xs = length xs'"
  shows "xs @ ys < xs' @ ys' \<longleftrightarrow> xs < xs' \<or> xs = xs' \<and> ys < ys'"
  using assms by (induction xs xs' rule: list_induct2) auto

lemma div_mod_less:
  fixes a b k :: int
  assumes "a < b" "0 < k"
  shows "a div k < b div k \<or> a div k = b div k \<and> a mod k < b mod k"
proof (cases "a div k = b div k")
  case True
  then show ?thesis
    using assms div_mult_mod_eq[of a k] div_mult_mod_eq[of b k] by (metis add_less_cancel_left)
next
  case False
  then show ?thesis using zdiv_mono1[of a b k] assms by simp
qed

lemma digit_mono: "n mod 10 < m mod 10 \<Longrightarrow> digit n < digit m"
proof -
  have "int (of_char (digit n) :: nat) = 48 + n mod 10" for n
    using of_nat_of_char[of "digit n", where ?'a = int] by (simp add: digit_def)
  moreover assume "n mod 10 < m mod 10"
  ultimately have "int (of_char (digit n) :: nat) < int (of_char (digit m) :: nat)" by simp
  then show ?thesis by (simp add: less_char_def)
qed

lemma pad_mono:
  "a < b \<Longrightarrow> 0 \<le> a \<Longrightarrow> b < 10 ^ k \<Longrightarrow> pad k a < pad k b"
proof (induction k arbitrary: a b)
  case (Suc k)
  have q: "0 \<le> a div 10" "b div 10 < 10 ^ k" using Suc.prems by auto
  consider "a div 10 < b div 10" | "a div 10 = b div 10" "a mod 10 < b mod 10"
    using div_mod_less[of a b 10] Suc.prems(1) by auto
  then show ?case
  proof cases
    case 1
    then show ?thesis using Suc.IH[OF 1 q] by (simp add: lex_append)
  next
    case 2
    then show ?thesis by (simp add: lex_append digit_mono)
  qed
qed simp

text \<open>The instants whose year has four digits: 0000-01-01 to 9999-12-31.\<close>

definition four_digit_year :: "ms \<Rightarrow> bool" where
  "four_digit_year t \<longleftrightarrow> -62167219200000 \<le> t \<and> t < 253402300800000"

lemma pad_lt_iff:
  assumes "0 \<le> a" "a < 10 ^ k" "0 \<le> b" "b < 10 ^ k"
  shows "pad k a < pad k b \<longleftrightarrow> a < b" and "pad k a = pad k b \<longleftrightarrow> a = b"
  using assms pad_mono[of a b k] pad_mono[of b a k]
  by (metis less_asym linorder_neqE, metis less_irrefl linorder_neqE)

lemma four_digit_year_civil:
  assumes "four_digit_year t" "civil_of_days (t div MS_PER_DAY) = (y, m, d)"
  shows "0 \<le> y \<and> y \<le> 9999"
proof -
  have lo: "civil_of_days (-719528) = (0, 1, 1)" and hi: "civil_of_days 2932897 = (10000, 1, 1)"
    by (code_simp, code_simp)
  define z where "z = t div MS_PER_DAY"
  have c: "civil_of_days z = (y, m, d)" using assms(2) by (simp add: z_def)
  have z: "-719528 \<le> z" "z < 2932897"
    using assms(1) unfolding z_def four_digit_year_def MS_PER_DAY_def by linarith+
  have "0 \<le> y"
  proof (cases "z = -719528")
    case True
    with c lo show ?thesis by simp
  next
    case False
    with z have "-719528 < z" by simp
    from civil_of_days_mono[OF this lo c] show ?thesis by linarith
  qed
  moreover have "y \<le> 9999"
    using civil_of_days_mono[OF z(2) c hi] civil_of_days_bounds[OF c] by linarith
  ultimately show ?thesis ..
qed

lemma pad_step:
  assumes "0 \<le> a" "a < 10 ^ k" "0 \<le> b" "b < 10 ^ k" "a < b \<or> a = b \<and> xs < ys"
  shows "pad k a @ xs < pad k b @ ys"
  using assms pad_mono[of a b k] by (auto simp: lex_append)

lemma sep_step: "xs < ys \<Longrightarrow> (c # xs :: string) < c # ys"
  by simp

lemma time_string_mono:
  assumes b: "0 \<le> h" "h < 100" "0 \<le> mi" "mi < 100" "0 \<le> s" "s < 100" "0 \<le> f" "f < 1000"
    and b': "0 \<le> h'" "h' < 100" "0 \<le> mi'" "mi' < 100" "0 \<le> s'" "s' < 100" "0 \<le> f'" "f' < 1000"
    and lt: "h < h' \<or> h = h' \<and> (mi < mi' \<or> mi = mi' \<and> (s < s' \<or> s = s' \<and> f < f'))"
  shows "pad 2 h @ '':'' @ pad 2 mi @ '':'' @ pad 2 s @ ''.'' @ pad 3 f @ ''Z''
       < pad 2 h' @ '':'' @ pad 2 mi' @ '':'' @ pad 2 s' @ ''.'' @ pad 3 f' @ ''Z''"
proof -
  have 1: "f < f' \<Longrightarrow> pad 3 f @ ''Z'' < pad 3 f' @ ''Z''"
    by (rule pad_step) (use b b' in simp_all)
  have 2: "s < s' \<or> s = s' \<and> f < f' \<Longrightarrow> pad 2 s @ ''.'' @ pad 3 f @ ''Z'' < pad 2 s' @ ''.'' @ pad 3 f' @ ''Z''"
    by (rule pad_step) (use b b' 1 in auto)
  have 3: "mi < mi' \<or> mi = mi' \<and> (s < s' \<or> s = s' \<and> f < f') \<Longrightarrow>
      pad 2 mi @ '':'' @ pad 2 s @ ''.'' @ pad 3 f @ ''Z'' < pad 2 mi' @ '':'' @ pad 2 s' @ ''.'' @ pad 3 f' @ ''Z''"
    by (rule pad_step) (use b b' 2 in auto)
  show ?thesis
    by (rule pad_step) (use b b' 3 lt in auto)
qed

lemma date_string_mono:
  assumes b: "0 \<le> y" "y \<le> 9999" "0 \<le> m" "m < 100" "0 \<le> d" "d < 100"
    and b': "0 \<le> y'" "y' \<le> 9999" "0 \<le> m'" "m' < 100" "0 \<le> d'" "d' < 100"
    and lt: "y < y' \<or> y = y' \<and> (m < m' \<or> m = m' \<and> (d < d' \<or> d = d' \<and> tm < tm'))"
  shows "pad 4 y @ ''-'' @ pad 2 m @ ''-'' @ pad 2 d @ ''T'' @ tm
       < pad 4 y' @ ''-'' @ pad 2 m' @ ''-'' @ pad 2 d' @ ''T'' @ tm'"
proof -
  have 1: "d < d' \<or> d = d' \<and> tm < tm' \<Longrightarrow> pad 2 d @ ''T'' @ tm < pad 2 d' @ ''T'' @ tm'"
    by (rule pad_step) (use b b' in auto)
  have 2: "m < m' \<or> m = m' \<and> (d < d' \<or> d = d' \<and> tm < tm') \<Longrightarrow>
      pad 2 m @ ''-'' @ pad 2 d @ ''T'' @ tm < pad 2 m' @ ''-'' @ pad 2 d' @ ''T'' @ tm'"
    by (rule pad_step) (use b b' 1 in auto)
  show ?thesis
    by (rule pad_step) (use b b' 2 lt in auto)
qed

lemma iso_string_mono:
  assumes "t < t'" "four_digit_year t" "four_digit_year t'"
  shows "iso_string t < iso_string t'"
proof -
  define r where "r = t mod MS_PER_DAY"
  define r' where "r' = t' mod MS_PER_DAY"
  obtain y m d where c: "civil_of_days (t div MS_PER_DAY) = (y, m, d)" by (metis prod_cases3)
  obtain y' m' d' where c': "civil_of_days (t' div MS_PER_DAY) = (y', m', d')" by (metis prod_cases3)
  note b = civil_of_days_bounds[OF c] four_digit_year_civil[OF assms(2) c]
  note b' = civil_of_days_bounds[OF c'] four_digit_year_civil[OF assms(3) c']
  have r: "0 \<le> r" "r < 86400000" "0 \<le> r'" "r' < 86400000" by (simp_all add: r_def r'_def MS_PER_DAY_def)
  have "t div MS_PER_DAY < t' div MS_PER_DAY \<or> t div MS_PER_DAY = t' div MS_PER_DAY \<and> r < r'"
    using div_mod_less[OF assms(1), of MS_PER_DAY] by (simp add: r_def r'_def MS_PER_DAY_def)
  then have days: "y < y' \<or> y = y' \<and> (m < m' \<or> m = m' \<and> (d < d' \<or> d = d' \<and> r < r'))"
    using civil_of_days_mono[OF _ c c'] c c' by auto
  have fields: "r div 3600000 < r' div 3600000 \<or> r div 3600000 = r' div 3600000 \<and>
     (r div 60000 mod 60 < r' div 60000 mod 60 \<or> r div 60000 mod 60 = r' div 60000 mod 60 \<and>
     (r div 1000 mod 60 < r' div 1000 mod 60 \<or> r div 1000 mod 60 = r' div 1000 mod 60 \<and> r mod 1000 < r' mod 1000))"
    if "r < r'"
  proof -
    have e: "x div 60000 = x div 1000 div 60" "x div 3600000 = x div 1000 div 60 div 60" for x :: int
      by (simp_all add: zdiv_zmult2_eq[symmetric])
    have "0 < (60::int)" "0 < (1000::int)" by simp_all
    then show ?thesis
      unfolding e using div_mod_less[OF that, of 1000] div_mod_less[of "r div 1000" "r' div 1000" 60]
        div_mod_less[of "r div 1000 div 60" "r' div 1000 div 60" 60] by metis
  qed
  have ys: "year_string y = pad 4 y" "year_string y' = pad 4 y'"
    using b b' by (simp_all add: year_string_def)
  have p: "iso_string t = pad 4 y @ ''-'' @ pad 2 m @ ''-'' @ pad 2 d @ ''T''
         @ pad 2 (r div 3600000) @ '':'' @ pad 2 (r div 60000 mod 60) @ '':'' @ pad 2 (r div 1000 mod 60)
         @ ''.'' @ pad 3 (r mod 1000) @ ''Z''"
    by (simp only: iso_string_def c r_def[symmetric] Let_def prod.case ys)
  have p': "iso_string t' = pad 4 y' @ ''-'' @ pad 2 m' @ ''-'' @ pad 2 d' @ ''T''
         @ pad 2 (r' div 3600000) @ '':'' @ pad 2 (r' div 60000 mod 60) @ '':'' @ pad 2 (r' div 1000 mod 60)
         @ ''.'' @ pad 3 (r' mod 1000) @ ''Z''"
    by (simp only: iso_string_def c' r'_def[symmetric] Let_def prod.case ys)
  have hours: "0 \<le> r div 3600000" "r div 3600000 < 100" "0 \<le> r' div 3600000" "r' div 3600000 < 100"
    using r by linarith+
  have m: "0 \<le> x mod 60" "x mod 60 < 100" "0 \<le> x mod 1000" "x mod 1000 < 1000" for x :: int
    using pos_mod_bound[of 60 x] by simp_all
  have tm: "pad 2 (r div 3600000) @ '':'' @ pad 2 (r div 60000 mod 60) @ '':'' @ pad 2 (r div 1000 mod 60)
         @ ''.'' @ pad 3 (r mod 1000) @ ''Z''
      < pad 2 (r' div 3600000) @ '':'' @ pad 2 (r' div 60000 mod 60) @ '':'' @ pad 2 (r' div 1000 mod 60)
         @ ''.'' @ pad 3 (r' mod 1000) @ ''Z''" if "r < r'"
    by (rule time_string_mono) (fact hours m fields[OF that])+
  show ?thesis
    unfolding p p' by (rule date_string_mono) (use days b b' tm in auto)
qed

end
