(* ===== verification/Gantt_Calendar.thy ===== *)
theory Gantt_Calendar
  imports Dub_Errors Js_Date "HOL-Library.While_Combinator"
begin

text \<open>
  \<open>packages/gantt-calc/src/dates.ts\<close> and \<open>calendar.ts\<close>: the day space of the scheduler
  and the working-day calendar. A computation that may throw is \<open>thrown + 'a\<close>; a search that
  may never end (\<open>nextWorkingDay\<close> on a calendar without working days) is wrapped in an
  \<open>option\<close> whose \<open>None\<close> is "does not return".
\<close>

section \<open>dates.ts\<close>

definition dayOf :: "string \<Rightarrow> string \<Rightarrow> thrown + int" where
  "dayOf ts field =
     (case date_parse ts of
        None \<Rightarrow> Inl (TDub (DubError ''VALIDATION_FAILED'' (''Invalid ISO8601 date: '' @ ts)
                  (no_options\<lparr>opt_status := Some 400, opt_details := JArr [js_field_error (field, ''invalid_date'')]\<rparr>)))
      | Some t \<Rightarrow> Inr (t div MS_PER_DAY))"

definition isoAtDay :: "int \<Rightarrow> thrown + string" where
  "isoAtDay day =
     (case toISOString (day * MS_PER_DAY) of
        Some s \<Rightarrow> Inr s
      | None \<Rightarrow> Inl (TError ''Invalid time value''))"

lemma isoAtDay_range: "(\<exists>s. isoAtDay day = Inr s) \<longleftrightarrow> \<bar>day\<bar> \<le> 100000000"
  by (auto simp: isoAtDay_def toISOString_def MS_PER_DAY_def MAX_TIME_def abs_mult)

text \<open>
  Printing a day index and reading it back is the identity over the whole range of dates.
\<close>
theorem dayOf_isoAtDay:
  assumes "isoAtDay day = Inr s"
  shows "dayOf s field = Inr day"
proof -
  have "\<bar>day * MS_PER_DAY\<bar> \<le> MAX_TIME" and s: "s = iso_string (day * MS_PER_DAY)"
    using assms by (auto simp: isoAtDay_def toISOString_def split: if_splits)
  then have "date_parse s = Some (day * MS_PER_DAY)"
    by (simp add: date_parse_iso_string)
  then show ?thesis by (simp add: dayOf_def MS_PER_DAY_def)
qed

theorem dayOf_isoAtDay_witness: "dayOf ''1970-01-06T00:00:00.000Z'' ''startsAt'' = Inr 5"
proof -
  have "isoAtDay 5 = Inr ''1970-01-06T00:00:00.000Z''" by code_simp
  then show ?thesis by (rule dayOf_isoAtDay)
qed

section \<open>calendar.ts\<close>

definition EPOCH_DOW :: int where
  "EPOCH_DOW = 4"

definition DEFAULT_WEEKEND :: "int list" where
  "DEFAULT_WEEKEND = [0, 6]"

definition js_rem :: "int \<Rightarrow> int \<Rightarrow> int" where
  \<comment> \<open>the \<open>%\<close> of the language: the remainder takes the sign of the dividend\<close>
  "js_rem a b = sgn a * (\<bar>a\<bar> mod \<bar>b\<bar>)"

definition dayOfWeek :: "int \<Rightarrow> int" where
  "dayOfWeek day = js_rem (js_rem (day + EPOCH_DOW) 7 + 7) 7"

lemma js_rem_twice:
  assumes "0 < b"
  shows "js_rem (js_rem a b + b) b = a mod b"
proof -
  have nn: "0 \<le> x \<Longrightarrow> js_rem x b = x mod b" for x
    using assms by (cases "x = 0") (simp_all add: js_rem_def)
  show ?thesis
  proof (cases "0 \<le> a")
    case True
    then show ?thesis using assms nn[of a] nn[of "a mod b + b"] by simp
  next
    case False
    then have r: "js_rem a b = - (- a mod b)" using assms by (simp add: js_rem_def)
    have "- a mod b < b" using assms by simp
    then have "js_rem (js_rem a b + b) b = (- (- a mod b) + b) mod b" using nn r by simp
    also have "\<dots> = (- (- a)) mod b" by (simp add: mod_minus_eq)
    finally show ?thesis by simp
  qed
qed

lemma dayOfWeek_mod: "dayOfWeek day = (day + 4) mod 7"
  by (simp add: dayOfWeek_def js_rem_twice EPOCH_DOW_def)

record work_calendar =
  weekend :: "int list"
  holidayDays :: "int list"
  isWorkDow :: "bool list"
  weekPrefix :: "int list"
  workOffsets :: "int list"
  perWeek :: int

fun holiday_set :: "int list \<Rightarrow> string list \<Rightarrow> int list \<Rightarrow> thrown + int list" where
  \<comment> \<open>the loop over \<open>options.holidays\<close>\<close>
  "holiday_set we [] hds = Inr hds"
| "holiday_set we (h # hs) hds =
     try_bind (dayOf h ''holidays'')
       (\<lambda>d. holiday_set we hs (if dayOfWeek d \<in> set we \<or> d \<in> set hds then hds else hds @ [d]))"

definition week_of :: "int list \<Rightarrow> bool list" where
  "week_of we = map (\<lambda>i. (EPOCH_DOW + i) mod 7 \<notin> set we) [0..6]"

fun week_prefix :: "bool list \<Rightarrow> int list \<Rightarrow> int list" where
  "week_prefix [] acc = acc"
| "week_prefix (w # ws) acc = week_prefix ws (acc @ [last acc + (if w then 1 else 0)])"

definition mk_calendar :: "int list \<Rightarrow> int list \<Rightarrow> work_calendar" where
  "mk_calendar we hds =
     (let dow = week_of we; pre = week_prefix dow [0]
      in \<lparr>weekend = we, holidayDays = hds, isWorkDow = dow, weekPrefix = pre,
          workOffsets = filter (\<lambda>i. dow ! nat i) [0..6], perWeek = pre ! 7\<rparr>)"

definition createWorkCalendar :: "int list option \<Rightarrow> string list option \<Rightarrow> thrown + work_calendar" where
  "createWorkCalendar weekendDays holidays =
     (let we = (case weekendDays of Some w \<Rightarrow> w | None \<Rightarrow> DEFAULT_WEEKEND)
      in try_bind (holiday_set we (case holidays of Some hs \<Rightarrow> hs | None \<Rightarrow> []) [])
           (\<lambda>hds. Inr (mk_calendar we hds)))"

definition isWorkingDay :: "work_calendar \<Rightarrow> int \<Rightarrow> bool" where
  "isWorkingDay c day \<longleftrightarrow> dayOfWeek day \<notin> set (weekend c) \<and> day \<notin> set (holidayDays c)"

definition nextWorkingDay :: "work_calendar \<Rightarrow> int \<Rightarrow> int option" where
  "nextWorkingDay c day = while_option (\<lambda>d. \<not> isWorkingDay c d) (\<lambda>d. d + 1) day"

definition workingDaysUpTo :: "work_calendar \<Rightarrow> int \<Rightarrow> int" where
  "workingDaysUpTo c n =
     (let weeks = n div 7; rem = n - weeks * 7
      in foldl (\<lambda>count h. if 0 \<le> h \<and> h < n then count - 1
                         else if n \<le> h \<and> h < 0 then count + 1 else count)
           (weeks * perWeek c + weekPrefix c ! nat rem) (holidayDays c))"

definition countWorkingDays :: "work_calendar \<Rightarrow> int \<Rightarrow> int \<Rightarrow> int" where
  "countWorkingDays c startDay endDay =
     (if endDay \<le> startDay then 0 else workingDaysUpTo c endDay - workingDaysUpTo c startDay)"

definition toOrdinal :: "work_calendar \<Rightarrow> int \<Rightarrow> int" where
  "toOrdinal c day = workingDaysUpTo c day"

definition fromOrdinal :: "work_calendar \<Rightarrow> int \<Rightarrow> (thrown + int) option" where
  "fromOrdinal c ordinal =
     (if perWeek c = 0 then Some (Inl (TError ''WorkCalendar has no working days''))
      else let weeks = ordinal div perWeek c;
               rem = js_rem (js_rem (ordinal - weeks * perWeek c) (perWeek c) + perWeek c) (perWeek c);
               day = weeks * 7 + workOffsets c ! nat rem
           in case while_option (\<lambda>d. workingDaysUpTo c d < ordinal) (\<lambda>d. d + 1) day of
                None \<Rightarrow> None
              | Some d \<Rightarrow> map_option Inr (nextWorkingDay c d))"

definition addWorkingDays :: "work_calendar \<Rightarrow> int \<Rightarrow> rat \<Rightarrow> (thrown + int) option" where
  "addWorkingDays c startDay workingDays = fromOrdinal c (toOrdinal c startDay + js_trunc workingDays)"

section \<open>What the calendar computes\<close>

text \<open>A calendar as \<open>createWorkCalendar\<close> builds it: distinct holidays, none on a weekend.\<close>

definition calendar_wf :: "work_calendar \<Rightarrow> bool" where
  "calendar_wf c \<longleftrightarrow>
     c = mk_calendar (weekend c) (holidayDays c) \<and> distinct (holidayDays c)
     \<and> (\<forall>h\<in>set (holidayDays c). dayOfWeek h \<notin> set (weekend c))"

lemma holiday_set_wf:
  "holiday_set we hs hds = Inr hds' \<Longrightarrow> distinct hds \<Longrightarrow> \<forall>h\<in>set hds. dayOfWeek h \<notin> set we \<Longrightarrow>
     distinct hds' \<and> (\<forall>h\<in>set hds'. dayOfWeek h \<notin> set we)"
proof (induction hs arbitrary: hds)
  case (Cons h hs)
  obtain d where d: "holiday_set we hs (if dayOfWeek d \<in> set we \<or> d \<in> set hds then hds else hds @ [d]) = Inr hds'"
    using Cons.prems(1) by (auto simp: try_bind_Inr)
  show ?case
    by (rule Cons.IH[OF d]) (use Cons.prems(2,3) in \<open>simp_all split: if_split\<close>)
qed simp

lemma mk_calendar_simps [simp]: "weekend (mk_calendar we hds) = we" "holidayDays (mk_calendar we hds) = hds"
  by (simp_all only: mk_calendar_def Let_def work_calendar.select_convs)

lemma mk_calendar_fields:
  "perWeek (mk_calendar we hds) = week_prefix (week_of we) [0] ! 7"
  "weekPrefix (mk_calendar we hds) = week_prefix (week_of we) [0]"
  "workOffsets (mk_calendar we hds) = filter (\<lambda>i. week_of we ! nat i) [0..6]"
  by (simp_all only: mk_calendar_def Let_def work_calendar.select_convs)

lemma calendar_wf_mk_calendar:
  "distinct hds \<Longrightarrow> \<forall>h\<in>set hds. dayOfWeek h \<notin> set we \<Longrightarrow> calendar_wf (mk_calendar we hds)"
  unfolding calendar_wf_def by (simp only: mk_calendar_simps simp_thms)

lemma createWorkCalendar_wf:
  "createWorkCalendar we hs = Inr c \<Longrightarrow> calendar_wf c"
  unfolding createWorkCalendar_def Let_def try_bind_Inr
  using holiday_set_wf by (fastforce intro: calendar_wf_mk_calendar)

lemma calendar_wf_mk:
  assumes "calendar_wf c"
  shows "perWeek c = week_prefix (week_of (weekend c)) [0] ! 7"
    and "weekPrefix c = week_prefix (week_of (weekend c)) [0]"
    and "workOffsets c = filter (\<lambda>i. week_of (weekend c) ! nat i) [0..6]"
proof -
  have "c = mk_calendar (weekend c) (holidayDays c)" using assms by (simp only: calendar_wf_def)
  note eq = arg_cong[OF this]
  show "perWeek c = week_prefix (week_of (weekend c)) [0] ! 7"
    by (rule trans[OF eq[of perWeek] mk_calendar_fields(1)])
  show "weekPrefix c = week_prefix (week_of (weekend c)) [0]"
    by (rule trans[OF eq[of weekPrefix] mk_calendar_fields(2)])
  show "workOffsets c = filter (\<lambda>i. week_of (weekend c) ! nat i) [0..6]"
    by (rule trans[OF eq[of workOffsets] mk_calendar_fields(3)])
qed

lemma upto_0_6: "[0..6] = [0, 1, 2, 3, 4, 5, 6 :: int]"
  by (simp add: upto.simps)

definition dow_working :: "work_calendar \<Rightarrow> int \<Rightarrow> bool" where
  "dow_working c d \<longleftrightarrow> dayOfWeek d \<notin> set (weekend c)"

lemma dow_working_mod: "dow_working c d \<longleftrightarrow> dow_working c (d mod 7)"
  by (simp add: dow_working_def dayOfWeek_mod mod_add_left_eq)

lemma week_of_nth: "0 \<le> i \<Longrightarrow> i \<le> 6 \<Longrightarrow> week_of (weekend c) ! nat i \<longleftrightarrow> dow_working c i"
  using nth_upto[of 0 "nat i" 6] by (simp add: week_of_def dow_working_def dayOfWeek_mod EPOCH_DOW_def add.commute)

text \<open>The count without holidays: whole weeks and a prefix of the week.\<close>

definition base_count :: "work_calendar \<Rightarrow> int \<Rightarrow> int" where
  "base_count c n = n div 7 * perWeek c + weekPrefix c ! nat (n mod 7)"

lemma week_prefix_values:
  assumes "calendar_wf c"
  shows "weekPrefix c = [0, of_bool (dow_working c 0),
      of_bool (dow_working c 0) + of_bool (dow_working c 1),
      of_bool (dow_working c 0) + of_bool (dow_working c 1) + of_bool (dow_working c 2),
      of_bool (dow_working c 0) + of_bool (dow_working c 1) + of_bool (dow_working c 2) + of_bool (dow_working c 3),
      of_bool (dow_working c 0) + of_bool (dow_working c 1) + of_bool (dow_working c 2) + of_bool (dow_working c 3)
        + of_bool (dow_working c 4),
      of_bool (dow_working c 0) + of_bool (dow_working c 1) + of_bool (dow_working c 2) + of_bool (dow_working c 3)
        + of_bool (dow_working c 4) + of_bool (dow_working c 5),
      of_bool (dow_working c 0) + of_bool (dow_working c 1) + of_bool (dow_working c 2) + of_bool (dow_working c 3)
        + of_bool (dow_working c 4) + of_bool (dow_working c 5) + of_bool (dow_working c 6)]"
proof -
  have "week_of (weekend c) = map (dow_working c) [0..6]"
    by (auto simp: week_of_def dow_working_def dayOfWeek_mod EPOCH_DOW_def add.commute)
  then show ?thesis
    by (simp add: calendar_wf_mk[OF assms] upto_0_6 of_bool_def)
qed

lemma week_prefix_step:
  assumes "calendar_wf c" "0 \<le> k" "k < 7"
  shows "weekPrefix c ! nat (k + 1) = weekPrefix c ! nat k + of_bool (dow_working c k)"
proof -
  have "k = 0 \<or> k = 1 \<or> k = 2 \<or> k = 3 \<or> k = 4 \<or> k = 5 \<or> k = 6" using assms(2,3) by linarith
  then show ?thesis
    unfolding week_prefix_values[OF assms(1)] by (elim disjE) simp_all
qed

lemma base_count_step:
  assumes "calendar_wf c"
  shows "base_count c (n + 1) = base_count c n + of_bool (dow_working c n)"
proof -
  have pre: "weekPrefix c ! nat (n mod 7 + 1) = weekPrefix c ! nat (n mod 7) + of_bool (dow_working c n)"
    using week_prefix_step[OF assms, of "n mod 7"] by (simp add: dow_working_mod[of c n, symmetric])
  show ?thesis
  proof (cases "n mod 7 = 6")
    case True
    then have "(n + 1) div 7 = n div 7 + 1" "(n + 1) mod 7 = 0" by presburger+
    moreover have "perWeek c = weekPrefix c ! 7" using calendar_wf_mk[OF assms] by simp
    moreover have "weekPrefix c ! 0 = 0" by (simp add: week_prefix_values[OF assms])
    ultimately show ?thesis
      using pre True by (simp add: base_count_def distrib_right)
  next
    case False
    then have "(n + 1) div 7 = n div 7" "(n + 1) mod 7 = n mod 7 + 1" by presburger+
    then show ?thesis using pre by (simp add: base_count_def)
  qed
qed

text \<open>An upward search for the first day where the guard fails.\<close>

lemma search_up:
  fixes s e :: int
  assumes "\<not> b e" "s \<le> e"
  shows "\<exists>d. while_option b (\<lambda>d. d + 1) s = Some d \<and> \<not> b d \<and> s \<le> d \<and> d \<le> e \<and> (\<forall>x. s \<le> x \<and> x < d \<longrightarrow> b x)"
  using assms
proof (induction "nat (e - s)" arbitrary: s)
  case 0
  then show ?case by (subst while_option_unfold) auto
next
  case (Suc n)
  show ?case
  proof (cases "b s")
    case False
    with Suc.prems show ?thesis by (subst while_option_unfold) auto
  next
    case True
    with Suc.prems have "s + 1 \<le> e" by (cases "s = e") auto
    moreover have "n = nat (e - (s + 1))" using Suc.hyps(2) by simp
    ultimately obtain d where d: "while_option b (\<lambda>d. d + 1) (s + 1) = Some d" "\<not> b d" "s + 1 \<le> d" "d \<le> e"
      "\<forall>x. s + 1 \<le> x \<and> x < d \<longrightarrow> b x"
      using Suc.hyps(1)[of "s + 1"] Suc.prems by blast
    have "b x" if "s \<le> x" "x < d" for x
      using True d(5) that by (cases "x = s") auto
    with True d show ?thesis
      by (subst while_option_unfold) (auto intro!: exI[of _ d])
  qed
qed

text \<open>
  The contract between a day count and the days it counts, which both the plain week pattern
  and the calendar with holidays meet: the count grows by one at a counted day and stays put
  at any other.
\<close>

locale day_count =
  fixes inv :: "'c \<Rightarrow> bool" and count :: "'c \<Rightarrow> int \<Rightarrow> int" and counted :: "'c \<Rightarrow> int \<Rightarrow> bool"
  assumes count_step: "inv c \<Longrightarrow> count c (n + 1) = count c n + of_bool (counted c n)"
    and count_zero: "inv c \<Longrightarrow> count c 0 = 0"
begin

lemma count_interval:
  assumes "inv c" "s \<le> e"
  shows "count c e - count c s = int (card {d \<in> {s..<e}. counted c d})"
  using assms(2)
proof (induction e rule: int_ge_induct)
  case base
  then show ?case by simp
next
  case (step e)
  define A where "A = {d. s \<le> d \<and> d < e \<and> counted c d}"
  have "{s..<e + 1} = insert e {s..<e}" using step.hyps by auto
  then have "{d \<in> {s..<e + 1}. counted c d} = (if counted c e then insert e A else A)"
    by (auto simp: A_def)
  moreover have "finite A" by (rule finite_subset[of _ "{s..<e}"]) (auto simp: A_def)
  moreover have "e \<notin> A" by (simp add: A_def)
  ultimately show ?case
    using step.IH count_step[OF assms(1), of e] by (simp add: A_def[symmetric])
qed

lemma count_mono: "inv c \<Longrightarrow> s \<le> e \<Longrightarrow> count c s \<le> count c e"
  using count_interval[of c s e] by simp

lemma count_less: "inv c \<Longrightarrow> counted c s \<Longrightarrow> s < e \<Longrightarrow> count c s < count c e"
  using count_step[of c s] count_mono[of c "s + 1" e] by simp

lemma count_inj: "inv c \<Longrightarrow> counted c d \<Longrightarrow> counted c d' \<Longrightarrow> count c d = count c d' \<Longrightarrow> d = d'"
  by (metis count_less less_irrefl linorder_neqE)

lemma count_gap:
  assumes "inv c" "s \<le> e" "\<forall>x. s \<le> x \<and> x < e \<longrightarrow> \<not> counted c x"
  shows "count c e = count c s"
proof -
  have "{d \<in> {s..<e}. counted c d} = {}" using assms(3) by auto
  then have "card {d \<in> {s..<e}. counted c d} = 0" by (simp only: card.empty)
  then show ?thesis using count_interval[OF assms(1,2)] by simp
qed

text \<open>Climbing to an ordinal never jumps over it.\<close>

lemma climb:
  assumes "inv c" "count c s \<le> k" "k \<le> count c e"
  shows "\<exists>d. while_option (\<lambda>d. count c d < k) (\<lambda>d. d + 1) s = Some d \<and> count c d = k \<and> s \<le> d"
proof (cases "count c s = k")
  case True
  then show ?thesis by (subst while_option_unfold) auto
next
  case False
  then have "count c s < k" using assms(2) by simp
  then have "s \<le> e" using assms(1,3) count_mono[of c e s] by linarith
  with search_up[of "\<lambda>d. count c d < k" e s] assms(3) obtain d
    where d: "while_option (\<lambda>d. count c d < k) (\<lambda>d. d + 1) s = Some d" "k \<le> count c d" "s \<le> d"
      "\<forall>x. s \<le> x \<and> x < d \<longrightarrow> count c x < k" by force
  have "d \<noteq> s" using d(2) \<open>count c s < k\<close> by auto
  then have "count c (d - 1) < k" using d(3,4) by simp
  then have "count c d \<le> k" using count_step[OF assms(1), of "d - 1"] by (simp split: if_splits)
  with d show ?thesis by auto
qed

end

lemma base_count_zero: "calendar_wf c \<Longrightarrow> base_count c 0 = 0"
  by (simp add: base_count_def week_prefix_values)

interpretation week: day_count calendar_wf base_count dow_working
  by unfold_locales (simp_all add: base_count_step base_count_zero)

text \<open>The correction the holidays bring.\<close>

definition holiday_adj :: "int \<Rightarrow> int \<Rightarrow> int" where
  "holiday_adj n h = (if 0 \<le> h \<and> h < n then -1 else if n \<le> h \<and> h < 0 then 1 else 0)"

lemma holiday_adj_step: "holiday_adj (n + 1) h = holiday_adj n h - of_bool (h = n)"
  by (auto simp: holiday_adj_def)

lemma workingDaysUpTo_eq: "workingDaysUpTo c n = base_count c n + sum_by (holiday_adj n) (holidayDays c)"
proof -
  have f: "foldl (\<lambda>count h. if 0 \<le> h \<and> h < n then count - 1 else if n \<le> h \<and> h < 0 then count + 1 else count) a hs
      = a + sum_by (holiday_adj n) hs" for a hs
    by (induction hs arbitrary: a) (auto simp: holiday_adj_def)
  have "n - n div 7 * 7 = n mod 7" by (simp add: minus_div_mult_eq_mod)
  then show ?thesis by (simp add: workingDaysUpTo_def Let_def f base_count_def)
qed

lemma workingDaysUpTo_step:
  assumes "calendar_wf c"
  shows "workingDaysUpTo c (n + 1) = workingDaysUpTo c n + of_bool (isWorkingDay c n)"
proof -
  have "sum_by (holiday_adj (n + 1)) hs = sum_by (holiday_adj n) hs - of_bool (n \<in> set hs)" if "distinct hs" for hs
    using that by (induction hs) (auto simp: holiday_adj_step)
  then have "sum_by (holiday_adj (n + 1)) (holidayDays c)
      = sum_by (holiday_adj n) (holidayDays c) - of_bool (n \<in> set (holidayDays c))"
    using assms by (simp only: calendar_wf_def)
  moreover have "n \<in> set (holidayDays c) \<Longrightarrow> dow_working c n"
    using assms unfolding calendar_wf_def dow_working_def by blast
  ultimately show ?thesis
    by (auto simp: workingDaysUpTo_eq base_count_step[OF assms] isWorkingDay_def dow_working_def)
qed

lemma workingDaysUpTo_zero: "calendar_wf c \<Longrightarrow> workingDaysUpTo c 0 = 0"
proof -
  have "sum_by (holiday_adj 0) hs = 0" for hs by (induction hs) (auto simp: holiday_adj_def)
  then show "calendar_wf c \<Longrightarrow> workingDaysUpTo c 0 = 0" by (simp add: workingDaysUpTo_eq base_count_zero)
qed

interpretation cal: day_count calendar_wf workingDaysUpTo isWorkingDay
  by unfold_locales (simp_all add: workingDaysUpTo_step workingDaysUpTo_zero)

lemma perWeek_sum:
  assumes "calendar_wf c"
  shows "perWeek c = base_count c 7"
  using assms by (simp add: base_count_def week_prefix_values)

lemma perWeek_card:
  assumes "calendar_wf c"
  shows "perWeek c = int (card {d \<in> {0..<7}. dow_working c d})"
  using week.count_interval[OF assms, of 0 7] base_count_zero[OF assms] perWeek_sum[OF assms] by simp

lemma perWeek_nonneg: "calendar_wf c \<Longrightarrow> 0 \<le> perWeek c"
  by (simp add: perWeek_card)

lemma working_day_exists:
  assumes "calendar_wf c" "perWeek c \<noteq> 0"
  shows "\<exists>e \<ge> day. isWorkingDay c e"
proof -
  have "{d \<in> {0..<7}. dow_working c d} \<noteq> {}"
    using assms(2) perWeek_card[OF assms(1)] by (metis card.empty of_nat_0)
  then obtain i where i: "dow_working c i" by blast
  define B where "B = Max (insert \<bar>day\<bar> (set (holidayDays c)))"
  have B: "\<bar>day\<bar> \<le> B" "\<And>h. h \<in> set (holidayDays c) \<Longrightarrow> h \<le> B" by (auto simp: B_def)
  define e where "e = i mod 7 + 7 * (B + 1)"
  have "0 \<le> B" using B(1) by linarith
  then have e: "B < e" by (simp add: e_def add_nonneg_pos)
  have "e mod 7 = i mod 7" unfolding e_def by presburger
  then have "dow_working c e" using i dow_working_mod[of c e] dow_working_mod[of c i] by simp
  moreover have "e \<notin> set (holidayDays c)" using B(2) e by force
  moreover have "day \<le> e" using B(1) e by linarith
  ultimately show ?thesis by (auto simp: isWorkingDay_def dow_working_def)
qed

lemma no_working_day:
  assumes "calendar_wf c" "perWeek c = 0"
  shows "\<not> isWorkingDay c d"
proof
  assume "isWorkingDay c d"
  then have "dow_working c (d mod 7)" using dow_working_mod by (simp add: isWorkingDay_def dow_working_def)
  then have "d mod 7 \<in> {d \<in> {0..<7}. dow_working c d}" by simp
  then have "card {d \<in> {0..<7}. dow_working c d} \<noteq> 0" by (metis card_0_eq empty_iff finite_Collect_conjI finite_atLeastLessThan_int Collect_mem_eq finite_Int Collect_conj_eq)
  then show False using perWeek_card[OF assms(1)] assms(2) by simp
qed

text \<open>
  \<open>nextWorkingDay\<close> returns the first working day at or after the given day, and it returns
  exactly when the calendar has a working day in its week: with all seven days non-working the
  search loop of the code never ends.
\<close>
theorem nextWorkingDay_spec:
  assumes "createWorkCalendar we hs = Inr c"
  shows "case nextWorkingDay c day of
           Some d \<Rightarrow> perWeek c \<noteq> 0 \<and> day \<le> d \<and> isWorkingDay c d \<and> (\<forall>x. day \<le> x \<and> x < d \<longrightarrow> \<not> isWorkingDay c x)
         | None \<Rightarrow> perWeek c = 0"
proof (cases "perWeek c = 0")
  case True
  have "nextWorkingDay c day = None"
    unfolding nextWorkingDay_def using no_working_day[OF createWorkCalendar_wf[OF assms] True] while_option_stop
    by (metis (mono_tags, lifting) not_Some_eq)
  with True show ?thesis by simp
next
  case False
  then have "\<exists>d. nextWorkingDay c day = Some d \<and> day \<le> d \<and> isWorkingDay c d \<and>
      (\<forall>x. day \<le> x \<and> x < d \<longrightarrow> \<not> isWorkingDay c x)"
    using working_day_exists[OF createWorkCalendar_wf[OF assms] False, of day] search_up[of "\<lambda>d. \<not> isWorkingDay c d" _ day]
    unfolding nextWorkingDay_def by blast
  with False show ?thesis by auto
qed

theorem nextWorkingDay_spec_witness:
  "case nextWorkingDay (mk_calendar [0, 6] [1]) 1 of
     Some d \<Rightarrow> perWeek (mk_calendar [0, 6] [1]) \<noteq> 0 \<and> 1 \<le> d \<and> isWorkingDay (mk_calendar [0, 6] [1]) d
       \<and> (\<forall>x. 1 \<le> x \<and> x < d \<longrightarrow> \<not> isWorkingDay (mk_calendar [0, 6] [1]) x)
   | None \<Rightarrow> perWeek (mk_calendar [0, 6] [1]) = 0"
proof -
  have "createWorkCalendar None (Some [''1970-01-02'']) = Inr (mk_calendar [0, 6] [1])" by code_simp
  then show ?thesis by (rule nextWorkingDay_spec)
qed

text \<open>
  \<open>countWorkingDays\<close>, which the code computes by week arithmetic and a correction per
  holiday, is the number of working days in the half-open range, for days before the epoch too.
\<close>
theorem countWorkingDays_spec:
  assumes "createWorkCalendar we hs = Inr c"
  shows "countWorkingDays c s e = int (card {d. s \<le> d \<and> d < e \<and> isWorkingDay c d})"
proof (cases "e \<le> s")
  case True
  then have "{d. s \<le> d \<and> d < e \<and> isWorkingDay c d} = {}" by auto
  then show ?thesis using True by (simp only: countWorkingDays_def card.empty) simp
next
  case False
  then show ?thesis
    using cal.count_interval[OF createWorkCalendar_wf[OF assms], of s e] by (simp add: countWorkingDays_def)
qed

theorem countWorkingDays_spec_witness:
  "countWorkingDays (mk_calendar [0, 6] [1]) 0 7 = int (card {d. 0 \<le> d \<and> d < 7 \<and> isWorkingDay (mk_calendar [0, 6] [1]) d})"
proof -
  have "createWorkCalendar None (Some [''1970-01-02'', ''1970-01-03T09:00:00Z'']) = Inr (mk_calendar [0, 6] [1])" by code_simp
  then show ?thesis by (rule countWorkingDays_spec)
qed

section \<open>Ordinals\<close>

lemma nth_filter_upto:
  fixes P :: "int \<Rightarrow> bool" and n :: int
  defines "xs \<equiv> filter P [0..n]"
  assumes "r < length xs"
  shows "P (xs ! r)" "0 \<le> xs ! r" "xs ! r \<le> n" "card {d \<in> {0..<xs ! r}. P d} = r"
proof -
  have "xs ! r \<in> set xs" using assms(2) by simp
  then show "P (xs ! r)" "0 \<le> xs ! r" and hi: "xs ! r \<le> n" by (auto simp: xs_def)
  have sorted: "sorted_wrt (<) xs" unfolding xs_def by (intro sorted_wrt_filter) simp
  then have dist: "distinct xs" by (simp add: strict_sorted_iff)
  have "{d \<in> {0..<xs ! r}. P d} = set (take r xs)"
  proof (intro equalityI subsetI)
    fix d assume "d \<in> {d \<in> {0..<xs ! r}. P d}"
    then have "d \<in> set xs" "d < xs ! r" using hi by (auto simp: xs_def)
    then obtain j where j: "j < length xs" "d = xs ! j" by (auto simp: in_set_conv_nth)
    have "j < r" using \<open>d < xs ! r\<close> j sorted_wrt_nth_less[OF sorted] by (metis linorder_cases not_less_iff_gr_or_eq)
    with j show "d \<in> set (take r xs)" by (auto simp: in_set_conv_nth)
  next
    fix d assume "d \<in> set (take r xs)"
    then obtain j where j: "j < r" "j < length xs" "d = xs ! j" by (auto simp: in_set_conv_nth)
    then have "d < xs ! r" using sorted_wrt_nth_less[OF sorted] assms(2) by simp
    moreover have "d \<in> set xs" using j by simp
    ultimately show "d \<in> {d \<in> {0..<xs ! r}. P d}" by (auto simp: xs_def)
  qed
  then show "card {d \<in> {0..<xs ! r}. P d} = r"
    using dist assms(2) by (simp add: distinct_card[OF distinct_take])
qed

text \<open>The guess of \<open>fromOrdinal\<close> is exact when holidays are left out.\<close>

definition ordinal_guess :: "work_calendar \<Rightarrow> int \<Rightarrow> int" where
  "ordinal_guess c k = k div perWeek c * 7 + workOffsets c ! nat (k mod perWeek c)"

lemma ordinal_guess:
  assumes wf: "calendar_wf c" and pw: "perWeek c \<noteq> 0"
  shows "base_count c (ordinal_guess c k) = k"
    and "7 * (k div perWeek c) \<le> ordinal_guess c k" and "ordinal_guess c k < 7 * (k div perWeek c) + 7"
proof -
  have pos: "0 < perWeek c" using perWeek_nonneg[OF wf] pw by simp
  define r where "r = k mod perWeek c"
  have r: "0 \<le> r" "r < perWeek c" using pos by (simp_all add: r_def)
  have off: "workOffsets c = filter (dow_working c) [0..6]"
    unfolding calendar_wf_mk(3)[OF wf] by (rule filter_cong) (auto simp: week_of_nth)
  have "set [0..6] \<inter> Collect (dow_working c) = {d \<in> {0..<7}. dow_working c d}" by auto
  then have "length (workOffsets c) = card {d \<in> {0..<7}. dow_working c d}"
    using distinct_length_filter[of "[0..6]" "dow_working c"] by (simp add: off Int_commute)
  then have len: "nat r < length (filter (dow_working c) [0..6])"
    using r perWeek_card[OF wf] off by simp
  define x where "x = workOffsets c ! nat r"
  note x = nth_filter_upto[OF len, folded off, folded x_def]
  have "base_count c x = r"
    using week.count_interval[OF wf x(2)] base_count_zero[OF wf] x(4) r(1) by simp
  moreover have "base_count c x = weekPrefix c ! nat x"
    using x(2,3) by (simp add: base_count_def)
  moreover have "(k div perWeek c * 7 + x) div 7 = k div perWeek c" "(k div perWeek c * 7 + x) mod 7 = x"
    using x(2,3) by simp_all
  moreover have "k = k div perWeek c * perWeek c + r" by (simp add: r_def)
  ultimately show "base_count c (ordinal_guess c k) = k"
    by (simp add: ordinal_guess_def base_count_def r_def[symmetric] x_def[symmetric])
  show "7 * (k div perWeek c) \<le> ordinal_guess c k" "ordinal_guess c k < 7 * (k div perWeek c) + 7"
    using x(2,3) by (simp_all add: ordinal_guess_def r_def[symmetric] x_def[symmetric])
qed

lemma fromOrdinal_eq:
  assumes "calendar_wf c" "perWeek c \<noteq> 0"
  shows "fromOrdinal c k =
    (case while_option (\<lambda>d. workingDaysUpTo c d < k) (\<lambda>d. d + 1) (ordinal_guess c k) of
       None \<Rightarrow> None | Some d \<Rightarrow> map_option Inr (nextWorkingDay c d))"
proof -
  have pos: "0 < perWeek c" using perWeek_nonneg[OF assms(1)] assms(2) by simp
  have "k - k div perWeek c * perWeek c = k mod perWeek c" by (simp add: minus_div_mult_eq_mod)
  then have "js_rem (js_rem (k - k div perWeek c * perWeek c) (perWeek c) + perWeek c) (perWeek c) = k mod perWeek c"
    by (simp add: js_rem_twice[OF pos])
  then show ?thesis using assms(2) by (simp add: fromOrdinal_def Let_def ordinal_guess_def)
qed

lemma working_days_unbounded:
  assumes wf: "calendar_wf c" and pw: "perWeek c \<noteq> 0"
  shows "\<exists>e. k \<le> workingDaysUpTo c e"
proof (rule ccontr)
  assume "\<not> ?thesis"
  then have less: "workingDaysUpTo c e < k" for e using not_le by blast
  have "\<exists>e. int n \<le> workingDaysUpTo c e" for n
  proof (induction n)
    case 0
    show ?case by (intro exI[of _ 0]) (simp add: workingDaysUpTo_zero[OF wf])
  next
    case (Suc n)
    then obtain e where e: "int n \<le> workingDaysUpTo c e" by blast
    obtain d where d: "e \<le> d" "isWorkingDay c d" using working_day_exists[OF wf pw] by blast
    have "int n \<le> workingDaysUpTo c d" using e cal.count_mono[OF wf d(1)] by simp
    then have "int (Suc n) \<le> workingDaysUpTo c (d + 1)" using workingDaysUpTo_step[OF wf, of d] d(2) by simp
    then show ?case by blast
  qed
  from this[of "nat k"] less show False by (metis int_nat_eq leD le_cases nat_le_0 of_nat_0 order_trans int_nat_eq not_less)
qed

lemma fromOrdinal_correct:
  assumes wf: "calendar_wf c" and pw: "perWeek c \<noteq> 0"
    and guess: "workingDaysUpTo c (ordinal_guess c k) \<le> k"
  shows "\<exists>d. fromOrdinal c k = Some (Inr d) \<and> isWorkingDay c d \<and> toOrdinal c d = k"
proof -
  obtain e where "k \<le> workingDaysUpTo c e" using working_days_unbounded[OF wf pw] by blast
  from cal.climb[OF wf guess this] obtain d where
    d: "while_option (\<lambda>d. workingDaysUpTo c d < k) (\<lambda>d. d + 1) (ordinal_guess c k) = Some d" "workingDaysUpTo c d = k"
    by blast
  obtain e' where "d \<le> e'" "isWorkingDay c e'" using working_day_exists[OF wf pw] by blast
  with search_up[of "\<lambda>d. \<not> isWorkingDay c d" e' d] obtain w where
    w: "nextWorkingDay c d = Some w" "isWorkingDay c w" "d \<le> w" "\<forall>x. d \<le> x \<and> x < w \<longrightarrow> \<not> isWorkingDay c x"
    unfolding nextWorkingDay_def by blast
  have "workingDaysUpTo c w = k" using cal.count_gap[OF wf w(3,4)] d(2) by simp
  then show ?thesis using w d(1) by (simp add: fromOrdinal_eq[OF wf pw] toOrdinal_def)
qed

lemma guess_below:
  assumes wf: "calendar_wf c" and pw: "perWeek c \<noteq> 0"
    and side: "0 \<le> k \<or> (\<forall>h\<in>set (holidayDays c). 0 \<le> h)"
  shows "workingDaysUpTo c (ordinal_guess c k) \<le> k"
proof -
  have "holiday_adj (ordinal_guess c k) h \<le> 0" if "h \<in> set (holidayDays c)" for h
  proof -
    have "0 \<le> k \<Longrightarrow> 0 \<le> ordinal_guess c k"
      using ordinal_guess(2)[OF wf pw, of k] perWeek_nonneg[OF wf] pw
      by (smt (verit) pos_imp_zdiv_nonneg_iff)
    with side that show ?thesis by (auto simp: holiday_adj_def)
  qed
  then have "sum_by (holiday_adj (ordinal_guess c k)) (holidayDays c) \<le> sum_by (\<lambda>_. 0) (holidayDays c)"
    by (rule sum_by_mono)
  moreover have "sum_by (\<lambda>_. 0) hs = 0" for hs :: "int list" by (induction hs) auto
  ultimately show ?thesis using ordinal_guess(1)[OF wf pw, of k] by (simp add: workingDaysUpTo_eq)
qed

text \<open>
  \<open>fromOrdinal\<close> terminates and inverts \<open>toOrdinal\<close>: for every ordinal of a calendar with a
  working day it returns a working day whose ordinal is the given one, and for every working
  day the ordinal leads back to the day. Ordinals before the epoch need the side condition that
  no holiday lies before the epoch; \<open>fromOrdinal_before_epoch\<close> shows what happens without it.
\<close>
theorem fromOrdinal_inverts_toOrdinal:
  assumes "createWorkCalendar we hs = Inr c" and "perWeek c \<noteq> 0"
    and "0 \<le> k \<or> (\<forall>h\<in>set (holidayDays c). 0 \<le> h)"
  shows "\<exists>d. fromOrdinal c k = Some (Inr d) \<and> isWorkingDay c d \<and> toOrdinal c d = k
           \<and> (\<forall>d'. isWorkingDay c d' \<and> toOrdinal c d' = k \<longrightarrow> d' = d)"
proof -
  note wf = createWorkCalendar_wf[OF assms(1)]
  obtain d where "fromOrdinal c k = Some (Inr d)" "isWorkingDay c d" "toOrdinal c d = k"
    using fromOrdinal_correct[OF wf assms(2) guess_below[OF wf assms(2,3)]] by blast
  then show ?thesis using cal.count_inj[OF wf] by (auto simp: toOrdinal_def)
qed

theorem fromOrdinal_inverts_toOrdinal_witness:
  "\<exists>d. fromOrdinal (mk_calendar [0, 6] [1]) 3 = Some (Inr d) \<and> isWorkingDay (mk_calendar [0, 6] [1]) d
     \<and> toOrdinal (mk_calendar [0, 6] [1]) d = 3
     \<and> (\<forall>d'. isWorkingDay (mk_calendar [0, 6] [1]) d' \<and> toOrdinal (mk_calendar [0, 6] [1]) d' = 3 \<longrightarrow> d' = d)"
proof -
  have c: "createWorkCalendar None (Some [''1970-01-02'']) = Inr (mk_calendar [0, 6] [1])" by code_simp
  have "perWeek (mk_calendar [0, 6] [1]) \<noteq> 0" by code_simp
  then show ?thesis by (intro fromOrdinal_inverts_toOrdinal[OF c]) simp_all
qed

text \<open>
  \<open>addWorkingDays\<close> moves by working days: from a day at or after the epoch (or on a calendar
  without earlier holidays) and a non-negative number of days it returns a working day that has
  exactly that many working days between the start and itself.
\<close>
theorem addWorkingDays_spec:
  assumes "createWorkCalendar we hs = Inr c" and "perWeek c \<noteq> 0"
    and "0 \<le> startDay \<or> (\<forall>h\<in>set (holidayDays c). 0 \<le> h)" and "0 \<le> n"
  shows "\<exists>d. addWorkingDays c startDay n = Some (Inr d) \<and> startDay \<le> d \<and> isWorkingDay c d
           \<and> card {x. startDay \<le> x \<and> x < d \<and> isWorkingDay c x} = nat (js_trunc n)"
proof -
  note wf = createWorkCalendar_wf[OF assms(1)]
  have n: "0 \<le> js_trunc n" using assms(4) by (simp add: js_trunc_def)
  have "0 \<le> startDay \<Longrightarrow> 0 \<le> toOrdinal c startDay"
    using cal.count_mono[OF wf, of 0 startDay] workingDaysUpTo_zero[OF wf] by (simp add: toOrdinal_def)
  then have "0 \<le> toOrdinal c startDay + js_trunc n \<or> (\<forall>h\<in>set (holidayDays c). 0 \<le> h)"
    using assms(3) n by auto
  from fromOrdinal_correct[OF wf assms(2) guess_below[OF wf assms(2) this]] obtain d where
    d: "addWorkingDays c startDay n = Some (Inr d)" "isWorkingDay c d" "toOrdinal c d = toOrdinal c startDay + js_trunc n"
    by (auto simp: addWorkingDays_def)
  have le: "startDay \<le> d"
  proof (rule ccontr)
    assume "\<not> startDay \<le> d"
    then have "toOrdinal c d < toOrdinal c startDay"
      using cal.count_less[OF wf d(2), of startDay] by (simp add: toOrdinal_def)
    with d(3) n show False by simp
  qed
  have "{x \<in> {startDay..<d}. isWorkingDay c x} = {x. startDay \<le> x \<and> x < d \<and> isWorkingDay c x}" by auto
  then have "int (card {x. startDay \<le> x \<and> x < d \<and> isWorkingDay c x}) = js_trunc n"
    using cal.count_interval[OF wf le] d(3) by (simp add: toOrdinal_def)
  with d le show ?thesis by (metis nat_int)
qed

theorem addWorkingDays_spec_witness:
  "\<exists>d. addWorkingDays (mk_calendar [0, 6] [1]) 0 1 = Some (Inr d) \<and> 0 \<le> d \<and> isWorkingDay (mk_calendar [0, 6] [1]) d
     \<and> card {x. 0 \<le> x \<and> x < d \<and> isWorkingDay (mk_calendar [0, 6] [1]) x} = nat (js_trunc 1)"
proof -
  have c: "createWorkCalendar None (Some [''1970-01-02'']) = Inr (mk_calendar [0, 6] [1])" by code_simp
  have "perWeek (mk_calendar [0, 6] [1]) \<noteq> 0" by code_simp
  then show ?thesis by (intro addWorkingDays_spec[OF c]) simp_all
qed

text \<open>
  With the Wednesday before the epoch (day -1) as a holiday, the Tuesday before it (day -2) is a
  working day, but its ordinal -1 leads to day 0: the guess of \<open>fromOrdinal\<close> assumes that holidays
  only ever push the answer later, which is wrong on the negative side.
\<close>
theorem fromOrdinal_before_epoch:
  "\<exists>c. createWorkCalendar None (Some [''1969-12-31'']) = Inr c \<and> isWorkingDay c (- 2)
     \<and> toOrdinal c (- 2) = - 1 \<and> fromOrdinal c (- 1) = Some (Inr 0)"
proof -
  have "createWorkCalendar None (Some [''1969-12-31'']) = Inr (mk_calendar [0, 6] [- 1])" by code_simp
  moreover have "isWorkingDay (mk_calendar [0, 6] [- 1]) (- 2)" by code_simp
  moreover have "toOrdinal (mk_calendar [0, 6] [- 1]) (- 2) = - 1" by code_simp
  moreover have "fromOrdinal (mk_calendar [0, 6] [- 1]) (- 1) = Some (Inr 0)" by code_simp
  ultimately show ?thesis by blast
qed

end
