(* ===== verification/Gantt_Graph.thy ===== *)
theory Gantt_Graph
  imports Dub_Errors "HOL-Library.While_Combinator"
begin

text \<open>
  \<open>packages/gantt-calc/src/graph.ts\<close> over the contract types of
  \<open>packages/types/src/gantt-calc.ts\<close>: the deterministic Kahn sort with its sorted ready list,
  the cycle report (Tarjan's strongly connected components) and the validator. The main loop of
  the sort is a \<open>while\<close>; \<open>kahn_result\<close> shows that it ends for every input.
\<close>

section \<open>Contract types\<close>

type_synonym task_id = string

datatype dep_kind = FS | SS | FF | SF

record gantt_task =
  task_id :: task_id
  startsAt :: "string option"
  endsAt :: "string option"
  durationDays :: rat

record gantt_dep =
  dep_taskId :: task_id
  dependsOnId :: task_id
  kind :: "dep_kind option"
  lagDays :: "rat option"

section \<open>Insertion into the ready list\<close>

function bsearch :: "task_id list \<Rightarrow> task_id \<Rightarrow> nat \<Rightarrow> nat \<Rightarrow> nat" where
  "bsearch arr v lo hi =
     (if lo < hi
      then let mid = (lo + hi) div 2
           in if arr ! mid < v then bsearch arr v (mid + 1) hi else bsearch arr v lo mid
      else lo)"
  by pat_completeness auto
termination
  by (relation "measure (\<lambda>(arr, v, lo, hi). hi - lo)") auto

declare bsearch.simps [simp del]

definition insertSorted :: "task_id list \<Rightarrow> task_id \<Rightarrow> task_id list" where
  "insertSorted arr v = (let lo = bsearch arr v 0 (length arr) in take lo arr @ v # drop lo arr)"

section \<open>Tarjan's components\<close>

record tarjan =
  tj_index :: nat
  tj_idx :: "task_id \<rightharpoonup> nat"
  tj_low :: "task_id \<rightharpoonup> nat"
  tj_stack :: "task_id list"      \<comment> \<open>top first\<close>
  tj_onStack :: "task_id list"
  tj_sccs :: "task_id list list"

definition tj_relax :: "task_id \<Rightarrow> nat \<Rightarrow> tarjan \<Rightarrow> tarjan" where
  \<comment> \<open>\<open>low.set(v, Math.min(low.get(v)!, x))\<close>\<close>
  "tj_relax v x st = st\<lparr>tj_low := (tj_low st)(v \<mapsto> min (the (tj_low st v)) x)\<rparr>"

definition tj_pop :: "task_id \<Rightarrow> tarjan \<Rightarrow> tarjan" where
  \<comment> \<open>the pop loop up to and including \<open>v\<close>, and the test on the component's size\<close>
  "tj_pop v st =
     (let above = takeWhile (\<lambda>w. w \<noteq> v) (tj_stack st);
          comp = above @ [v]
      in st\<lparr>tj_stack := drop (length comp) (tj_stack st),
            tj_onStack := filter (\<lambda>w. w \<notin> set comp) (tj_onStack st),
            tj_sccs := tj_sccs st @ (if 1 < length comp then [rev comp] else [])\<rparr>)"

fun fold_opt :: "('a \<Rightarrow> 's \<Rightarrow> 's option) \<Rightarrow> 'a list \<Rightarrow> 's \<Rightarrow> 's option" where
  "fold_opt f [] s = Some s"
| "fold_opt f (x # xs) s = (case f x s of None \<Rightarrow> None | Some s' \<Rightarrow> fold_opt f xs s')"

fun strongconnect :: "nat \<Rightarrow> (task_id \<rightharpoonup> task_id list) \<Rightarrow> task_id \<Rightarrow> tarjan \<Rightarrow> tarjan option" where
  "strongconnect 0 adj v st = None"
| "strongconnect (Suc fuel) adj v st =
     (let st1 = st\<lparr>tj_idx := (tj_idx st)(v \<mapsto> tj_index st), tj_low := (tj_low st)(v \<mapsto> tj_index st),
                   tj_index := Suc (tj_index st), tj_stack := v # tj_stack st, tj_onStack := v # tj_onStack st\<rparr>
      in case fold_opt (\<lambda>w s.
               if tj_idx s w = None
               then map_option (\<lambda>s'. tj_relax v (the (tj_low s' w)) s') (strongconnect fuel adj w s)
               else if w \<in> set (tj_onStack s) then Some (tj_relax v (the (tj_idx s w)) s)
               else Some s) (the (adj v)) st1 of
           None \<Rightarrow> None
         | Some st2 \<Rightarrow> Some (if tj_low st2 v = tj_idx st2 v then tj_pop v st2 else st2))"

definition adjacency :: "task_id list \<Rightarrow> gantt_dep list \<Rightarrow> (task_id \<rightharpoonup> task_id list)" where
  \<comment> \<open>the outgoing edges of every node, without self-loops, sorted\<close>
  "adjacency nodes deps =
     (\<lambda>v. if v \<in> set nodes
          then Some (sort (map dep_taskId
                 (filter (\<lambda>d. dependsOnId d = v \<and> dep_taskId d \<in> set nodes \<and> dep_taskId d \<noteq> v) deps)))
          else None)"

definition selfLoops :: "task_id list \<Rightarrow> gantt_dep list \<Rightarrow> task_id list list" where
  "selfLoops nodes deps =
     map (\<lambda>d. [dep_taskId d]) (filter (\<lambda>d. dependsOnId d = dep_taskId d \<and> dep_taskId d \<in> set nodes) deps)"

definition tj_start :: tarjan where
  "tj_start = \<lparr>tj_index = 0, tj_idx = Map.empty, tj_low = Map.empty, tj_stack = [], tj_onStack = [], tj_sccs = []\<rparr>"

definition findCycles :: "task_id list \<Rightarrow> gantt_dep list \<Rightarrow> task_id list list option" where
  "findCycles taskIds deps =
     (let nodes = sort (uniq taskIds)
      in map_option (\<lambda>st. selfLoops nodes deps @ tj_sccs st)
           (fold_opt (\<lambda>v st. if tj_idx st v = None then strongconnect (Suc (length nodes)) (adjacency nodes deps) v st
                            else Some st) nodes tj_start))"

definition cycles_of :: "task_id list \<Rightarrow> gantt_dep list \<Rightarrow> task_id list list" where
  "cycles_of taskIds deps = the (findCycles taskIds deps)"

section \<open>The sort\<close>

definition js_ids :: "task_id list \<Rightarrow> js" where
  "js_ids ids = JArr (map JStr ids)"

definition cycle_error :: "string \<Rightarrow> task_id list list \<Rightarrow> dub_error" where
  "cycle_error message cycles =
     DubError ''GANTT_CALC_DEPENDENCY_CYCLE'' message
       (no_options\<lparr>opt_status := Some 422, opt_details := JObj [(''cycles'', JArr (map js_ids cycles))]\<rparr>)"

type_synonym edge_maps = "(task_id \<rightharpoonup> task_id list) \<times> (task_id \<rightharpoonup> int)"

definition init_maps :: "task_id list \<Rightarrow> edge_maps" where
  "init_maps ids =
     ((\<lambda>v. if v \<in> set ids then Some [] else None), (\<lambda>v. if v \<in> set ids then Some 0 else None))"

fun build_maps :: "task_id list \<Rightarrow> gantt_dep list \<Rightarrow> edge_maps \<Rightarrow> dub_error + edge_maps" where
  "build_maps ids [] m = Inr m"
| "build_maps ids (d # ds) (successors, indegree) =
     (let p = dependsOnId d; t = dep_taskId d
      in if p \<notin> set ids \<or> t \<notin> set ids then build_maps ids ds (successors, indegree)
         else if p = t then Inl (cycle_error ''self-dependency'' [[t]])
         else build_maps ids ds
                (successors(p \<mapsto> the (successors p) @ [t]), indegree(t \<mapsto> the (indegree t) + 1)))"

type_synonym kahn_state = "task_id list \<times> (task_id \<rightharpoonup> int) \<times> task_id list"

fun release :: "task_id \<Rightarrow> task_id list \<times> (task_id \<rightharpoonup> int) \<Rightarrow> task_id list \<times> (task_id \<rightharpoonup> int)" where
  \<comment> \<open>one successor of the removed task loses a predecessor\<close>
  "release succ (ready, indegree) =
     (let d = the (indegree succ) - 1
      in (if d = 0 then insertSorted ready succ else ready, indegree(succ \<mapsto> d)))"

fun kahn_step :: "(task_id \<rightharpoonup> task_id list) \<Rightarrow> kahn_state \<Rightarrow> kahn_state" where
  "kahn_step successors (ready, indegree, order) =
     (case ready of
        [] \<Rightarrow> (ready, indegree, order)
      | v # rest \<Rightarrow>
          let (ready', indegree') = fold release (the (successors v)) (rest, indegree)
          in (ready', indegree', order @ [v]))"

definition kahn_start :: "task_id list \<Rightarrow> (task_id \<rightharpoonup> int) \<Rightarrow> kahn_state" where
  "kahn_start ids indegree = (sort (filter (\<lambda>v. indegree v = Some 0) ids), indegree, [])"

definition kahn :: "task_id list \<Rightarrow> edge_maps \<Rightarrow> kahn_state" where
  "kahn ids m = while (\<lambda>(ready, _, _). ready \<noteq> []) (kahn_step (fst m)) (kahn_start ids (snd m))"

definition topologicalSort :: "task_id list \<Rightarrow> gantt_dep list \<Rightarrow> dub_error + task_id list" where
  "topologicalSort taskIds deps =
     (let ids = uniq taskIds
      in try_bind (build_maps ids deps (init_maps ids))
           (\<lambda>m. let (_, _, order) = kahn ids m
                in if length order \<noteq> length ids
                   then Inl (cycle_error ''dependency cycle detected''
                          (cycles_of (filter (\<lambda>v. v \<notin> set order) ids) deps))
                   else Inr order))"

section \<open>The validator\<close>

record validation =
  valid :: bool
  cycles :: "task_id list list"
  unknownTaskIds :: "task_id list"

fun unknown_refs :: "task_id list \<Rightarrow> gantt_dep list \<Rightarrow> task_id list \<Rightarrow> task_id list" where
  \<comment> \<open>the loop that adds both ends of a dependency to the set \<open>unknown\<close>\<close>
  "unknown_refs known [] acc = acc"
| "unknown_refs known (d # ds) acc =
     (let acc1 = (if dep_taskId d \<notin> set known \<and> dep_taskId d \<notin> set acc then acc @ [dep_taskId d] else acc);
          acc2 = (if dependsOnId d \<notin> set known \<and> dependsOnId d \<notin> set acc1 then acc1 @ [dependsOnId d] else acc1)
      in unknown_refs known ds acc2)"

definition validateDependencies :: "task_id list \<Rightarrow> gantt_dep list \<Rightarrow> validation" where
  "validateDependencies taskIds deps =
     (let unknown = unknown_refs taskIds deps []; cs = cycles_of taskIds deps
      in \<lparr>valid = (cs = [] \<and> unknown = []), cycles = cs, unknownTaskIds = sort unknown\<rparr>)"

section \<open>Binary insertion is sorted insertion\<close>

lemma bsearch_bounds: "lo \<le> hi \<Longrightarrow> lo \<le> bsearch arr v lo hi \<and> bsearch arr v lo hi \<le> hi"
proof (induction arr v lo hi rule: bsearch.induct)
  case (1 arr v lo hi)
  show ?case
  proof (cases "lo < hi")
    case True
    define mid where "mid = (lo + hi) div 2"
    have "lo \<le> mid" "mid < hi" using True by (simp_all add: mid_def)
    then show ?thesis
      using "1.IH"(1)[OF True mid_def] "1.IH"(2)[OF True mid_def] True
      by (subst (1 2) bsearch.simps) (auto simp: Let_def mid_def[symmetric])
  next
    case False
    with "1.prems" show ?thesis by (subst (1 2) bsearch.simps) simp
  qed
qed

lemma bsearch_splits:
  assumes "sorted arr"
  shows "lo \<le> hi \<Longrightarrow> hi \<le> length arr \<Longrightarrow> \<forall>i<lo. arr ! i < v \<Longrightarrow> \<forall>i. hi \<le> i \<and> i < length arr \<longrightarrow> v \<le> arr ! i \<Longrightarrow>
    (\<forall>i < bsearch arr v lo hi. arr ! i < v) \<and> (\<forall>i. bsearch arr v lo hi \<le> i \<and> i < length arr \<longrightarrow> v \<le> arr ! i)"
  using assms
proof (induction arr v lo hi rule: bsearch.induct)
  case (1 arr v lo hi)
  show ?case
  proof (cases "lo < hi")
    case False
    with "1.prems" show ?thesis by (subst (1 2) bsearch.simps) auto
  next
    case True
    define mid where "mid = (lo + hi) div 2"
    have mid: "lo \<le> mid" "mid < hi" using True by (simp_all add: mid_def)
    show ?thesis
    proof (cases "arr ! mid < v")
      case left: True
      have "\<forall>i < mid + 1. arr ! i < v"
      proof (intro allI impI)
        fix i assume "i < mid + 1"
        then have "arr ! i \<le> arr ! mid" using mid "1.prems"(2,5) by (intro sorted_nth_mono) auto
        with left show "arr ! i < v" by simp
      qed
      note ih = "1.IH"(1)[OF True mid_def left _ "1.prems"(2) this "1.prems"(4,5)]
      have "bsearch arr v lo hi = bsearch arr v (mid + 1) hi"
        using True left by (subst bsearch.simps) (simp add: Let_def mid_def)
      with ih mid show ?thesis by simp
    next
      case right: False
      have "\<forall>i. mid \<le> i \<and> i < length arr \<longrightarrow> v \<le> arr ! i"
      proof (intro allI impI)
        fix i assume "mid \<le> i \<and> i < length arr"
        then have "arr ! mid \<le> arr ! i" using "1.prems"(5) by (intro sorted_nth_mono) auto
        with right show "v \<le> arr ! i" by simp
      qed
      note ih = "1.IH"(2)[OF True mid_def right mid(1) _ "1.prems"(3) this "1.prems"(5)]
      have "bsearch arr v lo hi = bsearch arr v lo mid"
        using True right by (subst bsearch.simps) (simp add: Let_def mid_def)
      with ih mid "1.prems"(2) show ?thesis by simp
    qed
  qed
qed

lemma insertSorted_insort:
  assumes "sorted arr"
  shows "insertSorted arr v = insort v arr"
proof -
  define k where "k = bsearch arr v 0 (length arr)"
  have k: "k \<le> length arr" using bsearch_bounds[of 0 "length arr" arr v] by (simp add: k_def)
  have vac: "\<forall>i. length arr \<le> i \<and> i < length arr \<longrightarrow> v \<le> arr ! i" by auto
  have s: "\<forall>i<k. arr ! i < v" "\<forall>i. k \<le> i \<and> i < length arr \<longrightarrow> v \<le> arr ! i"
    using bsearch_splits[OF assms le0 order_refl _ vac] unfolding k_def by simp_all
  have "\<forall>x\<in>set (take k arr). x \<le> v" using s(1) k by (auto simp: in_set_conv_nth less_imp_le)
  moreover have "\<forall>x\<in>set (drop k arr). v \<le> x" using s(2) k by (auto simp: in_set_conv_nth)
  moreover have "\<forall>x\<in>set (take k arr). \<forall>y\<in>set (drop k arr). x \<le> y"
    using calculation by (blast intro: order_trans)
  ultimately have "sorted (take k arr @ v # drop k arr)"
    using assms by (auto simp: sorted_append sorted_wrt_take sorted_wrt_drop)
  moreover have "mset (take k arr) + mset (drop k arr) = mset arr"
    unfolding mset_append[symmetric] by simp
  then have "mset (take k arr @ v # drop k arr) = mset (insort v arr)" by simp
  moreover have "sorted (insort v arr)" using assms by (simp add: sorted_insort)
  ultimately show ?thesis
    unfolding insertSorted_def k_def[symmetric] Let_def by (metis properties_for_sort)
qed

section \<open>The edges the sort sees\<close>

definition edges :: "task_id list \<Rightarrow> gantt_dep list \<Rightarrow> (task_id \<times> task_id) list" where
  "edges ids deps =
     map (\<lambda>d. (dependsOnId d, dep_taskId d)) (filter (\<lambda>d. dependsOnId d \<in> set ids \<and> dep_taskId d \<in> set ids) deps)"

definition outs :: "(task_id \<times> task_id) list \<Rightarrow> task_id \<Rightarrow> task_id list" where
  "outs E u = map snd (filter (\<lambda>e. fst e = u) E)"

definition pending_in :: "(task_id \<times> task_id) list \<Rightarrow> task_id list \<Rightarrow> task_id \<Rightarrow> nat" where
  \<comment> \<open>edges into a task from tasks that are not done\<close>
  "pending_in E done v = length (filter (\<lambda>e. snd e = v \<and> fst e \<notin> set done) E)"

lemma edges_Nil [simp]: "edges ids [] = []"
  by (simp add: edges_def)

lemma edges_Cons: "edges ids (d # ds) =
    (if dependsOnId d \<in> set ids \<and> dep_taskId d \<in> set ids then [(dependsOnId d, dep_taskId d)] else []) @ edges ids ds"
  by (simp add: edges_def)

lemma edges_in: "(u, v) \<in> set (edges ids deps) \<Longrightarrow> u \<in> set ids \<and> v \<in> set ids"
  by (auto simp: edges_def)

lemma build_maps_Inr:
  assumes "build_maps ids deps (succs, indeg) = Inr (succs', indeg')"
    and "\<forall>v\<in>set ids. succs v \<noteq> None \<and> indeg v \<noteq> None"
  shows "(\<forall>v\<in>set ids. succs' v = Some (the (succs v) @ outs (edges ids deps) v))
    \<and> (\<forall>v\<in>set ids. indeg' v = Some (the (indeg v) + int (pending_in (edges ids deps) [] v)))
    \<and> (\<forall>v. (v, v) \<notin> set (edges ids deps))"
  using assms
proof (induction deps arbitrary: succs indeg)
  case Nil
  then show ?case by (auto simp: outs_def pending_in_def)
next
  case (Cons d ds)
  show ?case
  proof (cases "dependsOnId d \<in> set ids \<and> dep_taskId d \<in> set ids")
    case False
    then have "build_maps ids ds (succs, indeg) = Inr (succs', indeg')" and "edges ids (d # ds) = edges ids ds"
      using Cons.prems(1) by (auto simp: Let_def edges_Cons)
    with Cons.IH[OF _ Cons.prems(2)] show ?thesis by simp
  next
    case True
    then have ne: "dependsOnId d \<noteq> dep_taskId d" using Cons.prems(1) by (auto simp: Let_def)
    define s1 where "s1 = succs(dependsOnId d \<mapsto> the (succs (dependsOnId d)) @ [dep_taskId d])"
    define i1 where "i1 = indeg(dep_taskId d \<mapsto> the (indeg (dep_taskId d)) + 1)"
    have "build_maps ids ds (s1, i1) = Inr (succs', indeg')"
      using Cons.prems(1) True ne by (simp add: Let_def s1_def i1_def)
    moreover have "\<forall>v\<in>set ids. s1 v \<noteq> None \<and> i1 v \<noteq> None"
      using Cons.prems(2) by (simp add: s1_def i1_def)
    ultimately have IH: "(\<forall>v\<in>set ids. succs' v = Some (the (s1 v) @ outs (edges ids ds) v))
      \<and> (\<forall>v\<in>set ids. indeg' v = Some (the (i1 v) + int (pending_in (edges ids ds) [] v)))
      \<and> (\<forall>v. (v, v) \<notin> set (edges ids ds))"
      by (rule Cons.IH)
    have "outs (edges ids (d # ds)) v = (if v = dependsOnId d then [dep_taskId d] else []) @ outs (edges ids ds) v" for v
      using True by (simp add: edges_Cons outs_def)
    moreover have "pending_in (edges ids (d # ds)) [] v = (if v = dep_taskId d then 1 else 0) + pending_in (edges ids ds) [] v" for v
      using True by (simp add: edges_Cons pending_in_def)
    ultimately have "\<forall>v\<in>set ids. succs' v = Some (the (succs v) @ outs (edges ids (d # ds)) v)"
      and "\<forall>v\<in>set ids. indeg' v = Some (the (indeg v) + int (pending_in (edges ids (d # ds)) [] v))"
      using IH by (simp_all add: s1_def i1_def)
    moreover have "\<forall>v. (v, v) \<notin> set (edges ids (d # ds))"
      using IH ne by (auto simp: edges_Cons)
    ultimately show ?thesis by blast
  qed
qed

lemma build_maps_Inl:
  "(\<exists>e. build_maps ids deps m = Inl e) \<longleftrightarrow> (\<exists>v. (v, v) \<in> set (edges ids deps))"
proof (induction deps arbitrary: m)
  case (Cons d ds)
  obtain s i where m: "m = (s, i)" by fastforce
  show ?case unfolding m by (auto simp: Let_def edges_Cons Cons.IH)
qed simp

lemma build_maps_error:
  "build_maps ids deps (succs, indeg) = Inl e \<Longrightarrow> \<exists>m cs. e = cycle_error m cs"
  by (induction deps arbitrary: succs indeg) (auto simp: Let_def split: if_splits)

lemma init_maps_simps:
  "v \<in> set ids \<Longrightarrow> fst (init_maps ids) v = Some [] \<and> snd (init_maps ids) v = Some 0"
  by (simp add: init_maps_def)

section \<open>The loop\<close>

text \<open>
  Releasing the successors of a finished task, one by one and with their multiplicities: the
  counts drop by the number of edges, and a task joins the ready list exactly when its last
  open edge goes.
\<close>

lemma fold_release:
  assumes "\<forall>w\<in>set ss. indeg w = Some (f w) \<and> int (count_list ss w) \<le> f w"
    and "sorted ready" "distinct ready" "set ss \<inter> set ready = {}"
    and "fold release ss (ready, indeg) = (ready', indeg')"
  shows "sorted ready' \<and> distinct ready'
    \<and> set ready' = set ready \<union> {w \<in> set ss. f w = int (count_list ss w)}
    \<and> (\<forall>w. indeg' w = (if w \<in> set ss then Some (f w - int (count_list ss w)) else indeg w))"
  using assms
proof (induction ss arbitrary: ready indeg f)
  case Nil
  then show ?case by simp
next
  case (Cons s ss)
  define d where "d = f s - 1"
  define f1 where "f1 = f(s := d)"
  define i1 where "i1 = indeg(s \<mapsto> d)"
  define r1 where "r1 = (if d = 0 then insort s ready else ready)"
  have fs: "indeg s = Some (f s)" "1 + int (count_list ss s) \<le> f s" using Cons.prems(1) by auto
  have step: "fold release ss (r1, i1) = (ready', indeg')"
    using Cons.prems(5) fs by (auto simp: Let_def d_def r1_def i1_def insertSorted_insort[OF Cons.prems(2)] split: if_splits)
  have last: "d = 0 \<Longrightarrow> s \<notin> set ss" using fs(2) by (simp add: d_def count_list_0_iff)
  have "\<forall>w\<in>set ss. i1 w = Some (f1 w) \<and> int (count_list ss w) \<le> f1 w"
    using Cons.prems(1) fs by (auto simp: i1_def f1_def d_def split: if_splits)
  moreover have "sorted r1" "distinct r1" "set ss \<inter> set r1 = {}"
    using Cons.prems(2-4) last by (auto simp: r1_def sorted_insort distinct_insort set_insort_key)
  ultimately have IH: "sorted ready' \<and> distinct ready'
    \<and> set ready' = set r1 \<union> {w \<in> set ss. f1 w = int (count_list ss w)}
    \<and> (\<forall>w. indeg' w = (if w \<in> set ss then Some (f1 w - int (count_list ss w)) else i1 w))"
    using Cons.IH[OF _ _ _ _ step] by blast
  have "set r1 \<union> {w \<in> set ss. f1 w = int (count_list ss w)} =
      set ready \<union> {w \<in> set (s # ss). f w = int (count_list (s # ss) w)}"
    using last fs(2) by (auto simp: r1_def f1_def d_def set_insort_key count_list_0_iff split: if_splits)
  moreover have "(if w \<in> set ss then Some (f1 w - int (count_list ss w)) else i1 w) =
      (if w \<in> set (s # ss) then Some (f w - int (count_list (s # ss) w)) else indeg w)" for w
    by (auto simp: f1_def i1_def d_def count_list_0_iff)
  ultimately show ?case using IH by simp
qed

definition preds_done :: "(task_id \<times> task_id) list \<Rightarrow> task_id list \<Rightarrow> task_id \<Rightarrow> bool" where
  "preds_done E done v \<longleftrightarrow> (\<forall>u. (u, v) \<in> set E \<longrightarrow> u \<in> set done)"

definition least_ready :: "task_id list \<Rightarrow> (task_id \<times> task_id) list \<Rightarrow> task_id list \<Rightarrow> task_id \<Rightarrow> bool" where
  "least_ready ids E done v \<longleftrightarrow>
     v \<in> set ids \<and> v \<notin> set done \<and> preds_done E done v
     \<and> (\<forall>w\<in>set ids. w \<notin> set done \<and> preds_done E done w \<longrightarrow> v \<le> w)"

lemma pending_in_0: "pending_in E done v = 0 \<longleftrightarrow> preds_done E done v"
  by (auto simp: pending_in_def preds_done_def filter_empty_conv)

lemma pending_in_snoc:
  "v \<notin> set done \<Longrightarrow> pending_in E (done @ [v]) w + count_list (outs E v) w = pending_in E done w"
  by (induction E) (auto simp: pending_in_def outs_def)

fun kahn_inv :: "task_id list \<Rightarrow> (task_id \<times> task_id) list \<Rightarrow> kahn_state \<Rightarrow> bool" where
  "kahn_inv ids E (ready, indeg, order) \<longleftrightarrow>
     sorted ready \<and> distinct ready \<and> distinct order \<and> set order \<inter> set ready = {}
     \<and> set order \<union> set ready \<subseteq> set ids
     \<and> (\<forall>v\<in>set ids. indeg v = Some (int (pending_in E order v)))
     \<and> (\<forall>v\<in>set ids. v \<in> set order \<union> set ready \<longleftrightarrow> preds_done E order v)
     \<and> (\<forall>i<length order. least_ready ids E (take i order) (order ! i))"

lemma kahn_inv_step:
  assumes E: "set E \<subseteq> set ids \<times> set ids" and loops: "\<forall>v. (v, v) \<notin> set E"
    and succs: "\<forall>v\<in>set ids. succs v = Some (outs E v)"
    and inv: "kahn_inv ids E (v # rest, indeg, order)"
  shows "kahn_inv ids E (kahn_step succs (v # rest, indeg, order))"
proof -
  obtain ready' indeg' where fr: "fold release (outs E v) (rest, indeg) = (ready', indeg')" by fastforce
  have v: "v \<in> set ids" "v \<notin> set order" "v \<notin> set rest" "preds_done E order v" using inv by auto
  have outs_iff: "w \<in> set (outs E v) \<longleftrightarrow> (v, w) \<in> set E" for w
    by (force simp: outs_def)
  then have outs_in: "set (outs E v) \<subseteq> set ids" using E by auto
  have pend: "pending_in E (order @ [v]) w + count_list (outs E v) w = pending_in E order w" for w
    by (rule pending_in_snoc) (rule v)
  have fresh: "w \<notin> set order \<union> set (v # rest)" if "(v, w) \<in> set E" for w
  proof -
    have "\<not> preds_done E order w" using that v(2) by (auto simp: preds_done_def)
    moreover have "w \<in> set ids" using that E by auto
    ultimately show ?thesis using inv by (auto simp del: set_simps)
  qed
  have "\<forall>w\<in>set (outs E v). indeg w = Some (int (pending_in E order w)) \<and> int (count_list (outs E v) w) \<le> int (pending_in E order w)"
    using inv outs_in pend by (metis (no_types, lifting) kahn_inv.simps le_add2 of_nat_mono subsetD)
  moreover have "sorted rest" "distinct rest" using inv by simp_all
  moreover have "set (outs E v) \<inter> set rest = {}" using fresh outs_iff by fastforce
  ultimately have R: "sorted ready' \<and> distinct ready'
    \<and> set ready' = set rest \<union> {w \<in> set (outs E v). int (pending_in E order w) = int (count_list (outs E v) w)}
    \<and> (\<forall>w. indeg' w = (if w \<in> set (outs E v) then Some (int (pending_in E order w) - int (count_list (outs E v) w)) else indeg w))"
    using fold_release[OF _ _ _ _ fr, of "\<lambda>w. int (pending_in E order w)"] by blast
  have ready': "set ready' = set rest \<union> {w. (v, w) \<in> set E \<and> preds_done E (order @ [v]) w}"
  proof -
    have "pending_in E order w = count_list (outs E v) w \<longleftrightarrow> preds_done E (order @ [v]) w" for w
      using pend[of w] by (simp add: pending_in_0[symmetric]) linarith
    then show ?thesis using R outs_iff by auto
  qed
  have indeg': "\<forall>w\<in>set ids. indeg' w = Some (int (pending_in E (order @ [v]) w))"
  proof
    fix w assume w: "w \<in> set ids"
    have i: "indeg w = Some (int (pending_in E order w))" using inv w by simp
    show "indeg' w = Some (int (pending_in E (order @ [v]) w))"
    proof (cases "w \<in> set (outs E v)")
      case True
      then show ?thesis using R pend[of w] by auto
    next
      case False
      then have "count_list (outs E v) w = 0" by (simp add: count_list_0_iff)
      then show ?thesis using R False i pend[of w] by simp
    qed
  qed
  have done': "w \<in> set (order @ [v]) \<union> set ready' \<longleftrightarrow> preds_done E (order @ [v]) w" if w: "w \<in> set ids" for w
  proof -
    have old: "w \<in> set order \<union> set (v # rest) \<longleftrightarrow> preds_done E order w" using inv w by simp
    have "preds_done E (order @ [v]) w \<longleftrightarrow> preds_done E order w \<or> (v, w) \<in> set E \<and> preds_done E (order @ [v]) w"
      by (auto simp: preds_done_def)
    then show ?thesis using old ready' by auto
  qed
  have least: "least_ready ids E order v"
    unfolding least_ready_def
  proof (intro conjI ballI impI)
    fix w assume "w \<in> set ids" "w \<notin> set order \<and> preds_done E order w"
    then have "w \<in> set (v # rest)" using inv by auto
    then show "v \<le> w" using inv by auto
  qed (use v in auto)
  have "\<forall>i<length (order @ [v]). least_ready ids E (take i (order @ [v])) ((order @ [v]) ! i)"
    using inv least by (auto simp: nth_append less_Suc_eq)
  moreover have "set (order @ [v]) \<inter> set ready' = {}"
  proof -
    have "set order \<inter> set rest = {}" using inv by auto
    moreover have "w \<notin> set (order @ [v])" if "(v, w) \<in> set E" for w using fresh[OF that] loops that by auto
    ultimately show ?thesis using ready' v(3) by auto
  qed
  moreover have "set (order @ [v]) \<union> set ready' \<subseteq> set ids" using inv ready' E by auto
  ultimately have "kahn_inv ids E (ready', indeg', order @ [v])"
    using R indeg' done' inv v(2) by (simp only: kahn_inv.simps distinct_append) auto
  then show ?thesis using succs v(1) fr by simp
qed

lemma kahn_inv_start:
  assumes "distinct ids" "set E \<subseteq> set ids \<times> set ids"
    and "\<forall>v\<in>set ids. indeg v = Some (int (pending_in E [] v))"
  shows "kahn_inv ids E (kahn_start ids indeg)"
  using assms by (auto simp: kahn_start_def pending_in_0)

lemma kahn_loop:
  assumes E: "set E \<subseteq> set ids \<times> set ids" and loops: "\<forall>v. (v, v) \<notin> set E"
    and succs: "\<forall>v\<in>set ids. succs v = Some (outs E v)"
    and start: "kahn_inv ids E s"
  shows "\<exists>indeg order. while_option (\<lambda>(ready, _, _). ready \<noteq> []) (kahn_step succs) s = Some ([], indeg, order)
    \<and> kahn_inv ids E ([], indeg, order)"
proof -
  let ?b = "\<lambda>(ready :: task_id list, _ :: task_id \<rightharpoonup> int, _ :: task_id list). ready \<noteq> []"
  let ?f = "\<lambda>(_ :: task_id list, _ :: task_id \<rightharpoonup> int, order :: task_id list). length ids - length order"
  have step: "kahn_inv ids E (kahn_step succs t) \<and> ?f (kahn_step succs t) < ?f t"
    if pre: "kahn_inv ids E t" "?b t" for t
  proof -
    obtain v rest indeg order where t: "t = (v # rest, indeg, order)"
      using pre(2) by (cases t) (auto simp: neq_Nil_conv)
    have inv: "kahn_inv ids E (kahn_step succs t)"
      unfolding t by (rule kahn_inv_step[OF E loops succs]) (use pre t in simp)
    obtain ready' indeg' where k: "kahn_step succs t = (ready', indeg', order @ [v])"
      unfolding t by (cases "fold release (the (succs v)) (rest, indeg)") auto
    have "distinct (order @ [v])" "set (order @ [v]) \<subseteq> set ids" using inv k by auto
    then have "length (order @ [v]) \<le> card (set ids)" by (metis card_mono distinct_card finite_set)
    also have "\<dots> \<le> length ids" by (rule card_length)
    finally show ?thesis using inv unfolding k by (simp add: t)
  qed
  obtain t where t: "while_option ?b (kahn_step succs) s = Some t"
    using measure_while_option_Some[where P = "kahn_inv ids E" and f = ?f, OF step start] by blast
  have "kahn_inv ids E t"
    by (rule while_option_rule[where P = "kahn_inv ids E", OF _ t start]) (use step in blast)
  moreover have "\<not> ?b t" by (rule while_option_stop[OF t])
  ultimately show ?thesis using t by (cases t) auto
qed

lemma edges_uniq: "set (edges (uniq ids) deps) = set (edges ids deps)"
  by (auto simp: edges_def)

definition edge_rel :: "task_id list \<Rightarrow> gantt_dep list \<Rightarrow> task_id rel" where
  "edge_rel ids deps = {(u, v). u \<in> set ids \<and> v \<in> set ids \<and> (\<exists>d\<in>set deps. dependsOnId d = u \<and> dep_taskId d = v)}"

lemma edge_rel_edges: "edge_rel ids deps = set (edges ids deps)"
  by (auto simp: edge_rel_def edges_def)

text \<open>Whatever the dependencies, the loop of the sort ends, and in a state its invariant describes.\<close>

lemma kahn_result:
  assumes "build_maps (uniq taskIds) deps (init_maps (uniq taskIds)) = Inr m"
  shows "\<exists>indeg order. kahn (uniq taskIds) m = ([], indeg, order)
    \<and> while_option (\<lambda>(ready, _, _). ready \<noteq> []) (kahn_step (fst m)) (kahn_start (uniq taskIds) (snd m)) \<noteq> None
    \<and> kahn_inv (uniq taskIds) (edges (uniq taskIds) deps) ([], indeg, order)"
proof -
  let ?ids = "uniq taskIds" and ?E = "edges (uniq taskIds) deps"
  obtain s i where m: "m = (s, i)" by fastforce
  obtain s0 i0 where im: "init_maps ?ids = (s0, i0)" by fastforce
  have s0: "\<forall>v\<in>set ?ids. s0 v = Some [] \<and> i0 v = Some 0" using init_maps_simps[of _ ?ids] im by auto
  have "(\<forall>v\<in>set ?ids. s v = Some (the (s0 v) @ outs ?E v))
    \<and> (\<forall>v\<in>set ?ids. i v = Some (the (i0 v) + int (pending_in ?E [] v))) \<and> (\<forall>v. (v, v) \<notin> set ?E)"
    by (rule build_maps_Inr) (use assms m im s0 in auto)
  then have B: "\<forall>v\<in>set ?ids. s v = Some (outs ?E v)" "\<forall>v\<in>set ?ids. i v = Some (int (pending_in ?E [] v))"
    "\<forall>v. (v, v) \<notin> set ?E" using s0 by simp_all
  have E: "set ?E \<subseteq> set ?ids \<times> set ?ids" using edges_in by fastforce
  have "kahn_inv ?ids ?E (kahn_start ?ids i)" by (rule kahn_inv_start[OF distinct_uniq E B(2)])
  from kahn_loop[OF E B(3,1) this] show ?thesis
    by (auto simp: kahn_def m while_def)
qed

text \<open>Tasks that the loop leaves behind all wait for one another.\<close>

lemma leftover_cyclic:
  assumes inv: "kahn_inv ids E ([], indeg, order)" and E: "set E \<subseteq> set ids \<times> set ids"
    and left: "set order \<noteq> set ids"
  shows "\<not> acyclic (set E)"
proof
  assume "acyclic (set E)"
  then have wf: "wf (set E)" by (intro finite_acyclic_wf) simp_all
  obtain v where v: "v \<in> set ids - set order" using inv left by auto
  obtain x where x: "x \<in> set ids - set order" "\<forall>y. (y, x) \<in> set E \<longrightarrow> y \<notin> set ids - set order"
    using wfE_min[OF wf v] by metis
  then have "preds_done E order x" using E by (auto simp: preds_done_def)
  then show False using inv x(1) by auto
qed

lemma least_ready_before:
  assumes "\<forall>i<length order. least_ready ids E (take i order) (order ! i)"
    and "(u, v) \<in> set E" "v \<in> set order"
  shows "\<exists>i j. i < j \<and> j < length order \<and> order ! i = u \<and> order ! j = v"
proof -
  obtain j where j: "j < length order" "order ! j = v" using assms(3) by (auto simp: in_set_conv_nth)
  then have "u \<in> set (take j order)" using assms(1,2) by (auto simp: least_ready_def preds_done_def)
  then obtain i where "i < j" "order ! i = u" using j(1) by (auto simp: in_set_conv_nth)
  with j show ?thesis by blast
qed

lemma ordered_acyclic:
  assumes "distinct order" "E \<subseteq> set order \<times> set order"
    and "\<And>u v. (u, v) \<in> E \<Longrightarrow> \<exists>i j. i < j \<and> j < length order \<and> order ! i = u \<and> order ! j = v"
  shows "acyclic E"
proof -
  define idx where "idx = the_inv_into {..<length order} (nth order)"
  have inj: "inj_on (nth order) {..<length order}" using assms(1) by (simp add: inj_on_nth)
  have "idx u < idx v" if uv: "(u, v) \<in> E" for u v
  proof -
    obtain i j where "i < j" "j < length order" "order ! i = u" "order ! j = v" using assms(3)[OF uv] by blast
    moreover have "idx (order ! k) = k" if "k < length order" for k
      using the_inv_into_f_f[OF inj, of k] that by (simp add: idx_def)
    ultimately show ?thesis by force
  qed
  then have "E \<subseteq> measure idx" by auto
  then show ?thesis using wf_acyclic[OF wf_subset[OF wf_measure]] by blast
qed

lemma topologicalSort_cases:
  "(\<exists>order. topologicalSort taskIds deps = Inr order \<and> acyclic (edge_rel taskIds deps)
      \<and> distinct order \<and> set order = set taskIds
      \<and> (\<forall>i<length order. least_ready taskIds (edges taskIds deps) (take i order) (order ! i)))
   \<or> (\<exists>e. topologicalSort taskIds deps = Inl e \<and> \<not> acyclic (edge_rel taskIds deps))"
proof (cases "build_maps (uniq taskIds) deps (init_maps (uniq taskIds))")
  case (Inl e)
  then obtain v where "(v, v) \<in> set (edges (uniq taskIds) deps)" using build_maps_Inl by blast
  then have "(v, v) \<in> edge_rel taskIds deps" by (simp add: edge_rel_edges edges_uniq)
  then have "\<not> acyclic (edge_rel taskIds deps)" by (auto simp: acyclic_def)
  moreover have "topologicalSort taskIds deps = Inl e" by (simp add: topologicalSort_def Inl)
  ultimately show ?thesis by blast
next
  case (Inr m)
  let ?E = "edges (uniq taskIds) deps"
  obtain indeg order where k: "kahn (uniq taskIds) m = ([], indeg, order)"
    and inv: "kahn_inv (uniq taskIds) ?E ([], indeg, order)"
    using kahn_result[OF Inr] by blast
  have E: "set ?E \<subseteq> set (uniq taskIds) \<times> set (uniq taskIds)" using edges_in by fastforce
  have ET: "set ?E = edge_rel taskIds deps" by (simp add: edge_rel_edges edges_uniq)
  have len: "length order = length (uniq taskIds) \<longleftrightarrow> set order = set taskIds"
  proof -
    have "set order \<subseteq> set taskIds" "distinct order" using inv by auto
    then show ?thesis
      using card_subset_eq[of "set taskIds" "set order"] distinct_card[of order] distinct_card[of "uniq taskIds"]
      by auto
  qed
  have lr: "\<forall>i<length order. least_ready taskIds (edges taskIds deps) (take i order) (order ! i)"
    using inv by (auto simp: least_ready_def preds_done_def edges_uniq)
  show ?thesis
  proof (cases "set order = set taskIds")
    case True
    have "acyclic (edge_rel taskIds deps)"
    proof (rule ordered_acyclic)
      show "distinct order" using inv by simp
      show "edge_rel taskIds deps \<subseteq> set order \<times> set order" using True by (auto simp: edge_rel_def)
      show "\<exists>i j. i < j \<and> j < length order \<and> order ! i = u \<and> order ! j = v" if "(u, v) \<in> edge_rel taskIds deps" for u v
        using least_ready_before[OF lr, of u v] that True by (auto simp: edge_rel_edges dest: edges_in)
    qed
    then show ?thesis using True len inv lr by (simp add: topologicalSort_def Inr k)
  next
    case False
    then have "\<not> acyclic (edge_rel taskIds deps)"
      using leftover_cyclic[OF inv E] ET by simp
    then show ?thesis using False len by (simp add: topologicalSort_def Inr k)
  qed
qed

text \<open>Two lists that always take the least ready task of the same graph are the same list.\<close>

lemma least_ready_unique:
  assumes "\<forall>i<length xs. least_ready ids E (take i xs) (xs ! i)"
    and "\<forall>i<length ys. least_ready ids' E' (take i ys) (ys ! i)"
    and "set ids = set ids'" "set E = set E'" "length xs = length ys"
  shows "xs = ys"
proof -
  have pd: "preds_done E D v = preds_done E' D v" for D v using assms(4) by (simp add: preds_done_def)
  have "take n xs = take n ys" if "n \<le> length xs" for n
    using that
  proof (induction n)
    case (Suc n)
    then have n: "n < length xs" "n < length ys" and eq: "take n xs = take n ys" using assms(5) by auto
    have "least_ready ids E (take n xs) (xs ! n)" "least_ready ids' E' (take n xs) (ys ! n)"
      using assms(1,2) n eq by auto
    then have "xs ! n = ys ! n"
      using assms(3) by (intro order_antisym) (simp_all add: least_ready_def pd)
    with n eq show ?case by (simp add: take_Suc_conv_app_nth)
  qed simp
  from this[of "length xs"] show ?thesis using assms(5) by simp
qed

section \<open>The fuel of the cycle search is enough\<close>

definition unvisited :: "task_id list \<Rightarrow> tarjan \<Rightarrow> nat" where
  "unvisited nodes st = card {w \<in> set nodes. tj_idx st w = None}"

lemma tj_idx_relax [simp]: "tj_idx (tj_relax v x st) = tj_idx st"
  by (simp add: tj_relax_def)

lemma tj_idx_pop [simp]: "tj_idx (tj_pop v st) = tj_idx st"
  by (simp add: tj_pop_def Let_def)

lemma unvisited_mono: "dom (tj_idx s) \<subseteq> dom (tj_idx t) \<Longrightarrow> unvisited nodes t \<le> unvisited nodes s"
  unfolding unvisited_def by (rule card_mono) auto

lemma unvisited_visit:
  assumes "v \<in> set nodes" "tj_idx st v = None" "tj_idx st' = (tj_idx st)(v \<mapsto> n)"
  shows "unvisited nodes st' < unvisited nodes st"
  unfolding unvisited_def using assms by (intro psubset_card_mono) auto

lemma fold_opt_total:
  assumes "I s" "\<And>x s. x \<in> set xs \<Longrightarrow> I s \<Longrightarrow> \<exists>s'. f x s = Some s' \<and> I s'"
  shows "\<exists>s'. fold_opt f xs s = Some s' \<and> I s'"
  using assms
proof (induction xs arbitrary: s)
  case (Cons x xs)
  obtain s1 where "f x s = Some s1" "I s1" using Cons.prems(2)[of x s] Cons.prems(1) by auto
  then show ?case using Cons.IH[of s1] Cons.prems(2) by simp
qed simp

lemma strongconnect_total:
  assumes "\<And>v. v \<in> set nodes \<Longrightarrow> \<exists>ws. adj v = Some ws \<and> set ws \<subseteq> set nodes"
  shows "v \<in> set nodes \<Longrightarrow> tj_idx st v = None \<Longrightarrow> unvisited nodes st \<le> fuel \<Longrightarrow>
    \<exists>st'. strongconnect fuel adj v st = Some st' \<and> dom (tj_idx st) \<subseteq> dom (tj_idx st') \<and> tj_idx st' v \<noteq> None"
proof (induction fuel arbitrary: v st)
  case 0
  then have "card {w \<in> set nodes. tj_idx st w = None} = 0" by (simp add: unvisited_def)
  then have "{w \<in> set nodes. tj_idx st w = None} = {}" by simp
  with 0 show ?case by blast
next
  case (Suc fuel)
  obtain ws where ws: "adj v = Some ws" "set ws \<subseteq> set nodes" using assms Suc.prems(1) by blast
  define st1 where "st1 = st\<lparr>tj_idx := (tj_idx st)(v \<mapsto> tj_index st), tj_low := (tj_low st)(v \<mapsto> tj_index st),
    tj_index := Suc (tj_index st), tj_stack := v # tj_stack st, tj_onStack := v # tj_onStack st\<rparr>"
  define step where "step = (\<lambda>w s. if tj_idx s w = None
      then map_option (\<lambda>s'. tj_relax v (the (tj_low s' w)) s') (strongconnect fuel adj w s)
      else if w \<in> set (tj_onStack s) then Some (tj_relax v (the (tj_idx s w)) s) else Some s)"
  have idx1: "tj_idx st1 = (tj_idx st)(v \<mapsto> tj_index st)" by (simp add: st1_def)
  have u1: "unvisited nodes st1 \<le> fuel"
    using unvisited_visit[OF Suc.prems(1,2) idx1] Suc.prems(3) by simp
  have "\<exists>s'. fold_opt step ws st1 = Some s' \<and> dom (tj_idx st1) \<subseteq> dom (tj_idx s')"
  proof (rule fold_opt_total)
    fix w and s :: tarjan assume w: "w \<in> set ws" and s: "dom (tj_idx st1) \<subseteq> dom (tj_idx s)"
    show "\<exists>s'. step w s = Some s' \<and> dom (tj_idx st1) \<subseteq> dom (tj_idx s')"
    proof (cases "tj_idx s w = None")
      case True
      have "unvisited nodes s \<le> fuel" using unvisited_mono[OF s, of nodes] u1 by simp
      then obtain s' where "strongconnect fuel adj w s = Some s'" "dom (tj_idx s) \<subseteq> dom (tj_idx s')"
        using Suc.IH[of w s] True w ws(2) by blast
      then show ?thesis using True s by (auto simp: step_def)
    next
      case False
      then show ?thesis using s by (auto simp: step_def)
    qed
  qed simp
  then obtain st2 where st2: "fold_opt step ws st1 = Some st2" "dom (tj_idx st1) \<subseteq> dom (tj_idx st2)" by blast
  have "strongconnect (Suc fuel) adj v st = Some (if tj_low st2 v = tj_idx st2 v then tj_pop v st2 else st2)"
    using st2(1) ws(1) by (simp add: st1_def[symmetric] step_def[symmetric] Let_def)
  moreover have "dom (tj_idx st) \<subseteq> dom (tj_idx st2)" "v \<in> dom (tj_idx st2)" using st2(2) idx1 by auto
  ultimately show ?case by auto
qed

lemma findCycles_total: "\<exists>cs. findCycles taskIds deps = Some cs"
proof -
  define nodes where "nodes = sort (uniq taskIds)"
  let ?adj = "adjacency nodes deps"
  have adj: "\<exists>ws. ?adj v = Some ws \<and> set ws \<subseteq> set nodes" if "v \<in> set nodes" for v
    using that by (auto simp: adjacency_def)
  have "\<exists>s'. fold_opt (\<lambda>v st. if tj_idx st v = None then strongconnect (Suc (length nodes)) ?adj v st
      else Some st) nodes tj_start = Some s' \<and> True"
  proof (rule fold_opt_total)
    fix v and st :: tarjan assume v: "v \<in> set nodes"
    have "unvisited nodes st \<le> Suc (length nodes)"
    proof -
      have "unvisited nodes st \<le> card (set nodes)" unfolding unvisited_def by (rule card_mono) auto
      also have "\<dots> \<le> length nodes" by (rule card_length)
      finally show ?thesis by simp
    qed
    then show "\<exists>s'. (if tj_idx st v = None then strongconnect (Suc (length nodes)) ?adj v st else Some st) = Some s' \<and> True"
    proof (cases "tj_idx st v = None")
      case True
      from strongconnect_total[where adj = ?adj, OF adj v this \<open>unvisited nodes st \<le> Suc (length nodes)\<close>]
      obtain st' where "strongconnect (Suc (length nodes)) ?adj v st = Some st'" by auto
      then show ?thesis using True by (simp del: strongconnect.simps)
    qed (auto simp del: strongconnect.simps)
  qed simp
  then show ?thesis by (auto simp: findCycles_def Let_def nodes_def[symmetric])
qed

section \<open>What the sort promises\<close>

text \<open>C19. A returned order holds every task exactly once and puts every prerequisite before the
  task that depends on it.\<close>

theorem topologicalSort_sound:
  assumes "topologicalSort taskIds deps = Inr order"
  shows "distinct order \<and> set order = set taskIds
    \<and> (\<forall>d\<in>set deps. dependsOnId d \<in> set taskIds \<longrightarrow> dep_taskId d \<in> set taskIds \<longrightarrow>
         (\<exists>i j. i < j \<and> j < length order \<and> order ! i = dependsOnId d \<and> order ! j = dep_taskId d))"
proof -
  have o: "distinct order" "set order = set taskIds"
    and lr: "\<forall>i<length order. least_ready taskIds (edges taskIds deps) (take i order) (order ! i)"
    using topologicalSort_cases[of taskIds deps] assms by auto
  have "(dependsOnId d, dep_taskId d) \<in> set (edges taskIds deps)"
    if "d \<in> set deps" "dependsOnId d \<in> set taskIds" "dep_taskId d \<in> set taskIds" for d
    using that by (auto simp: edge_rel_edges[symmetric] edge_rel_def)
  then show ?thesis using least_ready_before[OF lr] o by blast
qed

theorem topologicalSort_sound_witness:
  "topologicalSort [''c'', ''b'', ''a''] [\<lparr>dep_taskId = ''b'', dependsOnId = ''c'', kind = None, lagDays = None\<rparr>]
     = Inr [''a'', ''c'', ''b''] \<and> distinct [''a'', ''c'', ''b'']"
proof -
  have "topologicalSort [''c'', ''b'', ''a''] [\<lparr>dep_taskId = ''b'', dependsOnId = ''c'', kind = None, lagDays = None\<rparr>]
     = Inr [''a'', ''c'', ''b'']" by code_simp
  with topologicalSort_sound[OF this] show ?thesis by simp
qed

text \<open>C20. The sort throws exactly on the graphs with a cycle, self-dependencies included, and what
  it throws is always the 422 cycle error.\<close>

theorem topologicalSort_throws_iff_cycle:
  "case topologicalSort taskIds deps of
     Inl e \<Rightarrow> \<not> acyclic (edge_rel taskIds deps)
       \<and> err_code e = ''GANTT_CALC_DEPENDENCY_CYCLE'' \<and> err_status e = 422
   | Inr order \<Rightarrow> acyclic (edge_rel taskIds deps)"
proof (cases "topologicalSort taskIds deps")
  case (Inl e)
  have "e = cycle_error m cs \<Longrightarrow> err_code e = ''GANTT_CALC_DEPENDENCY_CYCLE'' \<and> err_status e = 422" for m cs
    by (simp add: cycle_error_def DubError_def statusForCode_def no_options_def)
  moreover have "\<exists>m cs. e = cycle_error m cs"
  proof (cases "build_maps (uniq taskIds) deps (init_maps (uniq taskIds))")
    case (Inl e')
    then show ?thesis using build_maps_error[of "uniq taskIds" deps] Inl[unfolded init_maps_def] \<open>topologicalSort taskIds deps = Inl e\<close>
      by (simp add: topologicalSort_def)
  next
    case (Inr m)
    then show ?thesis using \<open>topologicalSort taskIds deps = Inl e\<close>
      by (auto simp: topologicalSort_def Let_def split: prod.splits if_splits)
  qed
  ultimately show ?thesis using Inl topologicalSort_cases[of taskIds deps] by auto
next
  case (Inr order)
  then show ?thesis using topologicalSort_cases[of taskIds deps] by auto
qed

text \<open>The order is a function of the graph alone: it does not depend on the order, or the
  repetitions, in which tasks and dependencies were listed (ties are broken by the smallest id).\<close>

theorem topologicalSort_order_free:
  assumes "set taskIds' = set taskIds" "set deps' = set deps"
  shows "topologicalSort taskIds' deps' = Inr order \<longleftrightarrow> topologicalSort taskIds deps = Inr order"
proof -
  have rel: "edge_rel taskIds' deps' = edge_rel taskIds deps" using assms by (simp add: edge_rel_def)
  have E: "set (edges taskIds' deps') = set (edges taskIds deps)" using rel by (simp add: edge_rel_edges)
  have eq: "xs = ys" if x: "topologicalSort taskIds' deps' = Inr xs" and y: "topologicalSort taskIds deps = Inr ys" for xs ys
  proof (rule least_ready_unique[OF _ _ assms(1) E])
    show "\<forall>i<length xs. least_ready taskIds' (edges taskIds' deps') (take i xs) (xs ! i)"
      using topologicalSort_cases[of taskIds' deps'] x by auto
    show "\<forall>i<length ys. least_ready taskIds (edges taskIds deps) (take i ys) (ys ! i)"
      using topologicalSort_cases[of taskIds deps] y by auto
    have "distinct xs" "set xs = set taskIds'" using topologicalSort_cases[of taskIds' deps'] x by auto
    moreover have "distinct ys" "set ys = set taskIds" using topologicalSort_cases[of taskIds deps] y by auto
    ultimately show "length xs = length ys" using assms(1) by (metis distinct_card)
  qed
  from topologicalSort_cases[of taskIds' deps'] topologicalSort_cases[of taskIds deps] rel eq
  show ?thesis by auto
qed

theorem topologicalSort_order_free_witness:
  "topologicalSort [''c'', ''b'', ''a'', ''b''] [\<lparr>dep_taskId = ''b'', dependsOnId = ''c'', kind = None, lagDays = None\<rparr>]
     = Inr [''a'', ''c'', ''b'']"
proof -
  let ?d = "\<lparr>dep_taskId = ''b'', dependsOnId = ''c'', kind = None, lagDays = None\<rparr>"
  have "topologicalSort [''a'', ''b'', ''c''] [?d, ?d] = Inr [''a'', ''c'', ''b'']" by code_simp
  moreover have "set [''c'', ''b'', ''a'', ''b''] = set [''a'', ''b'', ''c'']" "set [?d] = set [?d, ?d]" by auto
  ultimately show ?thesis using topologicalSort_order_free by blast
qed

end
