(* ===== verification/Gantt_Schedule.thy ===== *)
theory Gantt_Schedule
  imports Gantt_Calendar Gantt_Graph "HOL-Library.Sublist"
begin

text \<open>
  \<open>packages/gantt-calc/src/schedule.ts\<close> and \<open>index.ts\<close>: the critical path method. A forward
  pass in topological order computes the earliest starts, a backward pass in reverse order the
  latest finishes; both run in schedule units (calendar days, or working-day ordinals when a
  calendar is given), which a day mapper translates. The two passes are instances of
  \<open>table_pass\<close>, so their results solve the recursive equations of the method, and these are shown
  to be the least and the greatest schedules that respect the dependencies.
\<close>

section \<open>Data\<close>

record schedule_node =
  earliestStartDay :: int
  earliestFinishDay :: int
  latestStartDay :: int
  latestFinishDay :: int
  slackDays :: int

record edge =
  edge_id :: task_id
  edge_kind :: dep_kind
  edge_lag :: int

record day_mapper =
  fromDay :: "int \<Rightarrow> int"
  toDay :: "int \<Rightarrow> (thrown + int) option"

record schedule =
  sch_order :: "task_id list"
  nodes :: "task_id \<rightharpoonup> schedule_node"
  projectStartDay :: int
  projectEndDay :: int
  toCalendarDay :: "int \<Rightarrow> (thrown + int) option"

definition IDENTITY_MAPPER :: day_mapper where
  "IDENTITY_MAPPER = \<lparr>fromDay = \<lambda>d. d, toDay = \<lambda>u. Some (Inr u)\<rparr>"

definition mapper_of :: "work_calendar option \<Rightarrow> day_mapper" where
  "mapper_of cal =
     (case cal of Some c \<Rightarrow> \<lparr>fromDay = toOrdinal c, toDay = fromOrdinal c\<rparr> | None \<Rightarrow> IDENTITY_MAPPER)"

definition durationOf :: "gantt_task \<Rightarrow> int" where
  "durationOf t = max 0 (js_trunc (durationDays t))"

definition edgeOf :: "gantt_dep \<Rightarrow> edge" where
  "edgeOf d = \<lparr>edge_id = dependsOnId d,
               edge_kind = (case kind d of Some k \<Rightarrow> k | None \<Rightarrow> FS),
               edge_lag = js_trunc (case lagDays d of Some l \<Rightarrow> l | None \<Rightarrow> 0)\<rparr>"

definition assertKnownRefs :: "gantt_task list \<Rightarrow> gantt_dep list \<Rightarrow> dub_error + unit" where
  "assertKnownRefs tasks deps =
     (let unknown = unknown_refs (map task_id tasks) deps []
      in if unknown \<noteq> []
         then Inl (DubError ''GANTT_CALC_UNKNOWN_TASK_REF'' ''dependency references unknown task id''
                (no_options\<lparr>opt_status := Some 422,
                            opt_details := JObj [(''unknownTaskIds'', js_ids (sort unknown))]\<rparr>))
         else Inr ())"

definition esConstraint :: "dep_kind \<Rightarrow> schedule_node \<Rightarrow> int \<Rightarrow> int \<Rightarrow> int" where
  "esConstraint k pred lag succDur =
     (case k of
        SS \<Rightarrow> earliestStartDay pred + lag
      | FF \<Rightarrow> earliestFinishDay pred + lag - succDur
      | SF \<Rightarrow> earliestStartDay pred + lag - succDur
      | FS \<Rightarrow> earliestFinishDay pred + lag)"

definition lfConstraint :: "dep_kind \<Rightarrow> schedule_node \<Rightarrow> int \<Rightarrow> int \<Rightarrow> int" where
  "lfConstraint k succ lag predDur =
     (case k of
        SS \<Rightarrow> latestStartDay succ - lag + predDur
      | FF \<Rightarrow> latestFinishDay succ - lag
      | SF \<Rightarrow> latestFinishDay succ - lag + predDur
      | FS \<Rightarrow> latestStartDay succ - lag)"

section \<open>The passes\<close>

definition byId :: "gantt_task list \<Rightarrow> task_id \<rightharpoonup> gantt_task" where
  \<comment> \<open>of tasks with the same id the last one counts\<close>
  "byId tasks = fold (\<lambda>t m. m(task_id t \<mapsto> t)) tasks Map.empty"

definition edge_lists :: "gantt_task list \<Rightarrow> gantt_dep list \<Rightarrow> (task_id \<rightharpoonup> edge list) \<times> (task_id \<rightharpoonup> edge list)" where
  \<comment> \<open>the maps \<open>predecessors\<close> and \<open>successors\<close>\<close>
  "edge_lists tasks deps =
     fold (\<lambda>d (ps, ss).
         let e = edgeOf d
         in (ps(dep_taskId d \<mapsto> the (ps (dep_taskId d)) @ [e]),
             ss(dependsOnId d \<mapsto> the (ss (dependsOnId d)) @ [e\<lparr>edge_id := dep_taskId d\<rparr>])))
       deps (fold (\<lambda>t m. m(task_id t \<mapsto> [])) tasks Map.empty, fold (\<lambda>t m. m(task_id t \<mapsto> [])) tasks Map.empty)"

definition explicitStarts :: "day_mapper \<Rightarrow> gantt_task list \<Rightarrow> thrown + int list" where
  "explicitStarts m tasks =
     map_try (\<lambda>t. try_bind (dayOf (the (startsAt t)) ''startsAt'') (\<lambda>d. Inr (fromDay m d)))
       (filter (\<lambda>t. startsAt t \<noteq> None) tasks)"

definition anchorUnit :: "day_mapper \<Rightarrow> int list \<Rightarrow> int" where
  "anchorUnit m starts = (if starts \<noteq> [] then Min (set starts) else fromDay m 0)"

definition startConstraint :: "day_mapper \<Rightarrow> int \<Rightarrow> gantt_task \<Rightarrow> thrown + int" where
  "startConstraint m anchor t =
     (case startsAt t of
        Some s \<Rightarrow> try_bind (dayOf s ''startsAt'') (\<lambda>d. Inr (fromDay m d))
      | None \<Rightarrow> Inr anchor)"

definition zero_node :: schedule_node where
  "zero_node = \<lparr>earliestStartDay = 0, earliestFinishDay = 0, latestStartDay = 0, latestFinishDay = 0, slackDays = 0\<rparr>"

definition forward_node :: "int \<Rightarrow> int \<Rightarrow> edge list \<Rightarrow> task_id \<Rightarrow> (task_id \<rightharpoonup> schedule_node) \<Rightarrow> schedule_node" where
  "forward_node start dur ps v N =
     (let es = fold (\<lambda>p es. max es (esConstraint (edge_kind p) (the (N (edge_id p))) (edge_lag p) dur)) ps start
      in (the (N v))\<lparr>earliestStartDay := es, earliestFinishDay := es + dur\<rparr>)"

definition forward_pass ::
  "day_mapper \<Rightarrow> int \<Rightarrow> (task_id \<rightharpoonup> gantt_task) \<Rightarrow> (task_id \<rightharpoonup> edge list) \<Rightarrow> task_id list
     \<Rightarrow> (task_id \<rightharpoonup> schedule_node) \<Rightarrow> thrown + (task_id \<rightharpoonup> schedule_node)" where
  "forward_pass m anchor tasks_by_id preds order N0 =
     fold_try (\<lambda>v N.
         let t = the (tasks_by_id v)
         in try_bind (startConstraint m anchor t)
              (\<lambda>start. Inr (N(v \<mapsto> forward_node start (durationOf t) (the (preds v)) v N))))
       order N0"

definition backward_node :: "int \<Rightarrow> int \<Rightarrow> edge list \<Rightarrow> task_id \<Rightarrow> (task_id \<rightharpoonup> schedule_node) \<Rightarrow> schedule_node" where
  "backward_node endDay dur ss v N =
     (let lf = fold (\<lambda>s lf. min lf (lfConstraint (edge_kind s) (the (N (edge_id s))) (edge_lag s) dur)) ss endDay;
          node = the (N v)
      in node\<lparr>latestFinishDay := lf, latestStartDay := lf - dur, slackDays := lf - dur - earliestStartDay node\<rparr>)"

definition backward_pass ::
  "int \<Rightarrow> (task_id \<rightharpoonup> gantt_task) \<Rightarrow> (task_id \<rightharpoonup> edge list) \<Rightarrow> task_id list
     \<Rightarrow> (task_id \<rightharpoonup> schedule_node) \<Rightarrow> (task_id \<rightharpoonup> schedule_node)" where
  "backward_pass endDay tasks_by_id succs order N0 =
     fold (\<lambda>v N. N(v \<mapsto> backward_node endDay (durationOf (the (tasks_by_id v))) (the (succs v)) v N)) (rev order) N0"

definition throws :: "dub_error + 'a \<Rightarrow> thrown + 'a" where
  "throws r = (case r of Inl e \<Rightarrow> Inl (TDub e) | Inr a \<Rightarrow> Inr a)"

definition computeSchedule :: "gantt_task list \<Rightarrow> gantt_dep list \<Rightarrow> work_calendar option \<Rightarrow> thrown + schedule" where
  "computeSchedule tasks deps cal =
     try_bind (throws (assertKnownRefs tasks deps)) (\<lambda>_.
     try_bind (throws (topologicalSort (map task_id tasks) deps)) (\<lambda>order.
       let m = mapper_of cal;
           by_id = byId tasks;
           (preds, succs) = edge_lists tasks deps
       in try_bind (explicitStarts m tasks) (\<lambda>starts.
          let anchor = anchorUnit m starts;
              N0 = fold (\<lambda>t N. N(task_id t \<mapsto> zero_node)) tasks Map.empty
          in try_bind (forward_pass m anchor by_id preds order N0) (\<lambda>N1.
             let endDay = (if tasks = [] then anchor
                           else Max (set (map (\<lambda>t. earliestFinishDay (the (N1 (task_id t)))) tasks)));
                 startDay = (if tasks = [] then anchor
                             else Min (set (map (\<lambda>t. earliestStartDay (the (N1 (task_id t)))) tasks)))
             in Inr \<lparr>sch_order = order, nodes = backward_pass endDay by_id succs order N1,
                     projectStartDay = startDay, projectEndDay = endDay, toCalendarDay = toDay m\<rparr>))))"

section \<open>Rollup and critical path\<close>

record rollup =
  earliestStart :: "task_id \<rightharpoonup> string"
  latestFinish :: "task_id \<rightharpoonup> string"

definition iso_of_unit :: "schedule \<Rightarrow> int \<Rightarrow> (thrown + string) option" where
  "iso_of_unit s u = map_option (\<lambda>r. try_bind r isoAtDay) (toCalendarDay s u)"

fun rollup_loop :: "schedule \<Rightarrow> gantt_task list \<Rightarrow> rollup \<Rightarrow> (thrown + rollup) option" where
  "rollup_loop s [] acc = Some (Inr acc)"
| "rollup_loop s (t # ts) acc =
     (let node = the (nodes s (task_id t))
      in case iso_of_unit s (earliestStartDay node) of
           None \<Rightarrow> None
         | Some (Inl e) \<Rightarrow> Some (Inl e)
         | Some (Inr es) \<Rightarrow>
             (case iso_of_unit s (latestFinishDay node) of
                None \<Rightarrow> None
              | Some (Inl e) \<Rightarrow> Some (Inl e)
              | Some (Inr lf) \<Rightarrow>
                  rollup_loop s ts (acc\<lparr>earliestStart := (earliestStart acc)(task_id t \<mapsto> es),
                                        latestFinish := (latestFinish acc)(task_id t \<mapsto> lf)\<rparr>)))"

definition computeRollup :: "gantt_task list \<Rightarrow> gantt_dep list \<Rightarrow> work_calendar option \<Rightarrow> (thrown + rollup) option" where
  "computeRollup tasks deps cal =
     (case computeSchedule tasks deps cal of
        Inl e \<Rightarrow> Some (Inl e)
      | Inr s \<Rightarrow> rollup_loop s tasks \<lparr>earliestStart = Map.empty, latestFinish = Map.empty\<rparr>)"

definition computeCriticalPath ::
  "gantt_task list \<Rightarrow> gantt_dep list \<Rightarrow> work_calendar option \<Rightarrow> thrown + (task_id list \<times> int)" where
  "computeCriticalPath tasks deps cal =
     try_bind (computeSchedule tasks deps cal) (\<lambda>s.
       Inr (filter (\<lambda>v. slackDays (the (nodes s v)) = 0) (sch_order s),
            if tasks = [] then 0 else projectEndDay s - projectStartDay s))"

section \<open>Lookups\<close>

lemma unknown_refs_set:
  "set (unknown_refs known deps acc) =
     set acc \<union> {v. v \<notin> set known \<and> (\<exists>d\<in>set deps. v = dep_taskId d \<or> v = dependsOnId d)}"
  by (induction known deps acc rule: unknown_refs.induct) (auto simp: Let_def)

lemma assertKnownRefs_Inr:
  "assertKnownRefs tasks deps = Inr u \<longleftrightarrow>
     (\<forall>d\<in>set deps. dep_taskId d \<in> task_id ` set tasks \<and> dependsOnId d \<in> task_id ` set tasks)"
proof -
  have "unknown_refs (map task_id tasks) deps [] = [] \<longleftrightarrow> set (unknown_refs (map task_id tasks) deps []) = {}" by simp
  also have "\<dots> \<longleftrightarrow> (\<forall>d\<in>set deps. dep_taskId d \<in> task_id ` set tasks \<and> dependsOnId d \<in> task_id ` set tasks)"
    by (subst unknown_refs_set) auto
  finally show ?thesis by (simp add: assertKnownRefs_def Let_def)
qed

lemma fold_table: "v \<in> set (map f xs) \<Longrightarrow> fold (\<lambda>x m. m(f x \<mapsto> c)) xs m0 v = Some c"
proof (induction xs rule: rev_induct)
  case (snoc x xs) then show ?case by (cases "v = f x") auto
qed simp

lemma byId_Some:
  assumes "v \<in> task_id ` set tasks"
  shows "\<exists>t\<in>set tasks. byId tasks v = Some t \<and> task_id t = v"
  using assms
proof (induction tasks rule: rev_induct)
  case (snoc x xs) then show ?case by (cases "v = task_id x") (auto simp: byId_def)
qed simp

lemma edge_lists_fold:
  assumes "v \<in> K" "\<forall>u\<in>K. ps u \<noteq> None \<and> ss u \<noteq> None" "\<forall>d\<in>set deps. dep_taskId d \<in> K \<and> dependsOnId d \<in> K"
  shows "(case fold (\<lambda>d (ps, ss).
         let e = edgeOf d
         in (ps(dep_taskId d \<mapsto> the (ps (dep_taskId d)) @ [e]),
             ss(dependsOnId d \<mapsto> the (ss (dependsOnId d)) @ [e\<lparr>edge_id := dep_taskId d\<rparr>]))) deps (ps, ss) of
      (ps', ss') \<Rightarrow> ps' v = Some (the (ps v) @ map edgeOf (filter (\<lambda>d. dep_taskId d = v) deps))
        \<and> ss' v = Some (the (ss v) @ map (\<lambda>d. (edgeOf d)\<lparr>edge_id := dep_taskId d\<rparr>) (filter (\<lambda>d. dependsOnId d = v) deps)))"
  using assms(2,3)
proof (induction deps arbitrary: ps ss)
  case Nil
  then show ?case using assms(1) by auto
next
  case (Cons d ds)
  let ?ps = "ps(dep_taskId d \<mapsto> the (ps (dep_taskId d)) @ [edgeOf d])"
  let ?ss = "ss(dependsOnId d \<mapsto> the (ss (dependsOnId d)) @ [(edgeOf d)\<lparr>edge_id := dep_taskId d\<rparr>])"
  have "\<forall>u\<in>K. ?ps u \<noteq> None \<and> ?ss u \<noteq> None" using Cons.prems(1) by auto
  from Cons.IH[OF this] Cons.prems show ?case by (auto simp: Let_def split: prod.splits)
qed

lemma edge_lists:
  assumes "v \<in> task_id ` set tasks"
    and "\<forall>d\<in>set deps. dep_taskId d \<in> task_id ` set tasks \<and> dependsOnId d \<in> task_id ` set tasks"
  shows "the (fst (edge_lists tasks deps) v) = map edgeOf (filter (\<lambda>d. dep_taskId d = v) deps)"
    and "the (snd (edge_lists tasks deps) v)
      = map (\<lambda>d. (edgeOf d)\<lparr>edge_id := dep_taskId d\<rparr>) (filter (\<lambda>d. dependsOnId d = v) deps)"
proof -
  let ?m = "fold (\<lambda>t m. m(task_id t \<mapsto> [])) tasks Map.empty :: task_id \<rightharpoonup> edge list"
  have m: "\<forall>u\<in>task_id ` set tasks. ?m u = Some []" by (intro ballI fold_table) simp
  then have "\<forall>u\<in>task_id ` set tasks. ?m u \<noteq> None \<and> ?m u \<noteq> None" by auto
  from edge_lists_fold[OF assms(1) this assms(2)] m assms(1)
  show "the (fst (edge_lists tasks deps) v) = map edgeOf (filter (\<lambda>d. dep_taskId d = v) deps)"
    and "the (snd (edge_lists tasks deps) v)
      = map (\<lambda>d. (edgeOf d)\<lparr>edge_id := dep_taskId d\<rparr>) (filter (\<lambda>d. dependsOnId d = v) deps)"
    by (auto simp: edge_lists_def split: prod.splits)
qed

section \<open>The equations of the method\<close>

interpretation fwd: table_pass "\<lambda>v. edge_id ` set (ps v)" "\<lambda>v N. forward_node (st v) (du v) (ps v) v N"
  for ps st du
proof
  fix N N' :: "task_id \<rightharpoonup> schedule_node" and v
  assume "N v = N' v" and r: "\<And>u. u \<in> edge_id ` set (ps v) \<Longrightarrow> N u = N' u"
  moreover have "fold (\<lambda>p es. max es (esConstraint (edge_kind p) (the (N (edge_id p))) (edge_lag p) (du v))) (ps v) (st v)
      = fold (\<lambda>p es. max es (esConstraint (edge_kind p) (the (N' (edge_id p))) (edge_lag p) (du v))) (ps v) (st v)"
    using r by (intro fold_cong) auto
  ultimately show "forward_node (st v) (du v) (ps v) v N = forward_node (st v) (du v) (ps v) v N'"
    by (simp add: forward_node_def)
qed

interpretation bwd: table_pass "\<lambda>v. edge_id ` set (ss v)" "\<lambda>v N. backward_node endDay (du v) (ss v) v N"
  for ss endDay du
proof
  fix N N' :: "task_id \<rightharpoonup> schedule_node" and v
  assume "N v = N' v" and r: "\<And>u. u \<in> edge_id ` set (ss v) \<Longrightarrow> N u = N' u"
  moreover have "fold (\<lambda>s lf. min lf (lfConstraint (edge_kind s) (the (N (edge_id s))) (edge_lag s) (du v))) (ss v) endDay
      = fold (\<lambda>s lf. min lf (lfConstraint (edge_kind s) (the (N' (edge_id s))) (edge_lag s) (du v))) (ss v) endDay"
    using r by (intro fold_cong) auto
  ultimately show "backward_node endDay (du v) (ss v) v N = backward_node endDay (du v) (ss v) v N'"
    by (simp add: backward_node_def)
qed

text \<open>The start constraint of the task an id stands for, once every explicit start parses.\<close>

definition earliest_allowed :: "gantt_task list \<Rightarrow> work_calendar option \<Rightarrow> task_id \<Rightarrow> int" where
  "earliest_allowed tasks cal v =
     (let m = mapper_of cal;
          anchor = (case explicitStarts m tasks of Inr starts \<Rightarrow> anchorUnit m starts | Inl _ \<Rightarrow> 0)
      in case startConstraint m anchor (the (byId tasks v)) of Inr n \<Rightarrow> n | Inl _ \<Rightarrow> 0)"

definition task_duration :: "gantt_task list \<Rightarrow> task_id \<Rightarrow> int" where
  "task_duration tasks v = durationOf (the (byId tasks v))"

lemma explicitStarts_startConstraint:
  assumes "explicitStarts m tasks = Inr starts" "v \<in> task_id ` set tasks"
  shows "\<exists>n. startConstraint m anchor (the (byId tasks v)) = Inr n"
proof -
  obtain t where t: "t \<in> set tasks" "byId tasks v = Some t" using byId_Some[OF assms(2)] by blast
  show ?thesis
  proof (cases "startsAt t")
    case (Some iso)
    with t(1) have "t \<in> set (filter (\<lambda>t. startsAt t \<noteq> None) tasks)" by simp
    then obtain i where i: "i < length (filter (\<lambda>t. startsAt t \<noteq> None) tasks)" "filter (\<lambda>t. startsAt t \<noteq> None) tasks ! i = t"
      by (auto simp only: in_set_conv_nth)
    have "list_all2 (\<lambda>t y. try_bind (dayOf (the (startsAt t)) ''startsAt'') (\<lambda>d. Inr (fromDay m d)) = Inr y)
      (filter (\<lambda>t. startsAt t \<noteq> None) tasks) starts"
      using assms(1) by (simp add: explicitStarts_def map_try_Inr)
    from list_all2_nthD[OF this i(1)]
    have "try_bind (dayOf iso ''startsAt'') (\<lambda>d. Inr (fromDay m d)) = Inr (starts ! i)"
      using Some by (simp only: i(2) option.sel)
    then show ?thesis using t(2) Some by (simp add: startConstraint_def)
  qed (simp add: startConstraint_def t(2))
qed

definition es_bound :: "(task_id \<rightharpoonup> schedule_node) \<Rightarrow> int \<Rightarrow> gantt_dep \<Rightarrow> int" where
  "es_bound N dur d = esConstraint (edge_kind (edgeOf d)) (the (N (dependsOnId d))) (edge_lag (edgeOf d)) dur"

definition lf_bound :: "(task_id \<rightharpoonup> schedule_node) \<Rightarrow> int \<Rightarrow> gantt_dep \<Rightarrow> int" where
  "lf_bound N dur d = lfConstraint (edge_kind (edgeOf d)) (the (N (dep_taskId d))) (edge_lag (edgeOf d)) dur"

lemma edge_id_edgeOf [simp]: "edge_id (edgeOf d) = dependsOnId d"
  by (simp add: edgeOf_def)

text \<open>The order and the lists of edges make both passes well-founded.\<close>

lemma sort_positions:
  assumes "topologicalSort (map task_id tasks) deps = Inr order"
    and "\<forall>d\<in>set deps. dep_taskId d \<in> task_id ` set tasks \<and> dependsOnId d \<in> task_id ` set tasks" "d \<in> set deps"
  shows "order = us @ dep_taskId d # vs \<Longrightarrow> dependsOnId d \<in> set us"
    and "order = us @ dependsOnId d # vs \<Longrightarrow> dep_taskId d \<in> set vs"
proof -
  have dist: "distinct order"
    using topologicalSort_cases[of "map task_id tasks" deps] assms(1) by auto
  have lr: "\<forall>i<length order. least_ready (map task_id tasks) (edges (map task_id tasks) deps) (take i order) (order ! i)"
    and so: "set order = set (map task_id tasks)"
    using topologicalSort_cases[of "map task_id tasks" deps] assms(1) by auto
  have "(dependsOnId d, dep_taskId d) \<in> set (edges (map task_id tasks) deps)"
    unfolding edge_rel_edges[symmetric] edge_rel_def using assms(2,3) by auto
  then obtain i j where "i < j" "j < length order" "order ! i = dependsOnId d" "order ! j = dep_taskId d"
    using least_ready_before[OF lr] assms(2,3) so by (metis list.set_map)
  note p = position_before[OF dist this]
  show "order = us @ dep_taskId d # vs \<Longrightarrow> dependsOnId d \<in> set us" by (rule p(1))
  show "order = us @ dependsOnId d # vs \<Longrightarrow> dep_taskId d \<in> set vs" by (rule p(2))
qed

lemma forward_equations:
  assumes sort: "topologicalSort (map task_id tasks) deps = Inr order"
    and known: "\<forall>d\<in>set deps. dep_taskId d \<in> task_id ` set tasks \<and> dependsOnId d \<in> task_id ` set tasks"
    and starts: "\<forall>v\<in>task_id ` set tasks. startConstraint m anchor (the (byId tasks v)) = Inr (st v)"
    and pass: "forward_pass m anchor (byId tasks) (fst (edge_lists tasks deps)) order N0 = Inr N1"
    and v: "v \<in> task_id ` set tasks"
  shows "earliestStartDay (the (N1 v))
      = fold (\<lambda>d es. max es (es_bound N1 (task_duration tasks v) d)) (filter (\<lambda>d. dep_taskId d = v) deps) (st v)
    \<and> earliestFinishDay (the (N1 v)) = earliestStartDay (the (N1 v)) + task_duration tasks v"
proof -
  have o: "distinct order" "set order = task_id ` set tasks"
    using topologicalSort_cases[of "map task_id tasks" deps] sort by auto
  define ps where "ps = (\<lambda>v. the (fst (edge_lists tasks deps) v))"
  have ps: "ps u = map edgeOf (filter (\<lambda>d. dep_taskId d = u) deps)" if "u \<in> task_id ` set tasks" for u
    using edge_lists(1)[OF that known] by (simp add: ps_def)
  define up where "up = (\<lambda>v N. forward_node (st v) (task_duration tasks v) (ps v) v N)"
  have N1: "N1 = fold (\<lambda>v N. N(v \<mapsto> up v N)) order N0"
  proof -
    let ?f = "\<lambda>v N. let t = the (byId tasks v)
      in try_bind (startConstraint m anchor t)
           (\<lambda>start. Inr (N(v \<mapsto> forward_node start (durationOf t) (the (fst (edge_lists tasks deps) v)) v N)))"
    have "?f u N = Inr (N(u \<mapsto> up u N))" if "u \<in> set order" for u N
    proof -
      have "startConstraint m anchor (the (byId tasks u)) = Inr (st u)" using starts that o(2) by blast
      then show ?thesis by (simp add: up_def ps_def task_duration_def)
    qed
    from fold_try_pure[of order ?f, OF this] have "fold_try ?f order N0 = Inr (fold (\<lambda>v N. N(v \<mapsto> up v N)) order N0)" .
    with pass show ?thesis by (simp only: forward_pass_def sum.inject)
  qed
  have closed: "edge_id ` set (ps u) \<subseteq> set us" if "order = us @ u # vs" for us u vs
  proof -
    have u: "u \<in> task_id ` set tasks" using that o(2) by auto
    show ?thesis using sort_positions(1)[OF sort known, of _ us vs] that by (auto simp: ps[OF u])
  qed
  have "N1 v = Some (up v (N1(v := N0 v)))"
    unfolding N1 up_def
  proof (rule fwd.pass_entry[OF o(1)])
    show "\<forall>us v vs. order = us @ v # vs \<longrightarrow> edge_id ` set (ps v) \<subseteq> set us" using closed by blast
    show "v \<in> set order" using v by (simp only: o(2))
  qed
  moreover have "v \<in> set order" using v by (simp only: o(2))
  then obtain us vs where uvs: "order = us @ v # vs" by (meson split_list)
  then have "dependsOnId d \<noteq> v" if "d \<in> set deps" "dep_taskId d = v" for d
    using sort_positions(1)[OF sort known that(1), of us vs] that o(1) by auto
  then have "fold (\<lambda>p es. max es (esConstraint (edge_kind p) (the ((N1(v := N0 v)) (edge_id p))) (edge_lag p) (task_duration tasks v)))
        (ps v) (st v)
      = fold (\<lambda>d es. max es (es_bound N1 (task_duration tasks v) d)) (filter (\<lambda>d. dep_taskId d = v) deps) (st v)"
    unfolding ps[OF v] fold_map by (intro fold_cong) (auto simp: es_bound_def)
  ultimately show ?thesis by (simp add: up_def forward_node_def Let_def)
qed

lemma forward_pass_total:
  assumes "\<forall>v\<in>set order. startConstraint m anchor (the (by_id v)) = Inr (st v)"
  shows "forward_pass m anchor by_id preds order N0
    = Inr (fold (\<lambda>v N. N(v \<mapsto> forward_node (st v) (durationOf (the (by_id v))) (the (preds v)) v N)) order N0)"
  unfolding forward_pass_def by (rule fold_try_pure) (simp add: assms)

lemma computeSchedule_total:
  assumes "\<forall>d\<in>set deps. dep_taskId d \<in> task_id ` set tasks \<and> dependsOnId d \<in> task_id ` set tasks"
    and "topologicalSort (map task_id tasks) deps = Inr order"
    and "explicitStarts (mapper_of cal) tasks = Inr starts"
  shows "\<exists>s. computeSchedule tasks deps cal = Inr s"
proof -
  have so: "set order = task_id ` set tasks"
    using topologicalSort_cases[of "map task_id tasks" deps] assms(2) by auto
  let ?a = "anchorUnit (mapper_of cal) starts"
  have "\<exists>st. \<forall>v\<in>set order. startConstraint (mapper_of cal) ?a (the (byId tasks v)) = Inr (st v)"
    unfolding so by (rule bchoice) (use explicitStarts_startConstraint[OF assms(3)] in blast)
  then obtain st where st: "\<forall>v\<in>set order. startConstraint (mapper_of cal) ?a (the (byId tasks v)) = Inr (st v)" by blast
  have "assertKnownRefs tasks deps = Inr ()" using assertKnownRefs_Inr[of tasks deps "()"] assms(1) by simp
  then show ?thesis
    by (simp add: computeSchedule_def throws_def assms(2,3) Let_def case_prod_beta forward_pass_total[OF st])
qed

lemma backward_equations:
  assumes sort: "topologicalSort (map task_id tasks) deps = Inr order"
    and known: "\<forall>d\<in>set deps. dep_taskId d \<in> task_id ` set tasks \<and> dependsOnId d \<in> task_id ` set tasks"
    and N2: "N2 = backward_pass endDay (byId tasks) (snd (edge_lists tasks deps)) order N1"
    and v: "v \<in> task_id ` set tasks"
  shows "latestFinishDay (the (N2 v))
      = fold (\<lambda>d lf. min lf (lf_bound N2 (task_duration tasks v) d)) (filter (\<lambda>d. dependsOnId d = v) deps) endDay
    \<and> latestStartDay (the (N2 v)) = latestFinishDay (the (N2 v)) - task_duration tasks v
    \<and> slackDays (the (N2 v)) = latestStartDay (the (N2 v)) - earliestStartDay (the (N2 v))
    \<and> earliestStartDay (the (N2 v)) = earliestStartDay (the (N1 v))
    \<and> earliestFinishDay (the (N2 v)) = earliestFinishDay (the (N1 v))"
proof -
  have o: "distinct order" "set order = task_id ` set tasks"
    using topologicalSort_cases[of "map task_id tasks" deps] sort by auto
  define ss where "ss = (\<lambda>v. the (snd (edge_lists tasks deps) v))"
  have ss: "ss u = map (\<lambda>d. (edgeOf d)\<lparr>edge_id := dep_taskId d\<rparr>) (filter (\<lambda>d. dependsOnId d = u) deps)"
    if "u \<in> task_id ` set tasks" for u
    using edge_lists(2)[OF that known] by (simp add: ss_def)
  define up where "up = (\<lambda>v N. backward_node endDay (task_duration tasks v) (ss v) v N)"
  have N2': "N2 = fold (\<lambda>v N. N(v \<mapsto> up v N)) (rev order) N1"
    by (simp add: N2 backward_pass_def up_def ss_def task_duration_def)
  have closed: "edge_id ` set (ss u) \<subseteq> set us" if "rev order = us @ u # vs" for us u vs
  proof -
    have u: "u \<in> task_id ` set tasks" using that o(2) by (metis in_set_conv_decomp set_rev)
    have "order = rev vs @ u # rev us" using arg_cong[OF that, of rev] by simp
    then show ?thesis using sort_positions(2)[OF sort known, of _ "rev vs" "rev us"] by (auto simp: ss[OF u])
  qed
  have "N2 v = Some (up v (N2(v := N1 v)))"
    unfolding N2' up_def
  proof (rule bwd.pass_entry)
    show "distinct (rev order)" using o(1) by simp
    show "\<forall>us v vs. rev order = us @ v # vs \<longrightarrow> edge_id ` set (ss v) \<subseteq> set us" using closed by blast
    show "v \<in> set (rev order)" using v by (simp only: set_rev o(2))
  qed
  moreover have "v \<in> set order" using v by (simp only: o(2))
  then obtain us vs where uvs: "order = us @ v # vs" by (meson split_list)
  then have "dep_taskId d \<noteq> v" if "d \<in> set deps" "dependsOnId d = v" for d
    using sort_positions(2)[OF sort known that(1), of us vs] that o(1) by auto
  then have "fold (\<lambda>s lf. min lf (lfConstraint (edge_kind s) (the ((N2(v := N1 v)) (edge_id s))) (edge_lag s) (task_duration tasks v)))
        (ss v) endDay
      = fold (\<lambda>d lf. min lf (lf_bound N2 (task_duration tasks v) d)) (filter (\<lambda>d. dependsOnId d = v) deps) endDay"
    unfolding ss[OF v] fold_map by (intro fold_cong) (auto simp: lf_bound_def)
  ultimately show ?thesis by (simp add: up_def backward_node_def Let_def)
qed

abbreviation node_of :: "schedule \<Rightarrow> task_id \<Rightarrow> schedule_node" where
  "node_of s v \<equiv> the (nodes s v)"

lemma es_bound_cong:
  "earliestStartDay (the (N (dependsOnId d))) = earliestStartDay (the (N' (dependsOnId d))) \<Longrightarrow>
   earliestFinishDay (the (N (dependsOnId d))) = earliestFinishDay (the (N' (dependsOnId d))) \<Longrightarrow>
   es_bound N dur d = es_bound N' dur d"
  by (simp add: es_bound_def esConstraint_def split: dep_kind.split)

lemma throws_Inr: "throws r = Inr a \<longleftrightarrow> r = Inr a"
  by (cases r) (simp_all add: throws_def)

lemma computeSchedule_facts:
  assumes "computeSchedule tasks deps cal = Inr s"
  shows "\<forall>d\<in>set deps. dep_taskId d \<in> task_id ` set tasks \<and> dependsOnId d \<in> task_id ` set tasks"
    and "topologicalSort (map task_id tasks) deps = Inr (sch_order s)"
    and "v \<in> task_id ` set tasks \<Longrightarrow> earliestStartDay (node_of s v)
      = fold (\<lambda>d es. max es (es_bound (nodes s) (task_duration tasks v) d)) (filter (\<lambda>d. dep_taskId d = v) deps)
          (earliest_allowed tasks cal v)"
    and "v \<in> task_id ` set tasks \<Longrightarrow> earliestFinishDay (node_of s v) = earliestStartDay (node_of s v) + task_duration tasks v"
    and "v \<in> task_id ` set tasks \<Longrightarrow> latestFinishDay (node_of s v)
      = fold (\<lambda>d lf. min lf (lf_bound (nodes s) (task_duration tasks v) d)) (filter (\<lambda>d. dependsOnId d = v) deps)
          (projectEndDay s)"
    and "v \<in> task_id ` set tasks \<Longrightarrow> latestStartDay (node_of s v) = latestFinishDay (node_of s v) - task_duration tasks v"
    and "v \<in> task_id ` set tasks \<Longrightarrow> slackDays (node_of s v) = latestStartDay (node_of s v) - earliestStartDay (node_of s v)"
    and "tasks \<noteq> [] \<Longrightarrow> projectEndDay s = Max ((\<lambda>v. earliestFinishDay (node_of s v)) ` task_id ` set tasks)"
    and "tasks \<noteq> [] \<Longrightarrow> projectStartDay s = Min ((\<lambda>v. earliestStartDay (node_of s v)) ` task_id ` set tasks)"
proof -
  let ?m = "mapper_of cal"
  let ?V = "task_id ` set tasks"
  obtain order starts N1 where known: "assertKnownRefs tasks deps = Inr ()"
    and sort: "topologicalSort (map task_id tasks) deps = Inr order"
    and starts: "explicitStarts ?m tasks = Inr starts"
    and pass: "forward_pass ?m (anchorUnit ?m starts) (byId tasks) (fst (edge_lists tasks deps)) order
        (fold (\<lambda>t N. N(task_id t \<mapsto> zero_node)) tasks Map.empty) = Inr N1"
    and s: "sch_order s = order"
      "nodes s = backward_pass (projectEndDay s) (byId tasks) (snd (edge_lists tasks deps)) order N1"
      "projectEndDay s = (if tasks = [] then anchorUnit ?m starts
          else Max (set (map (\<lambda>t. earliestFinishDay (the (N1 (task_id t)))) tasks)))"
      "projectStartDay s = (if tasks = [] then anchorUnit ?m starts
          else Min (set (map (\<lambda>t. earliestStartDay (the (N1 (task_id t)))) tasks)))"
    using assms unfolding computeSchedule_def Let_def case_prod_beta try_bind_Inr throws_Inr by auto
  have refs: "\<forall>d\<in>set deps. dep_taskId d \<in> ?V \<and> dependsOnId d \<in> ?V"
    using known assertKnownRefs_Inr by blast
  then show "\<forall>d\<in>set deps. dep_taskId d \<in> ?V \<and> dependsOnId d \<in> ?V" .
  show "topologicalSort (map task_id tasks) deps = Inr (sch_order s)" using sort s(1) by simp
  have allowed: "\<forall>v\<in>?V. startConstraint ?m (anchorUnit ?m starts) (the (byId tasks v)) = Inr (earliest_allowed tasks cal v)"
  proof
    fix v assume "v \<in> ?V"
    then obtain n where "startConstraint ?m (anchorUnit ?m starts) (the (byId tasks v)) = Inr n"
      using explicitStarts_startConstraint[OF starts] by blast
    then show "startConstraint ?m (anchorUnit ?m starts) (the (byId tasks v)) = Inr (earliest_allowed tasks cal v)"
      by (simp add: earliest_allowed_def starts)
  qed
  note fw = forward_equations[OF sort refs allowed pass]
  note bw = backward_equations[OF sort refs s(2)]
  have same: "earliestStartDay (node_of s u) = earliestStartDay (the (N1 u))"
    "earliestFinishDay (node_of s u) = earliestFinishDay (the (N1 u))" if "u \<in> ?V" for u
    using bw[OF that] by simp_all
  {
    assume v: "v \<in> ?V"
    have "fold (\<lambda>d es. max es (es_bound N1 (task_duration tasks v) d)) (filter (\<lambda>d. dep_taskId d = v) deps) (earliest_allowed tasks cal v)
      = fold (\<lambda>d es. max es (es_bound (nodes s) (task_duration tasks v) d)) (filter (\<lambda>d. dep_taskId d = v) deps) (earliest_allowed tasks cal v)"
    proof (intro fold_cong refl ext)
      fix d es assume "d \<in> set (filter (\<lambda>d. dep_taskId d = v) deps)"
      then have "d \<in> set deps" by simp
      then have "dependsOnId d \<in> ?V" using refs by blast
      note same[OF this]
      then have "es_bound N1 (task_duration tasks v) d = es_bound (nodes s) (task_duration tasks v) d"
        by (intro es_bound_cong) simp_all
      then show "max es (es_bound N1 (task_duration tasks v) d) = max es (es_bound (nodes s) (task_duration tasks v) d)"
        by (simp only:)
    qed
    with fw[OF v] same[OF v] show "earliestStartDay (node_of s v)
      = fold (\<lambda>d es. max es (es_bound (nodes s) (task_duration tasks v) d)) (filter (\<lambda>d. dep_taskId d = v) deps)
          (earliest_allowed tasks cal v)" by simp
    show "earliestFinishDay (node_of s v) = earliestStartDay (node_of s v) + task_duration tasks v"
      using fw[OF v] same[OF v] by simp
    show "latestFinishDay (node_of s v)
      = fold (\<lambda>d lf. min lf (lf_bound (nodes s) (task_duration tasks v) d)) (filter (\<lambda>d. dependsOnId d = v) deps)
          (projectEndDay s)"
      "latestStartDay (node_of s v) = latestFinishDay (node_of s v) - task_duration tasks v"
      "slackDays (node_of s v) = latestStartDay (node_of s v) - earliestStartDay (node_of s v)"
      using bw[OF v] by simp_all
  }
  {
    assume "tasks \<noteq> []"
    then show "projectEndDay s = Max ((\<lambda>v. earliestFinishDay (node_of s v)) ` ?V)"
      "projectStartDay s = Min ((\<lambda>v. earliestStartDay (node_of s v)) ` ?V)"
      using same by (simp_all add: s(3,4) image_image)
  }
qed

section \<open>Plans\<close>

text \<open>
  A plan gives every task a start. The four kinds of dependency are stated as the header comment of
  \<open>schedule.ts\<close> states them, on starts and finishes.
\<close>

definition dep_ok :: "(task_id \<Rightarrow> int) \<Rightarrow> (task_id \<Rightarrow> int) \<Rightarrow> gantt_dep \<Rightarrow> bool" where
  "dep_ok dur x d =
     (let pred = dependsOnId d; succ = dep_taskId d; lag = edge_lag (edgeOf d)
      in case edge_kind (edgeOf d) of
           FS \<Rightarrow> x succ \<ge> x pred + dur pred + lag
         | SS \<Rightarrow> x succ \<ge> x pred + lag
         | FF \<Rightarrow> x succ + dur succ \<ge> x pred + dur pred + lag
         | SF \<Rightarrow> x succ + dur succ \<ge> x pred + lag)"

definition plan_starts_ok :: "gantt_task list \<Rightarrow> work_calendar option \<Rightarrow> (task_id \<Rightarrow> int) \<Rightarrow> bool" where
  "plan_starts_ok tasks cal x = (\<forall>v\<in>task_id ` set tasks. earliest_allowed tasks cal v \<le> x v)"

definition plan_deps_ok :: "gantt_task list \<Rightarrow> gantt_dep list \<Rightarrow> (task_id \<Rightarrow> int) \<Rightarrow> bool" where
  "plan_deps_ok tasks deps x = (\<forall>d\<in>set deps. dep_ok (task_duration tasks) x d)"

definition plan_ends_by :: "gantt_task list \<Rightarrow> int \<Rightarrow> (task_id \<Rightarrow> int) \<Rightarrow> bool" where
  "plan_ends_by tasks e x = (\<forall>v\<in>task_id ` set tasks. x v + task_duration tasks v \<le> e)"

lemma fold_max_le: "fold (\<lambda>d a. max a (f d)) ds a0 \<le> (x::int) \<longleftrightarrow> a0 \<le> x \<and> (\<forall>d\<in>set ds. f d \<le> x)"
  by (induction ds arbitrary: a0) auto

lemma fold_min_ge: "(x::int) \<le> fold (\<lambda>d a. min a (f d)) ds a0 \<longleftrightarrow> x \<le> a0 \<and> (\<forall>d\<in>set ds. x \<le> f d)"
  by (induction ds arbitrary: a0) auto

lemma es_bound_mono:
  assumes "earliestStartDay (the (N (dependsOnId d))) \<le> x (dependsOnId d)"
    and "earliestFinishDay (the (N (dependsOnId d))) \<le> x (dependsOnId d) + dur (dependsOnId d)"
    and "dep_ok dur x d"
  shows "es_bound N (dur (dep_taskId d)) d \<le> x (dep_taskId d)"
  using assms by (auto simp: es_bound_def esConstraint_def dep_ok_def Let_def split: dep_kind.splits)

lemma lf_bound_mono:
  assumes "x (dep_taskId d) \<le> latestStartDay (the (N (dep_taskId d)))"
    and "x (dep_taskId d) + dur (dep_taskId d) \<le> latestFinishDay (the (N (dep_taskId d)))"
    and "dep_ok dur x d"
  shows "x (dependsOnId d) + dur (dependsOnId d) \<le> lf_bound N (dur (dependsOnId d)) d"
  using assms by (auto simp: lf_bound_def lfConstraint_def dep_ok_def Let_def split: dep_kind.splits)

section \<open>The earliest and the latest plan\<close>

lemma order_facts:
  assumes "computeSchedule tasks deps cal = Inr s"
  shows "set (sch_order s) = task_id ` set tasks" "distinct (sch_order s)"
  using topologicalSort_cases[of "map task_id tasks" deps] computeSchedule_facts(2)[OF assms] by auto

lemma schedule_induct [consumes 2, case_names task]:
  assumes s: "computeSchedule tasks deps cal = Inr s" and v: "v \<in> task_id ` set tasks"
    and step: "\<And>v. v \<in> task_id ` set tasks \<Longrightarrow> (\<And>d. d \<in> set deps \<Longrightarrow> dep_taskId d = v \<Longrightarrow> P (dependsOnId d)) \<Longrightarrow> P v"
  shows "P v"
proof -
  let ?o = "sch_order s"
  note refs = computeSchedule_facts(1)[OF s] and sort = computeSchedule_facts(2)[OF s]
  have "i < length ?o \<Longrightarrow> P (?o ! i)" for i
  proof (induction i rule: less_induct)
    case (less i)
    have split: "?o = take i ?o @ ?o ! i # drop (Suc i) ?o" using id_take_nth_drop[OF less.prems] .
    show ?case
    proof (rule step)
      show "?o ! i \<in> task_id ` set tasks" using order_facts(1)[OF s] less.prems nth_mem by blast
      fix d assume d: "d \<in> set deps" "dep_taskId d = ?o ! i"
      have "dependsOnId d \<in> set (take i ?o)"
        using sort_positions(1)[OF sort refs d(1), of "take i ?o" "drop (Suc i) ?o"] split d(2) by (simp only:)
      then obtain j where "j < i" "?o ! j = dependsOnId d" using less.prems by (auto simp: in_set_conv_nth)
      with less.IH[of j] less.prems show "P (dependsOnId d)" by simp
    qed
  qed
  then show ?thesis using v order_facts(1)[OF s] by (metis in_set_conv_nth)
qed

lemma schedule_induct_back [consumes 2, case_names task]:
  assumes s: "computeSchedule tasks deps cal = Inr s" and v: "v \<in> task_id ` set tasks"
    and step: "\<And>v. v \<in> task_id ` set tasks \<Longrightarrow> (\<And>d. d \<in> set deps \<Longrightarrow> dependsOnId d = v \<Longrightarrow> P (dep_taskId d)) \<Longrightarrow> P v"
  shows "P v"
proof -
  let ?o = "sch_order s"
  note refs = computeSchedule_facts(1)[OF s] and sort = computeSchedule_facts(2)[OF s]
  have "i < length ?o \<Longrightarrow> P (?o ! i)" for i
  proof (induction "length ?o - i" arbitrary: i rule: less_induct)
    case less
    have split: "?o = take i ?o @ ?o ! i # drop (Suc i) ?o" using id_take_nth_drop[OF less.prems] .
    show ?case
    proof (rule step)
      show "?o ! i \<in> task_id ` set tasks" using order_facts(1)[OF s] less.prems nth_mem by blast
      fix d assume d: "d \<in> set deps" "dependsOnId d = ?o ! i"
      have "dep_taskId d \<in> set (drop (Suc i) ?o)"
        using sort_positions(2)[OF sort refs d(1), of "take i ?o" "drop (Suc i) ?o"] split d(2) by (simp only:)
      then obtain k where "k < length ?o - Suc i" "?o ! (Suc i + k) = dep_taskId d"
        using less.prems by (auto simp: in_set_conv_nth)
      with less.hyps[of "Suc i + k"] less.prems show "P (dep_taskId d)" by simp
    qed
  qed
  then show ?thesis using v order_facts(1)[OF s] by (metis in_set_conv_nth)
qed

lemma earliest_plan:
  assumes "computeSchedule tasks deps cal = Inr s"
  defines "ES \<equiv> \<lambda>v. earliestStartDay (node_of s v)"
  shows "plan_starts_ok tasks cal ES \<and> plan_deps_ok tasks deps ES
    \<and> (\<forall>x. plan_starts_ok tasks cal x \<longrightarrow> plan_deps_ok tasks deps x \<longrightarrow> (\<forall>v\<in>task_id ` set tasks. ES v \<le> x v))"
proof (intro conjI allI impI ballI)
  note facts = computeSchedule_facts[OF assms(1)]
  have bounds: "earliest_allowed tasks cal v \<le> ES v
      \<and> (\<forall>d\<in>set deps. dep_taskId d = v \<longrightarrow> es_bound (nodes s) (task_duration tasks v) d \<le> ES v)"
    if "v \<in> task_id ` set tasks" for v
    using fold_max_le[of "es_bound (nodes s) (task_duration tasks v)" "filter (\<lambda>d. dep_taskId d = v) deps"
        "earliest_allowed tasks cal v" "ES v"] facts(3)[OF that]
    by (simp add: ES_def)
  show "plan_starts_ok tasks cal ES" using bounds by (simp add: plan_starts_ok_def)
  show "plan_deps_ok tasks deps ES"
    unfolding plan_deps_ok_def
  proof
    fix d assume d: "d \<in> set deps"
    with facts(1) have V: "dep_taskId d \<in> task_id ` set tasks" "dependsOnId d \<in> task_id ` set tasks" by blast+
    from bounds[OF V(1)] d have "es_bound (nodes s) (task_duration tasks (dep_taskId d)) d \<le> ES (dep_taskId d)" by blast
    with facts(4)[OF V(2)] show "dep_ok (task_duration tasks) ES d"
      by (simp add: ES_def es_bound_def esConstraint_def dep_ok_def Let_def split: dep_kind.splits)
  qed
  fix x v assume x: "plan_starts_ok tasks cal x" "plan_deps_ok tasks deps x" and "v \<in> task_id ` set tasks"
  from assms(1) this(3) show "ES v \<le> x v"
  proof (induction rule: schedule_induct)
    case (task v)
    have "es_bound (nodes s) (task_duration tasks v) d \<le> x v" if "d \<in> set deps" "dep_taskId d = v" for d
    proof -
      have p: "dependsOnId d \<in> task_id ` set tasks" using facts(1) that(1) by blast
      have "ES (dependsOnId d) \<le> x (dependsOnId d)" using task(2) that by blast
      moreover have "dep_ok (task_duration tasks) x d" using x(2) that(1) by (simp add: plan_deps_ok_def)
      ultimately show ?thesis
        using es_bound_mono[of "nodes s" d x "task_duration tasks"] facts(4)[OF p] that(2) by (simp add: ES_def)
    qed
    moreover have "earliest_allowed tasks cal v \<le> x v" using x(1) task(1) unfolding plan_starts_ok_def by blast
    ultimately show ?case
      using fold_max_le[of "es_bound (nodes s) (task_duration tasks v)" "filter (\<lambda>d. dep_taskId d = v) deps"
        "earliest_allowed tasks cal v" "x v"] facts(3)[OF task(1)]
      by (simp add: ES_def)
  qed
qed

text \<open>C21. The forward pass: the earliest starts respect every start constraint and every dependency,
  and no plan that respects them starts any task earlier.\<close>

theorem computeSchedule_earliest:
  assumes "computeSchedule tasks deps cal = Inr s"
  defines "ES \<equiv> \<lambda>v. earliestStartDay (node_of s v)"
  shows "plan_starts_ok tasks cal ES \<and> plan_deps_ok tasks deps ES
    \<and> (\<forall>x. plan_starts_ok tasks cal x \<longrightarrow> plan_deps_ok tasks deps x \<longrightarrow> (\<forall>v\<in>task_id ` set tasks. ES v \<le> x v))"
  using earliest_plan[OF assms(1)] unfolding ES_def .

definition sample_tasks :: "gantt_task list" where
  "sample_tasks = map (\<lambda>(i, d). \<lparr>task_id = i, startsAt = None, endsAt = None, durationDays = d\<rparr>)
     [(''a'', 3), (''b'', 2), (''c'', 1)]"

definition sample_deps :: "gantt_dep list" where
  "sample_deps =
     [\<lparr>dep_taskId = ''b'', dependsOnId = ''a'', kind = None, lagDays = Some 1\<rparr>,
      \<lparr>dep_taskId = ''c'', dependsOnId = ''a'', kind = Some SS, lagDays = None\<rparr>]"

lemma sample_sort: "topologicalSort (map task_id sample_tasks) sample_deps = Inr [''a'', ''b'', ''c'']"
  by code_simp

lemma sample_schedule:
  "\<exists>s. computeSchedule sample_tasks sample_deps None = Inr s
     \<and> earliestStartDay (node_of s ''a'') = 0 \<and> earliestStartDay (node_of s ''b'') = 4 \<and> earliestStartDay (node_of s ''c'') = 0
     \<and> projectEndDay s = 6 \<and> slackDays (node_of s ''b'') = 0 \<and> slackDays (node_of s ''c'') = 5"
proof -
  have starts: "explicitStarts (mapper_of None) sample_tasks = Inr []"
    by (simp add: explicitStarts_def sample_tasks_def)
  obtain s where s: "computeSchedule sample_tasks sample_deps None = Inr s"
    using computeSchedule_total[OF _ sample_sort starts]
    by (auto simp: sample_tasks_def sample_deps_def)
  have V: "task_id ` set sample_tasks = {''a'', ''b'', ''c''}" by (auto simp: sample_tasks_def)
  note f = computeSchedule_facts[OF s, unfolded V]
  have dur: "task_duration sample_tasks ''a'' = 3" "task_duration sample_tasks ''b'' = 2" "task_duration sample_tasks ''c'' = 1"
    by (simp_all add: task_duration_def byId_def sample_tasks_def durationOf_def)
  have ea: "earliest_allowed sample_tasks None v = 0" if "v \<in> {''a'', ''b'', ''c''}" for v
    using that starts
    by (auto simp: earliest_allowed_def startConstraint_def byId_def sample_tasks_def anchorUnit_def mapper_of_def IDENTITY_MAPPER_def)
  note ev = sample_deps_def es_bound_def lf_bound_def edgeOf_def esConstraint_def lfConstraint_def
  have a: "earliestStartDay (node_of s ''a'') = 0" using f(3)[of "''a''"] ea by (simp add: sample_deps_def)
  have a': "earliestFinishDay (node_of s ''a'') = 3" using f(4)[of "''a''"] a dur by simp
  have b: "earliestStartDay (node_of s ''b'') = 4" using f(3)[of "''b''"] ea a' by (simp add: ev)
  have c: "earliestStartDay (node_of s ''c'') = 0" using f(3)[of "''c''"] ea a by (simp add: ev)
  have e: "projectEndDay s = 6" using f(4)[of "''b''"] f(4)[of "''c''"] f(8) a' b c dur by (simp add: sample_tasks_def)
  have "latestFinishDay (node_of s ''b'') = 6" "latestFinishDay (node_of s ''c'') = 6"
    using f(5)[of "''b''"] f(5)[of "''c''"] e by (simp_all add: sample_deps_def)
  then have "slackDays (node_of s ''b'') = 0" "slackDays (node_of s ''c'') = 5"
    using f(6,7)[of "''b''"] f(6,7)[of "''c''"] b c dur by simp_all
  with s a b c e show ?thesis by blast
qed

theorem computeSchedule_earliest_witness:
  "\<exists>s. computeSchedule sample_tasks sample_deps None = Inr s \<and> earliestStartDay (node_of s ''b'') = 4
     \<and> plan_deps_ok sample_tasks sample_deps (\<lambda>v. earliestStartDay (node_of s v))"
proof -
  obtain s where s: "computeSchedule sample_tasks sample_deps None = Inr s" "earliestStartDay (node_of s ''b'') = 4"
    using sample_schedule by blast
  with computeSchedule_earliest[OF s(1)] show ?thesis by simp
qed

lemma latest_plan:
  assumes "computeSchedule tasks deps cal = Inr s"
  defines "LS \<equiv> \<lambda>v. latestStartDay (node_of s v)"
  shows "plan_ends_by tasks (projectEndDay s) LS \<and> plan_deps_ok tasks deps LS
    \<and> (\<forall>x. plan_ends_by tasks (projectEndDay s) x \<longrightarrow> plan_deps_ok tasks deps x
          \<longrightarrow> (\<forall>v\<in>task_id ` set tasks. x v \<le> LS v))"
proof (intro conjI allI impI ballI)
  note facts = computeSchedule_facts[OF assms(1)]
  have bounds: "latestFinishDay (node_of s v) \<le> projectEndDay s
      \<and> (\<forall>d\<in>set deps. dependsOnId d = v \<longrightarrow> latestFinishDay (node_of s v) \<le> lf_bound (nodes s) (task_duration tasks v) d)"
    if "v \<in> task_id ` set tasks" for v
    using fold_min_ge[of "latestFinishDay (node_of s v)" "lf_bound (nodes s) (task_duration tasks v)"
        "filter (\<lambda>d. dependsOnId d = v) deps" "projectEndDay s"] facts(5)[OF that]
    by simp
  show "plan_ends_by tasks (projectEndDay s) LS"
    unfolding plan_ends_by_def
  proof
    fix v assume v: "v \<in> task_id ` set tasks"
    from bounds[OF v] facts(6)[OF v] show "LS v + task_duration tasks v \<le> projectEndDay s" by (simp add: LS_def)
  qed
  show "plan_deps_ok tasks deps LS"
    unfolding plan_deps_ok_def
  proof
    fix d assume d: "d \<in> set deps"
    with facts(1) have V: "dep_taskId d \<in> task_id ` set tasks" "dependsOnId d \<in> task_id ` set tasks" by blast+
    from bounds[OF V(2)] d
    have "latestFinishDay (node_of s (dependsOnId d)) \<le> lf_bound (nodes s) (task_duration tasks (dependsOnId d)) d" by blast
    with facts(6)[OF V(1)] facts(6)[OF V(2)] show "dep_ok (task_duration tasks) LS d"
      by (simp add: LS_def lf_bound_def lfConstraint_def dep_ok_def Let_def split: dep_kind.splits)
  qed
  fix x v assume x: "plan_ends_by tasks (projectEndDay s) x" "plan_deps_ok tasks deps x" and "v \<in> task_id ` set tasks"
  from assms(1) this(3) show "x v \<le> LS v"
  proof (induction rule: schedule_induct_back)
    case (task v)
    have "x v + task_duration tasks v \<le> lf_bound (nodes s) (task_duration tasks v) d"
      if "d \<in> set deps" "dependsOnId d = v" for d
    proof -
      have p: "dep_taskId d \<in> task_id ` set tasks" using facts(1) that(1) by blast
      have "x (dep_taskId d) \<le> LS (dep_taskId d)" using task(2) that by blast
      moreover have "dep_ok (task_duration tasks) x d" using x(2) that(1) by (simp add: plan_deps_ok_def)
      ultimately show ?thesis
        using lf_bound_mono[of x d "nodes s" "task_duration tasks"] facts(6)[OF p] that(2) by (simp add: LS_def)
    qed
    moreover have "x v + task_duration tasks v \<le> projectEndDay s" using x(1) task(1) unfolding plan_ends_by_def by blast
    ultimately show ?case
      using fold_min_ge[of "x v + task_duration tasks v" "lf_bound (nodes s) (task_duration tasks v)"
        "filter (\<lambda>d. dependsOnId d = v) deps" "projectEndDay s"] facts(5,6)[OF task(1)]
      by (simp add: LS_def)
  qed
qed

text \<open>C22. The backward pass: the latest starts respect every dependency and end by the project end,
  and no plan that does starts any task later.\<close>

theorem computeSchedule_latest:
  assumes "computeSchedule tasks deps cal = Inr s"
  defines "LS \<equiv> \<lambda>v. latestStartDay (node_of s v)"
  shows "plan_ends_by tasks (projectEndDay s) LS \<and> plan_deps_ok tasks deps LS
    \<and> (\<forall>x. plan_ends_by tasks (projectEndDay s) x \<longrightarrow> plan_deps_ok tasks deps x
          \<longrightarrow> (\<forall>v\<in>task_id ` set tasks. x v \<le> LS v))"
  using latest_plan[OF assms(1)] unfolding LS_def .

theorem computeSchedule_latest_witness:
  "\<exists>s. computeSchedule sample_tasks sample_deps None = Inr s
     \<and> plan_ends_by sample_tasks 6 (\<lambda>v. latestStartDay (node_of s v))"
proof -
  obtain s where s: "computeSchedule sample_tasks sample_deps None = Inr s" "projectEndDay s = 6"
    using sample_schedule by blast
  with computeSchedule_latest[OF s(1)] show ?thesis by simp
qed

text \<open>The facts about the two plans in the form the next proofs use.\<close>

lemma plans:
  assumes s: "computeSchedule tasks deps cal = Inr s"
  defines "ES \<equiv> \<lambda>v. earliestStartDay (node_of s v)" and "LS \<equiv> \<lambda>v. latestStartDay (node_of s v)"
  shows "plan_starts_ok tasks cal ES" "plan_deps_ok tasks deps ES" "plan_ends_by tasks (projectEndDay s) ES"
    and "plan_starts_ok tasks cal LS" "plan_deps_ok tasks deps LS" "plan_ends_by tasks (projectEndDay s) LS"
    and "plan_starts_ok tasks cal x \<Longrightarrow> plan_deps_ok tasks deps x \<Longrightarrow> v \<in> task_id ` set tasks \<Longrightarrow> ES v \<le> x v"
    and "plan_ends_by tasks (projectEndDay s) x \<Longrightarrow> plan_deps_ok tasks deps x \<Longrightarrow> v \<in> task_id ` set tasks \<Longrightarrow> x v \<le> LS v"
proof -
  note facts = computeSchedule_facts[OF s]
  show es: "plan_starts_ok tasks cal ES" "plan_deps_ok tasks deps ES"
    and "plan_starts_ok tasks cal x \<Longrightarrow> plan_deps_ok tasks deps x \<Longrightarrow> v \<in> task_id ` set tasks \<Longrightarrow> ES v \<le> x v"
    using earliest_plan[OF s] unfolding ES_def by blast+
  show ls: "plan_deps_ok tasks deps LS" "plan_ends_by tasks (projectEndDay s) LS"
    and "plan_ends_by tasks (projectEndDay s) x \<Longrightarrow> plan_deps_ok tasks deps x \<Longrightarrow> v \<in> task_id ` set tasks \<Longrightarrow> x v \<le> LS v"
    using latest_plan[OF s] unfolding LS_def by blast+
  show endok: "plan_ends_by tasks (projectEndDay s) ES"
    unfolding plan_ends_by_def
  proof
    fix v assume v: "v \<in> task_id ` set tasks"
    then have "tasks \<noteq> []" by auto
    with v have "earliestFinishDay (node_of s v) \<le> projectEndDay s" unfolding facts(8)[OF \<open>tasks \<noteq> []\<close>] by (intro Max_ge) auto
    with facts(4)[OF v] show "ES v + task_duration tasks v \<le> projectEndDay s" by (simp add: ES_def)
  qed
  have "ES v \<le> LS v" if "v \<in> task_id ` set tasks" for v
    using latest_plan[OF s] endok es(2) that unfolding LS_def by blast
  with es(1) show "plan_starts_ok tasks cal LS" unfolding plan_starts_ok_def by (meson order_trans)
qed

text \<open>C23. Slack is never negative, and a task has none exactly when every plan that respects the
  start constraints, the dependencies and the project end starts it on its earliest day.\<close>

theorem slack_zero_iff_fixed:
  assumes "computeSchedule tasks deps cal = Inr s" "v \<in> task_id ` set tasks"
  shows "0 \<le> slackDays (node_of s v)
    \<and> (slackDays (node_of s v) = 0 \<longleftrightarrow>
        (\<forall>x. plan_starts_ok tasks cal x \<longrightarrow> plan_deps_ok tasks deps x \<longrightarrow> plan_ends_by tasks (projectEndDay s) x
             \<longrightarrow> x v = earliestStartDay (node_of s v)))"
proof -
  note p = plans[OF assms(1)] and facts = computeSchedule_facts[OF assms(1)]
  have le: "earliestStartDay (node_of s v) \<le> latestStartDay (node_of s v)" using p(8)[OF p(3,2) assms(2)] .
  have fixed: "x v = earliestStartDay (node_of s v)"
    if "latestStartDay (node_of s v) = earliestStartDay (node_of s v)" "plan_starts_ok tasks cal x"
      "plan_deps_ok tasks deps x" "plan_ends_by tasks (projectEndDay s) x" for x
    using p(7)[OF that(2,3) assms(2)] p(8)[OF that(4,3) assms(2)] that(1) by simp
  have slack: "slackDays (node_of s v) = latestStartDay (node_of s v) - earliestStartDay (node_of s v)"
    using facts(7)[OF assms(2)] .
  have "latestStartDay (node_of s v) = earliestStartDay (node_of s v)"
    if "\<forall>x. plan_starts_ok tasks cal x \<longrightarrow> plan_deps_ok tasks deps x \<longrightarrow> plan_ends_by tasks (projectEndDay s) x
             \<longrightarrow> x v = earliestStartDay (node_of s v)"
    using that[rule_format, OF p(4,5,6)] .
  with fixed slack le show ?thesis by (metis diff_ge_0_iff_ge eq_iff_diff_eq_0)
qed

theorem slack_zero_iff_fixed_witness:
  "\<exists>s. computeSchedule sample_tasks sample_deps None = Inr s \<and> slackDays (node_of s ''c'') = 5
     \<and> \<not> (\<forall>x. plan_starts_ok sample_tasks None x \<longrightarrow> plan_deps_ok sample_tasks sample_deps x
           \<longrightarrow> plan_ends_by sample_tasks (projectEndDay s) x \<longrightarrow> x ''c'' = earliestStartDay (node_of s ''c''))"
proof -
  obtain s where s: "computeSchedule sample_tasks sample_deps None = Inr s" "slackDays (node_of s ''c'') = 5"
    using sample_schedule by blast
  have "''c'' \<in> task_id ` set sample_tasks" by (auto simp: sample_tasks_def)
  from slack_zero_iff_fixed[OF s(1) this] s show ?thesis by auto
qed

text \<open>The critical path of a non-empty project is not empty: it holds a task that finishes on the
  last day of the project; and its tasks come in dependency order.\<close>

theorem criticalPath_reaches_end:
  assumes "computeSchedule tasks deps cal = Inr s" "tasks \<noteq> []"
  shows "\<exists>path. computeCriticalPath tasks deps cal = Inr (path, projectEndDay s - projectStartDay s)
    \<and> subseq path (sch_order s)
    \<and> (\<exists>v\<in>set path. earliestFinishDay (node_of s v) = projectEndDay s \<and> latestFinishDay (node_of s v) = projectEndDay s)"
proof -
  note p = plans[OF assms(1)] and facts = computeSchedule_facts[OF assms(1)]
  let ?V = "task_id ` set tasks"
  have "finite ?V" "?V \<noteq> {}" using assms(2) by auto
  then have "projectEndDay s \<in> (\<lambda>v. earliestFinishDay (node_of s v)) ` ?V"
    unfolding facts(8)[OF assms(2)] by (intro Max_in) auto
  then obtain v where e: "projectEndDay s = earliestFinishDay (node_of s v)" and V: "v \<in> ?V" by (rule imageE)
  note v = V e[symmetric]
  have "latestStartDay (node_of s v) + task_duration tasks v \<le> projectEndDay s"
    using p(6) v(1) unfolding plan_ends_by_def by blast
  moreover have "earliestStartDay (node_of s v) \<le> latestStartDay (node_of s v)" using p(8)[OF p(3,2) v(1)] .
  ultimately have "slackDays (node_of s v) = 0" "latestFinishDay (node_of s v) = projectEndDay s"
    using facts(4,6,7)[OF v(1)] v(2) by simp_all
  moreover have "v \<in> set (sch_order s)" using v(1) order_facts(1)[OF assms(1)] by simp
  ultimately show ?thesis
    using assms v(2) by (auto simp: computeCriticalPath_def)
qed

theorem criticalPath_reaches_end_witness:
  "\<exists>path n. computeCriticalPath sample_tasks sample_deps None = Inr (path, n) \<and> path \<noteq> []"
proof -
  obtain s where s: "computeSchedule sample_tasks sample_deps None = Inr s" using sample_schedule by blast
  from criticalPath_reaches_end[OF s] show ?thesis by (auto simp: sample_tasks_def)
qed

text \<open>C24. What the scheduler throws: 422 for an unknown reference, else 422 for a cycle, else what
  the first unreadable start date throws; in every other case it returns.\<close>

theorem computeSchedule_errors:
  "case computeSchedule tasks deps cal of
     Inr s \<Rightarrow> (\<forall>d\<in>set deps. {dep_taskId d, dependsOnId d} \<subseteq> task_id ` set tasks)
       \<and> acyclic (edge_rel (map task_id tasks) deps)
       \<and> (\<exists>starts. explicitStarts (mapper_of cal) tasks = Inr starts)
   | Inl (TDub e) \<Rightarrow>
       (if \<not> (\<forall>d\<in>set deps. {dep_taskId d, dependsOnId d} \<subseteq> task_id ` set tasks)
        then err_code e = ''GANTT_CALC_UNKNOWN_TASK_REF'' \<and> err_status e = 422
        else if \<not> acyclic (edge_rel (map task_id tasks) deps)
        then topologicalSort (map task_id tasks) deps = Inl e
        else explicitStarts (mapper_of cal) tasks = Inl (TDub e))
   | Inl other \<Rightarrow> explicitStarts (mapper_of cal) tasks = Inl other"
proof (cases "\<forall>d\<in>set deps. {dep_taskId d, dependsOnId d} \<subseteq> task_id ` set tasks")
  case False
  then have "assertKnownRefs tasks deps \<noteq> Inr ()" using assertKnownRefs_Inr[of tasks deps "()"] by auto
  then obtain e where "assertKnownRefs tasks deps = Inl e" by (cases "assertKnownRefs tasks deps") auto
  moreover from this have "err_code e = ''GANTT_CALC_UNKNOWN_TASK_REF'' \<and> err_status e = 422"
    by (auto simp: assertKnownRefs_def Let_def DubError_def statusForCode_def no_options_def split: if_splits)
  ultimately show ?thesis using False by (auto simp: computeSchedule_def throws_def)
next
  case known: True
  then have refs: "\<forall>d\<in>set deps. dep_taskId d \<in> task_id ` set tasks \<and> dependsOnId d \<in> task_id ` set tasks" by blast
  then have k: "assertKnownRefs tasks deps = Inr ()" using assertKnownRefs_Inr by blast
  show ?thesis
  proof (cases "topologicalSort (map task_id tasks) deps")
    case (Inl e)
    then have "\<not> acyclic (edge_rel (map task_id tasks) deps)" using topologicalSort_cases[of "map task_id tasks" deps] by auto
    with known Inl k show ?thesis by (simp add: computeSchedule_def throws_def)
  next
    case (Inr order)
    then have ac: "acyclic (edge_rel (map task_id tasks) deps)" using topologicalSort_cases[of "map task_id tasks" deps] by auto
    show ?thesis
    proof (cases "explicitStarts (mapper_of cal) tasks")
      case (Inl e)
      with Inr k ac known show ?thesis
        by (cases e) (simp_all add: computeSchedule_def throws_def Let_def case_prod_beta)
    next
      case (Inr starts)
      from computeSchedule_total[OF refs \<open>topologicalSort _ _ = Inr order\<close> this]
      show ?thesis using known ac Inr by auto
    qed
  qed
qed

theorem computeSchedule_errors_witness:
  "\<exists>e. computeSchedule [] sample_deps None = Inl (TDub e) \<and> err_code e = ''GANTT_CALC_UNKNOWN_TASK_REF''"
proof -
  have "explicitStarts (mapper_of None) [] = Inr []" by (simp add: explicitStarts_def)
  moreover have "(\<forall>d\<in>set sample_deps. {dep_taskId d, dependsOnId d} \<subseteq> task_id ` set []) = False"
    by (auto simp: sample_deps_def)
  ultimately show ?thesis
    using computeSchedule_errors[where tasks = "[]" and deps = sample_deps and cal = None]
    by (simp split: sum.splits thrown.splits)
qed

end
