(* ===== verification/Freeq_Outbox.thy ===== *)
theory Freeq_Outbox
  imports Dub_Errors Js_Date
begin

text \<open>
  \<open>packages/freeq/src/backoff.ts\<close> and \<open>outbox.ts\<close>: the outbox table that replaces a queue.
  The table is the list of its rows in rowid order; its time columns hold the ISO strings the
  code binds, compared as strings, as SQLite compares them. The \<open>payload\<close> column is the value its
  JSON text denotes. The transport \<open>deliver\<close> is a parameter that threads a state of its own and
  answers \<open>None\<close>, or the message of what it threw. One drain runs without another one interleaved.
\<close>

section \<open>backoff.ts\<close>

record backoff_options =
  baseDelayMs :: "int option"
  maxDelayMs :: "int option"

definition DEFAULT_BASE_MS :: int where "DEFAULT_BASE_MS = 1000"
definition DEFAULT_MAX_MS :: int where "DEFAULT_MAX_MS = 60 * 60 * 1000"

definition nullish_or :: "'a option \<Rightarrow> 'a \<Rightarrow> 'a" where
  \<comment> \<open>\<open>x ?? d\<close>\<close>
  "nullish_or x d = (case x of Some a \<Rightarrow> a | None \<Rightarrow> d)"

definition backoffMs :: "int \<Rightarrow> ('a) backoff_options_scheme \<Rightarrow> int option" where
  \<comment> \<open>\<open>None\<close>: \<open>NaN\<close> or minus infinity, which a base below one yields from the 41st attempt on\<close>
  "backoffMs attempts opts =
     (let base = nullish_or (baseDelayMs opts) DEFAULT_BASE_MS;
          cap = nullish_or (maxDelayMs opts) DEFAULT_MAX_MS;
          n = max 1 attempts
      in if n - 1 \<ge> 40 then (if 0 < base then Some cap else None)
         else Some (min (base * 2 ^ nat (n - 1)) cap))"

section \<open>The table\<close>

datatype outbox_status = Pending | Done | Failed

record outbox_row =
  ob_id :: string
  ob_topic :: string
  ob_payload :: js
  ob_status :: outbox_status
  ob_attempts :: int
  ob_next_attempt_at :: string
  ob_created_at :: string
  ob_last_error :: "string option"

type_synonym outbox = "outbox_row list"

fun json_value :: "js \<Rightarrow> js" where
  \<comment> \<open>\<open>JSON.parse(JSON.stringify(v ?? null))\<close>\<close>
  "json_value Undef = Null"
| "json_value (JArr xs) = JArr (map json_value xs)"
| "json_value (JObj kvs) = JObj (map (\<lambda>(k, v). (k, json_value v)) (filter (\<lambda>(k, v). v \<noteq> Undef) kvs))"
| "json_value v = v"

definition date_iso :: "ms \<Rightarrow> thrown + string" where
  \<comment> \<open>\<open>new Date(t).toISOString()\<close>\<close>
  "date_iso t = (case toISOString t of Some s \<Rightarrow> Inr s | None \<Rightarrow> Inl (TError ''Invalid time value''))"

definition enqueue :: "string \<Rightarrow> js \<Rightarrow> string option \<Rightarrow> string \<Rightarrow> ms \<Rightarrow> outbox \<Rightarrow> thrown + (string \<times> outbox)" where
  \<comment> \<open>\<open>minted\<close> is the ULID a call without \<open>opts.id\<close> draws\<close>
  "enqueue topic payload opt_id minted now db =
     try_bind (date_iso now) (\<lambda>iso.
       let i = nullish_or opt_id minted
       in Inr (i, if i \<in> ob_id ` set db then db
                  else db @ [\<lparr>ob_id = i, ob_topic = topic, ob_payload = json_value payload, ob_status = Pending,
                              ob_attempts = 0, ob_next_attempt_at = iso, ob_created_at = iso, ob_last_error = None\<rparr>]))"

section \<open>The drain\<close>

record outbox_message =
  msg_id :: string
  msg_topic :: string
  msg_payload :: js
  msg_attempts :: int

record drain_options = backoff_options +
  batchSize :: "int option"
  maxAttempts :: "int option"

record drain_result =
  claimed :: nat
  delivered :: nat
  retried :: nat
  failed :: nat

definition DEFAULT_BATCH :: int where "DEFAULT_BATCH = 25"
definition DEFAULT_MAX_ATTEMPTS :: int where "DEFAULT_MAX_ATTEMPTS = 8"

definition sql_limit :: "int \<Rightarrow> 'a list \<Rightarrow> 'a list" where
  \<comment> \<open>SQLite takes a negative \<open>LIMIT\<close> as none\<close>
  "sql_limit n xs = (if n < 0 then xs else take (nat n) xs)"

definition due_rows :: "string \<Rightarrow> int \<Rightarrow> outbox \<Rightarrow> outbox" where
  "due_rows nowStr batch db =
     sql_limit batch (sort_key ob_next_attempt_at
       (filter (\<lambda>r. ob_status r = Pending \<and> ob_next_attempt_at r \<le> nowStr) db))"

definition update_id :: "string \<Rightarrow> (outbox_row \<Rightarrow> outbox_row) \<Rightarrow> outbox \<Rightarrow> outbox" where
  "update_id i f db = map (\<lambda>r. if ob_id r = i then f r else r) db"

definition max_attempts :: "drain_options \<Rightarrow> int" where
  "max_attempts opts = nullish_or (maxAttempts opts) DEFAULT_MAX_ATTEMPTS"

definition drain_row ::
  "('w \<Rightarrow> outbox_message \<Rightarrow> 'w \<times> string option) \<Rightarrow> drain_options \<Rightarrow> ms \<Rightarrow> outbox_row
     \<Rightarrow> 'w \<times> outbox \<times> drain_result \<Rightarrow> 'w \<times> outbox \<times> (thrown + drain_result)" where
  "drain_row deliver opts now row acc =
     (case acc of (w, db, out) \<Rightarrow>
        let n = ob_attempts row + 1
        in case deliver w \<lparr>msg_id = ob_id row, msg_topic = ob_topic row, msg_payload = ob_payload row, msg_attempts = n\<rparr> of
             (w', None) \<Rightarrow>
               (w', update_id (ob_id row) (\<lambda>r. r\<lparr>ob_status := Done, ob_attempts := n, ob_last_error := None\<rparr>) db,
                Inr (out\<lparr>delivered := delivered out + 1\<rparr>))
           | (w', Some message) \<Rightarrow>
               if n \<ge> max_attempts opts
               then (w', update_id (ob_id row) (\<lambda>r. r\<lparr>ob_status := Failed, ob_attempts := n, ob_last_error := Some message\<rparr>) db,
                     Inr (out\<lparr>failed := failed out + 1\<rparr>))
               else (case backoffMs n opts of
                       None \<Rightarrow> (w', db, Inl (TError ''Invalid time value''))
                     | Some delay \<Rightarrow>
                         (case date_iso (now + delay) of
                            Inl e \<Rightarrow> (w', db, Inl e)
                          | Inr nextAt \<Rightarrow>
                              (w', update_id (ob_id row)
                                 (\<lambda>r. r\<lparr>ob_attempts := n, ob_next_attempt_at := nextAt, ob_last_error := Some message\<rparr>) db,
                               Inr (out\<lparr>retried := retried out + 1\<rparr>)))))"

fun drain_loop ::
  "('w \<Rightarrow> outbox_message \<Rightarrow> 'w \<times> string option) \<Rightarrow> drain_options \<Rightarrow> ms \<Rightarrow> outbox_row list
     \<Rightarrow> 'w \<times> outbox \<times> drain_result \<Rightarrow> 'w \<times> outbox \<times> (thrown + drain_result)" where
  "drain_loop deliver opts now [] acc = (case acc of (w, db, out) \<Rightarrow> (w, db, Inr out))"
| "drain_loop deliver opts now (r # rs) acc =
     (case drain_row deliver opts now r acc of
        (w, db, Inl e) \<Rightarrow> (w, db, Inl e)
      | (w, db, Inr out) \<Rightarrow> drain_loop deliver opts now rs (w, db, out))"

definition drain ::
  "('w \<Rightarrow> outbox_message \<Rightarrow> 'w \<times> string option) \<Rightarrow> drain_options \<Rightarrow> ms \<Rightarrow> 'w \<Rightarrow> outbox
     \<Rightarrow> 'w \<times> outbox \<times> (thrown + drain_result)" where
  "drain deliver opts now w db =
     (case date_iso now of
        Inl e \<Rightarrow> (w, db, Inl e)
      | Inr nowStr \<Rightarrow>
          let rows = due_rows nowStr (nullish_or (batchSize opts) DEFAULT_BATCH) db
          in drain_loop deliver opts now rows
               (w, db, \<lparr>claimed = length rows, delivered = 0, retried = 0, failed = 0\<rparr>))"

section \<open>Retention\<close>

record prune_options =
  doneRetentionMs :: "int option"
  failedRetentionMs :: "int option"

definition DEFAULT_DONE_RETENTION_MS :: int where "DEFAULT_DONE_RETENTION_MS = 3 * 24 * 60 * 60 * 1000"
definition DEFAULT_FAILED_RETENTION_MS :: int where "DEFAULT_FAILED_RETENTION_MS = 30 * 24 * 60 * 60 * 1000"

definition prunable :: "string \<Rightarrow> string \<Rightarrow> outbox_row \<Rightarrow> bool" where
  \<comment> \<open>the \<open>WHERE\<close> clause of the \<open>DELETE\<close>\<close>
  "prunable doneCutoff failedCutoff r =
     ((ob_status r = Done \<and> ob_created_at r \<le> doneCutoff)
      \<or> (ob_status r = Failed \<and> ob_created_at r \<le> failedCutoff))"

definition pruneOutbox :: "prune_options \<Rightarrow> ms \<Rightarrow> outbox \<Rightarrow> thrown + (nat \<times> outbox)" where
  \<comment> \<open>with the number of deleted rows\<close>
  "pruneOutbox opts now db =
     try_bind (date_iso (now - nullish_or (doneRetentionMs opts) DEFAULT_DONE_RETENTION_MS)) (\<lambda>doneCutoff.
     try_bind (date_iso (now - nullish_or (failedRetentionMs opts) DEFAULT_FAILED_RETENTION_MS)) (\<lambda>failedCutoff.
       let gone = prunable doneCutoff failedCutoff
       in Inr (length (filter gone db), filter (\<lambda>r. \<not> gone r) db)))"

section \<open>The delay\<close>

lemma backoffMs_value:
  assumes "0 < nullish_or (baseDelayMs opts) DEFAULT_BASE_MS"
    and "nullish_or (maxDelayMs opts) DEFAULT_MAX_MS \<le> nullish_or (baseDelayMs opts) DEFAULT_BASE_MS * 2 ^ 40"
  shows "backoffMs n opts = Some (min (nullish_or (baseDelayMs opts) DEFAULT_BASE_MS * 2 ^ nat (max 1 n - 1))
    (nullish_or (maxDelayMs opts) DEFAULT_MAX_MS))"
proof (cases "max 1 n - 1 \<ge> 40")
  case True
  let ?b = "nullish_or (baseDelayMs opts) DEFAULT_BASE_MS"
  have "40 \<le> nat (max 1 n - 1)" using True by simp
  then have "(2::int) ^ 40 \<le> 2 ^ nat (max 1 n - 1)" by (intro power_increasing) auto
  then have "?b * 2 ^ 40 \<le> ?b * 2 ^ nat (max 1 n - 1)" using assms(1) by (intro mult_left_mono) auto
  with assms(2) have "nullish_or (maxDelayMs opts) DEFAULT_MAX_MS \<le> ?b * 2 ^ nat (max 1 n - 1)" by (rule order_trans)
  then show ?thesis using True assms(1) by (simp only: backoffMs_def Let_def if_True min_absorb2)
qed (simp add: backoffMs_def Let_def)

text \<open>Redelivery waits \<open>base * 2^(attempts-1)\<close> up to the ceiling, whatever the clamp of the
  exponent: the delay is positive, bounded, and never shrinks as failures accumulate.\<close>

theorem backoffMs_doubles_to_cap:
  assumes "0 < nullish_or (baseDelayMs opts) DEFAULT_BASE_MS" "0 < nullish_or (maxDelayMs opts) DEFAULT_MAX_MS"
    and "nullish_or (maxDelayMs opts) DEFAULT_MAX_MS \<le> nullish_or (baseDelayMs opts) DEFAULT_BASE_MS * 2 ^ 40"
    and "1 \<le> n" "n \<le> m"
  shows "\<exists>d d'. backoffMs n opts = Some d \<and> backoffMs m opts = Some d' \<and> 0 < d \<and> d \<le> d'
    \<and> d' \<le> nullish_or (maxDelayMs opts) DEFAULT_MAX_MS
    \<and> (d = nullish_or (maxDelayMs opts) DEFAULT_MAX_MS
        \<or> d = nullish_or (baseDelayMs opts) DEFAULT_BASE_MS * 2 ^ nat (n - 1))"
proof -
  let ?b = "nullish_or (baseDelayMs opts) DEFAULT_BASE_MS"
  let ?c = "nullish_or (maxDelayMs opts) DEFAULT_MAX_MS"
  have "(2::int) ^ nat (n - 1) \<le> 2 ^ nat (m - 1)" using assms(5) by (intro power_increasing) auto
  then have le: "?b * 2 ^ nat (n - 1) \<le> ?b * 2 ^ nat (m - 1)" using assms(1) by (intro mult_left_mono) auto
  have pos: "0 < ?b * 2 ^ nat (n - 1)" using assms(1) by simp
  have "max 1 n = n" "max 1 m = m" using assms(4,5) by simp_all
  then have d: "backoffMs n opts = Some (min (?b * 2 ^ nat (n - 1)) ?c)" "backoffMs m opts = Some (min (?b * 2 ^ nat (m - 1)) ?c)"
    using backoffMs_value[OF assms(1,3)] by simp_all
  show ?thesis
    by (rule exI[of _ "min (?b * 2 ^ nat (n - 1)) ?c"], rule exI[of _ "min (?b * 2 ^ nat (m - 1)) ?c"])
      (use d le pos assms(2) in \<open>simp add: min_def\<close>)
qed

theorem backoffMs_doubles_to_cap_witness:
  "backoffMs 4 \<lparr>baseDelayMs = None, maxDelayMs = None\<rparr> = Some 8000
   \<and> (\<exists>d. backoffMs 100 \<lparr>baseDelayMs = None, maxDelayMs = None\<rparr> = Some d \<and> 0 < d)"
proof -
  let ?o = "\<lparr>baseDelayMs = None, maxDelayMs = None\<rparr> :: backoff_options"
  have "backoffMs 4 ?o = Some 8000"
    by (simp add: backoffMs_def nullish_or_def DEFAULT_BASE_MS_def DEFAULT_MAX_MS_def)
  moreover have "\<exists>d. backoffMs 100 ?o = Some d \<and> 0 < d"
    using backoffMs_doubles_to_cap[of ?o 100 100]
    by (simp add: nullish_or_def DEFAULT_BASE_MS_def DEFAULT_MAX_MS_def) blast
  ultimately show ?thesis by simp
qed

section \<open>One attempt\<close>

definition message_of :: "outbox_row \<Rightarrow> outbox_message" where
  "message_of r = \<lparr>msg_id = ob_id r, msg_topic = ob_topic r, msg_payload = ob_payload r, msg_attempts = ob_attempts r + 1\<rparr>"

definition attempted :: "drain_options \<Rightarrow> ms \<Rightarrow> outbox_row \<Rightarrow> string option \<Rightarrow> thrown + outbox_row" where
  \<comment> \<open>what the row becomes when the transport answers\<close>
  "attempted opts now r answer =
     (let n = ob_attempts r + 1
      in case answer of
           None \<Rightarrow> Inr (r\<lparr>ob_status := Done, ob_attempts := n, ob_last_error := None\<rparr>)
         | Some m \<Rightarrow>
             if n \<ge> max_attempts opts then Inr (r\<lparr>ob_status := Failed, ob_attempts := n, ob_last_error := Some m\<rparr>)
             else (case backoffMs n opts of
                     None \<Rightarrow> Inl (TError ''Invalid time value'')
                   | Some delay \<Rightarrow>
                       try_bind (date_iso (now + delay)) (\<lambda>nextAt.
                         Inr (r\<lparr>ob_attempts := n, ob_next_attempt_at := nextAt, ob_last_error := Some m\<rparr>))))"

definition counted :: "outbox_row \<Rightarrow> drain_result \<Rightarrow> drain_result" where
  "counted r out =
     (case ob_status r of
        Done \<Rightarrow> out\<lparr>delivered := delivered out + 1\<rparr>
      | Failed \<Rightarrow> out\<lparr>failed := failed out + 1\<rparr>
      | Pending \<Rightarrow> out\<lparr>retried := retried out + 1\<rparr>)"

lemma update_id_row:
  assumes "distinct (map ob_id db)" "row \<in> set db"
  shows "update_id (ob_id row) f db = map (\<lambda>r. if r = row then f row else r) db"
proof -
  have "(if ob_id r = ob_id row then f r else r) = (if r = row then f row else r)" if "r \<in> set db" for r
    using assms that by (auto simp: distinct_map dest: inj_onD)
  then show ?thesis by (simp add: update_id_def)
qed

lemma drain_row_eq:
  assumes "distinct (map ob_id db)" "row \<in> set db" "ob_status row = Pending"
    and "deliver w (message_of row) = (w', answer)"
  shows "drain_row deliver opts now row (w, db, out) =
    (case attempted opts now row answer of
       Inl e \<Rightarrow> (w', db, Inl e)
     | Inr r' \<Rightarrow> (w', map (\<lambda>r. if r = row then r' else r) db, Inr (counted r' out)))"
proof -
  have d: "deliver w \<lparr>msg_id = ob_id row, msg_topic = ob_topic row, msg_payload = ob_payload row, msg_attempts = ob_attempts row + 1\<rparr>
      = (w', answer)"
    using assms(4) by (simp add: message_of_def)
  note u = update_id_row[OF assms(1,2)]
  show ?thesis
  proof (cases answer)
    case None
    with d show ?thesis by (simp add: drain_row_def attempted_def counted_def Let_def u)
  next
    case (Some m)
    with d show ?thesis
      using assms(3)
      by (simp add: drain_row_def attempted_def counted_def Let_def u split: option.split sum.split)
  qed
qed

lemma attempted_Inr:
  assumes "attempted opts now r answer = Inr r'"
  shows "ob_id r' = ob_id r" "ob_topic r' = ob_topic r" "ob_payload r' = ob_payload r" "ob_created_at r' = ob_created_at r"
    and "ob_attempts r' = ob_attempts r + 1"
    and "ob_status r' = (case answer of None \<Rightarrow> Done
           | Some m \<Rightarrow> if ob_attempts r + 1 \<ge> max_attempts opts then Failed else ob_status r)"
  using assms by (auto simp: attempted_def Let_def try_bind_Inr split: option.splits if_splits)

definition result_of :: "thrown + 'a \<Rightarrow> 'a" where
  "result_of r = (case r of Inr a \<Rightarrow> a | Inl _ \<Rightarrow> undefined)"

lemma drain_loop_log:
  assumes "distinct (map ob_id db)" "distinct rows" "set rows \<subseteq> set db" "\<forall>r\<in>set rows. ob_status r = Pending"
    and "drain_loop (\<lambda>w m. (w @ [m], answer m)) opts now rows (w, db, out) = (w', db', Inr out')"
  shows "w' = w @ map message_of rows
    \<and> (\<forall>r\<in>set rows. \<exists>r'. attempted opts now r (answer (message_of r)) = Inr r')
    \<and> db' = map (\<lambda>r. if r \<in> set rows then result_of (attempted opts now r (answer (message_of r))) else r) db
    \<and> claimed out' = claimed out
    \<and> delivered out' + retried out' + failed out' = delivered out + retried out + failed out + length rows"
  using assms
proof (induction rows arbitrary: w db out)
  case Nil
  then show ?case by simp
next
  case (Cons row rows)
  let ?deliver = "\<lambda>w m. (w @ [m], answer m)"
  let ?a = "attempted opts now row (answer (message_of row))"
  have row: "row \<in> set db" "ob_status row = Pending" using Cons.prems(3,4) by auto
  have step: "drain_row ?deliver opts now row (w, db, out) =
    (case ?a of Inl e \<Rightarrow> (w @ [message_of row], db, Inl e)
     | Inr r' \<Rightarrow> (w @ [message_of row], map (\<lambda>r. if r = row then r' else r) db, Inr (counted r' out)))"
    using drain_row_eq[OF Cons.prems(1) row, of ?deliver] by simp
  then obtain r' where a: "?a = Inr r'" using Cons.prems(5) by (cases ?a) auto
  define db1 where "db1 = map (\<lambda>r. if r = row then r' else r) db"
  have ids: "map ob_id db1 = map ob_id db" using attempted_Inr(1)[OF a] by (simp add: db1_def)
  have sub: "set rows \<subseteq> set db1" using Cons.prems(2,3) by (auto simp: db1_def)
  have "drain_loop ?deliver opts now rows (w @ [message_of row], db1, counted r' out) = (w', db', Inr out')"
    using Cons.prems(5) by (simp add: step a db1_def)
  note ih = Cons.IH[OF _ _ sub _ this]
  have ih: "w' = (w @ [message_of row]) @ map message_of rows"
    "\<forall>r\<in>set rows. \<exists>r'. attempted opts now r (answer (message_of r)) = Inr r'"
    "db' = map (\<lambda>r. if r \<in> set rows then result_of (attempted opts now r (answer (message_of r))) else r) db1"
    "claimed out' = claimed (counted r' out)"
    "delivered out' + retried out' + failed out'
       = delivered (counted r' out) + retried (counted r' out) + failed (counted r' out) + length rows"
    using ih Cons.prems(1,2,4) by (simp_all add: ids)
  have r'_new: "r' \<notin> set rows"
  proof
    assume "r' \<in> set rows"
    then have "r' \<in> set db" using Cons.prems(3) by auto
    with row(1) Cons.prems(1) have "r' = row" using attempted_Inr(1)[OF a] by (auto simp: distinct_map dest: inj_onD)
    then show False using attempted_Inr(5)[OF a] by simp
  qed
  have "db' = map (\<lambda>r. if r \<in> set (row # rows) then result_of (attempted opts now r (answer (message_of r))) else r) db"
    using r'_new Cons.prems(2) by (auto simp: ih(3) db1_def a result_of_def)
  moreover have "claimed (counted r' out) = claimed out"
    "delivered (counted r' out) + retried (counted r' out) + failed (counted r' out) = Suc (delivered out + retried out + failed out)"
    by (simp_all add: counted_def split: outbox_status.split)
  ultimately show ?case using ih a by simp
qed

lemma due_rows_facts:
  "set (due_rows t n db) \<subseteq> {r \<in> set db. ob_status r = Pending \<and> ob_next_attempt_at r \<le> t}"
  "distinct (map ob_id db) \<Longrightarrow> distinct (due_rows t n db)"
  "sorted (map ob_next_attempt_at (due_rows t n db))"
proof -
  let ?q = "sort_key ob_next_attempt_at (filter (\<lambda>r. ob_status r = Pending \<and> ob_next_attempt_at r \<le> t) db)"
  show "set (due_rows t n db) \<subseteq> {r \<in> set db. ob_status r = Pending \<and> ob_next_attempt_at r \<le> t}"
    using set_take_subset[of "nat n" ?q] by (auto simp: due_rows_def sql_limit_def)
  show "distinct (due_rows t n db)" if "distinct (map ob_id db)"
    using that by (simp add: due_rows_def sql_limit_def distinct_map)
  show "sorted (map ob_next_attempt_at (due_rows t n db))"
    by (simp add: due_rows_def sql_limit_def take_map[symmetric] sorted_wrt_take)
qed

section \<open>What a drain does\<close>

text \<open>A drain that returns hands every due row it claimed to the transport exactly once, earliest
  due date first; each such row becomes done, failed or rescheduled according to the answer, every
  other row is untouched, and the counters add up to the claimed rows.\<close>

theorem drain_spec:
  assumes "distinct (map ob_id db)"
    and "drain (\<lambda>w m. (w @ [m], answer m)) opts now [] db = (sent, db', Inr out)"
  defines "claim \<equiv> due_rows (iso_string now) (nullish_or (batchSize opts) DEFAULT_BATCH) db"
  shows "sent = map message_of claim \<and> distinct claim \<and> sorted (map ob_next_attempt_at claim)
    \<and> (\<forall>r\<in>set claim. \<exists>r'. attempted opts now r (answer (message_of r)) = Inr r')
    \<and> db' = map (\<lambda>r. if r \<in> set claim then result_of (attempted opts now r (answer (message_of r))) else r) db
    \<and> claimed out = length claim \<and> delivered out + retried out + failed out = claimed out"
proof -
  obtain iso where iso: "date_iso now = Inr iso" using assms(2) by (auto simp: drain_def split: sum.splits)
  then have "iso = iso_string now" by (auto simp: date_iso_def toISOString_def split: if_splits)
  with iso assms(2) have loop: "drain_loop (\<lambda>w m. (w @ [m], answer m)) opts now claim
      ([], db, \<lparr>claimed = length claim, delivered = 0, retried = 0, failed = 0\<rparr>) = (sent, db', Inr out)"
    by (simp add: drain_def claim_def Let_def)
  have f: "distinct claim" "set claim \<subseteq> set db" "\<forall>r\<in>set claim. ob_status r = Pending"
      "sorted (map ob_next_attempt_at claim)"
    using due_rows_facts(1)[of _ _ db] due_rows_facts(2)[OF assms(1)] due_rows_facts(3)[of _ _ db]
    by (auto simp: claim_def)
  from drain_loop_log[OF assms(1) f(1-3) loop] f(1,4) show ?thesis by simp
qed

definition sample_row :: "string \<Rightarrow> outbox_row" where
  "sample_row i = \<lparr>ob_id = i, ob_topic = ''audit'', ob_payload = Null, ob_status = Pending, ob_attempts = 0,
     ob_next_attempt_at = ''1970-01-01T00:00:00.000Z'', ob_created_at = ''1970-01-01T00:00:00.000Z'', ob_last_error = None\<rparr>"

definition sample_options :: drain_options where
  "sample_options = \<lparr>baseDelayMs = None, maxDelayMs = None, batchSize = None, maxAttempts = Some 2\<rparr>"

theorem drain_spec_witness:
  "\<exists>sent db' out. drain (\<lambda>w m. (w @ [m], if msg_id m = ''a'' then None else Some ''down'')) sample_options 5 []
       [sample_row ''a'', sample_row ''b''] = (sent, db', Inr out)
     \<and> map msg_id sent = [''a'', ''b''] \<and> map ob_status db' = [Done, Pending] \<and> claimed out = 2"
proof -
  let ?f = "\<lambda>m. if msg_id m = ''a'' then None else Some ''down''"
  let ?db = "[sample_row ''a'', sample_row ''b'']"
  have "case drain (\<lambda>w m. (w @ [m], ?f m)) sample_options 5 [] ?db of (sent, db', r) \<Rightarrow>
      (case r of Inr out \<Rightarrow> map msg_id sent = [''a'', ''b''] \<and> map ob_status db' = [Done, Pending] | Inl _ \<Rightarrow> False)"
    by code_simp
  then obtain sent db' out where d: "drain (\<lambda>w m. (w @ [m], ?f m)) sample_options 5 [] ?db = (sent, db', Inr out)"
    and s: "map msg_id sent = [''a'', ''b'']" "map ob_status db' = [Done, Pending]"
    by (auto split: prod.splits sum.splits)
  have "distinct (map ob_id ?db)" by (simp add: sample_row_def)
  from drain_spec[OF this d] have "claimed out = length sent" by simp
  also have "\<dots> = 2" using s(1) by (metis length_map length_Cons list.size(3) numeral_2_eq_2)
  finally have "claimed out = 2" .
  with d s show ?thesis by (intro exI conjI)
qed

section \<open>Runs of the outbox\<close>

text \<open>
  Producers, drains (with any transport, returning or throwing) and retention jobs in any order;
  every drain of a run uses the same limit \<open>m\<close> on attempts.
\<close>

inductive outbox_step :: "int \<Rightarrow> outbox \<Rightarrow> outbox \<Rightarrow> bool" for m where
  enqueued: "enqueue topic payload opt_id minted now db = Inr (i, db') \<Longrightarrow> outbox_step m db db'"
| drained: "max_attempts opts = m \<Longrightarrow> drain deliver opts now (w :: outbox_message list) db = (w', db', res) \<Longrightarrow> outbox_step m db db'"
| pruned: "pruneOutbox opts now db = Inr (n, db') \<Longrightarrow> outbox_step m db db'"

inductive outbox_run :: "int \<Rightarrow> outbox list \<Rightarrow> bool" for m where
  outbox_run_start: "outbox_run m [[]]"
| outbox_run_step: "outbox_run m (h @ [db]) \<Longrightarrow> outbox_step m db db' \<Longrightarrow> outbox_run m (h @ [db, db'])"

definition row_ok :: "int \<Rightarrow> outbox_row \<Rightarrow> bool" where
  "row_ok m r =
     (case ob_status r of
        Pending \<Rightarrow> 0 \<le> ob_attempts r \<and> ob_attempts r < m
      | Done \<Rightarrow> 1 \<le> ob_attempts r \<and> ob_attempts r \<le> m
      | Failed \<Rightarrow> ob_attempts r = m)"

definition outbox_inv :: "int \<Rightarrow> outbox \<Rightarrow> bool" where
  "outbox_inv m db = (distinct (map ob_id db) \<and> (\<forall>r\<in>set db. row_ok m r))"

definition row_next :: "outbox_row \<Rightarrow> outbox_row \<Rightarrow> bool" where
  \<comment> \<open>the same message, and a row that was not pending is not touched\<close>
  "row_next r r' = (ob_id r' = ob_id r \<and> ob_topic r' = ob_topic r \<and> ob_payload r' = ob_payload r
     \<and> ob_attempts r \<le> ob_attempts r' \<and> (ob_status r \<noteq> Pending \<longrightarrow> r' = r))"

lemma row_next_trans: "row_next a b \<Longrightarrow> row_next b c \<Longrightarrow> row_next a c"
  by (auto simp: row_next_def)

lemma row_ok_attempted:
  assumes "row_ok (max_attempts opts) r" "ob_status r = Pending" "attempted opts now r answer = Inr r'"
  shows "row_ok (max_attempts opts) r'" "row_next r r'"
  using assms attempted_Inr[OF assms(3)] by (auto simp: row_ok_def row_next_def split: option.splits if_splits)

lemma drain_loop_inv:
  assumes "outbox_inv (max_attempts opts) db" "distinct rows" "set rows \<subseteq> set db" "\<forall>r\<in>set rows. ob_status r = Pending"
    and "drain_loop deliver opts now rows (w, db, out) = (w', db', res)"
  shows "outbox_inv (max_attempts opts) db' \<and> list_all2 row_next db db'"
  using assms
proof (induction rows arbitrary: w db out)
  case Nil
  then show ?case by (auto simp: row_next_def intro: list.rel_refl_strong)
next
  case (Cons row rows)
  have row: "row \<in> set db" "ob_status row = Pending" "row_ok (max_attempts opts) row"
    using Cons.prems(1,3,4) by (auto simp: outbox_inv_def)
  have dist: "distinct (map ob_id db)" using Cons.prems(1) by (simp add: outbox_inv_def)
  obtain w1 answer where d: "deliver w (message_of row) = (w1, answer)" by fastforce
  note step = drain_row_eq[OF dist row(1,2), of deliver w, OF d, of opts now out]
  show ?case
  proof (cases "attempted opts now row answer")
    case (Inl e)
    then show ?thesis using Cons.prems(1,5) step by (auto simp: row_next_def intro: list.rel_refl_strong)
  next
    case (Inr r')
    define db1 where "db1 = map (\<lambda>r. if r = row then r' else r) db"
    note r' = row_ok_attempted[OF row(3,2) Inr]
    have "map ob_id db1 = map ob_id db" using attempted_Inr(1)[OF Inr] by (simp add: db1_def)
    then have inv1: "outbox_inv (max_attempts opts) db1"
      using Cons.prems(1) r'(1) by (auto simp: outbox_inv_def) (auto simp: db1_def)
    have sub: "set rows \<subseteq> set db1" using Cons.prems(2,3) by (auto simp: db1_def)
    have "drain_loop deliver opts now rows (w1, db1, counted r' out) = (w', db', res)"
      using Cons.prems(5) step Inr by (simp add: db1_def)
    with Cons.IH[OF inv1 _ sub _ this] Cons.prems(2,4)
    have ih: "outbox_inv (max_attempts opts) db'" "list_all2 row_next db1 db'" by auto
    have refl: "row_next a a" for a by (simp add: row_next_def)
    have "list_all2 row_next db db1" by (simp add: db1_def list_all2_conv_all_nth refl r'(2))
    from list_all2_trans[of row_next row_next row_next, OF row_next_trans this ih(2)]
    have "list_all2 row_next db db'" by simp
    with ih(1) show ?thesis by blast
  qed
qed

lemma drain_inv:
  assumes "outbox_inv (max_attempts opts) db" "drain deliver opts now w db = (w', db', res)"
  shows "outbox_inv (max_attempts opts) db' \<and> list_all2 row_next db db'"
proof (cases "date_iso now")
  case (Inl e)
  with assms show ?thesis by (auto simp: drain_def row_next_def intro: list.rel_refl_strong)
next
  case (Inr iso)
  let ?rows = "due_rows iso (nullish_or (batchSize opts) DEFAULT_BATCH) db"
  have "distinct (map ob_id db)" using assms(1) by (simp add: outbox_inv_def)
  then have rows: "distinct ?rows" "set ?rows \<subseteq> set db" "\<forall>r\<in>set ?rows. ob_status r = Pending"
    using due_rows_facts(1)[of iso "nullish_or (batchSize opts) DEFAULT_BATCH" db] due_rows_facts(2)[of db] by auto
  have "drain_loop deliver opts now ?rows (w, db, \<lparr>claimed = length ?rows, delivered = 0, retried = 0, failed = 0\<rparr>) = (w', db', res)"
    using assms(2) Inr by (simp add: drain_def Let_def)
  from drain_loop_inv[OF assms(1) rows this] show ?thesis .
qed

lemma enqueue_Inr:
  "enqueue topic payload opt_id minted now db = Inr (i, db') \<Longrightarrow>
     i = nullish_or opt_id minted \<and> (if i \<in> ob_id ` set db then db' = db
       else \<exists>iso. db' = db @ [\<lparr>ob_id = i, ob_topic = topic, ob_payload = json_value payload, ob_status = Pending,
              ob_attempts = 0, ob_next_attempt_at = iso, ob_created_at = iso, ob_last_error = None\<rparr>])"
  by (auto simp: enqueue_def try_bind_Inr Let_def)

lemma step_inv:
  assumes "outbox_step m db db'" "outbox_inv m db" "1 \<le> m"
  shows "outbox_inv m db'"
  using assms
proof (cases rule: outbox_step.cases)
  case (enqueued topic payload opt_id minted now i)
  then show ?thesis using assms(2,3) enqueue_Inr[OF enqueued] by (auto simp: outbox_inv_def row_ok_def split: if_splits)
next
  case (drained opts deliver now w w' res)
  then show ?thesis using assms(2) drain_inv[OF _ drained(2)] by simp
next
  case (pruned opts now n)
  then show ?thesis
    using assms(2) by (auto simp: pruneOutbox_def try_bind_Inr Let_def outbox_inv_def distinct_map_filter)
qed

lemma run_inv:
  assumes "outbox_run m h" "1 \<le> m"
  shows "\<forall>db\<in>set h. outbox_inv m db"
  using assms by (induction rule: outbox_run.induct) (auto simp: outbox_inv_def[of _ "[]"] dest: step_inv)

text \<open>C25. In every run, ids are unique, a row is attempted at most \<open>maxAttempts\<close> times, and it is
  failed only after exactly that many failed attempts.\<close>

theorem outbox_attempts_bounded:
  assumes "outbox_run m (h @ [db])" "1 \<le> m"
  shows "distinct (map ob_id db)
    \<and> (\<forall>r\<in>set db. 0 \<le> ob_attempts r \<and> ob_attempts r \<le> m
         \<and> (ob_status r = Pending \<longrightarrow> ob_attempts r < m) \<and> (ob_status r = Failed \<longrightarrow> ob_attempts r = m))"
proof -
  have inv: "outbox_inv m db" using run_inv[OF assms] by simp
  have "0 \<le> ob_attempts r \<and> ob_attempts r \<le> m
      \<and> (ob_status r = Pending \<longrightarrow> ob_attempts r < m) \<and> (ob_status r = Failed \<longrightarrow> ob_attempts r = m)"
    if "r \<in> set db" for r
  proof -
    have "row_ok m r" using inv that by (simp add: outbox_inv_def)
    then show ?thesis using assms(2) by (cases "ob_status r") (auto simp: row_ok_def)
  qed
  with inv show ?thesis by (simp add: outbox_inv_def)
qed

lemma sample_run: "outbox_run 2 [[], [sample_row ''a'']]"
proof -
  have "enqueue ''audit'' Null (Some ''a'') ''u'' 0 [] = Inr (''a'', [sample_row ''a''])"
    by code_simp
  from outbox_run_step[of 2 "[]", simplified, OF outbox_run_start outbox_step.enqueued[OF this]] show ?thesis .
qed

theorem outbox_attempts_bounded_witness:
  "outbox_run 2 [[], [sample_row ''a'']] \<and> distinct (map ob_id [sample_row ''a''])"
  using outbox_attempts_bounded[of 2 "[[]]" "[sample_row ''a'']"] sample_run by simp

text \<open>C26. An undelivered message is never lost: a step of any kind keeps every pending row, with its
  message, and a row that is gone had reached \<open>done\<close> or \<open>failed\<close> before.\<close>

theorem pending_never_lost:
  assumes "outbox_step m db db'" "outbox_inv m db" "r \<in> set db"
  shows "(\<exists>r'\<in>set db'. row_next r r') \<or> (ob_status r \<noteq> Pending \<and> ob_id r \<notin> ob_id ` set db')"
  using assms(1)
proof (cases rule: outbox_step.cases)
  case (enqueued topic payload opt_id minted now i)
  then show ?thesis using assms(3) enqueue_Inr[OF enqueued] by (auto simp: row_next_def split: if_splits)
next
  case (drained opts deliver now w w' res)
  then have "list_all2 row_next db db'" using assms(2) drain_inv[OF _ drained(2)] by simp
  then show ?thesis using assms(3) by (metis in_set_conv_nth list_all2_conv_all_nth)
next
  case (pruned opts now n)
  then obtain dc fc where db0: "db' = filter (\<lambda>r. \<not> prunable dc fc r) db"
    by (auto simp: pruneOutbox_def try_bind_Inr Let_def)
  define gone where "gone = prunable dc fc"
  have db': "db' = filter (\<lambda>r. \<not> gone r) db" and g: "\<And>r. gone r \<Longrightarrow> ob_status r \<noteq> Pending"
    by (auto simp: db0 gone_def prunable_def)
  show ?thesis
  proof (cases "gone r")
    case True
    have "ob_id r \<notin> ob_id ` set db'"
      using True assms(2,3) by (auto simp: db' outbox_inv_def distinct_map dest: inj_onD)
    with g[OF True] show ?thesis by blast
  next
    case False
    then show ?thesis using assms(3) by (auto simp: db' row_next_def)
  qed
qed

theorem pending_never_lost_witness:
  "\<exists>db'. outbox_step 2 [sample_row ''a''] db' \<and> (\<exists>r'\<in>set db'. row_next (sample_row ''a'') r')"
proof -
  have "pruneOutbox \<lparr>doneRetentionMs = None, failedRetentionMs = None\<rparr> 999999999999 [sample_row ''a''] = Inr (0, [sample_row ''a''])"
    by code_simp
  then have step: "outbox_step 2 [sample_row ''a''] [sample_row ''a'']" by (rule outbox_step.pruned)
  have "outbox_inv 2 [sample_row ''a'']" by (simp add: outbox_inv_def row_ok_def sample_row_def)
  from pending_never_lost[OF step this, of "sample_row ''a''"] step show ?thesis
    by (auto simp: sample_row_def)
qed

end
