(* ===== verification/Lp_Forms.thy ===== *)
theory Lp_Forms
  imports Dub_Errors Js_Date
begin

text \<open>
  \<open>packages/types/src/lp.ts\<close>: the registry of page sections with the lenient reading and the strict
  validation of layouts, and the custom form fields shared by the ticket shop and the proposals. A
  layout's sections and options are association lists in insertion order. Japanese texts are written
  in romanised or English form: the code compares them, and nothing else.
\<close>

section \<open>Registry\<close>

datatype option_value = OV_bool bool | OV_str string

datatype option_kind = K_boolean | K_enum

record option_def =
  od_kind :: option_kind
  od_label :: string
  od_default :: option_value
  od_values :: "(string \<times> string) list"

record section_def =
  sd_label :: string
  sd_hideable :: bool
  sd_defaultVariant :: string
  sd_variants :: "(string \<times> string) list"
  sd_options :: "(string \<times> option_def) list"

record section_setting =
  ss_variant :: string
  ss_visible :: bool
  ss_options :: "(string \<times> option_value) list"

type_synonym lp_layout = "(string \<times> section_setting) list"

record lp_release =
  rl_versionId :: string
  rl_ticketsEnabled :: bool
  rl_ticketsCtaEnabled :: bool
  rl_proposalsEnabled :: bool

record lp_site_config =
  sc_layout :: lp_layout
  sc_release :: lp_release

definition LP_PUBLISH_SITE :: string where
  "LP_PUBLISH_SITE = ''hokuriku-it-conf.com''"

definition LP_PUBLISHABLE_VERSION_IDS :: "string list" where
  "LP_PUBLISHABLE_VERSION_IDS =
     [''v3.6'', ''v3.5'', ''v3.4'', ''v3.3'', ''v3.2'', ''v3.1'', ''v3.0'', ''v2.0'']"

definition plain_section :: "string \<Rightarrow> bool \<Rightarrow> string \<Rightarrow> section_def" where
  "plain_section label hideable variantLabel =
     \<lparr>sd_label = label, sd_hideable = hideable, sd_defaultVariant = ''a'', sd_variants = [(''a'', variantLabel)], sd_options = []\<rparr>"

definition LP_SECTION_REGISTRY :: "(string \<times> section_def) list" where
  "LP_SECTION_REGISTRY =
    [(''header'', (plain_section ''Header'' False ''standard'')\<lparr>sd_options :=
        [(''banner'', \<lparr>od_kind = K_boolean, od_label = ''show the banner'', od_default = OV_bool True, od_values = []\<rparr>)]\<rparr>),
     (''join'', plain_section ''Join'' True ''two cards''),
     (''program'', plain_section ''Program'' True ''standard''),
     (''about'', plain_section ''About'' True ''three points''),
     (''crowdfunding'', (plain_section ''Crowdfunding'' True ''band'')\<lparr>sd_options :=
        [(''pattern'', \<lparr>od_kind = K_enum, od_label = ''pattern'', od_default = OV_str ''current'',
                        od_values = [(''current'', ''current page''), (''supporters'', ''supporters'')]\<rparr>)]\<rparr>),
     (''vision'', plain_section ''Vision'' True ''standard''),
     (''contact'', plain_section ''Contact'' True ''standard''),
     (''footer'', plain_section ''Footer'' False ''standard'')]"

definition sectionDef :: "string \<Rightarrow> section_def option" where
  "sectionDef i = map_of LP_SECTION_REGISTRY i"

definition hasKey :: "(string \<times> 'a) list \<Rightarrow> string \<Rightarrow> bool" where
  "hasKey kvs k = (map_of kvs k \<noteq> None)"

fun put_key :: "string \<Rightarrow> 'a \<Rightarrow> (string \<times> 'a) list \<Rightarrow> (string \<times> 'a) list" where
  \<comment> \<open>\<open>o[k] = v\<close>\<close>
  "put_key k v [] = [(k, v)]"
| "put_key k v ((k', v') # kvs) = (if k' = k then (k, v) # kvs else (k', v') # put_key k v kvs)"

definition optionValue :: "option_def \<Rightarrow> js \<Rightarrow> option_value option" where
  \<comment> \<open>the value when \<open>optionValueOk(def, v)\<close>\<close>
  "optionValue od v =
     (case od_kind od of
        K_boolean \<Rightarrow> map_option OV_bool (js_bool v)
      | K_enum \<Rightarrow> (case js_str v of Some s \<Rightarrow> if hasKey (od_values od) s then Some (OV_str s) else None | None \<Rightarrow> None))"

definition defaultLayout :: lp_layout where
  "defaultLayout = []"

definition resolveSection :: "lp_layout \<Rightarrow> string \<Rightarrow> section_def \<Rightarrow> section_setting" where
  \<comment> \<open>\<open>def\<close> is the registry's entry for the id\<close>
  "resolveSection layout i def =
     (let s = map_of layout i
      in \<lparr>ss_variant = (case s of Some x \<Rightarrow> if hasKey (sd_variants def) (ss_variant x) then ss_variant x else sd_defaultVariant def
                       | None \<Rightarrow> sd_defaultVariant def),
          ss_visible = (if sd_hideable def then (case s of Some x \<Rightarrow> ss_visible x | None \<Rightarrow> True) else True),
          ss_options = map (\<lambda>(k, od). (k, case s of
               Some x \<Rightarrow> (case map_of (ss_options x) k of Some v \<Rightarrow> v | None \<Rightarrow> od_default od)
             | None \<Rightarrow> od_default od)) (sd_options def)\<rparr>)"

section \<open>Lenient reading\<close>

definition js_variant :: "section_def \<Rightarrow> js \<Rightarrow> string option" where
  "js_variant def v = (case js_str v of Some s \<Rightarrow> if hasKey (sd_variants def) s then Some s else None | None \<Rightarrow> None)"

definition keep_options :: "section_def \<Rightarrow> (string \<times> js) list \<Rightarrow> (string \<times> option_value) list" where
  "keep_options def kvs =
     fold (\<lambda>(k, ov) acc. case map_of (sd_options def) k of
         None \<Rightarrow> acc
       | Some od \<Rightarrow> (case optionValue od ov of None \<Rightarrow> acc | Some x \<Rightarrow> put_key k x acc)) kvs []"

definition normalizeSection :: "section_def \<Rightarrow> js \<Rightarrow> section_setting" where
  "normalizeSection def v =
     \<lparr>ss_variant = (case js_variant def (js_get v ''variant'') of Some s \<Rightarrow> s | None \<Rightarrow> sd_defaultVariant def),
      ss_visible = (case js_bool (js_get v ''visible'') of Some b \<Rightarrow> if sd_hideable def then b else True | None \<Rightarrow> True),
      ss_options = keep_options def (case js_record (js_get v ''options'') of Some kvs \<Rightarrow> kvs | None \<Rightarrow> [])\<rparr>"

definition layout_entries :: "js \<Rightarrow> (string \<times> js) list" where
  "layout_entries raw =
     (case js_record raw of
        None \<Rightarrow> []
      | Some _ \<Rightarrow> (case js_record (js_get raw ''sections'') of Some kvs \<Rightarrow> kvs | None \<Rightarrow> []))"

definition normalizeLayout :: "js \<Rightarrow> lp_layout" where
  "normalizeLayout raw =
     fold (\<lambda>(i, v) acc. case (sectionDef i, js_record v) of
         (Some def, Some _) \<Rightarrow> put_key i (normalizeSection def v) acc
       | _ \<Rightarrow> acc) (layout_entries raw) defaultLayout"

section \<open>Attributes of the page\<close>

definition LP_HIDDEN :: string where "LP_HIDDEN = ''off''"

definition lpSectionAttr :: "string \<Rightarrow> string" where
  "lpSectionAttr i = ''data-lp-s-'' @ i"

definition lpOptionAttr :: "string \<Rightarrow> string \<Rightarrow> string" where
  "lpOptionAttr i k = ''data-lp-o-'' @ i @ ''-'' @ k"

definition option_attr :: "string \<Rightarrow> section_setting \<Rightarrow> string \<times> option_def \<Rightarrow> (string \<times> string) list" where
  "option_attr i s = (\<lambda>(k, od).
     case map_of (ss_options s) k of
       None \<Rightarrow> []
     | Some v \<Rightarrow>
         if v = od_default od then []
         else (case (od_kind od, v) of
                 (K_boolean, OV_bool b) \<Rightarrow> [(lpOptionAttr i k, if b then ''on'' else ''off'')]
               | (K_enum, OV_str x) \<Rightarrow> if hasKey (od_values od) x then [(lpOptionAttr i k, x)] else []
               | _ \<Rightarrow> []))"

definition section_attrs :: "string \<times> section_def \<Rightarrow> lp_layout \<Rightarrow> (string \<times> string) list" where
  "section_attrs entry layout =
     (case entry of (i, def) \<Rightarrow>
        (case map_of layout i of
           None \<Rightarrow> []
         | Some s \<Rightarrow>
             (if sd_hideable def \<and> \<not> ss_visible s then [(lpSectionAttr i, LP_HIDDEN)]
              else if hasKey (sd_variants def) (ss_variant s) \<and> ss_variant s \<noteq> sd_defaultVariant def
              then [(lpSectionAttr i, ss_variant s)] else [])
             @ concat (map (option_attr i s) (sd_options def))))"

definition layoutAttributes :: "(string \<times> section_def) list \<Rightarrow> lp_layout \<Rightarrow> (string \<times> string) list" where
  "layoutAttributes registry layout =
     fold (\<lambda>(k, v) acc. put_key k v acc) (concat (map (\<lambda>e. section_attrs e layout) registry)) []"

section \<open>Strict validation\<close>

definition check_options :: "section_def \<Rightarrow> string \<Rightarrow> (string \<times> js) list \<Rightarrow> (string \<times> option_value) list \<times> field_error list" where
  "check_options def loc kvs =
     fold (\<lambda>(k, ov) (opts, issues). case map_of (sd_options def) k of
         None \<Rightarrow> (opts, issues @ [(loc @ ''.options.'' @ k, ''unknown_option'')])
       | Some od \<Rightarrow> (case optionValue od ov of
             None \<Rightarrow> (opts, issues @ [(loc @ ''.options.'' @ k, ''invalid'')])
           | Some x \<Rightarrow> (put_key k x opts, issues))) kvs ([], [])"

definition check_variant :: "section_def \<Rightarrow> string \<Rightarrow> js \<Rightarrow> string \<times> field_error list" where
  "check_variant def loc v =
     (if v = Undef then (sd_defaultVariant def, [])
      else case js_variant def v of
             Some s \<Rightarrow> (s, [])
           | None \<Rightarrow> (sd_defaultVariant def, [(loc @ ''.variant'', ''unknown_variant'')]))"

definition check_visible :: "section_def \<Rightarrow> string \<Rightarrow> js \<Rightarrow> bool \<times> field_error list" where
  "check_visible def loc v =
     (if v = Undef then (True, [])
      else case js_bool v of
             None \<Rightarrow> (True, [(loc @ ''.visible'', ''invalid'')])
           | Some b \<Rightarrow> if \<not> b \<and> \<not> sd_hideable def then (True, [(loc @ ''.visible'', ''not_hideable'')]) else (b, []))"

definition check_section :: "section_def \<Rightarrow> string \<Rightarrow> js \<Rightarrow> section_setting \<times> field_error list" where
  "check_section def loc v =
     (let (variant, e1) = check_variant def loc (js_get v ''variant'');
          (visible, e2) = check_visible def loc (js_get v ''visible'');
          ov = js_get v ''options'';
          (opts, e3) = (if ov = Undef then ([], [])
                        else case js_record ov of
                               None \<Rightarrow> ([], [(loc @ ''.options'', ''invalid'')])
                             | Some kvs \<Rightarrow> check_options def loc kvs)
      in (\<lparr>ss_variant = variant, ss_visible = visible, ss_options = opts\<rparr>, e1 @ e2 @ e3))"

definition check_sections :: "string \<Rightarrow> (string \<times> js) list \<Rightarrow> lp_layout \<Rightarrow> lp_layout \<times> field_error list" where
  "check_sections path kvs layout0 =
     fold (\<lambda>(i, v) (layout, issues).
         let loc = path @ ''.sections.'' @ i
         in case sectionDef i of
              None \<Rightarrow> (layout, issues @ [(loc, ''unknown_section'')])
            | Some def \<Rightarrow>
                (case js_record v of
                   None \<Rightarrow> (layout, issues @ [(loc, ''invalid'')])
                 | Some _ \<Rightarrow> let (s, es) = check_section def loc v in (put_key i s layout, issues @ es))) kvs (layout0, [])"

definition validateLayout :: "js \<Rightarrow> string \<Rightarrow> lp_layout \<times> field_error list" where
  "validateLayout raw path =
     (case js_record raw of
        None \<Rightarrow> (defaultLayout, [(path, ''required'')])
      | Some _ \<Rightarrow>
          let e0 = (if js_get raw ''schema'' = JNum 1 then [] else [(path @ ''.schema'', ''unsupported'')]);
              sections = js_get raw ''sections''
          in if sections = Undef then (defaultLayout, e0)
             else (case js_record sections of
                     None \<Rightarrow> (defaultLayout, e0 @ [(path @ ''.sections'', ''invalid'')])
                   | Some kvs \<Rightarrow> let (layout, es) = check_sections path kvs defaultLayout in (layout, e0 @ es)))"

definition validateRelease :: "js \<Rightarrow> string \<Rightarrow> lp_release option \<times> field_error list" where
  "validateRelease raw path =
     (case js_record raw of
        None \<Rightarrow> (None, [(path, ''required'')])
      | Some _ \<Rightarrow>
          let vid = js_get raw ''versionId'';
              e0 = (case js_str vid of
                      Some s \<Rightarrow> if s \<in> set LP_PUBLISHABLE_VERSION_IDS then [] else [(path @ ''.versionId'', ''not_publishable'')]
                    | None \<Rightarrow> [(path @ ''.versionId'', ''not_publishable'')]);
              es = concat (map (\<lambda>k. if js_bool (js_get raw k) = None then [(path @ ''.'' @ k, ''required'')] else [])
                     [''ticketsEnabled'', ''ticketsCtaEnabled'', ''proposalsEnabled''])
          in if e0 @ es \<noteq> [] then (None, e0 @ es)
             else (Some \<lparr>rl_versionId = js_str_or [] vid,
                        rl_ticketsEnabled = (js_bool (js_get raw ''ticketsEnabled'') = Some True),
                        rl_ticketsCtaEnabled = (js_bool (js_get raw ''ticketsCtaEnabled'') = Some True),
                        rl_proposalsEnabled = (js_bool (js_get raw ''proposalsEnabled'') = Some True)\<rparr>, []))"

definition validateSiteConfig :: "js \<Rightarrow> string \<Rightarrow> lp_site_config option \<times> field_error list" where
  "validateSiteConfig raw path =
     (case js_record raw of
        None \<Rightarrow> (None, [(path, ''required'')])
      | Some _ \<Rightarrow>
          let (layout, e1) = validateLayout (js_get raw ''layout'') (path @ ''.layout'');
              (release, e2) = validateRelease (js_get raw ''release'') (path @ ''.release'')
          in (case release of
                Some r \<Rightarrow> if e1 @ e2 = [] then Some \<lparr>sc_layout = layout, sc_release = r\<rparr> else None
              | None \<Rightarrow> None, e1 @ e2))"

section \<open>Custom form fields\<close>

datatype field_type = F_text | F_textarea | F_radio | F_multiselect | F_select | F_checkbox | F_date | F_email | F_phone

record form_field =
  ff_id :: string
  ff_label :: string
  ff_description :: "string option"
  ff_type :: field_type
  ff_required :: bool
  ff_options :: "string list"

record form_answer =
  fa_fieldId :: string
  fa_label :: string
  fa_value :: string

definition LP_FIELD_TYPES :: "(string \<times> field_type) list" where
  "LP_FIELD_TYPES =
     [(''text'', F_text), (''textarea'', F_textarea), (''radio'', F_radio), (''multiselect'', F_multiselect),
      (''select'', F_select), (''checkbox'', F_checkbox), (''date'', F_date), (''email'', F_email), (''phone'', F_phone)]"

definition LP_FIELD_DESCRIPTION_MAX :: nat where "LP_FIELD_DESCRIPTION_MAX = 200"
definition LP_MULTISELECT_SEPARATOR :: char where "LP_MULTISELECT_SEPARATOR = CHR 0x0A"
definition LP_FIELDS_MAX :: nat where "LP_FIELDS_MAX = 20"
definition LP_FIELD_LABEL_MAX :: nat where "LP_FIELD_LABEL_MAX = 60"
definition LP_FIELD_OPTIONS_MAX :: nat where "LP_FIELD_OPTIONS_MAX = 20"
definition LP_FIELD_OPTION_MAX :: nat where "LP_FIELD_OPTION_MAX = 60"
definition LP_CHECKBOX_YES :: string where "LP_CHECKBOX_YES = ''hai''"
definition LP_BUYER_NAME_MAX :: nat where "LP_BUYER_NAME_MAX = 100"
definition LP_BUYER_EMAIL_MAX :: nat where "LP_BUYER_EMAIL_MAX = 254"

definition isLpFieldType :: "js \<Rightarrow> field_type option" where
  "isLpFieldType v = (case js_str v of Some s \<Rightarrow> map_of LP_FIELD_TYPES s | None \<Rightarrow> None)"

definition isLpChoiceField :: "field_type \<Rightarrow> bool" where
  "isLpChoiceField t = (t \<in> {F_radio, F_multiselect, F_select})"

definition LP_EMAIL_RE :: "string \<Rightarrow> bool" where
  \<comment> \<open>\<open>[^\s@]+@[^\s@]+\.[^\s@]+\<close>\<close>
  "LP_EMAIL_RE s =
     (case split_on CHR ''@'' s of
        [name, host] \<Rightarrow> name \<noteq> [] \<and> list_all (\<lambda>c. \<not> is_space c) (name @ host)
          \<and> list_ex (\<lambda>i. host ! i = CHR ''.'') [1..<length host - 1]
      | _ \<Rightarrow> False)"

definition is_digit :: "char \<Rightarrow> bool" where
  "is_digit = char_between CHR ''0'' CHR ''9''"

definition LP_PHONE_RE :: "string \<Rightarrow> bool" where
  "LP_PHONE_RE s = (6 \<le> length s \<and> length s \<le> 30 \<and> list_all (\<lambda>c. is_digit c \<or> c \<in> set ''+-() '') s)"

definition LP_DATE_RE :: "string \<Rightarrow> bool" where
  "LP_DATE_RE s = (length s = 10 \<and> s ! 4 = CHR ''-'' \<and> s ! 7 = CHR ''-''
     \<and> list_all (\<lambda>i. is_digit (s ! i)) [0, 1, 2, 3, 5, 6, 8, 9])"

definition LP_CLIENT_KEY_RE :: "string \<Rightarrow> bool" where
  "LP_CLIENT_KEY_RE s = (16 \<le> length s \<and> length s \<le> 64 \<and> list_all (\<lambda>c. is_digit c \<or> char_between CHR ''a'' CHR ''f'' c) s)"

definition LP_FIELD_ID_RE :: "string \<Rightarrow> bool" where
  "LP_FIELD_ID_RE s = (1 \<le> length s \<and> length s \<le> 40
     \<and> list_all (\<lambda>c. char_between CHR ''a'' CHR ''z'' c \<or> is_digit c \<or> c = CHR ''_'' \<or> c = CHR ''-'') s)"

definition LP_ANSWER_MAX :: "field_type \<Rightarrow> nat" where
  "LP_ANSWER_MAX t =
     (case t of F_text \<Rightarrow> 200 | F_textarea \<Rightarrow> 2000 | F_radio \<Rightarrow> LP_FIELD_OPTION_MAX
      | F_multiselect \<Rightarrow> (LP_FIELD_OPTION_MAX + 1) * LP_FIELD_OPTIONS_MAX | F_select \<Rightarrow> LP_FIELD_OPTION_MAX
      | F_checkbox \<Rightarrow> 10 | F_date \<Rightarrow> 10 | F_email \<Rightarrow> LP_BUYER_EMAIL_MAX | F_phone \<Rightarrow> 30)"

definition real_date :: "string \<Rightarrow> bool" where
  "real_date value =
     (case date_parse (value @ ''T00:00:00Z'') of
        None \<Rightarrow> False
      | Some t \<Rightarrow> LP_DATE_RE value \<and> starts_with value (iso_string t))"

definition answer_ok :: "field_type \<Rightarrow> string list \<Rightarrow> string \<Rightarrow> bool" where
  \<comment> \<open>\<open>lpFieldAnswerProblem\<close> answers null\<close>
  "answer_ok t opts value =
     (case t of
        F_multiselect \<Rightarrow> (let picked = split_on LP_MULTISELECT_SEPARATOR value
                          in list_all (\<lambda>v. v \<in> set opts) picked \<and> distinct picked)
      | F_radio \<Rightarrow> value \<in> set opts
      | F_select \<Rightarrow> value \<in> set opts
      | F_email \<Rightarrow> LP_EMAIL_RE value
      | F_phone \<Rightarrow> LP_PHONE_RE value
      | F_date \<Rightarrow> real_date value
      | _ \<Rightarrow> True)"

section \<open>Parsing of fields and answers\<close>

definition str_trim :: "js \<Rightarrow> string" where
  \<comment> \<open>\<open>typeof v === "string" ? v.trim() : ""\<close>\<close>
  "str_trim v = (case v of JStr s \<Rightarrow> trim s | _ \<Rightarrow> [])"

definition field_at :: "nat \<Rightarrow> string \<Rightarrow> string" where
  "field_at i k = ''fields['' @ nat_string i @ ''].'' @ k"

definition check_choices :: "nat \<Rightarrow> string list \<Rightarrow> field_error list" where
  "check_choices i opts =
     (if length opts < 1 \<or> LP_FIELD_OPTIONS_MAX < length opts then [(field_at i ''options'', ''invalid_count'')]
      else if list_ex (\<lambda>x. length x = 0 \<or> LP_FIELD_OPTION_MAX < length x \<or> LP_MULTISELECT_SEPARATOR \<in> set x) opts
      then [(field_at i ''options'', ''invalid'')]
      else if \<not> distinct opts then [(field_at i ''options'', ''duplicate'')] else [])"

definition parse_field :: "string list \<Rightarrow> string list \<Rightarrow> nat \<Rightarrow> js \<Rightarrow> field_error list \<times> string \<times> form_field option" where
  \<comment> \<open>the issues of one field, its id for the set \<open>seen\<close>, and the field when there are none\<close>
  "parse_field reserved seen i f =
     (let fid = js_str_or [] (js_get f ''id'');
          e1 = (if \<not> LP_FIELD_ID_RE fid \<or> fid \<in> set reserved then [(field_at i ''id'', ''invalid'')]
                else if fid \<in> set seen then [(field_at i ''id'', ''duplicate'')] else []);
          label = str_trim (js_get f ''label'');
          e2 = (if length label = 0 then [(field_at i ''label'', ''required'')]
                else if LP_FIELD_LABEL_MAX < length label then [(field_at i ''label'', ''too_long'')] else []);
          description = str_trim (js_get f ''description'');
          e3 = (if LP_FIELD_DESCRIPTION_MAX < length description then [(field_at i ''description'', ''too_long'')] else []);
          typ = isLpFieldType (js_get f ''type'');
          e4 = (if typ = None then [(field_at i ''type'', ''invalid'')] else []);
          req = js_bool (js_get f ''required'');
          e5 = (if req = None then [(field_at i ''required'', ''invalid'')] else []);
          choice = (case typ of Some t \<Rightarrow> isLpChoiceField t | None \<Rightarrow> False);
          opts = (if choice then map str_trim (js_items (js_get f ''options'')) else []);
          e6 = (if choice then check_choices i opts else []);
          es = e1 @ e2 @ e3 @ e4 @ e5 @ e6
      in (es, fid,
          case (typ, req) of
            (Some t, Some r) \<Rightarrow>
              if es = [] then Some \<lparr>ff_id = fid, ff_label = label,
                                  ff_description = (if description \<noteq> [] then Some description else None),
                                  ff_type = t, ff_required = r, ff_options = opts\<rparr>
              else None
          | _ \<Rightarrow> None))"

fun parse_fields_from :: "string list \<Rightarrow> string list \<Rightarrow> nat \<Rightarrow> js list \<Rightarrow> form_field list \<times> field_error list" where
  "parse_fields_from reserved seen i [] = ([], [])"
| "parse_fields_from reserved seen i (f # fs) =
     (let (es, fid, fld) = parse_field reserved seen i f;
          (out, bad) = parse_fields_from reserved (fid # seen) (Suc i) fs
      in ((case fld of Some x \<Rightarrow> x # out | None \<Rightarrow> out), es @ bad))"

definition parseLpFields :: "js \<Rightarrow> string list \<Rightarrow> form_field list \<times> field_error list" where
  "parseLpFields body reserved =
     (case js_get body ''fields'' of
        JArr raw \<Rightarrow>
          if LP_FIELDS_MAX < length raw then ([], [(''fields'', ''too_many'')])
          else let (out, bad) = parse_fields_from reserved [] 0 raw
               in (if bad \<noteq> [] then [] else out, bad)
      | _ \<Rightarrow> ([], [(''fields'', ''required'')]))"

definition js_prop :: "js \<Rightarrow> string \<Rightarrow> js" where
  \<comment> \<open>\<open>v[k]\<close> for a computed key: an array has its indices as keys\<close>
  "js_prop v k =
     (case v of
        JArr xs \<Rightarrow> (case find (\<lambda>n. nat_string n = k) [0..<length xs] of Some n \<Rightarrow> xs ! n | None \<Rightarrow> Undef)
      | _ \<Rightarrow> js_get v k)"

definition parse_answer :: "js \<Rightarrow> form_field \<Rightarrow> form_answer \<times> field_error list" where
  "parse_answer rawAnswers f =
     (let value = str_trim (js_prop rawAnswers (ff_id f));
          key = ''answers.'' @ ff_id f;
          es = (if ff_required f \<and> value = [] then [(key, ''required'')]
                else if LP_ANSWER_MAX (ff_type f) < length value then [(key, ''too_long'')]
                else if value \<noteq> [] \<and> \<not> answer_ok (ff_type f) (ff_options f) value then [(key, ''invalid'')]
                else if value \<noteq> [] \<and> ff_type f = F_checkbox \<and> value \<noteq> LP_CHECKBOX_YES then [(key, ''invalid'')]
                else []);
          shown = (if ff_type f = F_multiselect
                   then join_with ''; '' (split_on LP_MULTISELECT_SEPARATOR value) else value)
      in (\<lparr>fa_fieldId = ff_id f, fa_label = ff_label f, fa_value = shown\<rparr>, es))"

definition parseLpAnswers :: "js \<Rightarrow> form_field list \<Rightarrow> form_answer list \<times> field_error list" where
  \<comment> \<open>the answers and the issues appended to \<open>bad\<close>\<close>
  "parseLpAnswers raw fs = (let rs = map (parse_answer raw) fs in (map fst rs, concat (map snd rs)))"

section \<open>Strict and lenient reading of a layout\<close>

lemma fold_issues:
  assumes "\<And>x a es. f x (a, es) = (case h x a of (a', e) \<Rightarrow> (a', es @ e))"
    and "\<And>x a a'. h x a = (a', []) \<Longrightarrow> g x a = a'"
    and "fold f xs (a, es) = (b, [])"
  shows "es = [] \<and> fold g xs a = b"
  using assms(3)
proof (induction xs arbitrary: a es)
  case (Cons x xs)
  obtain a' e where h: "h x a = (a', e)" by fastforce
  with Cons.prems have "fold f xs (a', es @ e) = (b, [])" by (simp add: assms(1))
  from Cons.IH[OF this] h assms(2)[of x a a'] show ?case by simp
qed simp

lemma check_options_keep:
  assumes "check_options def loc kvs = (opts, [])"
  shows "keep_options def kvs = opts"
proof -
  let ?h = "\<lambda>(k, ov) opts. case map_of (sd_options def) k of
         None \<Rightarrow> (opts, [(loc @ ''.options.'' @ k, ''unknown_option'')])
       | Some od \<Rightarrow> (case optionValue od ov of
             None \<Rightarrow> (opts, [(loc @ ''.options.'' @ k, ''invalid'')])
           | Some x \<Rightarrow> (put_key k x opts, []))"
  show ?thesis
    unfolding keep_options_def
    apply (rule fold_issues[where h = ?h, THEN conjunct2])
      prefer 3
      apply (rule assms[unfolded check_options_def])
     apply (auto split: prod.splits option.splits)
    done
qed

lemma check_section_normal:
  assumes "check_section def loc v = (st, [])"
  shows "normalizeSection def v = st"
proof -
  obtain variant e1 where v: "check_variant def loc (js_get v ''variant'') = (variant, e1)" by fastforce
  obtain vis e2 where w: "check_visible def loc (js_get v ''visible'') = (vis, e2)" by fastforce
  define ov where "ov = js_get v ''options''"
  obtain opts e3 where o: "(if ov = Undef then ([], [])
      else case js_record ov of None \<Rightarrow> ([], [(loc @ ''.options'', ''invalid'')])
         | Some kvs \<Rightarrow> check_options def loc kvs) = (opts, e3)" by fastforce
  have st: "st = \<lparr>ss_variant = variant, ss_visible = vis, ss_options = opts\<rparr>" and e: "e1 = []" "e2 = []" "e3 = []"
    using assms v w o by (auto simp: check_section_def ov_def[symmetric])
  have "(case js_variant def (js_get v ''variant'') of Some s \<Rightarrow> s | None \<Rightarrow> sd_defaultVariant def) = variant"
    using v e by (auto simp: check_variant_def js_variant_def split: if_splits option.splits)
  moreover have "(case js_bool (js_get v ''visible'') of Some b \<Rightarrow> if sd_hideable def then b else True | None \<Rightarrow> True) = vis"
    using w e by (auto simp: check_visible_def js_bool_def split: if_splits option.splits)
  moreover have "keep_options def (case js_record ov of Some kvs \<Rightarrow> kvs | None \<Rightarrow> []) = opts"
    using o e check_options_keep
    by (auto simp: js_record_def keep_options_def split: if_splits option.splits)
  ultimately show ?thesis by (simp add: normalizeSection_def st ov_def[symmetric])
qed

lemma check_sections_normal:
  assumes "check_sections path kvs l0 = (l, [])"
  shows "fold (\<lambda>(i, v) acc. case (sectionDef i, js_record v) of
         (Some def, Some _) \<Rightarrow> put_key i (normalizeSection def v) acc
       | _ \<Rightarrow> acc) kvs l0 = l"
proof -
  let ?h = "\<lambda>(i, v) layout. let loc = path @ ''.sections.'' @ i in case sectionDef i of
         None \<Rightarrow> (layout, [(loc, ''unknown_section'')])
       | Some def \<Rightarrow> (case js_record v of
            None \<Rightarrow> (layout, [(loc, ''invalid'')])
          | Some _ \<Rightarrow> let (s, es) = check_section def loc v in (put_key i s layout, es))"
  show ?thesis
    apply (rule fold_issues[where h = ?h, THEN conjunct2])
      prefer 3
      apply (rule assms[unfolded check_sections_def])
     apply (auto simp: Let_def dest: check_section_normal split: prod.splits option.splits)
    done
qed

text \<open>C17. Whenever the strict validation of a written layout reports no issue, the layout it stores is
  the one the lenient reader makes of the same value: what the editor accepts is what the page shows.\<close>

theorem strict_layout_is_normalized:
  assumes "validateLayout raw path = (layout, [])"
  shows "normalizeLayout raw = layout"
proof -
  obtain kvs where r: "raw = JObj kvs"
    using assms by (auto simp: validateLayout_def js_record_def split: js.splits)
  show ?thesis
  proof (cases "js_record (js_get raw ''sections'')")
    case None
    then show ?thesis
      using assms r by (simp add: validateLayout_def js_record_def normalizeLayout_def layout_entries_def Let_def split: if_splits)
  next
    case (Some ss)
    then have "js_get raw ''sections'' \<noteq> Undef" by (auto simp: js_record_def)
    with Some have "check_sections path ss defaultLayout = (layout, [])"
      using assms r by (auto simp: validateLayout_def js_record_def Let_def split: prod.splits)
    from check_sections_normal[OF this] show ?thesis
      using r Some by (simp add: normalizeLayout_def layout_entries_def js_record_def)
  qed
qed

text \<open>What the lenient reader returns can be written back as it is.\<close>

lemma keys_put_key: "set (map fst (put_key k v kvs)) = insert k (set (map fst kvs))"
  by (induction kvs rule: put_key.induct) auto

lemma distinct_put_key: "distinct (map fst kvs) \<Longrightarrow> distinct (map fst (put_key k v kvs))"
proof (induction k v kvs rule: put_key.induct)
  case (2 k v k' v' kvs)
  then show ?case using keys_put_key[of k v kvs] by auto
qed simp

lemma set_put_key: "set (put_key k v kvs) \<subseteq> insert (k, v) (set kvs)"
  by (induction kvs rule: put_key.induct) auto

lemma put_key_fresh: "k \<notin> fst ` set kvs \<Longrightarrow> put_key k v kvs = kvs @ [(k, v)]"
  by (induction kvs rule: put_key.induct) auto

definition option_js :: "option_value \<Rightarrow> js" where
  "option_js x = (case x of OV_bool b \<Rightarrow> JBool b | OV_str s \<Rightarrow> JStr s)"

definition setting_js :: "section_setting \<Rightarrow> js" where
  "setting_js st = JObj [(''variant'', JStr (ss_variant st)), (''visible'', JBool (ss_visible st)),
     (''options'', JObj (map (\<lambda>(k, x). (k, option_js x)) (ss_options st)))]"

definition layout_js :: "lp_layout \<Rightarrow> js" where
  \<comment> \<open>the JSON of a layout\<close>
  "layout_js l = JObj [(''schema'', JNum 1), (''sections'', JObj (map (\<lambda>(i, st). (i, setting_js st)) l))]"

definition option_wf :: "section_def \<Rightarrow> string \<times> option_value \<Rightarrow> bool" where
  "option_wf def e = (case map_of (sd_options def) (fst e) of
     None \<Rightarrow> False | Some od \<Rightarrow> optionValue od (option_js (snd e)) = Some (snd e))"

definition setting_wf :: "section_def \<Rightarrow> section_setting \<Rightarrow> bool" where
  "setting_wf def st \<longleftrightarrow> hasKey (sd_variants def) (ss_variant st) \<and> (sd_hideable def \<or> ss_visible st)
     \<and> distinct (map fst (ss_options st)) \<and> list_all (option_wf def) (ss_options st)"

definition entry_wf :: "string \<times> section_setting \<Rightarrow> bool" where
  "entry_wf e = (case sectionDef (fst e) of None \<Rightarrow> False | Some def \<Rightarrow> setting_wf def (snd e))"

lemma optionValue_js: "optionValue od v = Some x \<Longrightarrow> optionValue od (option_js x) = Some x"
  by (auto simp: optionValue_def option_js_def js_bool_def split: option_kind.splits option.splits if_splits js.splits)

lemma defaultVariant_known: "sectionDef i = Some def \<Longrightarrow> hasKey (sd_variants def) (sd_defaultVariant def)"
  by (auto simp: sectionDef_def LP_SECTION_REGISTRY_def plain_section_def hasKey_def split: if_splits)

lemma keep_options_wf:
  "distinct (map fst (keep_options def kvs)) \<and> list_all (option_wf def) (keep_options def kvs)"
proof -
  let ?f = "\<lambda>(k, ov) acc. case map_of (sd_options def) k of
         None \<Rightarrow> acc
       | Some od \<Rightarrow> (case optionValue od ov of None \<Rightarrow> acc | Some x \<Rightarrow> put_key k x acc)"
  have step: "distinct (map fst (?f e acc)) \<and> list_all (option_wf def) (?f e acc)"
    if acc: "distinct (map fst acc)" "list_all (option_wf def) acc" for e acc
  proof (cases e)
    case (Pair k ov)
    have "list_all (option_wf def) (put_key k x acc)"
      if "map_of (sd_options def) k = Some od" "optionValue od ov = Some x" for od x
    proof -
      have "option_wf def (k, x)" using that optionValue_js by (simp add: option_wf_def)
      with acc(2) set_put_key[of k x acc] show ?thesis by (auto simp: list_all_iff)
    qed
    with acc Pair show ?thesis by (auto simp: distinct_put_key split: option.splits)
  qed
  have "distinct (map fst (fold ?f kvs acc)) \<and> list_all (option_wf def) (fold ?f kvs acc)"
    if "distinct (map fst acc)" "list_all (option_wf def) acc" for acc
    using that
  proof (induction kvs arbitrary: acc)
    case (Cons e kvs)
    show ?case unfolding fold_simps(2) by (rule Cons.IH) (use step[OF Cons.prems] in blast)+
  qed simp
  from this[of "[]"] show ?thesis by (simp add: keep_options_def)
qed

lemma normalizeSection_wf: "sectionDef i = Some def \<Longrightarrow> setting_wf def (normalizeSection def v)"
  using defaultVariant_known[of i def] keep_options_wf
  by (auto simp: setting_wf_def normalizeSection_def js_variant_def split: option.splits if_splits)

lemma normalizeLayout_wf: "distinct (map fst (normalizeLayout raw)) \<and> list_all entry_wf (normalizeLayout raw)"
proof -
  let ?f = "\<lambda>(i, v) acc. case (sectionDef i, js_record v) of
         (Some def, Some _) \<Rightarrow> put_key i (normalizeSection def v) acc
       | _ \<Rightarrow> acc"
  have step: "distinct (map fst (?f e acc)) \<and> list_all entry_wf (?f e acc)"
    if acc: "distinct (map fst acc)" "list_all entry_wf acc" for e acc
  proof (cases e)
    case (Pair i v)
    have "list_all entry_wf (put_key i (normalizeSection def v) acc)" if "sectionDef i = Some def" for def
    proof -
      have "entry_wf (i, normalizeSection def v)" using that normalizeSection_wf by (simp add: entry_wf_def)
      with acc(2) set_put_key[of i _ acc] show ?thesis by (fastforce simp: list_all_iff)
    qed
    with acc Pair show ?thesis by (auto simp: distinct_put_key split: option.splits)
  qed
  have "distinct (map fst (fold ?f kvs acc)) \<and> list_all entry_wf (fold ?f kvs acc)"
    if "distinct (map fst acc)" "list_all entry_wf acc" for kvs acc
    using that
  proof (induction kvs arbitrary: acc)
    case (Cons e kvs)
    show ?case unfolding fold_simps(2) by (rule Cons.IH) (use step[OF Cons.prems] in blast)+
  qed simp
  from this[of "[]"] show ?thesis by (simp add: normalizeLayout_def defaultLayout_def)
qed

lemma check_options_js:
  "distinct (map fst (acc @ opts)) \<Longrightarrow> list_all (option_wf def) opts \<Longrightarrow>
   fold (\<lambda>(k, ov) (opts, issues). case map_of (sd_options def) k of
         None \<Rightarrow> (opts, issues @ [(loc @ ''.options.'' @ k, ''unknown_option'')])
       | Some od \<Rightarrow> (case optionValue od ov of
             None \<Rightarrow> (opts, issues @ [(loc @ ''.options.'' @ k, ''invalid'')])
           | Some x \<Rightarrow> (put_key k x opts, issues))) (map (\<lambda>(k, x). (k, option_js x)) opts) (acc, []) = (acc @ opts, [])"
proof (induction opts arbitrary: acc)
  case (Cons e opts)
  obtain k x where e: "e = (k, x)" by fastforce
  obtain od where od: "map_of (sd_options def) k = Some od" "optionValue od (option_js x) = Some x"
    using Cons.prems(2) e by (auto simp: option_wf_def split: option.splits)
  have "put_key k x acc = acc @ [(k, x)]" using Cons.prems(1) e by (intro put_key_fresh) auto
  with od e Cons.IH[of "acc @ [(k, x)]"] Cons.prems show ?case by simp
qed simp

lemma check_section_js:
  assumes "setting_wf def st"
  shows "check_section def loc (setting_js st) = (st, [])"
proof -
  have "check_options def loc (map (\<lambda>(k, x). (k, option_js x)) (ss_options st)) = (ss_options st, [])"
    using check_options_js[of "[]" "ss_options st" def loc] assms by (simp add: check_options_def setting_wf_def)
  then show ?thesis
    using assms by (simp add: check_section_def setting_js_def js_get_def check_variant_def check_visible_def
        js_variant_def js_record_def js_bool_def setting_wf_def) blast
qed

lemma check_sections_js:
  "distinct (map fst (acc @ l)) \<Longrightarrow> list_all entry_wf l \<Longrightarrow>
   check_sections path (map (\<lambda>(i, st). (i, setting_js st)) l) acc = (acc @ l, [])"
proof (induction l arbitrary: acc)
  case (Cons e l)
  obtain i st where e: "e = (i, st)" by fastforce
  obtain def where d: "sectionDef i = Some def" "setting_wf def st"
    using Cons.prems(2) e by (auto simp: entry_wf_def split: option.splits)
  have "put_key i st acc = acc @ [(i, st)]" using Cons.prems(1) e by (intro put_key_fresh) auto
  moreover have "js_record (setting_js st) \<noteq> None" by (simp add: setting_js_def js_record_def)
  ultimately show ?case
    using d e check_section_js[OF d(2)] Cons.IH[of "acc @ [(i, st)]"] Cons.prems
    by (auto simp: check_sections_def Let_def)
qed (simp add: check_sections_def)

text \<open>C18. Any stored value, however damaged, is read as a layout that the strict validation accepts
  without an issue and stores unchanged.\<close>

theorem normalized_layout_is_valid:
  "validateLayout (layout_js (normalizeLayout raw)) path = (normalizeLayout raw, [])"
  using normalizeLayout_wf[of raw] check_sections_js[of "[]" "normalizeLayout raw" path]
  by (simp add: validateLayout_def layout_js_def js_record_def js_get_def defaultLayout_def)

lemma strict_layout_is_normalized_witness:
  "normalizeLayout (layout_js [(''join'', \<lparr>ss_variant = ''a'', ss_visible = False, ss_options = []\<rparr>)])
     = [(''join'', \<lparr>ss_variant = ''a'', ss_visible = False, ss_options = []\<rparr>)]"
  by (rule strict_layout_is_normalized[where path = "''layout''"]) code_simp

section \<open>Parsed form fields\<close>

definition field_js :: "form_field \<Rightarrow> js" where
  "field_js f = JObj [(''id'', JStr (ff_id f)), (''label'', JStr (ff_label f)),
     (''description'', case ff_description f of Some d \<Rightarrow> JStr d | None \<Rightarrow> Undef),
     (''type'', case find (\<lambda>e. snd e = ff_type f) LP_FIELD_TYPES of Some e \<Rightarrow> JStr (fst e) | None \<Rightarrow> Undef),
     (''required'', JBool (ff_required f)),
     (''options'', JArr (map JStr (ff_options f)))]"

lemma isLpFieldType_js:
  "isLpFieldType (case find (\<lambda>e. snd e = t) LP_FIELD_TYPES of Some e \<Rightarrow> JStr (fst e) | None \<Rightarrow> Undef) = Some t"
  by (cases t) (simp_all add: LP_FIELD_TYPES_def isLpFieldType_def)

lemma str_trim_trimmed: "trim (str_trim v) = str_trim v"
  by (simp add: str_trim_def trim_idem split: js.splits)

lemma parse_field_Some:
  assumes "parse_field reserved seen i v = (es, fid, Some f)"
  shows "es = []" "ff_id f = fid" "LP_FIELD_ID_RE fid" "fid \<notin> set reserved" "fid \<notin> set seen"
    "ff_label f \<noteq> []" "length (ff_label f) \<le> LP_FIELD_LABEL_MAX"
    "isLpChoiceField (ff_type f) \<Longrightarrow> ff_options f \<noteq> [] \<and> length (ff_options f) \<le> LP_FIELD_OPTIONS_MAX \<and> distinct (ff_options f)"
    "\<not> isLpChoiceField (ff_type f) \<Longrightarrow> ff_options f = []"
    "parse_field reserved seen i (field_js f) = ([], fid, Some f)"
proof -
  obtain t where t: "isLpFieldType (js_get v ''type'') = Some t"
    using assms by (cases "isLpFieldType (js_get v ''type'')") (simp_all add: parse_field_def Let_def)
  obtain r where r: "js_bool (js_get v ''required'') = Some r"
    using assms t by (cases "js_bool (js_get v ''required'')") (simp_all add: parse_field_def Let_def)
  define label where "label = str_trim (js_get v ''label'')"
  define desc where "desc = str_trim (js_get v ''description'')"
  define opts where "opts = (if isLpChoiceField t then map str_trim (js_items (js_get v ''options'')) else [])"
  have fid: "fid = js_str_or [] (js_get v ''id'')"
    using assms by (simp add: parse_field_def Let_def)
  have es: "es = []" and e1: "LP_FIELD_ID_RE fid" "fid \<notin> set reserved" "fid \<notin> set seen"
    and e2: "label \<noteq> []" "length label \<le> LP_FIELD_LABEL_MAX" and e3: "length desc \<le> LP_FIELD_DESCRIPTION_MAX"
    and e6: "isLpChoiceField t \<Longrightarrow> check_choices i opts = []"
    and f: "f = \<lparr>ff_id = fid, ff_label = label, ff_description = (if desc \<noteq> [] then Some desc else None),
         ff_type = t, ff_required = r, ff_options = opts\<rparr>"
    using assms by (auto simp: parse_field_def Let_def t r fid label_def desc_def opts_def split: if_splits)
  show "es = []" "ff_id f = fid" "LP_FIELD_ID_RE fid" "fid \<notin> set reserved" "fid \<notin> set seen"
    "ff_label f \<noteq> []" "length (ff_label f) \<le> LP_FIELD_LABEL_MAX"
    by (simp_all add: es e1 e2 f)
  show "isLpChoiceField (ff_type f) \<Longrightarrow> ff_options f \<noteq> [] \<and> length (ff_options f) \<le> LP_FIELD_OPTIONS_MAX \<and> distinct (ff_options f)"
    using e6 by (auto simp: f check_choices_def split: if_splits)
  show "\<not> isLpChoiceField (ff_type f) \<Longrightarrow> ff_options f = []"
    by (simp add: f opts_def)
  have tr: "trim label = label" "trim desc = desc" by (simp_all add: label_def desc_def str_trim_trimmed)
  have to: "map str_trim (map JStr opts) = opts"
    by (auto simp: opts_def str_trim_def trim_idem split: js.splits intro!: map_idI)
  define fj where "fj = field_js f"
  have g: "js_get fj ''id'' = JStr fid" "js_get fj ''label'' = JStr label"
    "js_get fj ''description'' = (if desc \<noteq> [] then JStr desc else Undef)"
    "js_get fj ''required'' = JBool r" "js_get fj ''options'' = JArr (map JStr opts)"
    "isLpFieldType (js_get fj ''type'') = Some t"
    by (simp_all add: fj_def field_js_def js_get_def f isLpFieldType_js)
  have "str_trim (js_get fj ''description'') = desc" using tr g by (simp add: str_trim_def)
  moreover have "(if isLpChoiceField t then map str_trim (js_items (js_get fj ''options'')) else []) = opts"
    using to by (cases "isLpChoiceField t") (simp_all add: g js_items_def, simp add: opts_def)
  moreover have "js_str_or [] (js_get fj ''id'') = fid" "str_trim (js_get fj ''label'') = label"
    "js_bool (js_get fj ''required'') = Some r"
    using tr g by (simp_all add: js_str_or_def str_trim_def js_bool_def)
  moreover from calculation(2) e6
  have "isLpChoiceField t \<Longrightarrow> check_choices i (map str_trim (js_items (js_get fj ''options''))) = []" by simp
  ultimately show "parse_field reserved seen i (field_js f) = ([], fid, Some f)"
    unfolding parse_field_def fj_def[symmetric] using e1 e2 e3 e6 g(6)
    by (simp add: f Let_def)
qed

lemma parse_fields_from_ok:
  assumes "parse_fields_from reserved seen i vs = (out, [])"
  shows "length out = length vs \<and> distinct (map ff_id out) \<and> set (map ff_id out) \<inter> (set reserved \<union> set seen) = {}
     \<and> (\<forall>f\<in>set out. ff_label f \<noteq> [] \<and> length (ff_label f) \<le> LP_FIELD_LABEL_MAX
           \<and> (isLpChoiceField (ff_type f) \<longrightarrow> ff_options f \<noteq> [] \<and> length (ff_options f) \<le> LP_FIELD_OPTIONS_MAX \<and> distinct (ff_options f)))
     \<and> parse_fields_from reserved seen i (map field_js out) = (out, [])"
  using assms
proof (induction vs arbitrary: seen i out)
  case (Cons v vs)
  obtain es fid fld where p: "parse_field reserved seen i v = (es, fid, fld)" by (metis prod_cases3)
  obtain out' bad where r: "parse_fields_from reserved (fid # seen) (Suc i) vs = (out', bad)" by fastforce
  have e: "es = []" "bad = []" "out = (case fld of Some x \<Rightarrow> x # out' | None \<Rightarrow> out')"
    using Cons.prems p r by auto
  have "fld \<noteq> None"
    using p e(1) by (auto simp: parse_field_def Let_def split: option.splits if_splits)
  then obtain f where f: "fld = Some f" by blast
  note P = parse_field_Some[OF p[unfolded f]]
  have IH: "length out' = length vs" "distinct (map ff_id out')" "set (map ff_id out') \<inter> (set reserved \<union> set (fid # seen)) = {}"
    "\<forall>f\<in>set out'. ff_label f \<noteq> [] \<and> length (ff_label f) \<le> LP_FIELD_LABEL_MAX
           \<and> (isLpChoiceField (ff_type f) \<longrightarrow> ff_options f \<noteq> [] \<and> length (ff_options f) \<le> LP_FIELD_OPTIONS_MAX \<and> distinct (ff_options f))"
    "parse_fields_from reserved (fid # seen) (Suc i) (map field_js out') = (out', [])"
    using Cons.IH[OF r[unfolded e(2)]] by blast+
  have out: "out = f # out'" using e f by simp
  show ?case
  proof (intro conjI)
    show "distinct (map ff_id out)" "set (map ff_id out) \<inter> (set reserved \<union> set seen) = {}"
      using IH(2,3) P(2,4,5) by (auto simp: out)
    show "parse_fields_from reserved seen i (map field_js out) = (out, [])"
      using P(10) IH(5) by (simp add: out)
  qed (use IH P in \<open>auto simp: out\<close>)
qed simp

text \<open>Accepted form fields are one per submitted row, at most 20, with pairwise distinct ids none of
  which is reserved, labels of 1 to 60 characters and 1 to 20 distinct choices where choices exist;
  and submitting them again as stored is accepted and changes nothing.\<close>

theorem parsed_fields_wf:
  assumes "parseLpFields body reserved = (fs, [])"
  shows "length fs \<le> LP_FIELDS_MAX \<and> distinct (map ff_id fs) \<and> set (map ff_id fs) \<inter> set reserved = {}
    \<and> (\<forall>f\<in>set fs. ff_label f \<noteq> [] \<and> length (ff_label f) \<le> LP_FIELD_LABEL_MAX
       \<and> (isLpChoiceField (ff_type f) \<longrightarrow> ff_options f \<noteq> [] \<and> length (ff_options f) \<le> LP_FIELD_OPTIONS_MAX \<and> distinct (ff_options f)))
    \<and> parseLpFields (JObj [(''fields'', JArr (map field_js fs))]) reserved = (fs, [])"
proof -
  obtain raw where raw: "js_get body ''fields'' = JArr raw" "length raw \<le> LP_FIELDS_MAX"
      "parse_fields_from reserved [] 0 raw = (fs, [])"
    using assms by (auto simp: parseLpFields_def split: js.splits if_splits prod.splits)
  note P = parse_fields_from_ok[OF raw(3)]
  have "length fs \<le> LP_FIELDS_MAX" "distinct (map ff_id fs)" "set (map ff_id fs) \<inter> set reserved = {}"
    "\<forall>f\<in>set fs. ff_label f \<noteq> [] \<and> length (ff_label f) \<le> LP_FIELD_LABEL_MAX
       \<and> (isLpChoiceField (ff_type f) \<longrightarrow> ff_options f \<noteq> [] \<and> length (ff_options f) \<le> LP_FIELD_OPTIONS_MAX \<and> distinct (ff_options f))"
    using P raw(2) by auto
  moreover have "parseLpFields (JObj [(''fields'', JArr (map field_js fs))]) reserved = (fs, [])"
    using P raw(2) by (auto simp: parseLpFields_def js_get_def)
  ultimately show ?thesis by blast
qed

lemma parsed_fields_wf_witness:
  "distinct (map ff_id (fst (parseLpFields (JObj [(''fields'', JArr [
      JObj [(''id'', JStr ''size''), (''label'', JStr '' T-shirt ''), (''type'', JStr ''select''), (''required'', JBool True),
            (''options'', JArr [JStr ''M'', JStr ''L''])],
      JObj [(''id'', JStr ''note''), (''label'', JStr ''Note''), (''type'', JStr ''text''), (''required'', JBool False)]])]) [''name''])))"
  (is "distinct (map ff_id (fst ?r))")
proof -
  have e: "snd ?r = []" by code_simp
  obtain fs es where r: "?r = (fs, es)" by (rule prod.exhaust)
  have "distinct (map ff_id fs)" using parsed_fields_wf[of _ _ fs] r e by (simp only: snd_conv)
  then show ?thesis by (simp only: r fst_conv)
qed

end
