(* ===== verification/Ticket_Store.thy ===== *)
theory Ticket_Store
  imports Lp_Forms "HOL-Library.Product_Lexorder"
begin

text \<open>
  \<open>services/lp-tickets/src/types.ts\<close> and \<open>memory-repo.ts\<close>: the rows of the ticket shop and the
  repository over them, one definition per method of \<open>LpTicketRepo\<close>. The store is a record of
  the tables; a method takes it and returns its answer, the new store, or both. Timestamps are the
  ISO strings of the code and are compared as strings. Cloning of rows is implicit.
\<close>

section \<open>Rows\<close>

datatype order_status = O_pending | O_paid | O_expired | O_refunded | O_needs_review

record order_item =
  oi_type :: string
  oi_name :: string
  oi_day :: string
  oi_price :: int
  oi_qty :: int

record ticket_type =
  tt_id :: string
  tt_site :: string
  tt_name :: string
  tt_description :: string
  tt_price :: int
  tt_capacity :: "int option"
  tt_day :: string
  tt_maxPerOrder :: int
  tt_active :: bool
  tt_sortOrder :: int
  tt_createdAt :: string
  tt_updatedAt :: string

record ticket_order =
  o_id :: string
  o_site :: string
  o_items :: "order_item list"
  o_quantity :: int
  o_amount :: int
  o_status :: order_status
  o_buyerName :: string
  o_buyerEmail :: string
  o_answers :: "form_answer list"
  o_session :: "string option"
  o_createdAt :: string
  o_paidAt :: "string option"
  o_intent :: "string option"
  o_refundedAt :: "string option"
  o_reviewReason :: "string option"
  o_resolvedBy :: "string option"
  o_resolvedAt :: "string option"
  o_clientKey :: "string option"
  o_couponId :: "string option"
  o_paymentMethod :: "string option"
  o_preview :: bool

record coupon =
  cp_id :: string
  cp_site :: string
  cp_code :: string
  cp_label :: string
  cp_type :: string
  cp_maxUses :: int
  cp_expiresAt :: "string option"
  cp_active :: bool
  cp_createdBy :: string
  cp_createdAt :: string
  cp_updatedAt :: string

record ticket_settings =
  st_site :: string
  st_enabled :: bool
  st_cta :: bool
  st_fields :: "form_field list"
  st_updatedBy :: "string option"
  st_updatedAt :: string

record type_agg =
  ag_type :: string
  ag_sold :: int
  ag_pending :: int
  ag_revenue :: int

datatype ticket_status = T_valid | T_void

record ticket =
  tk_id :: string
  tk_order :: string
  tk_type :: string
  tk_name :: string
  tk_day :: string
  tk_status :: ticket_status
  tk_createdAt :: string
  tk_voidedAt :: "string option"

datatype mail_kind = Buyer_confirmation | Ops_copy
datatype mail_status = M_pending | M_sent | M_failed

record mail_row =
  ml_id :: string
  ml_order :: string
  ml_kind :: mail_kind
  ml_status :: mail_status
  ml_attempts :: int
  ml_next :: string
  ml_error :: "string option"
  ml_sentAt :: "string option"
  ml_createdAt :: string

record mail_update =
  mu_id :: string
  mu_status :: mail_status
  mu_attempts :: int
  mu_next :: string
  mu_error :: "string option"
  mu_sentAt :: "string option"

record mail_claim =
  cl_now :: string
  cl_leaseUntil :: string
  cl_kinds :: "mail_kind list"
  cl_limit :: nat
  cl_order :: "string option"

record paid_settlement =
  ps_paidAt :: string
  ps_session :: "string option"
  ps_intent :: "string option"
  ps_capacitySince :: "string option"

record store =
  s_settings :: "string \<rightharpoonup> ticket_settings"
  s_types :: "ticket_type list"
  s_orders :: "ticket_order list"
  s_coupons :: "coupon list"
  s_tickets :: "ticket list"
  s_mails :: "mail_row list"
  s_jobs :: "string \<rightharpoonup> string"

definition kind_string :: "mail_kind \<Rightarrow> string" where
  "kind_string k = (case k of Buyer_confirmation \<Rightarrow> ''buyer_confirmation'' | Ops_copy \<Rightarrow> ''ops_copy'')"

definition coalesce :: "'a option \<Rightarrow> 'a option \<Rightarrow> 'a option" where
  \<comment> \<open>\<open>a ?? b\<close>\<close>
  "coalesce a b = (case a of Some x \<Rightarrow> Some x | None \<Rightarrow> b)"

section \<open>Settings and ticket types\<close>

definition getTicketSettings :: "string \<Rightarrow> store \<Rightarrow> ticket_settings option" where
  "getTicketSettings site s = s_settings s site"

definition upsertSettings ::
  "string \<Rightarrow> (ticket_settings \<Rightarrow> ticket_settings) \<Rightarrow> string \<Rightarrow> string \<Rightarrow> store \<Rightarrow> store" where
  "upsertSettings site patch updatedBy updatedAt s =
     (let cur = (case s_settings s site of Some c \<Rightarrow> c
        | None \<Rightarrow> \<lparr>st_site = site, st_enabled = False, st_cta = False, st_fields = [], st_updatedBy = None, st_updatedAt = updatedAt\<rparr>)
      in s\<lparr>s_settings := (s_settings s)(site \<mapsto> (patch cur)\<lparr>st_updatedBy := Some updatedBy, st_updatedAt := updatedAt\<rparr>)\<rparr>)"

definition setTicketEnabled :: "string \<Rightarrow> bool \<Rightarrow> string \<Rightarrow> string \<Rightarrow> store \<Rightarrow> store" where
  "setTicketEnabled site enabled = upsertSettings site (\<lambda>c. c\<lparr>st_enabled := enabled\<rparr>)"

definition setTicketCta :: "string \<Rightarrow> bool \<Rightarrow> string \<Rightarrow> string \<Rightarrow> store \<Rightarrow> store" where
  "setTicketCta site cta = upsertSettings site (\<lambda>c. c\<lparr>st_cta := cta\<rparr>)"

definition setTicketFields :: "string \<Rightarrow> form_field list \<Rightarrow> string \<Rightarrow> string \<Rightarrow> store \<Rightarrow> store" where
  "setTicketFields site fs = upsertSettings site (\<lambda>c. c\<lparr>st_fields := fs\<rparr>)"

definition setTicketRelease :: "string \<Rightarrow> bool \<Rightarrow> bool \<Rightarrow> string \<Rightarrow> string \<Rightarrow> store \<Rightarrow> store" where
  "setTicketRelease site enabled cta updatedBy updatedAt s =
     (case s_settings s site of
        Some t \<Rightarrow> if st_enabled t \<noteq> enabled \<or> st_cta t \<noteq> cta
                  then upsertSettings site (\<lambda>c. c\<lparr>st_enabled := enabled, st_cta := cta\<rparr>) updatedBy updatedAt s
                  else s
      | None \<Rightarrow> upsertSettings site (\<lambda>c. c\<lparr>st_enabled := enabled, st_cta := cta\<rparr>) updatedBy updatedAt s)"

definition listTicketTypes :: "string \<Rightarrow> store \<Rightarrow> ticket_type list" where
  "listTicketTypes site s = filter (\<lambda>t. tt_site t = site) (s_types s)"

definition getTicketType :: "string \<Rightarrow> string \<Rightarrow> store \<Rightarrow> ticket_type option" where
  "getTicketType site i s = find (\<lambda>t. tt_site t = site \<and> tt_id t = i) (s_types s)"

definition insertTicketType :: "ticket_type \<Rightarrow> store \<Rightarrow> store" where
  "insertTicketType row s = s\<lparr>s_types := s_types s @ [row]\<rparr>"

definition updateTicketType :: "ticket_type \<Rightarrow> store \<Rightarrow> store" where
  "updateTicketType row s =
     s\<lparr>s_types := upd_first (\<lambda>t. tt_site t = tt_site row \<and> tt_id t = tt_id row) (\<lambda>_. row) (s_types s)\<rparr>"

section \<open>Held seats\<close>

definition isHeld :: "string \<Rightarrow> ticket_order \<Rightarrow> bool" where
  "isHeld pendingSince o' =
     (o_status o' = O_paid \<or> o_status o' = O_needs_review \<or> (o_status o' = O_pending \<and> pendingSince \<le> o_createdAt o'))"

definition qty_of :: "string \<Rightarrow> ticket_order \<Rightarrow> int" where
  \<comment> \<open>the seats of a type in one order\<close>
  "qty_of typ o' = sum_by oi_qty (filter (\<lambda>i. oi_type i = typ) (o_items o'))"

definition held :: "string \<Rightarrow> string \<Rightarrow> string \<Rightarrow> store \<Rightarrow> int" where
  "held site typ pendingSince s =
     sum_by oi_qty (filter (\<lambda>i. oi_type i = typ)
       (concat (map o_items (filter (\<lambda>x. o_site x = site \<and> isHeld pendingSince x) (s_orders s)))))"

definition usedBy :: "string \<Rightarrow> string \<Rightarrow> store \<Rightarrow> int" where
  "usedBy couponId pendingSince s =
     sum_by o_quantity (filter (\<lambda>x. o_couponId x = Some couponId \<and> isHeld pendingSince x) (s_orders s))"

fun agg_put :: "string \<Rightarrow> (type_agg \<Rightarrow> type_agg) \<Rightarrow> type_agg list \<Rightarrow> type_agg list" where
  \<comment> \<open>\<open>m.set(k, f(m.get(k) ?? zero))\<close> on a map in insertion order\<close>
  "agg_put k f [] = [f \<lparr>ag_type = k, ag_sold = 0, ag_pending = 0, ag_revenue = 0\<rparr>]"
| "agg_put k f (a # as) = (if ag_type a = k then f a # as else a # agg_put k f as)"

definition agg_item :: "string \<Rightarrow> ticket_order \<Rightarrow> order_item \<Rightarrow> type_agg \<Rightarrow> type_agg" where
  "agg_item pendingSince x i a =
     (if o_status x = O_paid
      then a\<lparr>ag_sold := ag_sold a + oi_qty i, ag_revenue := ag_revenue a + oi_qty i * oi_price i\<rparr>
      else if isHeld pendingSince x then a\<lparr>ag_pending := ag_pending a + oi_qty i\<rparr> else a)"

definition ticketAggregates :: "string \<Rightarrow> string \<Rightarrow> store \<Rightarrow> type_agg list" where
  "ticketAggregates site pendingSince s =
     fold (\<lambda>x m. fold (\<lambda>i m. agg_put (oi_type i) (agg_item pendingSince x i) m) (o_items x) m)
       (filter (\<lambda>x. o_site x = site \<and> o_status x \<in> {O_paid, O_needs_review, O_pending}) (s_orders s)) []"

definition countPendingOrdersSince :: "string \<Rightarrow> string \<Rightarrow> store \<Rightarrow> nat" where
  "countPendingOrdersSince site pendingSince s =
     length (filter (\<lambda>x. o_site x = site \<and> o_status x = O_pending \<and> pendingSince \<le> o_createdAt x) (s_orders s))"

definition heldPendingByClient :: "string \<Rightarrow> string \<Rightarrow> string \<Rightarrow> store \<Rightarrow> int" where
  "heldPendingByClient site clientKey pendingSince s =
     sum_by o_quantity (filter (\<lambda>x. o_site x = site \<and> o_clientKey x = Some clientKey \<and> o_status x = O_pending
       \<and> pendingSince \<le> o_createdAt x) (s_orders s))"

datatype insert_result = Insert_ok | Sold_out string | Coupon_used_up

definition coupon_fits :: "ticket_order \<Rightarrow> string \<Rightarrow> string \<Rightarrow> store \<Rightarrow> bool" where
  "coupon_fits row couponId pendingSince s =
     (case find (\<lambda>c. cp_site c = o_site row \<and> cp_id c = couponId) (s_coupons s) of
        None \<Rightarrow> False
      | Some c \<Rightarrow> cp_active c \<and> length (o_items row) = 1 \<and> oi_type (hd (o_items row)) = cp_type c
          \<and> (case cp_expiresAt c of None \<Rightarrow> True | Some e \<Rightarrow> o_createdAt row < e)
          \<and> usedBy (cp_id c) pendingSince s + o_quantity row \<le> cp_maxUses c)"

definition insertOrderIfAvailable ::
  "ticket_order \<Rightarrow> (string \<rightharpoonup> int option) \<Rightarrow> string \<Rightarrow> store \<Rightarrow> insert_result \<times> store" where
  "insertOrderIfAvailable row capacities pendingSince s =
     (let short = find (\<lambda>i. case capacities (oi_type i) of
            Some (Some capacity) \<Rightarrow> capacity < held (o_site row) (oi_type i) pendingSince s + oi_qty i
          | _ \<Rightarrow> False) (o_items row)
      in if (case o_couponId row of None \<Rightarrow> False | Some c \<Rightarrow> \<not> coupon_fits row c pendingSince s)
         then (Coupon_used_up, s)
         else (case short of
                 Some i \<Rightarrow> (Sold_out (oi_type i), s)
               | None \<Rightarrow> (Insert_ok, s\<lparr>s_orders := s_orders s @ [row]\<rparr>)))"

section \<open>Coupons\<close>

definition insertCoupon :: "coupon \<Rightarrow> store \<Rightarrow> bool \<times> store" where
  "insertCoupon row s =
     (if \<exists>c\<in>set (s_coupons s). cp_site c = cp_site row \<and> cp_code c = cp_code row then (False, s)
      else (True, s\<lparr>s_coupons := s_coupons s @ [row]\<rparr>))"

definition getCoupon :: "string \<Rightarrow> string \<Rightarrow> store \<Rightarrow> coupon option" where
  "getCoupon site i s = find (\<lambda>c. cp_site c = site \<and> cp_id c = i) (s_coupons s)"

definition getCouponByCode :: "string \<Rightarrow> string \<Rightarrow> store \<Rightarrow> coupon option" where
  "getCouponByCode site code s = find (\<lambda>c. cp_site c = site \<and> cp_code c = code) (s_coupons s)"

definition setCouponActive :: "string \<Rightarrow> string \<Rightarrow> bool \<Rightarrow> string \<Rightarrow> store \<Rightarrow> bool \<times> store" where
  "setCouponActive site i active updatedAt s =
     (case find (\<lambda>c. cp_site c = site \<and> cp_id c = i) (s_coupons s) of
        None \<Rightarrow> (False, s)
      | Some _ \<Rightarrow> (True, s\<lparr>s_coupons := upd_first (\<lambda>c. cp_site c = site \<and> cp_id c = i)
                        (\<lambda>c. c\<lparr>cp_active := active, cp_updatedAt := updatedAt\<rparr>) (s_coupons s)\<rparr>))"

definition listCoupons :: "string \<Rightarrow> store \<Rightarrow> coupon list" where
  "listCoupons site s = rev (sort_key (\<lambda>c. (cp_createdAt c, cp_id c)) (filter (\<lambda>c. cp_site c = site) (s_coupons s)))"

definition couponUses :: "string \<Rightarrow> string \<Rightarrow> store \<Rightarrow> (string \<rightharpoonup> int)" where
  "couponUses site pendingSince s =
     (\<lambda>i. if (\<exists>c\<in>set (s_coupons s). cp_site c = site \<and> cp_id c = i) \<and> 0 < usedBy i pendingSince s
          then Some (usedBy i pendingSince s) else None)"

section \<open>Orders\<close>

definition getOrder :: "string \<Rightarrow> string \<Rightarrow> store \<Rightarrow> ticket_order option" where
  "getOrder site i s = find (\<lambda>x. o_site x = site \<and> o_id x = i) (s_orders s)"

definition getOrderBySession :: "string \<Rightarrow> store \<Rightarrow> ticket_order option" where
  "getOrderBySession sessionId s = find (\<lambda>x. o_session x = Some sessionId) (s_orders s)"

definition getOrderByPaymentIntent :: "string \<Rightarrow> store \<Rightarrow> ticket_order option" where
  "getOrderByPaymentIntent intent s = find (\<lambda>x. o_intent x = Some intent) (s_orders s)"

definition on_order :: "string \<Rightarrow> (ticket_order \<Rightarrow> ticket_order) \<Rightarrow> store \<Rightarrow> store" where
  "on_order i f s = s\<lparr>s_orders := upd_first (\<lambda>x. o_id x = i) f (s_orders s)\<rparr>"

definition setOrderSession :: "string \<Rightarrow> string \<Rightarrow> store \<Rightarrow> store" where
  "setOrderSession i sessionId = on_order i (\<lambda>x. x\<lparr>o_session := Some sessionId\<rparr>)"

definition transition :: "string \<Rightarrow> order_status list \<Rightarrow> (ticket_order \<Rightarrow> ticket_order) \<Rightarrow> store \<Rightarrow> bool \<times> store" where
  "transition i froms patch s =
     (case find (\<lambda>x. o_id x = i \<and> o_status x \<in> set froms) (s_orders s) of
        None \<Rightarrow> (False, s)
      | Some _ \<Rightarrow> (True, s\<lparr>s_orders := upd_first (\<lambda>x. o_id x = i \<and> o_status x \<in> set froms) patch (s_orders s)\<rparr>))"

definition first_order :: "string \<Rightarrow> store \<Rightarrow> ticket_order option" where
  "first_order i s = find (\<lambda>x. o_id x = i) (s_orders s)"

definition held_by_others :: "string \<Rightarrow> string \<Rightarrow> string \<Rightarrow> store \<Rightarrow> int" where
  "held_by_others i typ since s =
     sum_by oi_qty (filter (\<lambda>it. oi_type it = typ)
       (concat (map o_items (filter (\<lambda>x. o_id x \<noteq> i \<and> isHeld since x) (s_orders s)))))"

definition oversold_by :: "string \<Rightarrow> string option \<Rightarrow> store \<Rightarrow> bool" where
  "oversold_by i capacitySince s =
     (case capacitySince of
        None \<Rightarrow> False
      | Some since \<Rightarrow>
          (\<exists>it\<in>set (case first_order i s of Some x \<Rightarrow> o_items x | None \<Rightarrow> []).
             case find (\<lambda>t. tt_id t = oi_type it) (s_types s) of
               None \<Rightarrow> False
             | Some t \<Rightarrow> (case tt_capacity t of None \<Rightarrow> False
                          | Some cap \<Rightarrow> cap < held_by_others i (oi_type it) since s + oi_qty it)))"

definition markOrderPaid :: "string \<Rightarrow> paid_settlement \<Rightarrow> store \<Rightarrow> order_status option \<times> store" where
  "markOrderPaid i p s =
     (let x0 = first_order i s;
          over = oversold_by i (ps_capacitySince p) s;
          status = (if over then O_needs_review else O_paid);
          (ok, s') = transition i [O_pending, O_expired]
            (\<lambda>x. x\<lparr>o_status := status, o_paidAt := Some (ps_paidAt p),
                  o_session := coalesce (Option.bind x0 o_session) (ps_session p),
                  o_intent := coalesce (Option.bind x0 o_intent) (ps_intent p),
                  o_reviewReason := (if over then Some ''oversold'' else None)\<rparr>) s
      in (if ok then Some status else None, s'))"

definition markOrderPreview :: "string \<Rightarrow> store \<Rightarrow> store" where
  "markOrderPreview i = on_order i (\<lambda>x. x\<lparr>o_preview := True\<rparr>)"

definition setOrderPaymentMethod :: "string \<Rightarrow> string \<Rightarrow> store \<Rightarrow> store" where
  "setOrderPaymentMethod i method = on_order i (\<lambda>x. x\<lparr>o_paymentMethod := Some method\<rparr>)"

definition markOrderExpired :: "string \<Rightarrow> store \<Rightarrow> bool \<times> store" where
  "markOrderExpired i = transition i [O_pending] (\<lambda>x. x\<lparr>o_status := O_expired\<rparr>)"

definition markOrderNeedsReview :: "string \<Rightarrow> string \<Rightarrow> string option \<Rightarrow> store \<Rightarrow> bool \<times> store" where
  "markOrderNeedsReview i reason intent s =
     transition i [O_pending, O_expired, O_paid]
       (\<lambda>x. x\<lparr>o_status := O_needs_review, o_reviewReason := Some reason,
             o_intent := coalesce (Option.bind (first_order i s) o_intent) intent\<rparr>) s"

definition markOrderRefunded :: "string \<Rightarrow> string \<Rightarrow> store \<Rightarrow> bool \<times> store" where
  "markOrderRefunded i refundedAt s =
     (let (ok, s') = transition i [O_paid, O_needs_review]
            (\<lambda>x. x\<lparr>o_status := O_refunded, o_refundedAt := Some refundedAt\<rparr>) s
      in (ok, if ok
              then s'\<lparr>s_tickets := map (\<lambda>t. if tk_order t = i \<and> tk_status t = T_valid
                        then t\<lparr>tk_status := T_void, tk_voidedAt := Some refundedAt\<rparr> else t) (s_tickets s')\<rparr>
              else s'))"

definition approveOrder :: "string \<Rightarrow> string \<Rightarrow> string \<Rightarrow> string option \<Rightarrow> store \<Rightarrow> bool \<times> store" where
  "approveOrder i resolvedBy resolvedAt onlyReason s =
     (case first_order i s of
        None \<Rightarrow> (False, s)
      | Some x0 \<Rightarrow>
          if onlyReason \<noteq> None \<and> o_reviewReason x0 \<noteq> onlyReason then (False, s)
          else transition i [O_needs_review]
                 (\<lambda>x. x\<lparr>o_status := O_paid, o_paidAt := coalesce (o_paidAt x0) (Some resolvedAt),
                       o_resolvedBy := Some resolvedBy, o_resolvedAt := Some resolvedAt\<rparr>) s)"

definition setOrderPaymentIntent :: "string \<Rightarrow> string \<Rightarrow> store \<Rightarrow> store" where
  "setOrderPaymentIntent i intent =
     on_order i (\<lambda>x. if o_intent x = None then x\<lparr>o_intent := Some intent\<rparr> else x)"

definition created_key :: "ticket_order \<Rightarrow> string" where
  "created_key x = o_createdAt x @ ''~'' @ o_id x"

definition listMissingPaymentIntent :: "string \<Rightarrow> bool \<Rightarrow> nat \<Rightarrow> store \<Rightarrow> ticket_order list" where
  "listMissingPaymentIntent site livemode limit s =
     take limit (sort_key created_key (filter (\<lambda>x. o_site x = site
         \<and> (o_status x = O_paid \<or> o_status x = O_needs_review)
         \<and> (case o_session x of Some n \<Rightarrow> starts_with (if livemode then ''cs_live_'' else ''cs_test_'') n | None \<Rightarrow> False)
         \<and> (o_intent x = None \<or> o_intent x = Some '''')) (s_orders s)))"

definition listPendingWithSession :: "string \<Rightarrow> string \<Rightarrow> string \<Rightarrow> nat \<Rightarrow> store \<Rightarrow> ticket_order list" where
  "listPendingWithSession site from to limit s =
     take limit (sort_key created_key (filter (\<lambda>x. o_site x = site \<and> o_status x = O_pending
         \<and> o_session x \<noteq> None \<and> o_session x \<noteq> Some '''' \<and> from \<le> o_createdAt x \<and> o_createdAt x < to) (s_orders s)))"

definition sessionless_before :: "string \<Rightarrow> string \<Rightarrow> ticket_order \<Rightarrow> bool" where
  "sessionless_before site before x =
     (o_site x = site \<and> o_status x = O_pending \<and> (o_session x = None \<or> o_session x = Some '''') \<and> o_createdAt x < before)"

definition expireSessionlessPending :: "string \<Rightarrow> string \<Rightarrow> store \<Rightarrow> nat \<times> store" where
  "expireSessionlessPending site before s =
     (length (filter (sessionless_before site before) (s_orders s)),
      s\<lparr>s_orders := map (\<lambda>x. if sessionless_before site before x then x\<lparr>o_status := O_expired\<rparr> else x) (s_orders s)\<rparr>)"

definition after_cursor :: "(string \<Rightarrow> string \<Rightarrow> bool) \<Rightarrow> string option \<Rightarrow> ticket_order \<Rightarrow> bool" where
  \<comment> \<open>an empty cursor is no cursor\<close>
  "after_cursor cmp cursor x = (case cursor of None \<Rightarrow> True | Some c \<Rightarrow> c = '''' \<or> cmp (created_key x) c)"

definition listOrders :: "string \<Rightarrow> string option \<Rightarrow> nat \<Rightarrow> store \<Rightarrow> ticket_order list" where
  "listOrders site cursor limit s =
     take limit (rev (sort_key created_key (filter (\<lambda>x. o_site x = site \<and> after_cursor (<) cursor x) (s_orders s))))"

definition listOrdersAscending :: "string \<Rightarrow> string option \<Rightarrow> nat \<Rightarrow> store \<Rightarrow> ticket_order list" where
  "listOrdersAscending site cursor limit s =
     take limit (sort_key created_key (filter (\<lambda>x. o_site x = site \<and> after_cursor (>) cursor x) (s_orders s)))"

section \<open>Tickets and the mail outbox\<close>

definition put_new :: "('a \<Rightarrow> 'a \<Rightarrow> bool) \<Rightarrow> 'a list \<Rightarrow> 'a list \<Rightarrow> 'a list" where
  \<comment> \<open>appends each row unless one that clashes with it is there already\<close>
  "put_new clash rows tab = fold (\<lambda>r t. if \<exists>x\<in>set t. clash x r then t else t @ [r]) rows tab"

definition issueFulfilment :: "string \<Rightarrow> ticket list \<Rightarrow> mail_row list \<Rightarrow> store \<Rightarrow> store" where
  "issueFulfilment i tickets mails s =
     (if \<not> (\<exists>x\<in>set (s_orders s). o_id x = i \<and> o_status x = O_paid) then s
      else s\<lparr>s_tickets := put_new (\<lambda>x t. tk_id x = tk_id t) tickets (s_tickets s),
             s_mails := put_new (\<lambda>x r. ml_id x = ml_id r \<or> (ml_order x = ml_order r \<and> ml_kind x = ml_kind r)) mails (s_mails s)\<rparr>)"

definition isTestOrder :: "ticket_order \<Rightarrow> bool" where
  "isTestOrder x = (o_preview x \<or> (case o_session x of Some n \<Rightarrow> starts_with ''cs_test_'' n | None \<Rightarrow> False))"

definition has_mail :: "ticket_order \<Rightarrow> mail_kind \<Rightarrow> store \<Rightarrow> bool" where
  "has_mail x k s = (\<exists>r\<in>set (s_mails s). ml_order r = o_id x \<and> ml_kind r = k)"

definition unfulfilled :: "store \<Rightarrow> ticket_order \<Rightarrow> bool" where
  "unfulfilled s x =
     (int (length (filter (\<lambda>t. tk_order t = o_id x) (s_tickets s))) < o_quantity x
      \<or> \<not> has_mail x Buyer_confirmation s \<or> (\<not> isTestOrder x \<and> \<not> has_mail x Ops_copy s))"

definition listUnfulfilled :: "string \<Rightarrow> string option \<Rightarrow> nat \<Rightarrow> store \<Rightarrow> ticket_order list" where
  "listUnfulfilled site paidSince limit s =
     take limit (sort_key (\<lambda>x. (case o_paidAt x of Some p \<Rightarrow> p | None \<Rightarrow> ''null'') @ ''~'' @ o_id x)
       (filter (\<lambda>x. o_site x = site \<and> o_status x = O_paid
           \<and> (case paidSince of None \<Rightarrow> True
              | Some since \<Rightarrow> (case o_paidAt x of Some p \<Rightarrow> since \<le> p | None \<Rightarrow> False))
           \<and> unfulfilled s x) (s_orders s)))"

definition getTicket :: "string \<Rightarrow> store \<Rightarrow> ticket option" where
  "getTicket i s = find (\<lambda>t. tk_id t = i) (s_tickets s)"

definition ticketsForOrders :: "string list \<Rightarrow> store \<Rightarrow> ticket list" where
  "ticketsForOrders ids s = filter (\<lambda>t. tk_order t \<in> set ids) (s_tickets s)"

definition listTickets :: "string option \<Rightarrow> nat \<Rightarrow> store \<Rightarrow> ticket list" where
  "listTickets cursor limit s =
     take limit (sort_key tk_id (filter (\<lambda>t. case cursor of None \<Rightarrow> True | Some c \<Rightarrow> c = '''' \<or> c < tk_id t) (s_tickets s)))"

definition ordersByIds :: "string \<Rightarrow> string list \<Rightarrow> store \<Rightarrow> ticket_order list" where
  "ordersByIds site ids s = filter (\<lambda>x. o_site x = site \<and> o_id x \<in> set ids) (s_orders s)"

definition countOutboxQueued :: "mail_kind list \<Rightarrow> store \<Rightarrow> nat" where
  "countOutboxQueued kinds s = length (filter (\<lambda>r. ml_status r = M_pending \<and> ml_kind r \<in> set kinds) (s_mails s))"

definition countOutboxSentSince :: "string \<Rightarrow> store \<Rightarrow> nat" where
  "countOutboxSentSince since s =
     length (filter (\<lambda>r. ml_status r = M_sent \<and> (case ml_sentAt r of Some t \<Rightarrow> since \<le> t | None \<Rightarrow> False)) (s_mails s))"

definition claimable :: "mail_claim \<Rightarrow> mail_row \<Rightarrow> bool" where
  "claimable c r =
     (ml_status r = M_pending \<and> ml_next r \<le> cl_now c \<and> ml_kind r \<in> set (cl_kinds c)
      \<and> (case cl_order c of None \<Rightarrow> True | Some i \<Rightarrow> ml_order r = i))"

definition mail_key :: "mail_row \<Rightarrow> string" where
  "mail_key r = kind_string (ml_kind r) @ ''~'' @ ml_next r @ ''~'' @ ml_id r"

definition claimOutbox :: "mail_claim \<Rightarrow> store \<Rightarrow> mail_row list \<times> store" where
  \<comment> \<open>the lease goes into the rows themselves, which are then returned\<close>
  "claimOutbox c s =
     (let rows = take (cl_limit c) (sort_key mail_key (filter (claimable c) (s_mails s)))
      in (map (\<lambda>r. r\<lparr>ml_next := cl_leaseUntil c\<rparr>) rows,
          s\<lparr>s_mails := map (\<lambda>r. if r \<in> set rows then r\<lparr>ml_next := cl_leaseUntil c\<rparr> else r) (s_mails s)\<rparr>))"

definition apply_update :: "mail_update \<Rightarrow> mail_row \<Rightarrow> mail_row" where
  "apply_update u r = r\<lparr>ml_status := mu_status u, ml_attempts := mu_attempts u, ml_next := mu_next u,
                        ml_error := mu_error u, ml_sentAt := mu_sentAt u\<rparr>"

definition applyOutboxUpdates :: "mail_update list \<Rightarrow> store \<Rightarrow> store" where
  "applyOutboxUpdates updates s =
     s\<lparr>s_mails := fold (\<lambda>u. upd_first (\<lambda>r. ml_id r = mu_id u) (apply_update u)) updates (s_mails s)\<rparr>"

definition outboxDue :: "string \<Rightarrow> store \<Rightarrow> mail_kind \<Rightarrow> nat" where
  \<comment> \<open>\<open>m.get(kind) ?? 0\<close>\<close>
  "outboxDue before s k = length (filter (\<lambda>r. ml_status r = M_pending \<and> ml_next r \<le> before \<and> ml_kind r = k) (s_mails s))"

definition listOrderOutbox :: "string \<Rightarrow> store \<Rightarrow> mail_row list" where
  "listOrderOutbox i s = filter (\<lambda>r. ml_order r = i) (s_mails s)"

definition getJobStates :: "store \<Rightarrow> (string \<rightharpoonup> string)" where
  "getJobStates s = s_jobs s"

definition setJobState :: "string \<Rightarrow> string \<Rightarrow> store \<Rightarrow> store" where
  "setJobState k v s = s\<lparr>s_jobs := (s_jobs s)(k \<mapsto> v)\<rparr>"

end
