(* ===== verification/Ticket_Checks.thy ===== *)
theory Ticket_Checks
  imports Ticket_Store
begin

text \<open>
  \<open>services/lp-tickets/src/tickets.ts\<close>, the pure part: limits, validation of the requests, coupon
  codes, statistics, the public shapes and the errors. The URL parser of the platform is a parameter,
  a function to protocol and origin that is \<open>None\<close> where the constructor throws. Japanese messages
  are written in English.
\<close>

section \<open>Limits\<close>

definition TICKET_SITE :: string where "TICKET_SITE = LP_PUBLISH_SITE"
definition TICKET_NAME_MAX :: nat where "TICKET_NAME_MAX = 60"
definition TICKET_DESC_MAX :: nat where "TICKET_DESC_MAX = 300"
definition TICKET_PRICE_MAX :: int where "TICKET_PRICE_MAX = 1000000"
definition STRIPE_JPY_MIN :: int where "STRIPE_JPY_MIN = 50"
definition TICKET_CAPACITY_MAX :: int where "TICKET_CAPACITY_MAX = 100000"
definition DAY_LABEL_MAX :: nat where "DAY_LABEL_MAX = 30"
definition MAX_PER_ORDER_MAX :: int where "MAX_PER_ORDER_MAX = 20"
definition DEFAULT_MAX_PER_ORDER :: int where "DEFAULT_MAX_PER_ORDER = 10"
definition ORDER_QTY_MAX :: int where "ORDER_QTY_MAX = 20"
definition RESERVED_FIELD_IDS :: "string list" where "RESERVED_FIELD_IDS = [''name'', ''email'']"
definition PER_CLIENT_HELD_MAX :: int where "PER_CLIENT_HELD_MAX = 20"
definition COUPON_ALPHABET :: string where "COUPON_ALPHABET = ''ABCDEFGHJKMNPQRSTUVWXYZ23456789''"
definition COUPON_CODE_LEN :: nat where "COUPON_CODE_LEN = 10"
definition COUPON_LABEL_MAX :: nat where "COUPON_LABEL_MAX = 60"
definition COUPON_MAX_USES_MAX :: int where "COUPON_MAX_USES_MAX = 1000"
definition CHECKOUT_TTL_SEC :: int where "CHECKOUT_TTL_SEC = 31 * 60"
definition PENDING_HOLD_MS :: ms where "PENDING_HOLD_MS = 35 * 60 * 1000"

definition SESSION_EVENTS :: "string list" where
  "SESSION_EVENTS = [''checkout.session.completed'', ''checkout.session.async_payment_succeeded'',
                     ''checkout.session.async_payment_failed'', ''checkout.session.expired'']"
definition RELEASE_EVENTS :: "string list" where
  "RELEASE_EVENTS = [''checkout.session.expired'', ''checkout.session.async_payment_failed'']"
definition CHARGE_EVENTS :: "string list" where
  "CHARGE_EVENTS = [''charge.refunded'', ''charge.dispute.created'', ''charge.dispute.closed'']"

definition RECONCILE_MIN_AGE_MS :: ms where "RECONCILE_MIN_AGE_MS = 5 * 60 * 1000"
definition RECONCILE_MAX_AGE_MS :: ms where "RECONCILE_MAX_AGE_MS = 3 * 24 * 60 * 60 * 1000"
definition RECONCILE_LIMIT :: nat where "RECONCILE_LIMIT = 50"
definition DEFAULT_ORDERS_PAGE :: int where "DEFAULT_ORDERS_PAGE = 50"
definition MAX_ORDERS_PAGE :: int where "MAX_ORDERS_PAGE = 200"

definition COUPON_CODE_RE :: "string \<Rightarrow> bool" where
  \<comment> \<open>\<open>[A-Z0-9]{4,32}\<close>\<close>
  "COUPON_CODE_RE s = (4 \<le> length s \<and> length s \<le> 32 \<and> list_all (\<lambda>c. char_between CHR ''A'' CHR ''Z'' c \<or> is_digit c) s)"

datatype payment_method = Card | Paypay

definition advertisedPaymentMethods :: "bool \<Rightarrow> payment_method list" where
  "advertisedPaymentMethods paypayEnabled = (if paypayEnabled then [Card, Paypay] else [Card])"

section \<open>Ticket type input\<close>

text \<open>A patch holds the fields the request gave; on creation every field is given.\<close>

record type_patch =
  tp_name :: "string option"
  tp_description :: "string option"
  tp_price :: "int option"
  tp_capacity :: "int option option"
  tp_day :: "string option"
  tp_maxPerOrder :: "int option"
  tp_active :: "bool option"

type_synonym 'a checked = "'a option \<times> field_error list"

definition bad_field :: "string \<Rightarrow> string \<Rightarrow> 'a checked" where
  "bad_field k reason = (None, [(k, reason)])"

definition given :: "js \<Rightarrow> bool \<Rightarrow> string \<Rightarrow> bool" where
  "given b partial k = (js_get b k \<noteq> Undef \<or> \<not> partial)"

definition check_name :: "js \<Rightarrow> bool \<Rightarrow> string checked" where
  "check_name b partial =
     (if \<not> given b partial ''name'' then (None, [])
      else let name = str_trim (js_get b ''name'')
           in if length name = 0 then bad_field ''name'' ''required''
              else if TICKET_NAME_MAX < length name then bad_field ''name'' ''too_long''
              else (Some name, []))"

definition check_text :: "js \<Rightarrow> bool \<Rightarrow> string \<Rightarrow> nat \<Rightarrow> string checked" where
  \<comment> \<open>\<open>description\<close> and \<open>dayLabel\<close>: optional text of bounded length\<close>
  "check_text b partial k maxLen =
     (if \<not> given b partial k then (None, [])
      else case (if is_nullish (js_get b k) then JStr [] else js_get b k) of
             JStr d \<Rightarrow> if maxLen < length (trim d) then bad_field k ''too_long'' else (Some (trim d), [])
           | _ \<Rightarrow> bad_field k ''invalid'')"

definition check_price :: "js \<Rightarrow> bool \<Rightarrow> int checked" where
  "check_price b partial =
     (if \<not> given b partial ''priceJpy'' then (None, [])
      else case js_int (js_get b ''priceJpy'') of
             None \<Rightarrow> bad_field ''priceJpy'' ''invalid''
           | Some p \<Rightarrow>
               if p < 0 \<or> TICKET_PRICE_MAX < p then bad_field ''priceJpy'' ''invalid''
               else if 0 < p \<and> p < STRIPE_JPY_MIN then bad_field ''priceJpy'' ''below_stripe_minimum''
               else (Some p, []))"

definition check_capacity :: "js \<Rightarrow> bool \<Rightarrow> int option checked" where
  "check_capacity b partial =
     (if \<not> given b partial ''capacity'' then (None, [])
      else if is_nullish (js_get b ''capacity'') then (Some None, [])
      else case js_int (js_get b ''capacity'') of
             None \<Rightarrow> bad_field ''capacity'' ''invalid''
           | Some c \<Rightarrow> if c < 1 \<or> TICKET_CAPACITY_MAX < c then bad_field ''capacity'' ''invalid'' else (Some (Some c), []))"

definition check_maxPerOrder :: "js \<Rightarrow> bool \<Rightarrow> int checked" where
  "check_maxPerOrder b partial =
     (if \<not> given b partial ''maxPerOrder'' then (None, [])
      else case (if js_get b ''maxPerOrder'' = Undef then Some DEFAULT_MAX_PER_ORDER else js_int (js_get b ''maxPerOrder'')) of
             None \<Rightarrow> bad_field ''maxPerOrder'' ''invalid''
           | Some m \<Rightarrow> if m < 1 \<or> MAX_PER_ORDER_MAX < m then bad_field ''maxPerOrder'' ''invalid'' else (Some m, []))"

definition check_active :: "js \<Rightarrow> bool \<Rightarrow> bool checked" where
  "check_active b partial =
     (if \<not> given b partial ''active'' then (None, [])
      else case (if js_get b ''active'' = Undef then Some True else js_bool (js_get b ''active'')) of
             None \<Rightarrow> bad_field ''active'' ''invalid''
           | Some a \<Rightarrow> (Some a, []))"

definition parseTicketTypeInput :: "js \<Rightarrow> bool \<Rightarrow> dub_error + type_patch" where
  "parseTicketTypeInput b partial =
     (let (name, e1) = check_name b partial;
          (description, e2) = check_text b partial ''description'' TICKET_DESC_MAX;
          (price, e3) = check_price b partial;
          (capacity, e4) = check_capacity b partial;
          (day, e5) = check_text b partial ''dayLabel'' DAY_LABEL_MAX;
          (maxPer, e6) = check_maxPerOrder b partial;
          (active, e7) = check_active b partial;
          bad = e1 @ e2 @ e3 @ e4 @ e5 @ e6 @ e7
      in if bad \<noteq> [] then Inl (validationFailed bad)
         else Inr \<lparr>tp_name = name, tp_description = description, tp_price = price, tp_capacity = capacity,
                   tp_day = day, tp_maxPerOrder = maxPer, tp_active = active\<rparr>)"

definition parseFields :: "js \<Rightarrow> dub_error + form_field list" where
  "parseFields body =
     (let (fs, issues) = parseLpFields body RESERVED_FIELD_IDS
      in if issues \<noteq> [] then Inl (validationFailed issues) else Inr fs)"

section \<open>Coupon codes\<close>

definition upper_char :: "char \<Rightarrow> string" where
  \<comment> \<open>\<open>toUpperCase\<close> of a code unit below 256; the two whose upper case lies above are left alone,
      no code contains either form\<close>
  "upper_char c = (let n = of_char c :: nat
     in if 97 \<le> n \<and> n \<le> 122 \<or> 224 \<le> n \<and> n \<le> 254 \<and> n \<noteq> 247 then [char_of (n - 32)]
        else if n = 223 then ''SS'' else [c])"

definition normalizeCouponCode :: "js \<Rightarrow> string option" where
  "normalizeCouponCode raw =
     (case js_str raw of
        None \<Rightarrow> None
      | Some s \<Rightarrow> let code = filter (\<lambda>c. \<not> (is_space c \<or> c = CHR ''-'')) (concat (map upper_char s))
                  in if COUPON_CODE_RE code then Some code else None)"

text \<open>The random bytes of the platform arrive in chunks of 16; \<open>None\<close> when the chunks run out.\<close>

definition coupon_limit :: nat where
  "coupon_limit = 256 - (256 mod length COUPON_ALPHABET)"

definition coupon_byte :: "nat \<Rightarrow> string \<Rightarrow> string" where
  "coupon_byte b out =
     (if b < coupon_limit \<and> length out < COUPON_CODE_LEN then out @ [COUPON_ALPHABET ! (b mod length COUPON_ALPHABET)] else out)"

fun coupon_loop :: "nat list list \<Rightarrow> string \<Rightarrow> string option" where
  "coupon_loop [] out = (if length out < COUPON_CODE_LEN then None else Some out)"
| "coupon_loop (bs # chunks) out =
     (if length out < COUPON_CODE_LEN then coupon_loop chunks (fold coupon_byte bs out) else Some out)"

definition generateCouponCode :: "nat list list \<Rightarrow> string option" where
  "generateCouponCode chunks = coupon_loop chunks []"

record coupon_input =
  ci_type :: string
  ci_maxUses :: int
  ci_label :: string
  ci_expiresAt :: "string option"

definition check_maxUses :: "js \<Rightarrow> int checked" where
  "check_maxUses b =
     (case js_int (js_get b ''maxUses'') of
        None \<Rightarrow> bad_field ''maxUses'' ''invalid''
      | Some m \<Rightarrow> if m < 1 \<or> COUPON_MAX_USES_MAX < m then bad_field ''maxUses'' ''invalid'' else (Some m, []))"

definition check_expiry :: "js \<Rightarrow> string \<Rightarrow> string option \<times> field_error list" where
  \<comment> \<open>\<open>Date.parse\<close> on the ISO format; \<open>now\<close> is an ISO string of the service's clock\<close>
  "check_expiry v now =
     (if is_nullish v \<or> v = JStr [] then (None, [])
      else case (case v of JStr s \<Rightarrow> date_parse s | _ \<Rightarrow> None) of
             None \<Rightarrow> bad_field ''expiresAt'' ''invalid''
           | Some t \<Rightarrow>
               (case date_parse now of
                  Some n \<Rightarrow> if t \<le> n then bad_field ''expiresAt'' ''in_past'' else (Some (iso_string t), [])
                | None \<Rightarrow> (Some (iso_string t), [])))"

definition parseCouponInput :: "js \<Rightarrow> string \<Rightarrow> dub_error + coupon_input" where
  "parseCouponInput b now =
     (let typ = str_trim (js_get b ''ticketTypeId'');
          e1 = (if typ = [] then [(''ticketTypeId'', ''required'')] else []);
          (maxUses, e2) = check_maxUses b;
          (label, e3) = check_text b False ''label'' COUPON_LABEL_MAX;
          (expiresAt, e4) = check_expiry (js_get b ''expiresAt'') now;
          bad = e1 @ e2 @ e3 @ e4
      in case (maxUses, label) of
           (Some m, Some l) \<Rightarrow>
             if bad \<noteq> [] then Inl (validationFailed bad)
             else Inr \<lparr>ci_type = typ, ci_maxUses = m, ci_label = l, ci_expiresAt = expiresAt\<rparr>
         | _ \<Rightarrow> Inl (validationFailed bad))"

section \<open>Checkout input\<close>

record checkout_item =
  ct_type :: string
  ct_qty :: int

record checkout_input =
  co_items :: "checkout_item list"
  co_name :: string
  co_email :: string
  co_answers :: "form_answer list"
  co_origin :: string
  co_clientKey :: "string option"
  co_couponCode :: "string option"

definition parse_item :: "js \<Rightarrow> checkout_item list \<times> field_error list \<Rightarrow> checkout_item list \<times> field_error list" where
  "parse_item r acc =
     (case acc of (items, bad) \<Rightarrow>
        let typ = str_trim (js_get r ''ticketTypeId''); key = ''items.'' @ typ
        in if typ = [] then (items, bad @ [(''items'', ''invalid'')])
           else if list_ex (\<lambda>i. ct_type i = typ) items then (items, bad @ [(key, ''duplicate'')])
           else case js_int (js_get r ''quantity'') of
                  None \<Rightarrow> (items, bad @ [(key, ''invalid'')])
                | Some q \<Rightarrow> if q < 1 \<or> ORDER_QTY_MAX < q then (items, bad @ [(key, ''invalid'')])
                            else (items @ [\<lparr>ct_type = typ, ct_qty = q\<rparr>], bad))"

definition parse_items :: "js \<Rightarrow> checkout_item list \<times> field_error list" where
  "parse_items b =
     (let raw = js_items (js_get b ''items'');
          (items, bad) = fold parse_item raw ([], if raw = [] then [(''items'', ''required'')] else [])
      in (items, if ORDER_QTY_MAX < sum_by ct_qty items then bad @ [(''items'', ''too_many'')] else bad))"

definition check_buyer_name :: "string \<Rightarrow> field_error list" where
  "check_buyer_name name =
     (if name = [] then [(''name'', ''required'')]
      else if LP_BUYER_NAME_MAX < length name then [(''name'', ''too_long'')] else [])"

definition check_buyer_email :: "string \<Rightarrow> field_error list" where
  "check_buyer_email email =
     (if email = [] then [(''email'', ''required'')]
      else if LP_BUYER_EMAIL_MAX < length email \<or> \<not> LP_EMAIL_RE email then [(''email'', ''invalid'')] else [])"

definition checkout_origin :: "(string \<Rightarrow> (string \<times> string) option) \<Rightarrow> js \<Rightarrow> string" where
  "checkout_origin url v =
     (case url (js_str_or [] v) of
        None \<Rightarrow> []
      | Some (protocol, origin) \<Rightarrow> if protocol = ''https:'' \<or> protocol = ''http:'' then origin else [])"

definition parseCheckout ::
  "(string \<Rightarrow> (string \<times> string) option) \<Rightarrow> js \<Rightarrow> form_field list \<Rightarrow> dub_error + checkout_input" where
  "parseCheckout url b fs =
     (let (items, e1) = parse_items b;
          name = str_trim (js_get b ''name'');
          email = str_trim (js_get b ''email'');
          origin = checkout_origin url (js_get b ''origin'');
          (answers, e2) = parseLpAnswers (js_get b ''answers'') fs;
          cv = js_get b ''couponCode'';
          rawCoupon = str_trim cv;
          couponCode = (if rawCoupon \<noteq> [] then normalizeCouponCode (JStr rawCoupon) else None);
          e3 = (if \<not> is_nullish cv \<and> js_str cv = None \<or> rawCoupon \<noteq> [] \<and> couponCode = None
                then [(''couponCode'', ''invalid'')] else []);
          bad = e1 @ check_buyer_name name @ check_buyer_email email
                @ (if origin = [] then [(''origin'', ''invalid'')] else []) @ e2 @ e3
      in if bad \<noteq> [] then Inl (validationFailed bad)
         else Inr \<lparr>co_items = items, co_name = name, co_email = email, co_answers = answers, co_origin = origin,
                   co_clientKey = (case js_str (js_get b ''clientKey'') of
                       Some k \<Rightarrow> if LP_CLIENT_KEY_RE k then Some k else None | None \<Rightarrow> None),
                   co_couponCode = couponCode\<rparr>)"

section \<open>Shapes of the answers\<close>

record type_stats =
  ts_sold :: int
  ts_pending :: int
  ts_revenue :: int
  ts_remaining :: "int option"

definition statsFor :: "ticket_type \<Rightarrow> type_agg option \<Rightarrow> type_stats" where
  "statsFor t agg =
     (let sold = (case agg of Some a \<Rightarrow> ag_sold a | None \<Rightarrow> 0);
          pending = (case agg of Some a \<Rightarrow> ag_pending a | None \<Rightarrow> 0)
      in \<lparr>ts_sold = sold, ts_pending = pending,
          ts_revenue = (case agg of Some a \<Rightarrow> ag_revenue a | None \<Rightarrow> 0),
          ts_remaining = (case tt_capacity t of None \<Rightarrow> None | Some c \<Rightarrow> Some (max 0 (c - sold - pending)))\<rparr>)"

definition orderCursor :: "ticket_order \<Rightarrow> string" where
  "orderCursor x = o_createdAt x @ ''~'' @ o_id x"

definition sortTypes :: "ticket_type list \<Rightarrow> ticket_type list" where
  "sortTypes = sort_key (\<lambda>t. (tt_sortOrder t, tt_createdAt t))"

record order_view =
  ov_id :: string
  ov_items :: "order_item list"
  ov_quantity :: int
  ov_amount :: int
  ov_status :: order_status
  ov_buyerName :: string
  ov_buyerEmail :: string
  ov_answers :: "form_answer list"
  ov_createdAt :: string
  ov_paidAt :: "string option"
  ov_reviewReason :: "string option"
  ov_couponId :: "string option"
  ov_paymentMethod :: "string option"
  ov_preview :: bool
  ov_test :: bool

definition toOrder :: "ticket_order \<Rightarrow> order_view" where
  "toOrder x =
     \<lparr>ov_id = o_id x, ov_items = o_items x, ov_quantity = o_quantity x, ov_amount = o_amount x, ov_status = o_status x,
      ov_buyerName = o_buyerName x, ov_buyerEmail = o_buyerEmail x, ov_answers = o_answers x, ov_createdAt = o_createdAt x,
      ov_paidAt = o_paidAt x, ov_reviewReason = o_reviewReason x, ov_couponId = o_couponId x,
      ov_paymentMethod = o_paymentMethod x, ov_preview = o_preview x, ov_test = isTestOrder x\<rparr>"

record coupon_view =
  cv_coupon :: coupon
  cv_used :: int

definition toCoupon :: "coupon \<Rightarrow> int \<Rightarrow> coupon_view" where
  \<comment> \<open>the row without its site, with the uses counted\<close>
  "toCoupon c used = \<lparr>cv_coupon = c\<lparr>cp_site := []\<rparr>, cv_used = used\<rparr>"

definition orderSummary :: "order_item list \<Rightarrow> string" where
  "orderSummary items =
     join_with '', '' (map (\<lambda>i. (if oi_day i \<noteq> [] then oi_name i @ '' '' @ oi_day i else oi_name i)
       @ '' x'' @ int_string (oi_qty i)) items)"

section \<open>Errors\<close>

definition reason_error :: "string \<Rightarrow> string \<Rightarrow> int \<Rightarrow> bool option \<Rightarrow> (string \<times> js) list \<Rightarrow> dub_error" where
  "reason_error code message status retryable details =
     DubError code message \<lparr>opt_status = Some status, opt_details = JObj details, opt_retryable = retryable, opt_service = None\<rparr>"

definition soldOut :: "string \<Rightarrow> dub_error" where
  "soldOut typ = reason_error ''LP_TICKET_SOLD_OUT'' ''Not enough tickets left'' 409 None
     [(''reason'', JStr ''sold_out''), (''ticketTypeId'', JStr typ)]"

definition couponUsedUp :: dub_error where
  "couponUsedUp = reason_error ''LP_TICKET_COUPON_USED_UP'' ''This coupon has no uses left'' 409 None
     [(''reason'', JStr ''coupon_used_up'')]"

definition couponInvalid :: dub_error where
  "couponInvalid = validationFailed [(''couponCode'', ''invalid'')]"

definition previewCheckoutUnavailable :: dub_error where
  "previewCheckoutUnavailable =
     reason_error ''LP_TICKET_PREVIEW_UNAVAILABLE'' ''No test purchases while Stripe is not in test mode'' 409 (Some False)
       [(''reason'', JStr ''preview_checkout_unavailable'')]"

definition paymentNotConfigured :: dub_error where
  "paymentNotConfigured =
     reason_error ''LP_PAYMENT_NOT_CONFIGURED'' ''Payment is not ready yet'' 503 (Some False)
       [(''reason'', JStr ''payment_not_configured'')]"

end
