(* ===== verification/Js_Bytes.thy ===== *)
theory Js_Bytes
  imports Dub_Errors
begin

text \<open>
  Bytes and texts: \<open>TextEncoder\<close>, the hexadecimal and the URL-safe base64 printers that
  \<open>stripe.ts\<close>, \<open>preview-token.ts\<close> and \<open>ticket-token.ts\<close> of \<open>services/lp-tickets/src\<close> share, and
  their comparison in constant time. A byte is a natural number below 256. HMAC-SHA256 is a parameter
  of the definitions that use it: a function from the bytes of the key and of the message.
\<close>

type_synonym bytes = "nat list"

definition utf8 :: "string \<Rightarrow> bytes" where
  \<comment> \<open>\<open>new TextEncoder().encode(text)\<close> for code units below 256\<close>
  "utf8 s = concat (map (\<lambda>c. let n = of_char c in if n < 128 then [n] else [192 + n div 64, 128 + n mod 64]) s)"

definition hex_digit :: "nat \<Rightarrow> char" where
  "hex_digit n = char_of (if n < 10 then 48 + n else 87 + n)"

definition hex :: "bytes \<Rightarrow> string" where
  "hex buf = concat (map (\<lambda>b. [hex_digit (b div 16), hex_digit (b mod 16)]) buf)"

definition b64_char :: "nat \<Rightarrow> char" where
  \<comment> \<open>the URL-safe alphabet\<close>
  "b64_char n =
     (if n < 26 then char_of (65 + n) else if n < 52 then char_of (71 + n) else if n < 62 then char_of (n - 4)
      else if n = 62 then CHR ''-'' else CHR ''_'')"

fun base64url :: "bytes \<Rightarrow> string" where
  "base64url (a # b # c # r) =
     [b64_char (a div 4), b64_char (a mod 4 * 16 + b div 16), b64_char (b mod 16 * 4 + c div 64), b64_char (c mod 64)] @ base64url r"
| "base64url [a, b] = [b64_char (a div 4), b64_char (a mod 4 * 16 + b div 16), b64_char (b mod 16 * 4)]"
| "base64url [a] = [b64_char (a div 4), b64_char (a mod 4 * 16)]"
| "base64url [] = []"

definition timingSafeEqual :: "string \<Rightarrow> string \<Rightarrow> bool" where
  "timingSafeEqual a b =
     (if length a \<noteq> length b then False
      else fold (\<lambda>(x, y) diff. or diff (xor (of_char x) (of_char y))) (zip a b) (0 :: nat) = 0)"

section \<open>Shape of the printed texts\<close>

lemma of_char_of_small: "n < 256 \<Longrightarrow> of_char (char_of n :: char) = (n :: nat)"
  by simp

lemma hex_digit_chars:
  "n < 16 \<Longrightarrow> char_between CHR ''0'' CHR ''9'' (hex_digit n) \<or> char_between CHR ''a'' CHR ''f'' (hex_digit n)"
  by (simp add: hex_digit_def char_between_def)

lemma hex_chars:
  assumes "\<And>b. b \<in> set buf \<Longrightarrow> b < 256" "c \<in> set (hex buf)"
  shows "char_between CHR ''0'' CHR ''9'' c \<or> char_between CHR ''a'' CHR ''f'' c"
proof -
  obtain b where "b \<in> set buf" "c = hex_digit (b div 16) \<or> c = hex_digit (b mod 16)"
    using assms(2) by (auto simp: hex_def)
  with assms(1)[of b] show ?thesis
    using hex_digit_chars[of "b div 16"] hex_digit_chars[of "b mod 16"] by auto
qed

lemma length_hex: "length (hex buf) = 2 * length buf"
  by (induction buf) (auto simp: hex_def)

lemma hex_Nil: "hex buf = [] \<longleftrightarrow> buf = []"
  by (auto simp: hex_def)

definition b64_alphabet :: "char \<Rightarrow> bool" where
  "b64_alphabet c = (char_between CHR ''A'' CHR ''Z'' c \<or> char_between CHR ''a'' CHR ''z'' c
     \<or> char_between CHR ''0'' CHR ''9'' c \<or> c = CHR ''_'' \<or> c = CHR ''-'')"

lemma b64_char_alphabet: "n < 64 \<Longrightarrow> b64_alphabet (b64_char n)"
proof -
  assume "n < 64"
  then consider "n < 26" | "26 \<le> n" "n < 52" | "52 \<le> n" "n < 62" "48 \<le> n - 4" "n - 4 \<le> 57" | "n = 62" | "n = 63"
    by linarith
  then show ?thesis by cases (simp_all add: b64_alphabet_def b64_char_def char_between_def)
qed

lemma base64url_chars:
  "(\<And>b. b \<in> set buf \<Longrightarrow> b < 256) \<Longrightarrow> list_all b64_alphabet (base64url buf)"
proof (induction buf rule: base64url.induct)
  case (1 a b c r)
  then have "a < 256" "b < 256" "c < 256" by auto
  then have "a div 4 < 64" "a mod 4 * 16 + b div 16 < 64" "b mod 16 * 4 + c div 64 < 64" "c mod 64 < 64" by auto
  with 1 show ?case by (auto simp: b64_char_alphabet)
next
  case (2 a b)
  then have "a < 256" "b < 256" by auto
  then have "a div 4 < 64" "a mod 4 * 16 + b div 16 < 64" "b mod 16 * 4 < 64" by auto
  then show ?case by (auto simp: b64_char_alphabet)
next
  case (3 a)
  then have "a div 4 < 64" "a mod 4 * 16 < 64" by auto
  then show ?case by (auto simp: b64_char_alphabet)
qed simp

lemma length_base64url: "length buf = 3 * k \<Longrightarrow> length (base64url buf) = 4 * k"
proof (induction buf arbitrary: k rule: base64url.induct)
  case (1 a b c r)
  then show ?case by (cases k) auto
next
  case (2 a b)
  then show ?case by (simp, presburger?)
next
  case (3 a)
  then show ?case by (simp, presburger?)
qed simp

lemma timingSafeEqual_iff: "timingSafeEqual a b \<longleftrightarrow> a = b"
proof -
  have xor: "xor a b = 0 \<longleftrightarrow> a = b" for a b :: nat
  proof
    assume z: "xor a b = 0"
    have "a = xor a (xor b b)" by simp
    also have "\<dots> = xor (xor a b) b" by (simp only: xor.assoc)
    finally show "a = b" using z by simp
  qed simp
  have acc: "fold (\<lambda>(x, y) diff. or diff (xor (of_char x) (of_char y))) ps d = (0 :: nat) \<longleftrightarrow>
      d = 0 \<and> (\<forall>(x, y)\<in>set ps. x = (y :: char))" for ps d
  proof (induction ps arbitrary: d)
    case (Cons p ps)
    have "xor (of_char (fst p)) (of_char (snd p)) = (0 :: nat) \<longleftrightarrow> fst p = snd p"
      by (simp only: xor of_char_eq_iff)
    then show ?case using Cons by (cases p) (auto simp: or_eq_0_iff)
  qed simp
  show ?thesis
  proof (cases "length a = length b")
    case True
    then have "(\<forall>(x, y)\<in>set (zip a b). x = y) \<longleftrightarrow> a = b"
      by (induction a b rule: list_induct2) auto
    then show ?thesis using True acc by (simp add: timingSafeEqual_def)
  qed (auto simp: timingSafeEqual_def)
qed

end
