(* ===== verification/Ticket_Mail.thy ===== *)
theory Ticket_Mail
  imports Ticket_Checks Js_Bytes
begin

text \<open>
  \<open>services/lp-tickets/src\<close>: the texts and the credentials of the shop. \<open>ticket-mail.ts\<close> (the
  mails), \<open>ticket-csv.ts\<close> (the buyer list), \<open>ticket-token.ts\<close> and \<open>preview-token.ts\<close> (signed
  tokens), \<open>mailer.ts\<close> (the client of the mail provider). Japanese wording is given in English, with
  the same parts in the same places; HMAC-SHA256 and the transport are parameters.
\<close>

section \<open>Mails\<close>

definition EVENT_NAME :: string where "EVENT_NAME = ''Hokuriku IT Conference 2027''"

definition slice_last :: "nat \<Rightarrow> 'a list \<Rightarrow> 'a list" where
  \<comment> \<open>\<open>s.slice(-n)\<close>\<close>
  "slice_last n s = drop (length s - n) s"

definition orderNumber :: "string \<Rightarrow> string" where
  "orderNumber orderId = concat (map upper_char (slice_last 8 orderId))"

record ticket_pass =
  tpa_ticket :: ticket
  tpa_url :: string
  tpa_qrUrl :: string

record rendered_mail =
  rm_subject :: string
  rm_text :: string
  rm_html :: "string option"

definition esc_char :: "char \<Rightarrow> string" where
  "esc_char c = (if c = CHR ''&'' then ''&amp;'' else if c = CHR ''<'' then ''&lt;'' else if c = CHR ''>'' then ''&gt;''
                 else if c = CHR 0x22 then ''&quot;'' else if c = CHR 0x27 then ''&#39;'' else [c])"

definition esc :: "string \<Rightarrow> string" where
  "esc s = concat (map esc_char s)"

fun group3 :: "string \<Rightarrow> string" where
  \<comment> \<open>digits from the least significant, a comma after every third\<close>
  "group3 (a # b # c # d # r) = a # b # c # CHR '','' # group3 (d # r)"
| "group3 ds = ds"

definition toLocale :: "int \<Rightarrow> string" where
  \<comment> \<open>\<open>n.toLocaleString("ja-JP")\<close>\<close>
  "toLocale n = (if n < 0 then ''-'' else []) @ rev (group3 (rev (nat_string (nat \<bar>n\<bar>))))"

definition yen :: "int \<Rightarrow> string" where
  "yen n = (if n = 0 then ''free'' else CHR 0xA5 # toLocale n)"

definition named :: "string \<Rightarrow> string \<Rightarrow> string" where
  \<comment> \<open>\<open>ticketName\<close> of a name and its day label\<close>
  "named name day = (if day \<noteq> [] then name @ ''('' @ day @ '')'' else name)"

definition SHARE_NOTE :: "string list" where
  "SHARE_NOTE = [''Each ticket has a URL of its own, and whoever knows it can use it.'',
                 ''Forward to a companion only their own URL. Do not publish it.'']"

definition nl :: string where "nl = [CHR 0x0A]"

definition mail_item :: "string \<Rightarrow> order_item \<Rightarrow> string" where
  "mail_item label i = named (oi_name i) (oi_day i) @ '' x '' @ int_string (oi_qty i) @ '' ('' @ label @ yen (oi_price i) @ '')''"

definition pass_line :: "nat \<times> ticket_pass \<Rightarrow> string" where
  "pass_line = (\<lambda>(i, p). ''  '' @ nat_string (i + 1) @ ''. '' @ named (tk_name (tpa_ticket p)) (tk_day (tpa_ticket p)) @ '': '' @ tpa_url p)"

definition pass_html :: "nat \<times> ticket_pass \<Rightarrow> string" where
  "pass_html = (\<lambda>(i, p). ''<div><p><strong>'' @ nat_string (i + 1) @ ''. '' @ esc (named (tk_name (tpa_ticket p)) (tk_day (tpa_ticket p)))
     @ ''</strong></p><img src=\"'' @ esc (tpa_qrUrl p) @ ''\" alt=\"ticket QR code\"><br><a href=\"'' @ esc (tpa_url p)
     @ ''\">Open the ticket</a></div>'')"

definition numbered :: "'a list \<Rightarrow> (nat \<times> 'a) list" where
  "numbered xs = zip [0..<length xs] xs"

definition renderBuyerMail :: "ticket_order \<Rightarrow> ticket_pass list \<Rightarrow> rendered_mail" where
  "renderBuyerMail x passes =
     (let number = orderNumber (o_id x);
          items = map (mail_item []) (o_items x);
          test = isTestOrder x;
          testNote = ''This is a test purchase. Nothing is charged.'';
          thanks = ''Thank you for your order of tickets for '' @ EVENT_NAME @ ''.'';
          text = join_with nl
            ([o_buyerName x, [], thanks] @ (if test then [[], testNote] else [])
             @ [[], ''Order number: '' @ number, ''Your order:''] @ map (\<lambda>i. ''  '' @ i) items
             @ [''Total: '' @ yen (o_amount x), [], ''Tickets:''] @ map pass_line (numbered passes)
             @ [[]] @ SHARE_NOTE @ [[], EVENT_NAME @ '' office'']);
          html = ''<div><p>'' @ esc (o_buyerName x) @ ''</p><p>'' @ thanks @ ''</p>''
            @ (if test then ''<p><strong>'' @ testNote @ ''</strong></p>'' else [])
            @ ''<p>Order number: <strong>'' @ esc number @ ''</strong><br>''
            @ concat (map (\<lambda>i. esc i @ ''<br>'') items)
            @ ''Total: '' @ esc (yen (o_amount x)) @ ''</p>''
            @ concat (map pass_html (numbered passes))
            @ ''<p>'' @ join_with ''<br>'' SHARE_NOTE @ ''</p><p>'' @ EVENT_NAME @ '' office</p></div>''
      in \<lparr>rm_subject = ''['' @ EVENT_NAME @ ''] Your tickets (order number '' @ number @ '')'', rm_text = text, rm_html = Some html\<rparr>)"

definition status_string :: "order_status \<Rightarrow> string" where
  "status_string st = (case st of O_pending \<Rightarrow> ''pending'' | O_paid \<Rightarrow> ''paid'' | O_expired \<Rightarrow> ''expired''
     | O_refunded \<Rightarrow> ''refunded'' | O_needs_review \<Rightarrow> ''needs_review'')"

definition or_dash :: "string option \<Rightarrow> string" where
  "or_dash v = (case v of Some s \<Rightarrow> s | None \<Rightarrow> ''-'')"

definition renderOpsMail :: "ticket_order \<Rightarrow> rendered_mail" where
  "renderOpsMail x =
     (let text = join_with nl
            ([''Order number: '' @ orderNumber (o_id x), ''Order ID: '' @ o_id x, ''Status: '' @ status_string (o_status x),
              ''Buyer: '' @ o_buyerName x, ''Mail: '' @ o_buyerEmail x, ''Items:'']
             @ map (\<lambda>i. ''  '' @ mail_item ''each '' i) (o_items x)
             @ [''Tickets: '' @ int_string (o_quantity x), ''Amount: '' @ yen (o_amount x),
                ''Payment method: '' @ or_dash (o_paymentMethod x), ''Coupon: '' @ or_dash (o_couponId x), ''Answers:'']
             @ (if o_answers x \<noteq> [] then map (\<lambda>a. ''  '' @ fa_label a @ '': '' @ fa_value a) (o_answers x) else [''  none''])
             @ [''Created: '' @ o_createdAt x, ''Paid: '' @ or_dash (o_paidAt x)])
      in \<lparr>rm_subject = ''[LP tickets] purchase '' @ orderNumber (o_id x), rm_text = text, rm_html = None\<rparr>)"

section \<open>The buyer list as CSV\<close>

definition BOM :: string where
  \<comment> \<open>the byte order mark, in its UTF-8 form\<close>
  "BOM = [CHR 0xEF, CHR 0xBB, CHR 0xBF]"

definition FORMULA_LEAD :: "string \<Rightarrow> bool" where
  \<comment> \<open>the full-width signs of the pattern lie above the code units modelled\<close>
  "FORMULA_LEAD s =
     ((case dropWhile is_space s of c # _ \<Rightarrow> c \<in> {CHR ''='', CHR ''+'', CHR ''-'', CHR ''@''} | [] \<Rightarrow> False)
      \<or> (case s of c # _ \<Rightarrow> c \<in> {CHR 0x09, CHR 0x0D} | [] \<Rightarrow> False))"

datatype cell = C_text string | C_num int | C_null

definition needs_quotes :: "string \<Rightarrow> bool" where
  "needs_quotes s = list_ex (\<lambda>c. c \<in> {CHR 0x22, CHR '','', CHR 0x0D, CHR 0x0A}) s"

definition double_quotes :: "string \<Rightarrow> string" where
  "double_quotes s = concat (map (\<lambda>c. if c = CHR 0x22 then [c, c] else [c]) s)"

definition csvCell :: "cell \<Rightarrow> string" where
  "csvCell value =
     (let s = (case value of C_text t \<Rightarrow> if FORMULA_LEAD t then CHR 0x27 # t else t | C_num n \<Rightarrow> int_string n | C_null \<Rightarrow> [])
      in if needs_quotes s then CHR 0x22 # double_quotes s @ [CHR 0x22] else s)"

definition csv_row :: "cell list \<Rightarrow> string" where
  "csv_row cells = join_with '','' (map csvCell cells)"

definition answerLabels :: "ticket_order list \<Rightarrow> form_field list \<Rightarrow> string list" where
  "answerLabels orders fs = uniq (map ff_label fs @ concat (map (\<lambda>x. map fa_label (o_answers x)) orders))"

definition opt_cell :: "string option \<Rightarrow> cell" where
  "opt_cell v = (case v of Some s \<Rightarrow> C_text s | None \<Rightarrow> C_null)"

definition last_answer :: "ticket_order \<Rightarrow> string \<Rightarrow> string option" where
  \<comment> \<open>\<open>new Map(answers)\<close>: a later answer with the same label wins\<close>
  "last_answer x l = map_of (rev (map (\<lambda>a. (fa_label a, fa_value a)) (o_answers x))) l"

definition csv_head :: "string list" where
  "csv_head = [''Order number'', ''Order ID'', ''Status'', ''Test'', ''Name'', ''Mail'', ''Items'', ''Quantity'', ''Amount'',
               ''Payment method'', ''Coupon ID'', ''Created'', ''Paid'', ''Refunded'']"

definition csv_order :: "string list \<Rightarrow> ticket_order \<Rightarrow> cell list" where
  "csv_order labels x =
     [C_text (orderNumber (o_id x)), C_text (o_id x), C_text (status_string (o_status x)),
      C_text (if isTestOrder x then ''test'' else []), C_text (o_buyerName x), C_text (o_buyerEmail x),
      C_text (join_with '' / '' (map (\<lambda>i. oi_name i @ (if oi_day i \<noteq> [] then '' '' @ oi_day i else []) @ '' x'' @ int_string (oi_qty i)) (o_items x))),
      C_num (o_quantity x), C_num (o_amount x), opt_cell (o_paymentMethod x), opt_cell (o_couponId x),
      C_text (o_createdAt x), opt_cell (o_paidAt x), opt_cell (o_refundedAt x)]
     @ map (\<lambda>l. opt_cell (last_answer x l)) labels"

definition crlf :: string where "crlf = [CHR 0x0D, CHR 0x0A]"

definition ordersCsv :: "ticket_order list \<Rightarrow> form_field list \<Rightarrow> string" where
  "ordersCsv orders fs =
     (let labels = answerLabels orders fs
      in BOM @ join_with crlf (csv_row (map C_text (csv_head @ labels)) # map (\<lambda>x. csv_row (csv_order labels x)) orders) @ crlf)"

section \<open>Ticket tokens\<close>

definition SIG_BYTES :: nat where "SIG_BYTES = 18"

definition ticket_sign :: "(bytes \<Rightarrow> bytes \<Rightarrow> bytes) \<Rightarrow> string \<Rightarrow> string \<Rightarrow> string" where
  "ticket_sign hmac secret ticketId = base64url (take SIG_BYTES (hmac (utf8 secret) (utf8 ticketId)))"

definition ticketToken :: "(bytes \<Rightarrow> bytes \<Rightarrow> bytes) \<Rightarrow> string \<Rightarrow> string \<Rightarrow> string" where
  "ticketToken hmac secret ticketId = ticketId @ ''.'' @ ticket_sign hmac secret ticketId"

definition TICKET_TOKEN_RE :: "string \<Rightarrow> (string \<times> string) option" where
  \<comment> \<open>\<open>([A-Za-z0-9_-]{1,80})\.([A-Za-z0-9_-]{24})\<close>: the two groups\<close>
  "TICKET_TOKEN_RE s =
     (case split_on CHR ''.'' s of
        [i, sg] \<Rightarrow> if 1 \<le> length i \<and> length i \<le> 80 \<and> length sg = 24 \<and> list_all b64_alphabet i \<and> list_all b64_alphabet sg
                   then Some (i, sg) else None
      | _ \<Rightarrow> None)"

definition same_text :: "string \<Rightarrow> string \<Rightarrow> bool" where
  \<comment> \<open>the comparison of \<open>expected\<close> with a group of the pattern, over the length of \<open>expected\<close>;
      \<open>charCodeAt\<close> past the end is \<open>NaN\<close>, which counts as 0\<close>
  "same_text expected actual =
     (fold (\<lambda>i diff. or diff (xor (of_char (expected ! i)) (if i < length actual then of_char (actual ! i) else 0)))
        [0..<length expected] (0 :: nat) = 0)"

definition verifyTicketToken :: "(bytes \<Rightarrow> bytes \<Rightarrow> bytes) \<Rightarrow> string option \<Rightarrow> js \<Rightarrow> string option" where
  "verifyTicketToken hmac secret token =
     (case (secret, js_str token) of
        (Some k, Some s) \<Rightarrow>
          if k = [] then None
          else (case TICKET_TOKEN_RE s of
                  None \<Rightarrow> None
                | Some (i, sg) \<Rightarrow> if same_text (ticket_sign hmac k i) sg then Some i else None)
      | _ \<Rightarrow> None)"

section \<open>Preview tokens\<close>

definition PREVIEW_TOKEN_TTL_SEC :: int where "PREVIEW_TOKEN_TTL_SEC = 60 * 60"
definition PREVIEW_LABEL :: string where "PREVIEW_LABEL = ''dub/lp-ticket-preview/v1''"

definition PREVIEW_TOKEN_RE :: "string \<Rightarrow> (string \<times> string) option" where
  \<comment> \<open>\<open>(\d{1,12})\.([0-9a-f]{64})\<close>\<close>
  "PREVIEW_TOKEN_RE s =
     (case split_on CHR ''.'' s of
        [e, sg] \<Rightarrow> if 1 \<le> length e \<and> length e \<le> 12 \<and> length sg = 64 \<and> list_all is_digit e
                       \<and> list_all (\<lambda>c. is_digit c \<or> char_between CHR ''a'' CHR ''f'' c) sg
                   then Some (e, sg) else None
      | _ \<Rightarrow> None)"

definition digits_value :: "string \<Rightarrow> int" where
  \<comment> \<open>\<open>Number(m[1])\<close> of decimal digits\<close>
  "digits_value ds = foldl (\<lambda>n c. 10 * n + (of_char c - 48)) 0 ds"

definition preview_sign :: "(bytes \<Rightarrow> bytes \<Rightarrow> bytes) \<Rightarrow> string \<Rightarrow> int \<Rightarrow> string" where
  "preview_sign hmac secret expi =
     (let derived = hmac (utf8 secret) (utf8 PREVIEW_LABEL)
      in hex (hmac derived (utf8 (PREVIEW_LABEL @ ''.'' @ int_string expi))))"

definition issuePreviewToken :: "(bytes \<Rightarrow> bytes \<Rightarrow> bytes) \<Rightarrow> string \<Rightarrow> int \<Rightarrow> int \<Rightarrow> string \<times> int" where
  "issuePreviewToken hmac secret nowSec ttlSec =
     (let expi = nowSec + ttlSec in (int_string expi @ ''.'' @ preview_sign hmac secret expi, expi))"

definition verifyPreviewToken :: "(bytes \<Rightarrow> bytes \<Rightarrow> bytes) \<Rightarrow> string option \<Rightarrow> js \<Rightarrow> int \<Rightarrow> bool" where
  "verifyPreviewToken hmac secret token nowSec =
     (case (secret, js_str token) of
        (Some k, Some s) \<Rightarrow>
          if k = [] then False
          else (case PREVIEW_TOKEN_RE s of
                  None \<Rightarrow> False
                | Some (e, sg) \<Rightarrow>
                    let expi = digits_value e
                    in if expi \<le> nowSec \<or> nowSec + PREVIEW_TOKEN_TTL_SEC + 60 < expi then False
                       else same_text (preview_sign hmac k expi) sg)
      | _ \<Rightarrow> False)"

section \<open>The mail provider\<close>

record attachment =
  at_filename :: string
  at_content :: string
  at_contentType :: string

record outbound_mail =
  om_from :: string
  om_to :: string
  om_subject :: string
  om_text :: string
  om_html :: "string option"
  om_attachments :: "attachment list"

datatype mail_failure = Rate_limited | Transient | Rejected

datatype mail_result = Mail_ok string | Mail_failed mail_failure string "rat option"

type_synonym mailer = "outbound_mail \<Rightarrow> string \<Rightarrow> mail_result option"  \<comment> \<open>\<open>None\<close>: \<open>send\<close> threw\<close>

definition failureOf :: "int \<Rightarrow> mail_failure" where
  "failureOf status =
     (if status = 429 then Rate_limited
      else if 500 \<le> status \<or> status = 401 \<or> status = 403 then Transient else Rejected)"

text \<open>What the transport answers: an exception (a timeout or not), or a response with its status, the
  numeric value of \<open>retry-after\<close> if it has one, and its JSON, \<open>Null\<close> where it does not parse.\<close>

datatype resend_answer = RA_threw bool | RA_response bool int "rat option" js

definition ERROR_NAME_RE :: "string \<Rightarrow> bool" where
  "ERROR_NAME_RE s = (1 \<le> length s \<and> length s \<le> 40
     \<and> list_all (\<lambda>c. char_between CHR ''a'' CHR ''z'' c \<or> is_digit c \<or> c = CHR ''_'') s)"

definition errorName :: "js \<Rightarrow> string" where
  "errorName body = (case js_get body ''name'' of JStr s \<Rightarrow> if ERROR_NAME_RE s then s else ''unknown'' | _ \<Rightarrow> ''unknown'')"

fun one_line :: "bool \<Rightarrow> string \<Rightarrow> string" where
  \<comment> \<open>\<open>replace(/[\r\n]+/g, " ")\<close>; the flag is set inside a run\<close>
  "one_line b [] = []"
| "one_line b (c # cs) =
     (if c = CHR 0x0D \<or> c = CHR 0x0A then (if b then one_line True cs else CHR '' '' # one_line True cs) else c # one_line False cs)"

definition resend_body :: "outbound_mail \<Rightarrow> js" where
  "resend_body m =
     JObj ([(''from'', JStr (om_from m)), (''to'', JArr [JStr (om_to m)]), (''subject'', JStr (one_line False (om_subject m))),
            (''text'', JStr (om_text m))]
       @ (case om_html m of Some h \<Rightarrow> if h \<noteq> [] then [(''html'', JStr h)] else [] | None \<Rightarrow> [])
       @ (if om_attachments m \<noteq> []
          then [(''attachments'', JArr (map (\<lambda>a. JObj [(''filename'', JStr (at_filename a)), (''content'', JStr (at_content a)),
                  (''content_type'', JStr (at_contentType a))]) (om_attachments m)))]
          else []))"

definition resend_send :: "(js \<Rightarrow> string \<Rightarrow> resend_answer) \<Rightarrow> mailer" where
  \<comment> \<open>\<open>createResendMailer(...).send\<close>; the transport gets the body and the idempotency key\<close>
  "resend_send fetch m idempotencyKey =
     Some (case fetch (resend_body m) idempotencyKey of
        RA_threw timeout \<Rightarrow> Mail_failed Transient (if timeout then ''timeout'' else ''network_error'') None
      | RA_response ok status retryAfter body \<Rightarrow>
          if \<not> ok
          then let failure = failureOf status
               in Mail_failed failure (''resend_'' @ int_string status @ ''_'' @ errorName body)
                    (if failure = Rate_limited then (case retryAfter of Some r \<Rightarrow> if 0 < r then Some r else None | None \<Rightarrow> None) else None)
          else (case js_get body ''id'' of
                  JStr i \<Rightarrow> if i = [] then Mail_failed Transient ''resend_no_id'' None else Mail_ok i
                | _ \<Rightarrow> Mail_failed Transient ''resend_no_id'' None))"

end
