(* ===== verification/Stripe_Client.thy ===== *)
theory Stripe_Client
  imports Js_Bytes
begin

text \<open>
  \<open>services/lp-tickets/src/stripe.ts\<close>: reading a Checkout Session out of an untyped value, the
  refusal of live keys, and the check of a webhook signature. HMAC-SHA256 is a parameter. The HTTP transport of
  the client is a parameter as well.
\<close>

definition STRIPE_TOLERANCE_SEC :: int where "STRIPE_TOLERANCE_SEC = 300"

record line_item =
  li_name :: string
  li_unitAmount :: int
  li_quantity :: int

record checkout_session_input =
  si_orderId :: string
  si_lineItems :: "line_item list"
  si_customerEmail :: string
  si_successUrl :: string
  si_cancelUrl :: string
  si_expiresAt :: int

record checkout_session =
  cs_id :: string
  cs_url :: "string option"
  cs_status :: "string option"
  cs_paymentStatus :: "string option"
  cs_clientReferenceId :: "string option"
  cs_amountTotal :: "rat option"
  cs_currency :: "string option"
  cs_paymentIntentId :: "string option"
  cs_livemode :: "bool option"
  cs_paymentMethodType :: "string option"

definition isLiveStripeKey :: "string \<Rightarrow> bool" where
  "isLiveStripeKey key = (starts_with ''sk_live_'' key \<or> starts_with ''rk_live_'' key)"

definition usableStripeKey :: "string option \<Rightarrow> string option \<Rightarrow> string option" where
  "usableStripeKey key allowLive =
     (case key of
        None \<Rightarrow> None
      | Some k \<Rightarrow> if k = '''' then None
                  else if isLiveStripeKey k \<and> allowLive \<noteq> Some ''1'' then None else Some k)"

definition stripeId :: "js \<Rightarrow> string option" where
  "stripeId v = (case v of JStr s \<Rightarrow> Some s | _ \<Rightarrow> js_str (js_get v ''id''))"

definition usedPaymentMethodType :: "js \<Rightarrow> string option" where
  "usedPaymentMethodType intent =
     (if \<not> is_object intent then None
      else let pm = js_get intent ''payment_method''
           in if \<not> is_object pm then None
              else (case js_get pm ''type'' of JStr t \<Rightarrow> if t \<noteq> '''' then Some t else None | _ \<Rightarrow> None))"

definition toCheckoutSession :: "js \<Rightarrow> checkout_session" where
  "toCheckoutSession r =
     \<lparr>cs_id = js_str_or '''' (js_get r ''id''),
      cs_url = js_str (js_get r ''url''),
      cs_status = js_str (js_get r ''status''),
      cs_paymentStatus = js_str (js_get r ''payment_status''),
      cs_clientReferenceId = js_str (js_get r ''client_reference_id''),
      cs_amountTotal = (case js_get r ''amount_total'' of JNum n \<Rightarrow> Some n | _ \<Rightarrow> None),
      cs_currency = js_str (js_get r ''currency''),
      cs_paymentIntentId = stripeId (js_get r ''payment_intent''),
      cs_livemode = js_bool (js_get r ''livemode''),
      cs_paymentMethodType = usedPaymentMethodType (js_get r ''payment_intent'')\<rparr>"

section \<open>Requests\<close>

text \<open>
  The two calls of the client: the form or path of the request, and what becomes of the answer.
  The transport is a parameter; \<open>None\<close> is a \<open>fetch\<close> that throws. \<open>encodeURIComponent\<close> is a
  parameter too.
\<close>

record http_answer =
  ha_ok :: bool
  ha_status :: int
  ha_json :: js

record stripe_request =
  rq_method :: string
  rq_path :: string
  rq_form :: "(string \<times> string) list option"
  rq_idempotencyKey :: "string option"

definition SESSION_EXPAND :: string where "SESSION_EXPAND = ''payment_intent.payment_method''"

definition stripe_call :: "(stripe_request \<Rightarrow> http_answer option) \<Rightarrow> stripe_request \<Rightarrow> dub_error + checkout_session" where
  "stripe_call fetch rq =
     (case fetch rq of
        None \<Rightarrow> Inl (upstreamUnavailable ''stripe'')
      | Some res \<Rightarrow> if \<not> ha_ok res then Inl (upstreamUnavailable ''stripe'')
                    else Inr (toCheckoutSession (ha_json res)))"

definition line_form :: "nat \<times> line_item \<Rightarrow> (string \<times> string) list" where
  "line_form = (\<lambda>(n, l).
     let p = ''line_items['' @ nat_string n @ '']''
     in [(p @ ''[price_data][currency]'', ''jpy''),
         (p @ ''[price_data][unit_amount]'', int_string (li_unitAmount l)),
         (p @ ''[price_data][product_data][name]'', li_name l),
         (p @ ''[quantity]'', int_string (li_quantity l))])"

definition checkout_form :: "checkout_session_input \<Rightarrow> (string \<times> string) list" where
  "checkout_form i =
     [(''mode'', ''payment'')]
     @ concat (map line_form (zip [0..<length (si_lineItems i)] (si_lineItems i)))
     @ [(''customer_email'', si_customerEmail i),
        (''client_reference_id'', si_orderId i),
        (''metadata[order_id]'', si_orderId i),
        (''success_url'', si_successUrl i),
        (''cancel_url'', si_cancelUrl i),
        (''expires_at'', int_string (si_expiresAt i)),
        (''locale'', ''ja'')]"

definition createCheckoutSession ::
  "(stripe_request \<Rightarrow> http_answer option) \<Rightarrow> checkout_session_input \<Rightarrow> dub_error + checkout_session" where
  "createCheckoutSession fetch i =
     stripe_call fetch \<lparr>rq_method = ''POST'', rq_path = ''/checkout/sessions'', rq_form = Some (checkout_form i),
                        rq_idempotencyKey = Some (''checkout-'' @ si_orderId i)\<rparr>"

definition getCheckoutSession ::
  "(string \<Rightarrow> string) \<Rightarrow> (stripe_request \<Rightarrow> http_answer option) \<Rightarrow> string \<Rightarrow> dub_error + checkout_session" where
  "getCheckoutSession encodeURIComponent fetch i =
     stripe_call fetch
       \<lparr>rq_method = ''GET'',
        rq_path = ''/checkout/sessions/'' @ encodeURIComponent i @ ''?expand%5B%5D='' @ SESSION_EXPAND,
        rq_form = None, rq_idempotencyKey = None\<rparr>"

section \<open>Webhook signatures\<close>

definition lower_char :: "char \<Rightarrow> char" where
  \<comment> \<open>\<open>toLowerCase\<close> of a code unit below 256\<close>
  "lower_char c = (let n = of_char c :: nat
     in if (65 \<le> n \<and> n \<le> 90) \<or> (192 \<le> n \<and> n \<le> 222 \<and> n \<noteq> 215) then char_of (n + 32) else c)"

fun leading_digits :: "string \<Rightarrow> string" where
  "leading_digits [] = []"
| "leading_digits (c # cs) = (if char_between CHR ''0'' CHR ''9'' c then c # leading_digits cs else [])"

definition digits_int :: "string \<Rightarrow> int" where
  "digits_int ds = foldl (\<lambda>n c. 10 * n + (of_char c - 48)) 0 ds"

definition parseInt10 :: "string \<Rightarrow> int option" where
  \<comment> \<open>\<open>Number.parseInt(v, 10)\<close> of a trimmed text; \<open>None\<close> is \<open>NaN\<close>\<close>
  "parseInt10 v =
     (let (neg, rest) = (case v of c # cs \<Rightarrow> if c = CHR ''-'' then (True, cs) else if c = CHR ''+'' then (False, cs) else (False, v)
                        | [] \<Rightarrow> (False, []));
          ds = leading_digits rest
      in if ds = [] then None else Some (if neg then - digits_int ds else digits_int ds))"

datatype sig_time = No_t | T_nan | T_sec int

definition sig_kv :: "string \<Rightarrow> (string \<times> string) option" where
  "sig_kv part = map_option (\<lambda>eq. (trim (take eq part), trim (drop (eq + 1) part))) (index_of CHR ''='' part)"

definition sig_part :: "string \<Rightarrow> sig_time \<times> string list \<Rightarrow> sig_time \<times> string list" where
  "sig_part part acc =
     (case (acc, sig_kv part) of
        (_, None) \<Rightarrow> acc
      | ((t, v1s), Some (k, v)) \<Rightarrow>
          if k = ''t'' then ((case parseInt10 v of None \<Rightarrow> T_nan | Some n \<Rightarrow> T_sec n), v1s)
          else if k = ''v1'' \<and> v \<noteq> [] then (t, v1s @ [map lower_char v])
          else (t, v1s))"

definition stripe_digest :: "(bytes \<Rightarrow> bytes \<Rightarrow> bytes) \<Rightarrow> string \<Rightarrow> int \<Rightarrow> string \<Rightarrow> string" where
  "stripe_digest hmac secret t rawBody = hex (hmac (utf8 secret) (utf8 (int_string t @ ''.'' @ rawBody)))"

definition verifyStripeSignature ::
  "(bytes \<Rightarrow> bytes \<Rightarrow> bytes) \<Rightarrow> string option \<Rightarrow> string \<Rightarrow> string \<Rightarrow> int \<Rightarrow> int \<Rightarrow> bool" where
  "verifyStripeSignature hmac header rawBody secret nowSec toleranceSec =
     (case header of
        None \<Rightarrow> False
      | Some h \<Rightarrow>
          if h = [] \<or> secret = [] then False
          else (case fold sig_part (split_on CHR '','' h) (No_t, []) of
                  (T_sec t, v1s) \<Rightarrow>
                    if v1s = [] then False
                    else if toleranceSec < \<bar>nowSec - t\<bar> then False
                    else let expected = stripe_digest hmac secret t rawBody
                         in fold (\<lambda>v ok. if timingSafeEqual v expected then True else ok) v1s False
                | _ \<Rightarrow> False))"

definition signStripePayload :: "(bytes \<Rightarrow> bytes \<Rightarrow> bytes) \<Rightarrow> string \<Rightarrow> string \<Rightarrow> int \<Rightarrow> string" where
  "signStripePayload hmac rawBody secret tSec =
     ''t='' @ int_string tSec @ '',v1='' @ stripe_digest hmac secret tSec rawBody"

section \<open>Signatures\<close>

text \<open>Reading back the decimal of an integer.\<close>

lemma digits_int_snoc: "digits_int (ds @ [c]) = 10 * digits_int ds + (of_char c - 48)"
  by (simp add: digits_int_def)

lemma digits_int_nat_string: "digits_int (nat_string n) = int n"
proof (induction n rule: nat_string.induct)
  case (1 n)
  have c: "of_char (char_of (48 + m) :: char) = (48 + int m)" if "m < 10" for m :: nat
  proof -
    have "of_char (char_of (48 + m) :: char) = int (of_char (char_of (48 + m) :: char) :: nat)"
      by (simp only: of_nat_of_char)
    with that show ?thesis by simp
  qed
  show ?case
  proof (cases "n < 10")
    case True
    then show ?thesis by (subst nat_string.simps) (simp add: digits_int_def c)
  next
    case False
    then have "digits_int (nat_string n) = 10 * int (n div 10) + int (n mod 10)"
      using 1 by (subst nat_string.simps) (simp add: digits_int_snoc c)
    then show ?thesis by presburger
  qed
qed

lemma nat_string_digits: "c \<in> set (nat_string n) \<Longrightarrow> char_between CHR ''0'' CHR ''9'' c"
proof (induction n rule: nat_string.induct)
  case (1 n)
  have c: "char_between CHR ''0'' CHR ''9'' (char_of (48 + m))" if "m < 10" for m :: nat
    using that by (simp add: char_between_def)
  show ?case using 1 c[of n] c[of "n mod 10"]
    by (subst (asm) (2) nat_string.simps) (auto split: if_splits)
qed

lemma nat_string_Nil: "nat_string n \<noteq> []"
  by (subst nat_string.simps) simp

lemma leading_digits_all: "(\<And>c. c \<in> set ds \<Longrightarrow> char_between CHR ''0'' CHR ''9'' c) \<Longrightarrow> leading_digits ds = ds"
  by (induction ds) auto

lemma parseInt10_int_string: "parseInt10 (int_string i) = Some i"
proof -
  have d: "leading_digits (nat_string n) = nat_string n" for n
    by (rule leading_digits_all) (rule nat_string_digits)
  have h: "c \<noteq> CHR ''-'' \<and> c \<noteq> CHR ''+''" if "nat_string n = c # cs" for n c cs
    using nat_string_digits[of c n] that by (auto simp: char_between_def)
  show ?thesis
  proof (cases "i < 0")
    case True
    then show ?thesis
      by (simp add: parseInt10_def int_string_def d nat_string_Nil digits_int_nat_string)
  next
    case False
    obtain c cs where e: "nat_string (nat i) = c # cs" by (meson list.exhaust nat_string_Nil)
    then show ?thesis
      using False h[OF e] d[of "nat i"] digits_int_nat_string[of "nat i"]
      by (simp add: parseInt10_def int_string_def)
  qed
qed


lemma sig_parts:
  assumes "fold sig_part ps (t0, vs0) = (T_sec t, vs)"
  shows "(t0 = T_sec t \<or> (\<exists>p\<in>set ps. \<exists>v. sig_kv p = Some (''t'', v) \<and> parseInt10 v = Some t))
       \<and> (\<forall>x\<in>set vs. x \<in> set vs0 \<or> (\<exists>q\<in>set ps. \<exists>v. sig_kv q = Some (''v1'', v) \<and> x = map lower_char v))"
  using assms
proof (induction ps arbitrary: t0 vs0)
  case (Cons p ps)
  obtain t1 vs1 where 1: "sig_part p (t0, vs0) = (t1, vs1)" by fastforce
  have t1: "t1 = t0 \<or> (\<exists>v. sig_kv p = Some (''t'', v) \<and> (\<forall>n. t1 = T_sec n \<longrightarrow> parseInt10 v = Some n))"
  proof (cases "sig_kv p")
    case (Some kv)
    with 1 show ?thesis
      by (cases kv; cases "fst kv = ''t''"; cases "parseInt10 (snd kv)") (auto simp: sig_part_def split: if_splits)
  qed (use 1 in \<open>simp add: sig_part_def\<close>)
  have vs1: "x \<in> set vs0 \<or> (\<exists>v. sig_kv p = Some (''v1'', v) \<and> x = map lower_char v)" if "x \<in> set vs1" for x
  proof (cases "sig_kv p")
    case (Some kv)
    with 1 that show ?thesis by (cases kv) (auto simp: sig_part_def split: if_splits)
  qed (use 1 that in \<open>simp add: sig_part_def\<close>)
  have IH: "(t1 = T_sec t \<or> (\<exists>p\<in>set ps. \<exists>v. sig_kv p = Some (''t'', v) \<and> parseInt10 v = Some t))
       \<and> (\<forall>x\<in>set vs. x \<in> set vs1 \<or> (\<exists>q\<in>set ps. \<exists>v. sig_kv q = Some (''v1'', v) \<and> x = map lower_char v))"
    using Cons.prems 1 by (intro Cons.IH) simp
  then show ?case using t1 vs1 by (metis list.set_intros(1) list.set_intros(2))
qed simp

lemma fold_any: "fold (\<lambda>v. (\<or>) (P v)) vs b \<longleftrightarrow> b \<or> (\<exists>v\<in>set vs. P v)"
  by (induction vs arbitrary: b) auto

text \<open>C12. A webhook is accepted only when its header carries a timestamp \<open>t\<close> within the
  tolerance of the clock and a \<open>v1\<close> digest, compared without regard to case, that is the HMAC of that
  very timestamp and the raw body under the configured, non-empty secret.\<close>

theorem accepted_webhook_is_signed:
  assumes "verifyStripeSignature hmac header rawBody secret nowSec tol"
  shows "\<exists>h t p q v w. header = Some h \<and> secret \<noteq> [] \<and> p \<in> set (split_on CHR '','' h) \<and> q \<in> set (split_on CHR '','' h)
     \<and> sig_kv p = Some (''t'', v) \<and> parseInt10 v = Some t \<and> \<bar>nowSec - t\<bar> \<le> tol
     \<and> sig_kv q = Some (''v1'', w) \<and> map lower_char w = stripe_digest hmac secret t rawBody"
proof -
  obtain h t vs where h: "header = Some h" "secret \<noteq> []"
    "fold sig_part (split_on CHR '','' h) (No_t, []) = (T_sec t, vs)" "\<not> tol < \<bar>nowSec - t\<bar>"
    "\<exists>v\<in>set vs. v = stripe_digest hmac secret t rawBody"
    using assms by (auto simp: verifyStripeSignature_def fold_any timingSafeEqual_iff Let_def
        split: option.splits if_splits prod.splits sig_time.splits)
  from sig_parts[OF h(3)] h show ?thesis by fastforce
qed

text \<open>A header made by \<open>signStripePayload\<close> is accepted for its body and secret as long as the
  clock is within the tolerance, whatever the HMAC that yields a non-empty list of bytes.\<close>

theorem signed_payload_is_accepted:
  assumes byte: "\<And>k m b. b \<in> set (hmac k m) \<Longrightarrow> b < 256"
    and ne: "\<And>k m. hmac k m \<noteq> []"
    and "secret \<noteq> []" "\<bar>nowSec - t\<bar> \<le> tol"
  shows "verifyStripeSignature hmac (Some (signStripePayload hmac rawBody secret t)) rawBody secret nowSec tol"
proof -
  define d where "d = stripe_digest hmac secret t rawBody"
  have hexd: "char_between CHR ''0'' CHR ''9'' c \<or> char_between CHR ''a'' CHR ''f'' c" if "c \<in> set d" for c
    using that unfolding d_def stripe_digest_def by (rule hex_chars[rotated]) (rule byte)
  have idig: "c = CHR ''-'' \<or> char_between CHR ''0'' CHR ''9'' c" if "c \<in> set (int_string t)" for c
    using that nat_string_digits by (auto simp: int_string_def split: if_splits)
  have free: "CHR '','' \<notin> set (''t='' @ int_string t)" "CHR '','' \<notin> set (''v1='' @ d)"
    using idig[of "CHR '',''"] hexd[of "CHR '',''"] by (auto simp: char_between_def)
  have "''t='' @ int_string t @ '',v1='' @ d = (''t='' @ int_string t) @ CHR '','' # (''v1='' @ d)" by simp
  then have parts: "split_on CHR '','' (''t='' @ int_string t @ '',v1='' @ d) = [''t='' @ int_string t, ''v1='' @ d]"
    using split_on_append[OF free(1), of "''v1='' @ d"] split_on_free[OF free(2)] by simp
  have tr: "trim s = s" if "\<forall>c\<in>set s. \<not> is_space c" for s
  proof -
    have "dropWhile is_space u = u" if "\<forall>c\<in>set u. \<not> is_space c" for u using that by (cases u) auto
    from this[of s] this[of "rev s"] that show ?thesis by (simp add: trim_def)
  qed
  have nsp: "\<not> is_space c" if "char_between CHR ''0'' CHR ''9'' c \<or> char_between CHR ''a'' CHR ''f'' c \<or> c = CHR ''-''" for c
  proof -
    have "of_char c \<in> {45 :: nat} \<or> (48 \<le> (of_char c :: nat) \<and> of_char c \<le> (57::nat)) \<or> 97 \<le> (of_char c :: nat) \<and> of_char c \<le> (102::nat)"
      using that by (elim disjE) (simp_all add: char_between_def)
    then show ?thesis unfolding is_space_def by (elim disjE) auto
  qed
  have "trim (int_string t) = int_string t" by (intro tr ballI nsp) (metis idig)
  moreover have "trim d = d" by (intro tr ballI nsp) (metis hexd)
  moreover have "trim ''t'' = ''t''" "trim ''v1'' = ''v1''" by (rule tr, simp add: is_space_def)+
  moreover have "index_of CHR ''='' (''t='' @ int_string t) = Some 1" "index_of CHR ''='' (''v1='' @ d) = Some 2"
    by simp_all
  ultimately have kv: "sig_kv (''t='' @ int_string t) = Some (''t'', int_string t)" "sig_kv (''v1='' @ d) = Some (''v1'', d)"
    by (simp_all add: sig_kv_def)
  have lc: "lower_char c = c" if "char_between CHR ''0'' CHR ''9'' c \<or> char_between CHR ''a'' CHR ''f'' c" for c
  proof -
    have "of_char c \<le> (57::nat) \<or> 97 \<le> (of_char c :: nat) \<and> of_char c \<le> (102::nat)" using that by (auto simp: char_between_def)
    then show ?thesis by (auto simp: lower_char_def Let_def)
  qed
  have dne: "d \<noteq> []" using ne by (simp add: d_def stripe_digest_def hex_Nil)
  have low: "map lower_char d = d"
    by (rule map_idI) (rule lc[OF hexd])
  have "fold sig_part [''t='' @ int_string t, ''v1='' @ d] (No_t, []) = (T_sec t, [d])"
    using kv low dne by (simp add: sig_part_def parseInt10_int_string)
  moreover define h where "h = ''t='' @ int_string t @ '',v1='' @ d"
  ultimately have "fold sig_part (split_on CHR '','' h) (No_t, []) = (T_sec t, [d])" "h \<noteq> []"
    using parts by (simp_all only: h_def) simp
  moreover have "signStripePayload hmac rawBody secret t = h" by (simp only: signStripePayload_def h_def d_def)
  ultimately show ?thesis
    using assms(3,4) by (simp add: verifyStripeSignature_def timingSafeEqual_iff d_def)
qed

lemma signed_payload_is_accepted_witness:
  "verifyStripeSignature (\<lambda>k m. [10]) (Some (signStripePayload (\<lambda>k m. [10]) ''{}'' ''whsec'' 1700000000)) ''{}'' ''whsec''
     1700000100 STRIPE_TOLERANCE_SEC"
  by (rule signed_payload_is_accepted) (auto simp: STRIPE_TOLERANCE_SEC_def)

lemma accepted_webhook_is_signed_witness:
  "\<exists>t v. parseInt10 v = Some t \<and> \<bar>100 - t\<bar> \<le> STRIPE_TOLERANCE_SEC"
proof -
  have "verifyStripeSignature (\<lambda>k m. [10]) (Some ''t=5,v1=0A'') ''{}'' ''s'' 100 STRIPE_TOLERANCE_SEC"
    by code_simp
  from accepted_webhook_is_signed[OF this] show ?thesis by fast
qed

end
