(* ===== verification/Ticket_Delivery.thy ===== *)
theory Ticket_Delivery
  imports Ticket_Mail Stripe_Client
begin

text \<open>
  \<open>services/lp-tickets/src/delivery.ts\<close>: what happens after a purchase. Tickets are issued with the
  mails they owe, the mails are sent in paced batches under a daily cap, paid orders that were missed are
  swept up, and once a day everything is exported. \<open>deps\<close> is \<open>AppDeps\<close> of \<open>types.ts\<close>: the settings and the
  outside world, whose answers are functions. A step reads the clock once; a drain reads it at the start
  (\<open>tick 0\<close>, which its backlog count uses too) and once per mail, which is where its pacing shows. Instants stay in the range of dates.
  Logging is left out, and so are the exceptions of the database and of the backup store.
\<close>

section \<open>The outside world\<close>

record stripe_client =
  sk_livemode :: bool
  sk_create :: "checkout_session_input \<Rightarrow> dub_error + checkout_session"
  sk_get :: "string \<Rightarrow> dub_error + checkout_session"

record deps =
  dp_lpBaseUrl :: string
  dp_stripe :: "stripe_client option"
  dp_webhookSecret :: "string option"
  dp_previewKey :: "string option"
  dp_paypayEnabled :: bool
  dp_mailer :: "mailer option"
  dp_tokenSecret :: "string option"
  dp_opsEmail :: "string option"
  dp_mailFrom :: string
  dp_dailyCap :: "int option"
  dp_backup :: "(string \<Rightarrow> bool) option"     \<comment> \<open>\<open>exists\<close>\<close>
  dp_hmac :: "bytes \<Rightarrow> bytes \<Rightarrow> bytes"
  dp_sha256 :: "bytes \<Rightarrow> bytes"
  dp_url :: "string \<Rightarrow> (string \<times> string) option"
  dp_encode :: "string \<Rightarrow> string"
  dp_json :: "string \<Rightarrow> js option"

definition OUTBOX_MAX_ATTEMPTS :: int where "OUTBOX_MAX_ATTEMPTS = 10"
definition OUTBOX_BACKOFF_BASE_MS :: ms where "OUTBOX_BACKOFF_BASE_MS = 60 * 1000"
definition OUTBOX_BACKOFF_CAP_MS :: ms where "OUTBOX_BACKOFF_CAP_MS = 60 * 60 * 1000"
definition OUTBOX_TRANSIENT_RETRY_MS :: ms where "OUTBOX_TRANSIENT_RETRY_MS = 5 * 60 * 1000"
definition OUTBOX_RATE_LIMIT_RETRY_MS :: ms where "OUTBOX_RATE_LIMIT_RETRY_MS = 60 * 1000"
definition OUTBOX_HOLD_MS :: ms where "OUTBOX_HOLD_MS = 60 * 60 * 1000"
definition OUTBOX_LEASE_MS :: ms where "OUTBOX_LEASE_MS = 2 * 60 * 1000"
definition DRAIN_BUDGET_MS :: ms where "DRAIN_BUDGET_MS = 25 * 1000"
definition DRAIN_BATCH_MAX :: int where "DRAIN_BATCH_MAX = 30"
definition MAIL_BACKLOG_MAX :: nat where "MAIL_BACKLOG_MAX = 200"
definition BACKLOG_WINDOW_MS :: ms where "BACKLOG_WINDOW_MS = 3 * 60 * 1000"
definition PASS_SUBREQUEST_BUDGET :: int where "PASS_SUBREQUEST_BUDGET = 45"
definition DRAIN_OVERHEAD_SUBREQUESTS :: int where "DRAIN_OVERHEAD_SUBREQUESTS = 6"
definition DAILY_SUBREQUESTS :: int where "DAILY_SUBREQUESTS = 30"
definition SWEEP_LIMIT :: nat where "SWEEP_LIMIT = 10"
definition SWEEP_RECENT_MS :: ms where "SWEEP_RECENT_MS = 60 * 60 * 1000"
definition EXPORT_PAGE :: nat where "EXPORT_PAGE = 1000"
definition JST_OFFSET_MS :: ms where "JST_OFFSET_MS = 9 * 60 * 60 * 1000"
definition DAY_MS :: ms where "DAY_MS = 24 * 60 * 60 * 1000"
definition JOB_BACKUP_DAY :: string where "JOB_BACKUP_DAY = ''backup_day''"
definition JOB_SWEEP_DAY :: string where "JOB_SWEEP_DAY = ''full_sweep_day''"
definition JOB_CSV_SHA :: string where "JOB_CSV_SHA = ''daily_csv_sha''"

definition plusMs :: "ms \<Rightarrow> ms \<Rightarrow> string" where
  "plusMs now d = iso_string (now + d)"

definition jstDay :: "ms \<Rightarrow> string" where
  \<comment> \<open>of the instant the argument of the code denotes\<close>
  "jstDay now = take 10 (iso_string (now + JST_OFFSET_MS))"

section \<open>Fulfilment\<close>

definition seat_ticket :: "ticket_order \<Rightarrow> string \<Rightarrow> nat \<times> order_item \<Rightarrow> ticket" where
  "seat_ticket x now = (\<lambda>(n, i).
     \<lparr>tk_id = o_id x @ ''-'' @ nat_string (n + 1), tk_order = o_id x, tk_type = oi_type i, tk_name = oi_name i,
      tk_day = oi_day i, tk_status = T_valid, tk_createdAt = now, tk_voidedAt = None\<rparr>)"

definition order_seats :: "ticket_order \<Rightarrow> order_item list" where
  "order_seats x = concat (map (\<lambda>i. replicate (nat (oi_qty i)) i) (o_items x))"

definition owed_kinds :: "ticket_order \<Rightarrow> mail_kind list" where
  "owed_kinds x = (if isTestOrder x then [Buyer_confirmation] else [Buyer_confirmation, Ops_copy])"

definition owed_mail :: "ticket_order \<Rightarrow> string \<Rightarrow> mail_kind \<Rightarrow> mail_row" where
  "owed_mail x now k =
     \<lparr>ml_id = o_id x @ '':'' @ kind_string k, ml_order = o_id x, ml_kind = k, ml_status = M_pending, ml_attempts = 0,
      ml_next = now, ml_error = None, ml_sentAt = None, ml_createdAt = now\<rparr>"

definition fulfilmentOf :: "ticket_order \<Rightarrow> string \<Rightarrow> ticket list \<times> mail_row list" where
  "fulfilmentOf x now = (map (seat_ticket x now) (numbered (order_seats x)), map (owed_mail x now) (owed_kinds x))"

definition fulfill :: "ms \<Rightarrow> string \<Rightarrow> store \<Rightarrow> store" where
  "fulfill now orderId s =
     (case getOrder TICKET_SITE orderId s of
        None \<Rightarrow> s
      | Some x \<Rightarrow>
          if o_status x \<noteq> O_paid then s
          else let (tickets, mails) = fulfilmentOf x (iso_string now) in issueFulfilment (o_id x) tickets mails s)"

section \<open>Sending\<close>

definition deliverableKinds :: "deps \<Rightarrow> mail_kind list" where
  "deliverableKinds d =
     (if dp_mailer d = None then []
      else (case dp_tokenSecret d of Some k \<Rightarrow> if k \<noteq> [] then [Buyer_confirmation] else [] | None \<Rightarrow> [])
           @ (case dp_opsEmail d of Some e \<Rightarrow> if e \<noteq> [] then [Ops_copy] else [] | None \<Rightarrow> []))"

definition strip_slashes :: "string \<Rightarrow> string" where
  \<comment> \<open>\<open>replace(/\/+$/, "")\<close>\<close>
  "strip_slashes s = rev (dropWhile (\<lambda>c. c = CHR ''/'') (rev s))"

definition passes :: "deps \<Rightarrow> ticket list \<Rightarrow> ticket_pass list" where
  "passes d tickets =
     map (\<lambda>t. let url = strip_slashes (dp_lpBaseUrl d) @ ''/t/'' @ ticketToken (dp_hmac d) (the (dp_tokenSecret d)) (tk_id t)
              in \<lparr>tpa_ticket = t, tpa_url = url, tpa_qrUrl = url @ ''/qr.png''\<rparr>) tickets"

definition mailFor :: "deps \<Rightarrow> mail_row \<Rightarrow> ticket_order \<Rightarrow> ticket list \<Rightarrow> outbound_mail option" where
  "mailFor d row x tickets =
     (let out = (\<lambda>dest m. \<lparr>om_from = dp_mailFrom d, om_to = dest, om_subject = rm_subject m, om_text = rm_text m,
                         om_html = rm_html m, om_attachments = []\<rparr>)
      in case ml_kind row of
           Buyer_confirmation \<Rightarrow>
             (let valid = filter (\<lambda>t. tk_status t = T_valid) tickets
              in if valid = [] then None else Some (out (o_buyerEmail x) (renderBuyerMail x (passes d valid))))
         | Ops_copy \<Rightarrow> Some (out (the (dp_opsEmail d)) (renderOpsMail x)))"

definition mail_change :: "mail_row \<Rightarrow> mail_status \<Rightarrow> int \<Rightarrow> string \<Rightarrow> string option \<Rightarrow> string option \<Rightarrow> mail_update" where
  "mail_change row status attempts nxt error sentAt =
     \<lparr>mu_id = ml_id row, mu_status = status, mu_attempts = attempts, mu_next = nxt, mu_error = error, mu_sentAt = sentAt\<rparr>"

definition counted :: "ms \<Rightarrow> mail_row \<Rightarrow> string \<Rightarrow> mail_update" where
  "counted now row error =
     (let attempts = ml_attempts row + 1
      in if OUTBOX_MAX_ATTEMPTS \<le> attempts then mail_change row M_failed attempts (ml_next row) (Some error) None
         else let delay = min OUTBOX_BACKOFF_CAP_MS (OUTBOX_BACKOFF_BASE_MS * 2 ^ nat (attempts - 1))
              in mail_change row M_pending attempts (plusMs now delay) (Some error) None)"

definition later :: "ms \<Rightarrow> mail_row \<Rightarrow> ms \<Rightarrow> string \<Rightarrow> mail_update" where
  "later now row delayMs error = mail_change row M_pending (ml_attempts row) (plusMs now delayMs) (Some error) None"

definition send_outcome :: "ms \<Rightarrow> mail_row \<Rightarrow> mail_result \<Rightarrow> mail_update \<times> bool" where
  "send_outcome now row res =
     (case res of
        Mail_ok i \<Rightarrow> (mail_change row M_sent (ml_attempts row) (iso_string now) None (Some (iso_string now)), False)
      | Mail_failed Rejected error _ \<Rightarrow> (counted now row error, False)
      | Mail_failed Rate_limited error retryAfter \<Rightarrow>
          (later now row (max OUTBOX_RATE_LIMIT_RETRY_MS (js_trunc ((case retryAfter of Some r \<Rightarrow> r | None \<Rightarrow> 0) * 1000))) error, True)
      | Mail_failed Transient error _ \<Rightarrow> (later now row OUTBOX_TRANSIENT_RETRY_MS error, True))"

definition sendRow :: "deps \<Rightarrow> ms \<Rightarrow> mail_row \<Rightarrow> ticket_order option \<Rightarrow> ticket list \<Rightarrow> mail_update \<times> bool" where
  \<comment> \<open>the update and \<open>stop\<close>\<close>
  "sendRow d now row ord tickets =
     (case ord of
        None \<Rightarrow> (counted now row ''order_missing'', False)
      | Some x \<Rightarrow>
          if o_status x = O_refunded
          then (mail_change row M_failed (ml_attempts row) (ml_next row) (Some ''order_refunded'') None, False)
          else if o_status x \<noteq> O_paid then (later now row OUTBOX_HOLD_MS ''order_on_hold'', False)
          else (case mailFor d row x tickets of
                  None \<Rightarrow> (counted now row ''no_valid_tickets'', False)
                | Some mail \<Rightarrow>
                    send_outcome now row
                      (case (the (dp_mailer d)) mail (ml_id row) of
                         Some r \<Rightarrow> r | None \<Rightarrow> Mail_failed Transient ''send_threw'' None)))"

definition jst_day_start :: "ms \<Rightarrow> ms" where
  "jst_day_start now = (now + JST_OFFSET_MS) div DAY_MS * DAY_MS - JST_OFFSET_MS"

definition sentTodayJst :: "ms \<Rightarrow> store \<Rightarrow> int" where
  "sentTodayJst now s = int (countOutboxSentSince (iso_string (jst_day_start now)) s)"

definition dailyAllowance :: "deps \<Rightarrow> ms \<Rightarrow> store \<Rightarrow> int" where
  "dailyAllowance d now s =
     (case dp_dailyCap d of None \<Rightarrow> DRAIN_BATCH_MAX | Some cap \<Rightarrow> max 0 (cap - sentTodayJst now s))"

definition canAcceptOrder :: "deps \<Rightarrow> ms \<Rightarrow> string \<Rightarrow> store \<Rightarrow> bool" where
  "canAcceptOrder d now pendingSince s =
     (let kinds = deliverableKinds d; queued = countOutboxQueued kinds s
      in if Buyer_confirmation \<notin> set kinds then False
         else if MAIL_BACKLOG_MAX \<le> queued then False
         else (case dp_dailyCap d of
                 None \<Rightarrow> True
               | Some cap \<Rightarrow>
                   int (length kinds) \<le> cap - sentTodayJst now s - int queued
                     - int (countPendingOrdersSince TICKET_SITE pendingSince s) * int (length kinds)))"

record drain_request =
  dr_order :: "string option"
  dr_limit :: "int option"
  dr_budget :: "ms option"

record drained =
  dn_sent :: nat
  dn_retried :: nat
  dn_failed :: nat

fun drain_rows ::
  "deps \<Rightarrow> (nat \<Rightarrow> ms) \<Rightarrow> ms \<Rightarrow> (string \<Rightarrow> ticket_order option) \<Rightarrow> ticket list \<Rightarrow> nat \<Rightarrow> bool \<Rightarrow> mail_row list \<Rightarrow> mail_update list" where
  "drain_rows d tick deadline orderById tickets n stopped [] = []"
| "drain_rows d tick deadline orderById tickets n stopped (row # rows) =
     (if stopped \<or> deadline \<le> tick n
      then mail_change row (ml_status row) (ml_attempts row) (iso_string (tick n)) (ml_error row) (ml_sentAt row)
           # drain_rows d tick deadline orderById tickets (Suc n) True rows
      else let (update, stop) = sendRow d (tick n) row (orderById (ml_order row)) (filter (\<lambda>t. tk_order t = ml_order row) tickets)
           in update # drain_rows d tick deadline orderById tickets (Suc n) stop rows)"

definition tally :: "mail_update list \<Rightarrow> drained" where
  "tally us = \<lparr>dn_sent = length (filter (\<lambda>u. mu_status u = M_sent) us),
               dn_retried = length (filter (\<lambda>u. mu_status u = M_pending) us),
               dn_failed = length (filter (\<lambda>u. mu_status u = M_failed) us)\<rparr>"

definition drain_claim :: "deps \<Rightarrow> ms \<Rightarrow> drain_request \<Rightarrow> int \<Rightarrow> mail_claim" where
  "drain_claim d now o' allowance =
     \<lparr>cl_now = iso_string now, cl_leaseUntil = plusMs now OUTBOX_LEASE_MS, cl_kinds = deliverableKinds d,
      cl_limit = nat (min (min (case dr_limit o' of Some l \<Rightarrow> l | None \<Rightarrow> DRAIN_BATCH_MAX) DRAIN_BATCH_MAX) allowance),
      cl_order = (case dr_order o' of Some i \<Rightarrow> if i \<noteq> [] then Some i else None | None \<Rightarrow> None)\<rparr>"

definition drain_mail :: "deps \<Rightarrow> (nat \<Rightarrow> ms) \<Rightarrow> drain_request \<Rightarrow> store \<Rightarrow> drained \<times> store" where
  \<comment> \<open>the method \<open>drain\<close>\<close>
  "drain_mail d tick o' s =
     (let now = tick 0; allowance = dailyAllowance d now s
      in if deliverableKinds d = [] \<or> allowance = 0 then (tally [], s)
         else let (claimed, s1) = claimOutbox (drain_claim d now o' allowance) s
              in if claimed = [] then (tally [], s1)
                 else let orderIds = uniq (map ml_order claimed);
                          orders = ordersByIds TICKET_SITE orderIds s1;
                          tickets = ticketsForOrders orderIds s1;
                          orderById = map_of (rev (map (\<lambda>x. (o_id x, x)) orders));
                          deadline = now + (case dr_budget o' of Some b \<Rightarrow> b | None \<Rightarrow> DRAIN_BUDGET_MS);
                          updates = drain_rows d tick deadline orderById tickets 1 False claimed
                      in (tally updates, applyOutboxUpdates updates s1))"

definition sendSoon :: "deps \<Rightarrow> (nat \<Rightarrow> ms) \<Rightarrow> string \<Rightarrow> store \<Rightarrow> store" where
  \<comment> \<open>the deferred work of \<open>onPaid\<close>; it runs after the request, as a step of its own\<close>
  "sendSoon d tick orderId s =
     (if deliverableKinds d = [] then s
      else snd (drain_mail d tick \<lparr>dr_order = Some orderId, dr_limit = Some 2, dr_budget = Some DRAIN_BUDGET_MS\<rparr> s))"

section \<open>The periodic pass\<close>

record delivery_summary =
  ds_fulfilled :: nat
  ds_mailSent :: nat
  ds_mailRetried :: nat
  ds_mailFailed :: nat
  ds_mailBacklog :: nat

definition drainPass :: "deps \<Rightarrow> (nat \<Rightarrow> ms) \<Rightarrow> int \<Rightarrow> store \<Rightarrow> delivery_summary \<times> store" where
  "drainPass d tick limit s =
     (let (r, s1) = (if 0 < limit then drain_mail d tick \<lparr>dr_order = None, dr_limit = Some limit, dr_budget = None\<rparr> s else (tally [], s));
          due = outboxDue (plusMs (tick 0) BACKLOG_WINDOW_MS) s1
      in (\<lparr>ds_fulfilled = 0, ds_mailSent = dn_sent r, ds_mailRetried = dn_retried r, ds_mailFailed = dn_failed r,
           ds_mailBacklog = sum_list (map due (deliverableKinds d))\<rparr>, s1))"

definition sweep :: "ms \<Rightarrow> (string \<rightharpoonup> string) \<Rightarrow> store \<Rightarrow> nat \<times> store" where
  "sweep now jobs s =
     (let day = jstDay now;
          full = (jobs JOB_SWEEP_DAY \<noteq> Some day);
          rows = listUnfulfilled TICKET_SITE (if full then None else Some (plusMs now (- SWEEP_RECENT_MS))) SWEEP_LIMIT s;
          s1 = fold (\<lambda>x. fulfill now (o_id x)) rows s
      in (length rows, if full \<and> length rows < SWEEP_LIMIT then setJobState JOB_SWEEP_DAY day s1 else s1))"

text \<open>The export pages; the fuel is one more than the number of rows, \<open>None\<close> would be an endless loop.\<close>

fun export_pages :: "(string option \<Rightarrow> 'a list) \<Rightarrow> ('a \<Rightarrow> string) \<Rightarrow> nat \<Rightarrow> string option \<Rightarrow> 'a list option" where
  "export_pages fetch key 0 cursor = None"
| "export_pages fetch key (Suc fuel) cursor =
     (let page = fetch cursor
      in if length page < EXPORT_PAGE then Some page
         else map_option ((@) page) (export_pages fetch key fuel (Some (key (last page)))))"

definition allOrders :: "store \<Rightarrow> ticket_order list option" where
  "allOrders s = export_pages (\<lambda>c. listOrdersAscending TICKET_SITE c EXPORT_PAGE s) orderCursor (Suc (length (s_orders s))) None"

definition allTickets :: "store \<Rightarrow> ticket list option" where
  "allTickets s = export_pages (\<lambda>c. listTickets c EXPORT_PAGE s) tk_id (Suc (length (s_tickets s))) None"

record snapshot =
  sn_exportedAt :: string
  sn_site :: string
  sn_settings :: "ticket_settings option"
  sn_types :: "ticket_type list"
  sn_coupons :: "coupon list"
  sn_orders :: "ticket_order list"
  sn_tickets :: "ticket list"

definition snapshot_of :: "ms \<Rightarrow> store \<Rightarrow> snapshot option" where
  "snapshot_of now s =
     (case (allOrders s, allTickets s) of
        (Some orders, Some tickets) \<Rightarrow>
          Some \<lparr>sn_exportedAt = iso_string now, sn_site = TICKET_SITE, sn_settings = getTicketSettings TICKET_SITE s,
                sn_types = listTicketTypes TICKET_SITE s, sn_coupons = listCoupons TICKET_SITE s,
                sn_orders = orders, sn_tickets = tickets\<rparr>
      | _ \<Rightarrow> None)"

definition base64Utf8 :: "string \<Rightarrow> string" where
  "base64Utf8 text =
     (let u = base64url (utf8 text)
      in map (\<lambda>c. if c = CHR ''-'' then CHR ''+'' else if c = CHR ''_'' then CHR ''/'' else c) u
         @ replicate ((4 - length u mod 4) mod 4) CHR ''='')"

definition csv_mail :: "deps \<Rightarrow> string \<Rightarrow> string \<Rightarrow> string \<Rightarrow> nat \<Rightarrow> outbound_mail" where
  "csv_mail d ops day csv n =
     \<lparr>om_from = dp_mailFrom d, om_to = ops, om_subject = ''[LP tickets] buyer list '' @ day,
      om_text = ''The buyer list as of '' @ day @ '' ('' @ nat_string n @ '' orders).'', om_html = None,
      om_attachments = [\<lparr>at_filename = ''lp-ticket-orders-'' @ day @ ''.csv'', at_content = base64Utf8 csv, at_contentType = ''text/csv''\<rparr>]\<rparr>"

definition send_csv :: "deps \<Rightarrow> string \<Rightarrow> (string \<rightharpoonup> string) \<Rightarrow> snapshot \<Rightarrow> store \<Rightarrow> bool \<times> store" where
  \<comment> \<open>\<open>False\<close>: the mailer threw, and so does \<open>daily\<close>\<close>
  "send_csv d day jobs snap s =
     (case (dp_mailer d, dp_opsEmail d) of
        (Some mailer, Some ops) \<Rightarrow>
          if ops = [] \<or> sn_orders snap = [] then (True, s)
          else let csv = ordersCsv (sn_orders snap) (case sn_settings snap of Some st \<Rightarrow> st_fields st | None \<Rightarrow> []);
                   sha = hex (dp_sha256 d (utf8 csv))
               in if jobs JOB_CSV_SHA = Some sha then (True, s)
                  else (case mailer (csv_mail d ops day csv (length (sn_orders snap))) (''daily-'' @ day @ ''-'' @ take 16 sha) of
                          Some (Mail_ok _) \<Rightarrow> (True, setJobState JOB_CSV_SHA sha s)
                        | Some _ \<Rightarrow> (True, s)
                        | None \<Rightarrow> (False, s))
      | _ \<Rightarrow> (True, s))"

definition daily :: "deps \<Rightarrow> ms \<Rightarrow> (string \<rightharpoonup> string) \<Rightarrow> store \<Rightarrow> bool \<times> (string \<times> snapshot) option \<times> store" where
  \<comment> \<open>whether it returned \<open>true\<close>, the object put into the backup store, and the store\<close>
  "daily d now jobs s =
     (if dp_backup d = None \<and> (dp_mailer d = None \<or> dp_opsEmail d = None \<or> dp_opsEmail d = Some []) then (False, None, s)
      else let day = jstDay now
           in if jobs JOB_BACKUP_DAY = Some day then (False, None, s)
              else (case snapshot_of now s of
                      None \<Rightarrow> (False, None, s)
                    | Some snap \<Rightarrow>
                        let key = ''tickets/'' @ day @ ''.json'';
                            put = (case dp_backup d of Some present \<Rightarrow> if present key then None else Some (key, snap) | None \<Rightarrow> None);
                            (ran, s1) = send_csv d day jobs snap (setJobState JOB_BACKUP_DAY day s)
                        in (ran, put, s1)))"

definition reconcilePass :: "deps \<Rightarrow> (nat \<Rightarrow> ms) \<Rightarrow> int \<Rightarrow> store \<Rightarrow> delivery_summary \<times> store" where
  "reconcilePass d tick spent s =
     (let now = tick 0;
          jobs = getJobStates s;
          (fulfilled, s1) = sweep now jobs s;
          left1 = PASS_SUBREQUEST_BUDGET - spent - 1 - (3 + int fulfilled * 3);
          (ran, _, s2) = daily d now jobs s1;
          left2 = (if ran then left1 - DAILY_SUBREQUESTS else left1);
          (rep, s3) = drainPass d tick (max 0 (left2 - DRAIN_OVERHEAD_SUBREQUESTS)) s2
      in (rep\<lparr>ds_fulfilled := fulfilled\<rparr>, s3))"

record public_pass =
  pp_event :: string
  pp_name :: string
  pp_day :: string
  pp_status :: ticket_status
  pp_orderRef :: string

definition pass :: "deps \<Rightarrow> string \<Rightarrow> store \<Rightarrow> public_pass option" where
  "pass d token s =
     (case verifyTicketToken (dp_hmac d) (dp_tokenSecret d) (JStr token) of
        None \<Rightarrow> None
      | Some i \<Rightarrow>
          (case getTicket i s of
             None \<Rightarrow> None
           | Some t \<Rightarrow> Some \<lparr>pp_event = EVENT_NAME, pp_name = tk_name t, pp_day = tk_day t, pp_status = tk_status t,
                             pp_orderRef = orderNumber (tk_order t)\<rparr>))"

end
