(* ===== verification/Ticket_Service.thy ===== *)
theory Ticket_Service
  imports Ticket_Delivery
begin

text \<open>
  \<open>services/lp-tickets/src/tickets.ts\<close>, the class \<open>TicketService\<close>: one definition per method, over the
  store of \<open>Ticket_Store\<close> and the delivery of \<open>Ticket_Delivery\<close>. A method takes the outside world, the
  instant \<open>now\<close> of its one reading of the clock, its arguments and the store; it returns the error it
  throws or its answer, and the store, which a throwing method may have changed as well. Ids a method
  draws are arguments. The work \<open>onPaid\<close> defers (\<open>sendSoon\<close>) is a step of its own, and arming the
  reconcile alarm, which never fails a request, is left out here; \<open>Ticket_Alarm\<close> models what is armed.
\<close>

type_synonym 'a answer = "(dub_error + 'a) \<times> store"

definition pendingSince :: "ms \<Rightarrow> string" where
  "pendingSince now = iso_string (now - PENDING_HOLD_MS)"

definition nowSec :: "ms \<Rightarrow> int" where
  "nowSec now = now div 1000"

section \<open>Sales settings and ticket types\<close>

record type_summary =
  sm_type :: ticket_type
  sm_stats :: type_stats

definition find_agg :: "string \<Rightarrow> type_agg list \<Rightarrow> type_agg option" where
  "find_agg i aggs = find (\<lambda>a. ag_type a = i) aggs"

definition summaries :: "ms \<Rightarrow> store \<Rightarrow> type_summary list" where
  "summaries now s =
     (let aggs = ticketAggregates TICKET_SITE (pendingSince now) s
      in map (\<lambda>t. \<lparr>sm_type = t, sm_stats = statsFor t (find_agg (tt_id t) aggs)\<rparr>) (sortTypes (listTicketTypes TICKET_SITE s)))"

definition summary :: "ms \<Rightarrow> ticket_type \<Rightarrow> store \<Rightarrow> type_summary" where
  "summary now row s =
     \<lparr>sm_type = row, sm_stats = statsFor row (find_agg (tt_id row) (ticketAggregates TICKET_SITE (pendingSince now) s))\<rparr>"

record tickets_state =
  gs_site :: string
  gs_enabled :: bool
  gs_cta :: bool
  gs_paymentReady :: bool
  gs_previewCheckout :: bool
  gs_methods :: "payment_method list"
  gs_publicUrl :: string
  gs_fields :: "form_field list"
  gs_types :: "type_summary list"
  gs_sold :: int
  gs_revenue :: int
  gs_updatedAt :: "string option"
  gs_updatedBy :: "string option"

definition getState :: "deps \<Rightarrow> ms \<Rightarrow> store \<Rightarrow> tickets_state" where
  "getState d now s =
     (let settings = getTicketSettings TICKET_SITE s; types = summaries now s
      in \<lparr>gs_site = TICKET_SITE,
          gs_enabled = (case settings of Some x \<Rightarrow> st_enabled x | None \<Rightarrow> False),
          gs_cta = (case settings of Some x \<Rightarrow> st_cta x | None \<Rightarrow> False),
          gs_paymentReady = (dp_stripe d \<noteq> None),
          gs_previewCheckout = (dp_previewKey d \<noteq> None),
          gs_methods = advertisedPaymentMethods (dp_paypayEnabled d),
          gs_publicUrl = strip_slashes (dp_lpBaseUrl d) @ ''/tickets'',
          gs_fields = (case settings of Some x \<Rightarrow> st_fields x | None \<Rightarrow> []),
          gs_types = types,
          gs_sold = sum_by (\<lambda>x. ts_sold (sm_stats x)) types,
          gs_revenue = sum_by (\<lambda>x. ts_revenue (sm_stats x)) types,
          gs_updatedAt = map_option st_updatedAt settings,
          gs_updatedBy = Option.bind settings st_updatedBy\<rparr>)"

definition setEnabled :: "deps \<Rightarrow> ms \<Rightarrow> string \<Rightarrow> js \<Rightarrow> store \<Rightarrow> tickets_state answer" where
  "setEnabled d now user body s =
     (case js_bool (js_get body ''enabled'') of
        None \<Rightarrow> (Inl (validationFailed [(''enabled'', ''required'')]), s)
      | Some b \<Rightarrow> let s1 = setTicketEnabled TICKET_SITE b user (iso_string now) s in (Inr (getState d now s1), s1))"

definition setCta :: "deps \<Rightarrow> ms \<Rightarrow> string \<Rightarrow> js \<Rightarrow> store \<Rightarrow> tickets_state answer" where
  "setCta d now user body s =
     (case js_bool (js_get body ''enabled'') of
        None \<Rightarrow> (Inl (validationFailed [(''enabled'', ''required'')]), s)
      | Some b \<Rightarrow> let s1 = setTicketCta TICKET_SITE b user (iso_string now) s in (Inr (getState d now s1), s1))"

definition getRelease :: "store \<Rightarrow> bool \<times> bool" where
  "getRelease s = (case getTicketSettings TICKET_SITE s of Some x \<Rightarrow> (st_enabled x, st_cta x) | None \<Rightarrow> (False, False))"

definition setRelease :: "ms \<Rightarrow> string \<Rightarrow> js \<Rightarrow> store \<Rightarrow> (bool \<times> bool) answer" where
  "setRelease now user body s =
     (let te = js_bool (js_get body ''ticketsEnabled''); tc = js_bool (js_get body ''ticketsCtaEnabled'');
          bad = (if te = None then [(''ticketsEnabled'', ''required'')] else [])
                @ (if tc = None then [(''ticketsCtaEnabled'', ''required'')] else [])
      in case (te, tc) of
           (Some a, Some b) \<Rightarrow> let s1 = setTicketRelease TICKET_SITE a b user (iso_string now) s in (Inr (getRelease s1), s1)
         | _ \<Rightarrow> (Inl (validationFailed bad), s))"

definition setFields :: "deps \<Rightarrow> ms \<Rightarrow> string \<Rightarrow> js \<Rightarrow> store \<Rightarrow> tickets_state answer" where
  "setFields d now user body s =
     (case parseFields body of
        Inl e \<Rightarrow> (Inl e, s)
      | Inr fs \<Rightarrow> let s1 = setTicketFields TICKET_SITE fs user (iso_string now) s in (Inr (getState d now s1), s1))"

definition patched :: "type_patch \<Rightarrow> ticket_type \<Rightarrow> ticket_type" where
  \<comment> \<open>\<open>{ ...cur, ...patch }\<close>\<close>
  "patched p t = t
     \<lparr>tt_name := (case tp_name p of Some x \<Rightarrow> x | None \<Rightarrow> tt_name t),
      tt_description := (case tp_description p of Some x \<Rightarrow> x | None \<Rightarrow> tt_description t),
      tt_price := (case tp_price p of Some x \<Rightarrow> x | None \<Rightarrow> tt_price t),
      tt_capacity := (case tp_capacity p of Some x \<Rightarrow> x | None \<Rightarrow> tt_capacity t),
      tt_day := (case tp_day p of Some x \<Rightarrow> x | None \<Rightarrow> tt_day t),
      tt_maxPerOrder := (case tp_maxPerOrder p of Some x \<Rightarrow> x | None \<Rightarrow> tt_maxPerOrder t),
      tt_active := (case tp_active p of Some x \<Rightarrow> x | None \<Rightarrow> tt_active t)\<rparr>"

definition blank_type :: "string \<Rightarrow> string \<Rightarrow> int \<Rightarrow> ticket_type" where
  "blank_type i now order' =
     \<lparr>tt_id = i, tt_site = TICKET_SITE, tt_name = [], tt_description = [], tt_price = 0, tt_capacity = None, tt_day = [],
      tt_maxPerOrder = 0, tt_active = False, tt_sortOrder = order', tt_createdAt = now, tt_updatedAt = now\<rparr>"

definition createType :: "ms \<Rightarrow> string \<Rightarrow> js \<Rightarrow> store \<Rightarrow> type_summary answer" where
  \<comment> \<open>a full input gives every field of the row\<close>
  "createType now newId body s =
     (case parseTicketTypeInput body False of
        Inl e \<Rightarrow> (Inl e, s)
      | Inr input \<Rightarrow>
          let existing = listTicketTypes TICKET_SITE s;
              row = patched input (blank_type newId (iso_string now) (fold (\<lambda>t m. max m (tt_sortOrder t + 1)) existing 0));
              s1 = insertTicketType row s
          in (Inr (summary now row s1), s1))"

definition patchType :: "ms \<Rightarrow> string \<Rightarrow> js \<Rightarrow> store \<Rightarrow> type_summary answer" where
  "patchType now i body s =
     (case parseTicketTypeInput body True of
        Inl e \<Rightarrow> (Inl e, s)
      | Inr patch \<Rightarrow>
          (case getTicketType TICKET_SITE i s of
             None \<Rightarrow> (Inl (notFound ''lp_ticket_type'' (Some i)), s)
           | Some cur \<Rightarrow>
               let row = (patched patch cur)\<lparr>tt_updatedAt := iso_string now\<rparr>;
                   s1 = updateTicketType row s
               in (Inr (summary now row s1), s1)))"

definition page_limit :: "rat option option \<Rightarrow> nat" where
  \<comment> \<open>of the query's \<open>limit\<close>: absent, or the value of \<open>Number(...)\<close>, \<open>None\<close> where it is not finite\<close>
  "page_limit q =
     nat (case q of
        None \<Rightarrow> DEFAULT_ORDERS_PAGE
      | Some None \<Rightarrow> DEFAULT_ORDERS_PAGE
      | Some (Some r) \<Rightarrow> min MAX_ORDERS_PAGE (max 1 \<lfloor>r\<rfloor>))"

definition listOrdersPage :: "string option \<Rightarrow> rat option option \<Rightarrow> store \<Rightarrow> order_view list \<times> string option" where
  "listOrdersPage cursor q s =
     (let limit = page_limit q;
          rows = listOrders TICKET_SITE cursor (limit + 1) s;
          page = take limit rows
      in (map toOrder page, if limit < length rows \<and> page \<noteq> [] then Some (orderCursor (last page)) else None))"

section \<open>Preview\<close>

definition issuePreview :: "deps \<Rightarrow> ms \<Rightarrow> dub_error + (string \<times> string)" where
  "issuePreview d now =
     (case dp_previewKey d of
        None \<Rightarrow> Inl previewCheckoutUnavailable
      | Some key \<Rightarrow>
          if key = [] then Inl previewCheckoutUnavailable
          else let (token, expi) = issuePreviewToken (dp_hmac d) key (nowSec now) PREVIEW_TOKEN_TTL_SEC
               in Inr (token, iso_string (expi * 1000)))"

definition previewValid :: "deps \<Rightarrow> ms \<Rightarrow> js \<Rightarrow> bool" where
  "previewValid d now token = verifyPreviewToken (dp_hmac d) (dp_previewKey d) token (nowSec now)"

definition checkPreview :: "deps \<Rightarrow> ms \<Rightarrow> js \<Rightarrow> bool" where
  "checkPreview d now body = previewValid d now (js_get body ''token'')"

definition sales_open :: "store \<Rightarrow> bool" where
  \<comment> \<open>\<open>settings?.enabled\<close>\<close>
  "sales_open s = (case getTicketSettings TICKET_SITE s of Some x \<Rightarrow> st_enabled x | None \<Rightarrow> False)"

section \<open>The public page\<close>

record public_type =
  pt_id :: string
  pt_name :: string
  pt_description :: string
  pt_price :: int
  pt_day :: string
  pt_maxPerOrder :: int
  pt_remaining :: "int option"
  pt_soldOut :: bool
  pt_couponOnly :: bool

definition publicType :: "type_summary \<Rightarrow> public_type" where
  "publicType x =
     (let t = sm_type x; r = ts_remaining (sm_stats x)
      in \<lparr>pt_id = tt_id t, pt_name = tt_name t, pt_description = tt_description t, pt_price = tt_price t, pt_day = tt_day t,
          pt_maxPerOrder = tt_maxPerOrder t, pt_remaining = r, pt_soldOut = (r = Some 0), pt_couponOnly = (tt_price t = 0)\<rparr>)"

record public_page =
  pg_enabled :: bool
  pg_cta :: bool
  pg_paymentReady :: bool
  pg_methods :: "payment_method list"
  pg_fields :: "form_field list"
  pg_types :: "public_type list"

definition getPublic :: "deps \<Rightarrow> ms \<Rightarrow> store \<Rightarrow> public_page" where
  "getPublic d now s =
     (let settings = getTicketSettings TICKET_SITE s
      in \<lparr>pg_enabled = (case settings of Some x \<Rightarrow> st_enabled x | None \<Rightarrow> False),
          pg_cta = (case settings of Some x \<Rightarrow> st_cta x | None \<Rightarrow> False),
          pg_paymentReady = (dp_stripe d \<noteq> None),
          pg_methods = advertisedPaymentMethods (dp_paypayEnabled d),
          pg_fields = (case settings of Some x \<Rightarrow> st_fields x | None \<Rightarrow> []),
          pg_types = map publicType (filter (\<lambda>x. tt_active (sm_type x)) (summaries now s))\<rparr>)"

section \<open>Coupons\<close>

definition last_type :: "string \<Rightarrow> ticket_type list \<Rightarrow> ticket_type option" where
  \<comment> \<open>\<open>new Map(types.map((t) => [t.id, t])).get(i)\<close>\<close>
  "last_type i types = find (\<lambda>t. tt_id t = i) (rev types)"

definition usableCoupon :: "string \<Rightarrow> ticket_type list \<Rightarrow> string \<Rightarrow> store \<Rightarrow> dub_error + coupon" where
  "usableCoupon code types now s =
     (case getCouponByCode TICKET_SITE code s of
        None \<Rightarrow> Inl couponInvalid
      | Some c \<Rightarrow>
          (case last_type (cp_type c) types of
             None \<Rightarrow> Inl couponInvalid
           | Some t \<Rightarrow>
               if \<not> cp_active c \<or> (case cp_expiresAt c of None \<Rightarrow> False | Some e \<Rightarrow> e \<le> now) \<or> \<not> tt_active t
               then Inl couponInvalid else Inr c))"

definition uses_of :: "ms \<Rightarrow> string \<Rightarrow> store \<Rightarrow> int" where
  "uses_of now i s = (case couponUses TICKET_SITE (pendingSince now) s i of Some n \<Rightarrow> n | None \<Rightarrow> 0)"

definition checkCoupon :: "deps \<Rightarrow> ms \<Rightarrow> js \<Rightarrow> store \<Rightarrow> dub_error + (string \<times> int)" where
  "checkCoupon d now body s =
     (let token = js_get body ''previewToken''
      in if \<not> sales_open s \<and> \<not> (token \<noteq> Undef \<and> previewValid d now token) then Inl (notFound ''lp_tickets'' None)
         else (case normalizeCouponCode (js_get body ''code'') of
                 None \<Rightarrow> Inl couponInvalid
               | Some code \<Rightarrow>
                   (case usableCoupon code (listTicketTypes TICKET_SITE s) (iso_string now) s of
                      Inl e \<Rightarrow> Inl e
                    | Inr c \<Rightarrow>
                        let remaining = max 0 (cp_maxUses c - uses_of now (cp_id c) s)
                        in if remaining = 0 then Inl couponUsedUp else Inr (cp_type c, remaining))))"

definition couponsPage :: "ms \<Rightarrow> store \<Rightarrow> coupon_view list" where
  "couponsPage now s = map (\<lambda>r. toCoupon r (uses_of now (cp_id r) s)) (listCoupons TICKET_SITE s)"

definition new_coupon :: "string \<Rightarrow> string \<Rightarrow> coupon_input \<Rightarrow> string \<Rightarrow> string \<Rightarrow> coupon" where
  "new_coupon i code input user now =
     \<lparr>cp_id = i, cp_site = TICKET_SITE, cp_code = code, cp_label = ci_label input, cp_type = ci_type input,
      cp_maxUses = ci_maxUses input, cp_expiresAt = ci_expiresAt input, cp_active = True, cp_createdBy = user,
      cp_createdAt = now, cp_updatedAt = now\<rparr>"

fun try_coupons :: "(string \<times> string) list \<Rightarrow> coupon_input \<Rightarrow> string \<Rightarrow> string \<Rightarrow> store \<Rightarrow> coupon_view answer" where
  \<comment> \<open>the attempts, each with the id and the code it draws\<close>
  "try_coupons [] input user now s =
     (Inl (conflict ''Could not make a coupon code'' (JObj [(''reason'', JStr ''code_collision'')])), s)"
| "try_coupons ((i, code) # draws) input user now s =
     (let row = new_coupon i code input user now; (ok, s1) = insertCoupon row s
      in if ok then (Inr (toCoupon row 0), s1) else try_coupons draws input user now s1)"

definition createCoupon :: "ms \<Rightarrow> string \<Rightarrow> (string \<times> string) list \<Rightarrow> js \<Rightarrow> store \<Rightarrow> coupon_view answer" where
  "createCoupon now user draws body s =
     (case parseCouponInput body (iso_string now) of
        Inl e \<Rightarrow> (Inl e, s)
      | Inr input \<Rightarrow>
          if getTicketType TICKET_SITE (ci_type input) s = None
          then (Inl (validationFailed [(''ticketTypeId'', ''unknown'')]), s)
          else try_coupons (take 3 draws) input user (iso_string now) s)"

definition toggleCoupon :: "ms \<Rightarrow> string \<Rightarrow> js \<Rightarrow> store \<Rightarrow> coupon_view answer" where
  \<comment> \<open>the method \<open>setCouponActive\<close>\<close>
  "toggleCoupon now i body s =
     (case js_bool (js_get body ''active'') of
        None \<Rightarrow> (Inl (validationFailed [(''active'', ''required'')]), s)
      | Some active \<Rightarrow>
          let (ok, s1) = setCouponActive TICKET_SITE i active (iso_string now) s
          in if \<not> ok then (Inl (notFound ''lp_ticket_coupon'' (Some i)), s1)
             else (Inr (toCoupon (the (getCoupon TICKET_SITE i s1)) (uses_of now i s1)), s1))"

end
