(* ===== verification/Ticket_Orders.thy ===== *)
theory Ticket_Orders
  imports Ticket_Service
begin

text \<open>
  \<open>services/lp-tickets/src/tickets.ts\<close>, the methods of \<open>TicketService\<close> that sell: \<open>checkout\<close>, the
  settlement rule \<open>settle\<close> with the three routes that reach it (\<open>confirm\<close>, \<open>webhook\<close>, \<open>reconcile\<close>),
  charge events, and the decision of a human. The conventions are those of \<open>Ticket_Service\<close>.
\<close>

section \<open>Checkout\<close>

definition item_key :: "checkout_item \<Rightarrow> string" where
  "item_key i = ''items.'' @ ct_type i"

definition order_line :: "ticket_type list \<Rightarrow> bool \<Rightarrow> checkout_item \<Rightarrow> field_error + order_item" where
  \<comment> \<open>one turn of the loop over the items; the flag says whether there is a coupon\<close>
  "order_line types coupon i =
     (case last_type (ct_type i) types of
        None \<Rightarrow> Inl (item_key i, ''unavailable'')
      | Some t \<Rightarrow>
          if \<not> tt_active t then Inl (item_key i, ''unavailable'')
          else if tt_maxPerOrder t < ct_qty i then Inl (item_key i, ''too_many'')
          else if \<not> coupon \<and> tt_price t = 0 then Inl (item_key i, ''coupon_required'')
          else Inr \<lparr>oi_type = tt_id t, oi_name = tt_name t, oi_day = tt_day t,
                    oi_price = (if coupon then 0 else tt_price t), oi_qty = ct_qty i\<rparr>)"

definition order_lines :: "ticket_type list \<Rightarrow> bool \<Rightarrow> checkout_item list \<Rightarrow> field_error list \<times> order_item list" where
  "order_lines types coupon items =
     (let rs = map (order_line types coupon) items
      in (concat (map (\<lambda>r. case r of Inl e \<Rightarrow> [e] | Inr _ \<Rightarrow> []) rs),
          concat (map (\<lambda>r. case r of Inl _ \<Rightarrow> [] | Inr i \<Rightarrow> [i]) rs)))"

definition order_row :: "string \<Rightarrow> string \<Rightarrow> checkout_input \<Rightarrow> order_item list \<Rightarrow> coupon option \<Rightarrow> bool \<Rightarrow> ticket_order" where
  "order_row newId now input items coupon preview =
     (let amount = sum_by (\<lambda>i. oi_price i * oi_qty i) items; free = (amount = 0)
      in \<lparr>o_id = newId, o_site = TICKET_SITE, o_items = items, o_quantity = sum_by oi_qty items, o_amount = amount,
          o_status = (if free then O_paid else O_pending), o_buyerName = co_name input, o_buyerEmail = co_email input,
          o_answers = co_answers input, o_session = None, o_createdAt = now, o_paidAt = (if free then Some now else None),
          o_intent = None, o_refundedAt = None, o_reviewReason = None, o_resolvedBy = None, o_resolvedAt = None,
          o_clientKey = co_clientKey input, o_couponId = map_option cp_id coupon, o_paymentMethod = None, o_preview = preview\<rparr>)"

definition item_capacities :: "ticket_type list \<Rightarrow> order_item list \<Rightarrow> (string \<rightharpoonup> int option)" where
  "item_capacities types items i =
     (if i \<in> set (map oi_type items) then map_option tt_capacity (last_type i types) else None)"

definition session_input :: "ms \<Rightarrow> checkout_input \<Rightarrow> ticket_order \<Rightarrow> string \<Rightarrow> checkout_session_input" where
  "session_input now input row pv =
     \<lparr>si_orderId = o_id row,
      si_lineItems = map (\<lambda>i. \<lparr>li_name = named (oi_name i) (oi_day i), li_unitAmount = oi_price i, li_quantity = oi_qty i\<rparr>)
                       (filter (\<lambda>i. 0 < oi_price i) (o_items row)),
      si_customerEmail = co_email input,
      si_successUrl = co_origin input @ ''/tickets/thanks?session_id={CHECKOUT_SESSION_ID}'' @ pv,
      si_cancelUrl = co_origin input @ ''/tickets?canceled=1'' @ pv,
      si_expiresAt = now div 1000 + CHECKOUT_TTL_SEC\<rparr>"

definition open_session :: "deps \<Rightarrow> ms \<Rightarrow> checkout_input \<Rightarrow> ticket_order \<Rightarrow> string \<Rightarrow> store \<Rightarrow> string answer" where
  \<comment> \<open>the end of \<open>checkout\<close>, once the seats are held: pay at Stripe, or thanks\<close>
  "open_session d now input row pv s =
     (case (o_amount row = 0, dp_stripe d) of
        (False, Some stripe) \<Rightarrow>
          (case sk_create stripe (session_input now input row pv) of
             Inl e \<Rightarrow> (Inl e, snd (markOrderExpired (o_id row) s))
           | Inr session \<Rightarrow>
               (case cs_url session of
                  Some url \<Rightarrow>
                    if cs_id session = [] \<or> url = []
                    then (Inl (upstreamUnavailable ''stripe''), snd (markOrderExpired (o_id row) s))
                    else (Inr url, setOrderSession (o_id row) (cs_id session) s)
                | None \<Rightarrow> (Inl (upstreamUnavailable ''stripe''), snd (markOrderExpired (o_id row) s))))
      | _ \<Rightarrow> (Inr (co_origin input @ ''/tickets/thanks?order='' @ dp_encode d (o_id row) @ pv), s))"

definition place_order :: "deps \<Rightarrow> ms \<Rightarrow> checkout_input \<Rightarrow> ticket_order \<Rightarrow> ticket_type list \<Rightarrow> string \<Rightarrow> store \<Rightarrow> string answer" where
  \<comment> \<open>\<open>checkout\<close> from the reservation on\<close>
  "place_order d now input row types pv s =
     (case insertOrderIfAvailable row (item_capacities types (o_items row)) (pendingSince now) s of
        (Coupon_used_up, s1) \<Rightarrow> (Inl couponUsedUp, s1)
      | (Sold_out t, s1) \<Rightarrow> (Inl (soldOut t), s1)
      | (Insert_ok, s1) \<Rightarrow>
          let s2 = (if o_preview row then markOrderPreview (o_id row) s1 else s1);
              s3 = (if o_amount row = 0 then fulfill now (o_id row) s2 else s2)
          in open_session d now input row pv s3)"

definition checkout :: "deps \<Rightarrow> ms \<Rightarrow> string \<Rightarrow> js \<Rightarrow> store \<Rightarrow> string answer" where
  "checkout d now newId body s =
     (let token = js_get body ''previewToken'';
          preview = (\<not> sales_open s \<and> token \<noteq> Undef \<and> previewValid d now token);
          fs = (case getTicketSettings TICKET_SITE s of Some x \<Rightarrow> st_fields x | None \<Rightarrow> []);
          types = listTicketTypes TICKET_SITE s
      in if \<not> sales_open s \<and> \<not> preview then (Inl (notFound ''lp_tickets'' None), s)
         else case try_bind (parseCheckout (dp_url d) body fs) (\<lambda>input.
                try_bind (case co_couponCode input of
                            None \<Rightarrow> Inr None
                          | Some code \<Rightarrow> try_bind (usableCoupon code types (iso_string now) s) (\<lambda>c. Inr (Some c))) (\<lambda>coupon.
                if (case coupon of None \<Rightarrow> False
                    | Some c \<Rightarrow> length (co_items input) \<noteq> 1 \<or> ct_type (hd (co_items input)) \<noteq> cp_type c)
                then Inl (validationFailed [(''couponCode'', ''not_applicable'')])
                else let (bad, items) = order_lines types (coupon \<noteq> None) (co_items input);
                         row = order_row newId (iso_string now) input items coupon preview
                     in if bad \<noteq> [] then Inl (validationFailed bad)
                        else if o_amount row \<noteq> 0 \<and> dp_stripe d = None then Inl paymentNotConfigured
                        else if \<not> preview \<and> \<not> canAcceptOrder d now (pendingSince now) s then Inl (rateLimited 60)
                        else if o_amount row \<noteq> 0 \<and>
                                (case co_clientKey input of
                                   None \<Rightarrow> False
                                 | Some k \<Rightarrow> PER_CLIENT_HELD_MAX
                                     < heldPendingByClient TICKET_SITE k (pendingSince now) s + o_quantity row)
                        then Inl (rateLimited 60)
                        else Inr (input, row))) of
              Inl e \<Rightarrow> (Inl e, s)
            | Inr (input, row) \<Rightarrow>
                place_order d now input row types
                  (if preview then ''&tickets_preview='' @ dp_encode d (js_str_or [] token) else []) s)"

section \<open>Settlement\<close>

datatype settle_outcome = SO_paid | SO_needs_review | SO_expired | SO_unchanged | SO_ignored

definition mismatch :: "ticket_order \<Rightarrow> checkout_session \<Rightarrow> string option" where
  "mismatch x ss =
     (if cs_currency ss \<noteq> Some ''jpy'' then Some ''currency_mismatch''
      else if cs_amountTotal ss \<noteq> Some (of_int (o_amount x)) then Some ''amount_mismatch'' else None)"

definition non_empty :: "string option \<Rightarrow> string option" where
  \<comment> \<open>\<open>v || null\<close>\<close>
  "non_empty v = (if v = Some [] then None else v)"

definition settle_paid :: "ms \<Rightarrow> ticket_order \<Rightarrow> checkout_session \<Rightarrow> store \<Rightarrow> settle_outcome \<times> store" where
  \<comment> \<open>the branch for a payment of the right amount\<close>
  "settle_paid now x ss s =
     (let late = (o_status x = O_expired \<or> o_createdAt x < pendingSince now);
          (result, s1) = markOrderPaid (o_id x)
            \<lparr>ps_paidAt = iso_string now, ps_session = non_empty (Some (cs_id ss)), ps_intent = cs_paymentIntentId ss,
             ps_capacitySince = (if late then Some (pendingSince now) else None)\<rparr> s
      in case result of
           None \<Rightarrow> (SO_unchanged, s1)
         | Some st \<Rightarrow>
             let s2 = (case non_empty (cs_paymentMethodType ss) of
                         Some m \<Rightarrow> setOrderPaymentMethod (o_id x) m s1 | None \<Rightarrow> s1)
             in if st = O_needs_review then (SO_needs_review, s2) else (SO_paid, fulfill now (o_id x) s2))"

definition settle :: "deps \<Rightarrow> ms \<Rightarrow> ticket_order \<Rightarrow> checkout_session \<Rightarrow> bool \<Rightarrow> store \<Rightarrow> settle_outcome \<times> store" where
  "settle d now x ss release s =
     (case dp_stripe d of
        None \<Rightarrow> (SO_ignored, s)
      | Some stripe \<Rightarrow>
          if cs_livemode ss \<noteq> Some (sk_livemode stripe) then (SO_ignored, s)
          else if o_status x \<noteq> O_pending \<and> o_status x \<noteq> O_expired then (SO_unchanged, s)
          else if cs_paymentStatus ss = Some ''paid''
          then (case mismatch x ss of
                  Some reason \<Rightarrow> (SO_needs_review, snd (markOrderNeedsReview (o_id x) reason (cs_paymentIntentId ss) s))
                | None \<Rightarrow> settle_paid now x ss s)
          else if release \<or> cs_status ss = Some ''expired''
          then (let (ok, s1) = markOrderExpired (o_id x) s in (if ok then SO_expired else SO_unchanged, s1))
          else (SO_unchanged, s))"

definition withPaymentMethod :: "deps \<Rightarrow> checkout_session \<Rightarrow> checkout_session" where
  "withPaymentMethod d ss =
     (if non_empty (cs_paymentMethodType ss) \<noteq> None \<or> cs_id ss = [] then ss
      else case dp_stripe d of
             None \<Rightarrow> ss
           | Some stripe \<Rightarrow> (case sk_get stripe (cs_id ss) of
                Inl _ \<Rightarrow> ss | Inr r \<Rightarrow> ss\<lparr>cs_paymentMethodType := cs_paymentMethodType r\<rparr>))"

section \<open>Routes to the settlement\<close>

type_synonym confirm_result = "(order_status \<times> string \<times> string) option"  \<comment> \<open>\<open>None\<close>: unknown\<close>

definition confirm :: "deps \<Rightarrow> ms \<Rightarrow> js \<Rightarrow> store \<Rightarrow> confirm_result answer" where
  "confirm d now body s =
     (let sessionId = str_trim (js_get body ''sessionId''); orderId = str_trim (js_get body ''orderId'')
      in if sessionId = [] \<and> orderId = [] then (Inl (validationFailed [(''sessionId'', ''required'')]), s)
         else case (if sessionId \<noteq> [] then getOrderBySession sessionId s else getOrder TICKET_SITE orderId s) of
                None \<Rightarrow> (Inr None, s)
              | Some x \<Rightarrow>
                  let (y, s1) =
                    (case (o_status x = O_pending \<and> sessionId \<noteq> [], dp_stripe d) of
                       (True, Some stripe) \<Rightarrow>
                         (case sk_get stripe sessionId of
                            Inl _ \<Rightarrow> (x, s)
                          | Inr ss \<Rightarrow>
                              let s2 = snd (settle d now x ss False s)
                              in (case getOrder TICKET_SITE (o_id x) s2 of Some z \<Rightarrow> z | None \<Rightarrow> x, s2))
                     | _ \<Rightarrow> (x, s))
                  in (Inr (Some (o_status y, orderSummary (o_items y), orderNumber (o_id y))), s1))"

definition approve :: "ms \<Rightarrow> string \<Rightarrow> string \<Rightarrow> store \<Rightarrow> order_view answer" where
  "approve now user i s =
     (case getOrder TICKET_SITE i s of
        None \<Rightarrow> (Inl (notFound ''lp_ticket_order'' (Some i)), s)
      | Some x \<Rightarrow>
          if o_status x = O_needs_review \<and> o_reviewReason x = Some ''dispute''
          then (Inl (conflict ''The dispute is open'' (JObj [(''reason'', JStr ''dispute_open'')])), s)
          else let (ok, s1) = approveOrder i user (iso_string now) None s
               in if \<not> ok
                  then (Inl (conflict ''This order is not under review''
                          (JObj [(''reason'', JStr ''not_needs_review''), (''status'', JStr (status_string (o_status x)))])), s1)
                  else let s2 = fulfill now i s1 in (Inr (toOrder (the (getOrder TICKET_SITE i s2))), s2))"

definition applyCharge :: "ms \<Rightarrow> string \<Rightarrow> js \<Rightarrow> store \<Rightarrow> store" where
  "applyCharge now typ obj s =
     (case Option.bind (non_empty (stripeId (js_get obj ''payment_intent''))) (\<lambda>v. getOrderByPaymentIntent v s) of
        None \<Rightarrow> s
      | Some x \<Rightarrow>
          if typ = ''charge.dispute.created'' then snd (markOrderNeedsReview (o_id x) ''dispute'' None s)
          else if typ = ''charge.dispute.closed''
          then (let status = js_str_or [] (js_get obj ''status'')
                in if status = ''lost'' then snd (markOrderRefunded (o_id x) (iso_string now) s)
                   else if status = ''won'' \<or> status = ''warning_closed''
                   then (let (ok, s1) = approveOrder (o_id x) ''stripe'' (iso_string now) (Some ''dispute'') s
                         in if ok then fulfill now (o_id x) s1 else s1)
                   else s)
          else (case js_get obj ''amount'' of
                  JNum amount \<Rightarrow>
                    let refunded = (case js_get obj ''amount_refunded'' of JNum r \<Rightarrow> r | _ \<Rightarrow> 0)
                    in if refunded < amount then s else snd (markOrderRefunded (o_id x) (iso_string now) s)
                | _ \<Rightarrow> s))"

definition event_order :: "checkout_session \<Rightarrow> js \<Rightarrow> store \<Rightarrow> ticket_order option" where
  "event_order session obj s =
     (let metaOrder = js_str (js_get (js_get obj ''metadata'') ''order_id'');
          orderId = non_empty (coalesce (cs_clientReferenceId session) metaOrder)
      in case Option.bind orderId (\<lambda>i. getOrder TICKET_SITE i s) of
           Some x \<Rightarrow> Some x
         | None \<Rightarrow> if cs_id session \<noteq> [] then getOrderBySession (cs_id session) s else None)"

definition apply_event :: "deps \<Rightarrow> ms \<Rightarrow> js \<Rightarrow> store \<Rightarrow> store" where
  \<comment> \<open>\<open>webhook\<close> once the signature holds and the body is an object\<close>
  "apply_event d now event s =
     (let typ = js_str_or [] (js_get event ''type'')
      in if typ \<notin> set SESSION_EVENTS \<and> typ \<notin> set CHARGE_EVENTS then s
         else case dp_stripe d of
                None \<Rightarrow> s
              | Some stripe \<Rightarrow>
                  if js_get event ''livemode'' \<noteq> JBool (sk_livemode stripe) then s
                  else let obj0 = js_get (js_get event ''data'') ''object'';
                           obj = (if is_nullish obj0 then JObj [] else obj0)
                       in if typ \<in> set CHARGE_EVENTS then applyCharge now typ obj s
                          else let session = toCheckoutSession obj
                               in (case event_order session obj s of
                                     None \<Rightarrow> s
                                   | Some x \<Rightarrow>
                                       let settled = (if cs_paymentStatus session = Some ''paid'' then withPaymentMethod d session else session)
                                       in snd (settle d now x settled (typ \<in> set RELEASE_EVENTS) s)))"

definition webhook :: "deps \<Rightarrow> ms \<Rightarrow> string \<Rightarrow> string option \<Rightarrow> store \<Rightarrow> unit answer" where
  "webhook d now rawBody signature s =
     (case dp_webhookSecret d of
        None \<Rightarrow> (Inl (validationFailed [(''stripe-signature'', ''invalid'')]), s)
      | Some secret \<Rightarrow>
          if \<not> verifyStripeSignature (dp_hmac d) signature rawBody secret (nowSec now) STRIPE_TOLERANCE_SEC
          then (Inl (validationFailed [(''stripe-signature'', ''invalid'')]), s)
          else (case dp_json d rawBody of
                  None \<Rightarrow> (Inl (validationFailed [(''body'', ''invalid_json'')]), s)
                | Some event \<Rightarrow>
                    if event = Null then (Inl (wrapUnknown (TError ''Cannot read properties of null'') None), s)
                    else (Inr (), apply_event d now event s)))"

section \<open>Reconciliation\<close>

record reconcile_summary =
  rs_checked :: nat
  rs_paid :: nat
  rs_needsReview :: nat
  rs_expired :: nat
  rs_unchanged :: nat
  rs_ignored :: nat
  rs_errors :: nat
  rs_sessionlessExpired :: nat
  rs_backfilled :: nat
  rs_delivery :: delivery_summary

definition count_outcome :: "settle_outcome \<Rightarrow> reconcile_summary \<Rightarrow> reconcile_summary" where
  "count_outcome out rep =
     (case out of
        SO_paid \<Rightarrow> rep\<lparr>rs_paid := rs_paid rep + 1\<rparr>
      | SO_needs_review \<Rightarrow> rep\<lparr>rs_needsReview := rs_needsReview rep + 1\<rparr>
      | SO_expired \<Rightarrow> rep\<lparr>rs_expired := rs_expired rep + 1\<rparr>
      | SO_unchanged \<Rightarrow> rep\<lparr>rs_unchanged := rs_unchanged rep + 1\<rparr>
      | SO_ignored \<Rightarrow> rep\<lparr>rs_ignored := rs_ignored rep + 1\<rparr>)"

definition session_of :: "ticket_order \<Rightarrow> string" where
  "session_of x = (case o_session x of Some i \<Rightarrow> i | None \<Rightarrow> [])"

definition recheck :: "deps \<Rightarrow> ms \<Rightarrow> stripe_client \<Rightarrow> ticket_order \<Rightarrow> reconcile_summary \<times> store \<Rightarrow> reconcile_summary \<times> store" where
  "recheck d now stripe x acc =
     (let rep = (fst acc)\<lparr>rs_checked := rs_checked (fst acc) + 1\<rparr>
      in case sk_get stripe (session_of x) of
           Inl _ \<Rightarrow> (rep\<lparr>rs_errors := rs_errors rep + 1\<rparr>, snd acc)
         | Inr ss \<Rightarrow> let (out, s1) = settle d now x ss False (snd acc) in (count_outcome out rep, s1))"

definition backfill :: "stripe_client \<Rightarrow> ticket_order \<Rightarrow> reconcile_summary \<times> store \<Rightarrow> reconcile_summary \<times> store" where
  "backfill stripe x acc =
     (case acc of (rep, s) \<Rightarrow>
        (case sk_get stripe (session_of x) of
           Inl _ \<Rightarrow> (rep\<lparr>rs_errors := rs_errors rep + 1\<rparr>, s)
         | Inr ss \<Rightarrow>
             (case (cs_livemode ss = Some (sk_livemode stripe), non_empty (cs_paymentIntentId ss)) of
                (True, Some v) \<Rightarrow> (rep\<lparr>rs_backfilled := rs_backfilled rep + 1\<rparr>, setOrderPaymentIntent (o_id x) v s)
              | _ \<Rightarrow> (rep, s))))"

definition reconcile :: "deps \<Rightarrow> (nat \<Rightarrow> ms) \<Rightarrow> store \<Rightarrow> reconcile_summary \<times> store" where
  "reconcile d tick s =
     (let now = tick 0;
          (n, s1) = expireSessionlessPending TICKET_SITE (pendingSince now) s;
          none = \<lparr>ds_fulfilled = 0, ds_mailSent = 0, ds_mailRetried = 0, ds_mailFailed = 0, ds_mailBacklog = 0\<rparr>;
          rep = \<lparr>rs_checked = 0, rs_paid = 0, rs_needsReview = 0, rs_expired = 0, rs_unchanged = 0, rs_ignored = 0,
                 rs_errors = 0, rs_sessionlessExpired = n, rs_backfilled = 0, rs_delivery = none\<rparr>;
          (sum2, s2, calls) =
            (case dp_stripe d of
               None \<Rightarrow> (rep, s1, 0)
             | Some stripe \<Rightarrow>
                 let rows = listPendingWithSession TICKET_SITE (plusMs now (- RECONCILE_MAX_AGE_MS)) (plusMs now (- RECONCILE_MIN_AGE_MS))
                              RECONCILE_LIMIT s1;
                     (suma, sa) = fold (recheck d now stripe) rows (rep, s1);
                     missing = listMissingPaymentIntent TICKET_SITE (sk_livemode stripe) RECONCILE_LIMIT sa;
                     (sumb, sb) = fold (backfill stripe) missing (suma, sa)
                 in (sumb, sb, length rows + length missing));
          (del, s3) = reconcilePass d tick (3 + int calls * 2) s2
      in (sum2\<lparr>rs_delivery := del\<rparr>, s3))"

section \<open>Mail, tickets and export\<close>

definition drainMail :: "deps \<Rightarrow> (nat \<Rightarrow> ms) \<Rightarrow> store \<Rightarrow> delivery_summary \<times> store" where
  "drainMail d tick s = drainPass d tick DRAIN_BATCH_MAX s"

definition showPass :: "deps \<Rightarrow> string \<Rightarrow> store \<Rightarrow> dub_error + public_pass" where
  \<comment> \<open>the method \<open>pass\<close> of the service\<close>
  "showPass d token s = (case pass d token s of None \<Rightarrow> Inl (notFound ''lp_ticket'' None) | Some p \<Rightarrow> Inr p)"

definition exportOrders :: "ms \<Rightarrow> store \<Rightarrow> (string \<times> string) option" where
  \<comment> \<open>the CSV and its file name; \<open>None\<close> would be an endless export\<close>
  "exportOrders now s =
     map_option (\<lambda>orders.
       (ordersCsv orders (case getTicketSettings TICKET_SITE s of Some st \<Rightarrow> st_fields st | None \<Rightarrow> []),
        ''lp-ticket-orders-'' @ jstDay now @ ''.csv'')) (allOrders s)"

end
