(* ===== verification/Ticket_Moves.thy ===== *)
theory Ticket_Moves
  imports Ticket_Orders
begin

text \<open>
  What the operations of the ticket shop may do to its tables: a small step relation over the store
  (\<open>shop_move\<close>) that forgets the requests and the answers, and the proof that every method of the
  service is a sequence of such moves. The safety properties are proved over the moves.
\<close>

section \<open>Moves of one order\<close>

definition frame :: "ticket_order \<Rightarrow> string \<times> string \<times> order_item list \<times> int \<times> int \<times> string \<times> string option \<times> string option" where
  \<comment> \<open>what never changes\<close>
  "frame x = (o_id x, o_site x, o_items x, o_quantity x, o_amount x, o_createdAt x, o_clientKey x, o_couponId x)"

definition fresh_pending :: "ms \<Rightarrow> ticket_order \<Rightarrow> bool" where
  "fresh_pending now x = (o_status x = O_pending \<and> pendingSince now \<le> o_createdAt x)"

inductive order_move :: "ms \<Rightarrow> store \<Rightarrow> ticket_order \<Rightarrow> ticket_order \<Rightarrow> bool" for now s where
  touch: "frame x' = frame x \<Longrightarrow> o_status x' = o_status x \<Longrightarrow> o_reviewReason x' = o_reviewReason x \<Longrightarrow>
    o_intent x' = o_intent x \<Longrightarrow> o_session x' = o_session x \<or> o_couponId x = None \<Longrightarrow> order_move now s x x'"
| set_intent: "frame x' = frame x \<Longrightarrow> o_status x' = o_status x \<Longrightarrow> o_status x \<in> {O_paid, O_needs_review} \<Longrightarrow>
    o_reviewReason x' = o_reviewReason x \<Longrightarrow> o_session x' = o_session x \<Longrightarrow> o_session x \<noteq> None \<Longrightarrow> order_move now s x x'"
| pay: "frame x' = frame x \<Longrightarrow> o_status x \<in> {O_pending, O_expired, O_needs_review} \<Longrightarrow> o_status x' = O_paid \<Longrightarrow>
    fresh_pending now x \<or> \<not> oversold_by (o_id x) (Some (pendingSince now)) s \<Longrightarrow> order_move now s x x'"
| review: "frame x' = frame x \<Longrightarrow> o_status x \<in> {O_pending, O_expired, O_paid} \<Longrightarrow> o_status x' = O_needs_review \<Longrightarrow>
    o_reviewReason x' = Some r \<Longrightarrow> o_status x \<noteq> O_paid \<and> r \<noteq> ''dispute'' \<or> o_intent x \<noteq> None \<Longrightarrow> order_move now s x x'"
| expire: "frame x' = frame x \<Longrightarrow> o_status x = O_pending \<Longrightarrow> o_status x' = O_expired \<Longrightarrow> o_intent x' = o_intent x \<Longrightarrow>
    order_move now s x x'"
| dispute_won: "frame x' = frame x \<Longrightarrow> o_status x = O_needs_review \<Longrightarrow> o_reviewReason x = Some ''dispute'' \<Longrightarrow>
    o_status x' = O_paid \<Longrightarrow> order_move now s x x'"

text \<open>
  A firm order has its seats for good: it is paid, holds them during checkout, or its payment is in
  dispute. Other orders under review (a wrong amount, or paid too late to fit) keep counting as held
  when new orders are placed, but they are not promised a seat.
\<close>

definition firm :: "ms \<Rightarrow> ticket_order \<Rightarrow> bool" where
  "firm now x = (o_status x = O_paid \<or> fresh_pending now x \<or> (o_status x = O_needs_review \<and> o_reviewReason x = Some ''dispute''))"

definition firm_seats :: "ms \<Rightarrow> string \<Rightarrow> store \<Rightarrow> int" where
  "firm_seats now typ s = sum_by (qty_of typ) (filter (firm now) (s_orders s))"

section \<open>Moves of the shop\<close>

definition well_formed :: "ticket_order \<Rightarrow> bool" where
  "well_formed x \<longleftrightarrow> o_site x = TICKET_SITE \<and> distinct (map oi_type (o_items x)) \<and> (\<forall>i\<in>set (o_items x). 0 < oi_qty i)
     \<and> o_quantity x = sum_by oi_qty (o_items x)"

definition void_tickets :: "string \<Rightarrow> string \<Rightarrow> ticket list \<Rightarrow> ticket list" where
  "void_tickets i t0 ts = map (\<lambda>t. if tk_order t = i \<and> tk_status t = T_valid
     then t\<lparr>tk_status := T_void, tk_voidedAt := Some t0\<rparr> else t) ts"

definition same_shop :: "store \<Rightarrow> store \<Rightarrow> bool" where
  "same_shop s s' \<longleftrightarrow> s_types s' = s_types s \<and> s_coupons s' = s_coupons s"

definition seat_tickets :: "ticket_order \<Rightarrow> string \<Rightarrow> ticket list" where
  "seat_tickets x t0 = map (seat_ticket x t0) (numbered (order_seats x))"

inductive shop_move :: "ms \<Rightarrow> store \<Rightarrow> store \<Rightarrow> bool" for now where
  other: "same_shop s s' \<Longrightarrow> s_orders s' = s_orders s \<Longrightarrow> s_tickets s' = s_tickets s \<Longrightarrow> shop_move now s s'"
| issue: "same_shop s s' \<Longrightarrow> s_orders s' = s_orders s \<Longrightarrow> x \<in> set (s_orders s) \<Longrightarrow> o_status x = O_paid \<Longrightarrow>
    s_tickets s' = put_new (\<lambda>a b. tk_id a = tk_id b) (seat_tickets x t0) (s_tickets s) \<Longrightarrow> shop_move now s s'"
| order: "same_shop s s' \<Longrightarrow> s_orders s = ys @ x # zs \<Longrightarrow> order_move now s x x' \<Longrightarrow> s_orders s' = ys @ x' # zs \<Longrightarrow>
    s_tickets s' = s_tickets s \<Longrightarrow> shop_move now s s'"
| refund: "same_shop s s' \<Longrightarrow> s_orders s = ys @ x # zs \<Longrightarrow> frame x' = frame x \<Longrightarrow> o_status x \<in> {O_paid, O_needs_review} \<Longrightarrow>
    o_status x' = O_refunded \<Longrightarrow> o_intent x \<noteq> None \<Longrightarrow> s_orders s' = ys @ x' # zs \<Longrightarrow>
    s_tickets s' = void_tickets (o_id x) t0 (s_tickets s) \<Longrightarrow> shop_move now s s'"
| sell: "same_shop s s' \<Longrightarrow> well_formed x \<Longrightarrow> o_id x \<notin> o_id ` set (s_orders s) \<Longrightarrow>
    o_status x = (if o_amount x = 0 then O_paid else O_pending) \<Longrightarrow> o_intent x = None \<Longrightarrow> o_session x = None \<Longrightarrow>
    o_couponId x \<noteq> None \<longrightarrow> o_amount x = 0 \<Longrightarrow>
    insertOrderIfAvailable x (item_capacities (listTicketTypes TICKET_SITE s) (o_items x)) (pendingSince now) s = (Insert_ok, s') \<Longrightarrow>
    set (map oi_type (o_items x)) \<subseteq> tt_id ` set (listTicketTypes TICKET_SITE s) \<Longrightarrow>
    o_amount x = 0 \<or> (case o_clientKey x of None \<Rightarrow> True | Some k \<Rightarrow>
      heldPendingByClient TICKET_SITE k (pendingSince now) s + o_quantity x \<le> PER_CLIENT_HELD_MAX) \<Longrightarrow> shop_move now s s'"
| new_type: "s_coupons s' = s_coupons s \<Longrightarrow> s_orders s' = s_orders s \<Longrightarrow> s_tickets s' = s_tickets s \<Longrightarrow>
    s_types s' = s_types s @ [t] \<Longrightarrow> tt_site t = TICKET_SITE \<Longrightarrow> tt_id t \<notin> tt_id ` set (s_types s) \<Longrightarrow>
    (\<forall>cap. tt_capacity t = Some cap \<longrightarrow> 0 \<le> cap) \<Longrightarrow> shop_move now s s'"
| change_type: "s_coupons s' = s_coupons s \<Longrightarrow> s_orders s' = s_orders s \<Longrightarrow> s_tickets s' = s_tickets s \<Longrightarrow>
    s_types s = ys @ t # zs \<Longrightarrow> s_types s' = ys @ t' # zs \<Longrightarrow> tt_site t' = tt_site t \<Longrightarrow> tt_id t' = tt_id t \<Longrightarrow>
    (\<forall>cap. tt_capacity t' = Some cap \<longrightarrow> firm_seats now (tt_id t) s \<le> cap) \<Longrightarrow> shop_move now s s'"
| new_coupon: "s_types s' = s_types s \<Longrightarrow> s_orders s' = s_orders s \<Longrightarrow> s_tickets s' = s_tickets s \<Longrightarrow>
    s_coupons s' = s_coupons s @ [c] \<Longrightarrow> cp_site c = TICKET_SITE \<Longrightarrow> cp_id c \<notin> cp_id ` set (s_coupons s) \<Longrightarrow>
    0 \<le> cp_maxUses c \<Longrightarrow> shop_move now s s'"
| change_coupon: "s_types s' = s_types s \<Longrightarrow> s_orders s' = s_orders s \<Longrightarrow> s_tickets s' = s_tickets s \<Longrightarrow>
    s_coupons s = ys @ c # zs \<Longrightarrow> s_coupons s' = ys @ c' # zs \<Longrightarrow> cp_site c' = cp_site c \<Longrightarrow> cp_id c' = cp_id c \<Longrightarrow>
    cp_maxUses c' = cp_maxUses c \<Longrightarrow> shop_move now s s'"

section \<open>Invariant\<close>

definition order_ok :: "store \<Rightarrow> ticket_order \<Rightarrow> bool" where
  "order_ok s x \<longleftrightarrow> well_formed x
     \<and> (o_status x \<in> {O_pending, O_expired} \<longrightarrow> o_intent x = None)
     \<and> (o_couponId x \<noteq> None \<longrightarrow> o_status x = O_paid \<and> o_session x = None \<and> o_intent x = None)
     \<and> set (map oi_type (o_items x)) \<subseteq> tt_id ` set (s_types s)
     \<and> (\<forall>i. o_couponId x = Some i \<longrightarrow> i \<in> cp_id ` set (s_coupons s))"

definition orders_ok :: "store \<Rightarrow> bool" where
  "orders_ok s \<longleftrightarrow> distinct (map o_id (s_orders s)) \<and> list_all (order_ok s) (s_orders s)"

lemma orders_okD: "orders_ok s \<Longrightarrow> x \<in> set (s_orders s) \<Longrightarrow> order_ok s x"
  by (simp add: orders_ok_def list_all_iff)

lemma orders_ok_wf: "orders_ok s \<Longrightarrow> x \<in> set (s_orders s) \<Longrightarrow> well_formed x"
  by (drule orders_okD) (auto simp: order_ok_def)

definition types_ok :: "store \<Rightarrow> bool" where
  "types_ok s \<longleftrightarrow> distinct (map tt_id (s_types s)) \<and> (\<forall>t\<in>set (s_types s). tt_site t = TICKET_SITE)"

definition seats_ok :: "ms \<Rightarrow> store \<Rightarrow> bool" where
  "seats_ok now s \<longleftrightarrow> (\<forall>t\<in>set (s_types s). \<forall>cap. tt_capacity t = Some cap \<longrightarrow> firm_seats now (tt_id t) s \<le> cap)"

definition coupon_seats :: "string \<Rightarrow> store \<Rightarrow> int" where
  "coupon_seats i s = sum_by o_quantity (filter (\<lambda>x. o_couponId x = Some i) (s_orders s))"

definition coupons_ok :: "store \<Rightarrow> bool" where
  "coupons_ok s \<longleftrightarrow> distinct (map cp_id (s_coupons s)) \<and> (\<forall>c\<in>set (s_coupons s). cp_site c = TICKET_SITE \<and> coupon_seats (cp_id c) s \<le> cp_maxUses c)"

definition clients_ok :: "ms \<Rightarrow> store \<Rightarrow> bool" where
  "clients_ok now s \<longleftrightarrow> (\<forall>k. heldPendingByClient TICKET_SITE k (pendingSince now) s \<le> PER_CLIENT_HELD_MAX)"

definition void_ok :: "store \<Rightarrow> bool" where
  "void_ok s \<longleftrightarrow> (\<forall>x\<in>set (s_orders s). o_status x = O_refunded \<longrightarrow>
     (\<forall>t\<in>set (s_tickets s). tk_order t = o_id x \<longrightarrow> tk_status t = T_void))"

definition shop_inv :: "ms \<Rightarrow> store \<Rightarrow> bool" where
  "shop_inv now s \<longleftrightarrow> orders_ok s \<and> types_ok s \<and> seats_ok now s \<and> coupons_ok s \<and> clients_ok now s \<and> void_ok s"

section \<open>One order replaced\<close>

lemma frameD:
  assumes "frame x' = frame x"
  shows "o_id x' = o_id x" "o_site x' = o_site x" "o_items x' = o_items x" "o_quantity x' = o_quantity x" "o_amount x' = o_amount x"
    "o_createdAt x' = o_createdAt x" "o_clientKey x' = o_clientKey x" "o_couponId x' = o_couponId x"
  using assms by (simp_all add: frame_def)

lemma order_move_frame: "order_move now s x x' \<Longrightarrow> frame x' = frame x"
  by (erule order_move.cases) simp_all

lemma well_formed_frame: "frame x' = frame x \<Longrightarrow> well_formed x' = well_formed x"
  by (simp add: well_formed_def frame_def)

lemma qty_of_frame: "frame x' = frame x \<Longrightarrow> qty_of typ x' = qty_of typ x"
  by (simp add: qty_of_def frame_def)

lemma qty_of_nonneg: "well_formed x \<Longrightarrow> 0 \<le> qty_of typ x"
  unfolding qty_of_def by (rule sum_by_nonneg) (auto simp: well_formed_def intro: less_imp_le)

lemma quantity_nonneg: "well_formed x \<Longrightarrow> 0 \<le> o_quantity x"
  unfolding well_formed_def by (auto intro!: sum_by_nonneg intro: less_imp_le)

lemma qty_of_item:
  assumes "distinct (map oi_type (o_items x))" "i \<in> set (o_items x)"
  shows "qty_of (oi_type i) x = oi_qty i"
proof -
  have "filter (\<lambda>j. oi_type j = oi_type i) is = [i]" if "distinct (map oi_type is)" "i \<in> set is" for "is"
    using that
  proof (induction "is")
    case (Cons j js)
    show ?case
    proof (cases "j = i")
      case True
      have "oi_type j \<notin> oi_type ` set js" using Cons.prems(1) by simp
      then have "\<forall>k\<in>set js. oi_type k \<noteq> oi_type i" using True by (metis image_eqI)
      then have "filter (\<lambda>j. oi_type j = oi_type i) js = []"
        by (simp add: filter_empty_conv)
      then show ?thesis using True by simp
    next
      case False
      then have "oi_type j \<noteq> oi_type i" using Cons.prems by auto
      then show ?thesis using Cons False by auto
    qed
  qed simp
  then show ?thesis using assms by (simp add: qty_of_def)
qed

lemma qty_of_absent: "typ \<notin> oi_type ` set (o_items x) \<Longrightarrow> qty_of typ x = 0"
proof -
  assume "typ \<notin> oi_type ` set (o_items x)"
  then have "filter (\<lambda>i. oi_type i = typ) (o_items x) = []" by (auto simp: filter_empty_conv)
  then show ?thesis by (simp add: qty_of_def)
qed

lemma sum_by_filter_mono:
  "(\<And>x. x \<in> set xs \<Longrightarrow> P x \<Longrightarrow> Q x) \<Longrightarrow> (\<And>x. x \<in> set xs \<Longrightarrow> 0 \<le> f x) \<Longrightarrow> sum_by f (filter P xs) \<le> sum_by f (filter Q xs)"
proof (induction xs)
  case (Cons a xs)
  have "sum_by f (filter P xs) \<le> sum_by f (filter Q xs)" by (rule Cons.IH) (simp_all add: Cons.prems)
  with Cons.prems(1)[of a] Cons.prems(2)[of a] show ?case by simp
qed simp

lemma held_eq: "held site typ since s = sum_by (qty_of typ) (filter (\<lambda>x. o_site x = site \<and> isHeld since x) (s_orders s))"
proof -
  have "sum_by oi_qty (filter (\<lambda>i. oi_type i = typ) (concat (map o_items xs))) = sum_by (qty_of typ) xs" for xs
    by (induction xs) (auto simp: qty_of_def)
  then show ?thesis by (simp add: held_def)
qed

lemma held_by_others_eq:
  "held_by_others i typ since s = sum_by (qty_of typ) (filter (\<lambda>x. o_id x \<noteq> i \<and> isHeld since x) (s_orders s))"
proof -
  have "sum_by oi_qty (filter (\<lambda>i. oi_type i = typ) (concat (map o_items xs))) = sum_by (qty_of typ) xs" for xs
    by (induction xs) (auto simp: qty_of_def)
  then show ?thesis by (simp add: held_by_others_def)
qed

lemma firm_held: "firm now x \<Longrightarrow> isHeld (pendingSince now) x"
  by (auto simp: firm_def isHeld_def fresh_pending_def)

lemma firm_seats_split:
  "s_orders s = ys @ x # zs \<Longrightarrow> firm_seats now typ s =
     sum_by (qty_of typ) (filter (firm now) ys) + (if firm now x then qty_of typ x else 0) + sum_by (qty_of typ) (filter (firm now) zs)"
  by (simp add: firm_seats_def)

lemma new_firm_fits:
  assumes "order_move now s x x'" "firm now x'" "\<not> firm now x" "o_status x \<in> {O_pending, O_expired} \<longrightarrow> o_intent x = None"
  shows "\<not> oversold_by (o_id x) (Some (pendingSince now)) s"
  using assms(1)
proof cases
  case touch
  with assms(2,3) show ?thesis by (simp add: firm_def fresh_pending_def frameD(6)[OF touch(1)])
next
  case set_intent
  with assms(2,3) show ?thesis by (simp add: firm_def fresh_pending_def frameD(6)[OF set_intent(1)])
next
  case pay
  with assms(3) show ?thesis by (simp add: firm_def)
next
  case (review r)
  with assms(2-4) show ?thesis by (auto simp: firm_def fresh_pending_def)
next
  case expire
  with assms(2,3) show ?thesis by (simp add: firm_def fresh_pending_def)
next
  case dispute_won
  with assms(3) show ?thesis by (simp add: firm_def)
qed

lemma order_move_seats:
  assumes inv: "orders_ok s" "types_ok s" "seats_ok now s"
    and mv: "order_move now s x x'" and o1: "s_orders s = ys @ x # zs" and o2: "s_orders s' = ys @ x' # zs"
    and ty: "s_types s' = s_types s"
  shows "seats_ok now s'"
proof (unfold seats_ok_def, intro ballI allI impI)
  fix t cap assume t: "t \<in> set (s_types s')" "tt_capacity t = Some cap"
  have fr: "frame x' = frame x" by (rule order_move_frame[OF mv])
  have x: "x \<in> set (s_orders s)" using o1 by simp
  then have wfx: "well_formed x" by (rule orders_ok_wf[OF inv(1)])
  have q: "0 \<le> qty_of (tt_id t) x" by (rule qty_of_nonneg[OF wfx])
  have cap: "firm_seats now (tt_id t) s \<le> cap" using inv(3) t ty by (simp add: seats_ok_def)
  show "firm_seats now (tt_id t) s' \<le> cap"
  proof (cases "firm now x' \<longrightarrow> firm now x")
    case True
    then have "firm_seats now (tt_id t) s' \<le> firm_seats now (tt_id t) s"
      using q by (simp add: firm_seats_split[OF o1] firm_seats_split[OF o2] qty_of_frame[OF fr])
    with cap show ?thesis by simp
  next
    case new: False
    have "o_status x \<in> {O_pending, O_expired} \<longrightarrow> o_intent x = None" using orders_okD[OF inv(1) x] by (simp add: order_ok_def)
    with new have fits: "\<not> oversold_by (o_id x) (Some (pendingSince now)) s"
      using new_firm_fits[OF mv] by blast
    show ?thesis
    proof (cases "tt_id t \<in> oi_type ` set (o_items x)")
      case False
      then have "qty_of (tt_id t) x = 0" by (rule qty_of_absent)
      with cap new show ?thesis by (simp add: firm_seats_split[OF o1] firm_seats_split[OF o2] qty_of_frame[OF fr])
    next
      case True
      then obtain it where it: "it \<in> set (o_items x)" "oi_type it = tt_id t" by auto
      have "find (\<lambda>y. o_id y = o_id x) (s_orders s) = Some x"
        using inv(1) x by (intro find_distinct_key) (auto simp: orders_ok_def)
      then have fo: "first_order (o_id x) s = Some x" by (simp add: first_order_def)
      have ft: "find (\<lambda>u. tt_id u = oi_type it) (s_types s) = Some t"
        using inv(2) t ty unfolding it(2) by (intro find_distinct_key) (auto simp: types_ok_def)
      have room: "held_by_others (o_id x) (oi_type it) (pendingSince now) s + oi_qty it \<le> cap"
        using fits it(1) fo ft t by (auto simp: oversold_by_def not_less)
      have "oi_qty it = qty_of (tt_id t) x"
        using wfx qty_of_item[of x it] it by (simp add: well_formed_def)
      moreover have "sum_by (qty_of (tt_id t)) (filter (firm now) ys) + sum_by (qty_of (tt_id t)) (filter (firm now) zs)
          \<le> held_by_others (o_id x) (oi_type it) (pendingSince now) s"
      proof -
        have ne: "o_id y \<noteq> o_id x" if "y \<in> set ys \<union> set zs" for y
        proof -
          have "distinct (map o_id ys @ o_id x # map o_id zs)" using inv(1) o1 by (simp add: orders_ok_def)
          then have "o_id x \<notin> o_id ` (set ys \<union> set zs)" by auto
          with that show ?thesis by (metis image_eqI)
        qed
        have nn: "0 \<le> qty_of (tt_id t) y" if "y \<in> set ys \<union> set zs" for y
          using o1 that by (intro qty_of_nonneg orders_ok_wf[OF inv(1)]) auto
        have "sum_by (qty_of (tt_id t)) (filter (firm now) ws)
            \<le> sum_by (qty_of (tt_id t)) (filter (\<lambda>y. o_id y \<noteq> o_id x \<and> isHeld (pendingSince now) y) ws)"
          if "set ws \<subseteq> set ys \<union> set zs" for ws
          using that ne nn firm_held by (intro sum_by_filter_mono) blast+
        from this[of ys] this[of zs] show ?thesis by (simp add: held_by_others_eq it(2) o1)
      qed
      ultimately show ?thesis
        using room new by (simp add: firm_seats_split[OF o2] qty_of_frame[OF fr])
    qed
  qed
qed

lemma order_move_pending: "order_move now s x x' \<Longrightarrow> fresh_pending now x' \<Longrightarrow> fresh_pending now x"
  by (erule order_move.cases) (auto simp: fresh_pending_def frame_def)

lemma order_move_refunded: "order_move now s x x' \<Longrightarrow> o_status x' = O_refunded \<Longrightarrow> o_status x = O_refunded"
  by (erule order_move.cases) auto

lemma order_move_ok:
  assumes "order_move now s x x'" "order_ok s x" "same_shop s s'"
  shows "order_ok s' x'"
proof -
  have fr: "frame x' = frame x" by (rule order_move_frame[OF assms(1)])
  have i: "o_status x' \<in> {O_pending, O_expired} \<longrightarrow> o_intent x' = None"
    using assms(1) by cases (use assms(2) in \<open>auto simp: order_ok_def\<close>)
  have c: "o_couponId x \<noteq> None \<longrightarrow> o_status x' = O_paid \<and> o_session x' = None \<and> o_intent x' = None"
    using assms(1) by cases (use assms(2) in \<open>auto simp: order_ok_def\<close>)
  show ?thesis
    using assms(2,3) i c well_formed_frame[OF fr]
    by (simp add: order_ok_def same_shop_def frameD(3)[OF fr] frameD(8)[OF fr])
qed

lemma orders_ok_replace:
  assumes "orders_ok s" "s_orders s = ys @ x # zs" "s_orders s' = ys @ x' # zs" "same_shop s s'" "frame x' = frame x" "order_ok s' x'"
  shows "orders_ok s'"
proof -
  have "order_ok s' y" if "order_ok s y" for y
    using that assms(4) by (simp add: order_ok_def same_shop_def)
  with assms show ?thesis by (auto simp: orders_ok_def list_all_iff frameD(1)[OF assms(5)])
qed

lemma client_split:
  "heldPendingByClient TICKET_SITE k (pendingSince now) s =
     sum_by o_quantity (filter (\<lambda>x. o_site x = TICKET_SITE \<and> o_clientKey x = Some k \<and> fresh_pending now x) (s_orders s))"
  by (simp add: heldPendingByClient_def fresh_pending_def)

lemma clients_ok_replace:
  assumes "clients_ok now s" "orders_ok s" "s_orders s = ys @ x # zs" "s_orders s' = ys @ x' # zs" "frame x' = frame x"
    "fresh_pending now x' \<Longrightarrow> fresh_pending now x"
  shows "clients_ok now s'"
proof -
  have "0 \<le> o_quantity x" using orders_ok_wf[OF assms(2), of x] assms(3) by (simp add: quantity_nonneg)
  then have "heldPendingByClient TICKET_SITE k (pendingSince now) s' \<le> heldPendingByClient TICKET_SITE k (pendingSince now) s" for k
    using assms(6) by (auto simp: client_split assms(3,4) frameD[OF assms(5)])
  then show ?thesis using assms(1) order_trans unfolding clients_ok_def by blast
qed

lemma coupons_ok_replace:
  assumes "coupons_ok s" "s_orders s = ys @ x # zs" "s_orders s' = ys @ x' # zs" "same_shop s s'" "frame x' = frame x"
  shows "coupons_ok s'"
proof -
  have "coupon_seats i s' = coupon_seats i s" for i
    by (simp add: coupon_seats_def assms(2,3) frameD[OF assms(5)])
  then show ?thesis using assms(1,4) by (simp add: coupons_ok_def same_shop_def)
qed

lemma seats_ok_drop:
  assumes "seats_ok now s" "orders_ok s" "s_orders s = ys @ x # zs" "s_orders s' = ys @ x' # zs" "s_types s' = s_types s"
    "frame x' = frame x" "\<not> firm now x'"
  shows "seats_ok now s'"
proof -
  have "0 \<le> qty_of v x" for v using orders_ok_wf[OF assms(2), of x] assms(3) by (simp add: qty_of_nonneg)
  then have "firm_seats now v s' \<le> firm_seats now v s" for v
    using assms(7) by (simp add: firm_seats_split[OF assms(3)] firm_seats_split[OF assms(4)])
  then show ?thesis using assms(1,5) order_trans unfolding seats_ok_def by metis
qed

lemma inv_order:
  assumes "shop_inv now s" "same_shop s s'" "s_orders s = ys @ x # zs" "order_move now s x x'" "s_orders s' = ys @ x' # zs"
    "s_tickets s' = s_tickets s"
  shows "shop_inv now s'"
proof -
  have ok: "orders_ok s" "types_ok s" "seats_ok now s" "coupons_ok s" "clients_ok now s" "void_ok s"
    using assms(1) by (simp_all add: shop_inv_def)
  note fr = order_move_frame[OF assms(4)]
  have ty: "s_types s' = s_types s" using assms(2) by (simp add: same_shop_def)
  have x: "x \<in> set (s_orders s)" using assms(3) by simp
  have "void_ok s'"
    using ok(6) order_move_refunded[OF assms(4)] frameD(1)[OF fr] by (auto simp: void_ok_def assms(3,5,6))
  moreover have "orders_ok s'"
    by (rule orders_ok_replace[OF ok(1) assms(3,5,2) fr order_move_ok[OF assms(4) orders_okD[OF ok(1) x] assms(2)]])
  moreover have "types_ok s'" using ok(2) ty by (simp add: types_ok_def)
  ultimately show ?thesis
    using order_move_seats[OF ok(1-3) assms(4,3,5) ty] coupons_ok_replace[OF ok(4) assms(3,5,2) fr]
      clients_ok_replace[OF ok(5,1) assms(3,5) fr order_move_pending[OF assms(4)]]
    by (simp add: shop_inv_def)
qed

lemma inv_refund:
  assumes "shop_inv now s" "same_shop s s'" "s_orders s = ys @ x # zs" "frame x' = frame x" "o_status x' = O_refunded"
    "o_intent x \<noteq> None" "s_orders s' = ys @ x' # zs" "s_tickets s' = void_tickets (o_id x) t0 (s_tickets s)"
  shows "shop_inv now s'"
proof -
  have ok: "orders_ok s" "types_ok s" "seats_ok now s" "coupons_ok s" "clients_ok now s" "void_ok s"
    using assms(1) by (simp_all add: shop_inv_def)
  have ty: "s_types s' = s_types s" using assms(2) by (simp add: same_shop_def)
  have x: "x \<in> set (s_orders s)" using assms(3) by simp
  have nf: "\<not> firm now x'" "\<not> fresh_pending now x'" using assms(5) by (simp_all add: firm_def fresh_pending_def)
  have okx: "order_ok s' x'"
    using orders_okD[OF ok(1) x] assms(2,5,6) well_formed_frame[OF assms(4)] frameD[OF assms(4)]
    by (auto simp: order_ok_def same_shop_def)
  have "void_ok s'"
  proof -
    have "tk_status t = T_void"
      if a: "y \<in> set (s_orders s')" "o_status y = O_refunded" "t \<in> set (s_tickets s')" "tk_order t = o_id y" for y t
    proof -
      obtain u where u: "u \<in> set (s_tickets s)" "t = (if tk_order u = o_id x \<and> tk_status u = T_valid
          then u\<lparr>tk_status := T_void, tk_voidedAt := Some t0\<rparr> else u)"
        using a(3) by (auto simp: assms(8) void_tickets_def)
      show ?thesis
      proof (cases "tk_order u = o_id x")
        case True
        then show ?thesis using u(2) by (cases "tk_status u") auto
      next
        case False
        then have "t = u" using u(2) by simp
        then have "y \<in> set ys \<union> set zs" using a(1,4) False frameD(1)[OF assms(4)] by (auto simp: assms(7))
        then show ?thesis using ok(6) a u(1) \<open>t = u\<close> by (auto simp: void_ok_def assms(3))
      qed
    qed
    then show ?thesis by (auto simp: void_ok_def)
  qed
  then show ?thesis
    using orders_ok_replace[OF ok(1) assms(3,7,2,4) okx] ok(2) ty seats_ok_drop[OF ok(3,1) assms(3,7) ty assms(4) nf(1)]
      coupons_ok_replace[OF ok(4) assms(3,7,2,4)] clients_ok_replace[OF ok(5,1) assms(3,7,4)] nf(2)
    by (simp add: shop_inv_def types_ok_def)
qed

section \<open>A sale\<close>

lemma insert_ok:
  assumes "insertOrderIfAvailable x caps since s = (Insert_ok, s')"
  shows "s' = s\<lparr>s_orders := s_orders s @ [x]\<rparr>"
    "i \<in> set (o_items x) \<Longrightarrow> caps (oi_type i) = Some (Some cap) \<Longrightarrow> held (o_site x) (oi_type i) since s + oi_qty i \<le> cap"
    "o_couponId x = Some c \<Longrightarrow> coupon_fits x c since s"
  using assms
  by (auto simp: insertOrderIfAvailable_def Let_def find_None_iff not_less split: if_splits option.splits)

lemma last_type_distinct:
  "distinct (map tt_id ts) \<Longrightarrow> t \<in> set ts \<Longrightarrow> last_type (tt_id t) ts = Some t"
  unfolding last_type_def by (rule find_distinct_key) (simp_all add: rev_map[symmetric])

lemma sell_seats:
  assumes ok: "orders_ok s" "types_ok s" "seats_ok now s" and wf: "well_formed x"
    and ins: "insertOrderIfAvailable x (item_capacities (listTicketTypes TICKET_SITE s) (o_items x)) (pendingSince now) s = (Insert_ok, s')"
  shows "seats_ok now s'"
proof (unfold seats_ok_def, intro ballI allI impI)
  have s': "s' = s\<lparr>s_orders := s_orders s @ [x]\<rparr>" by (rule insert_ok(1)[OF ins])
  fix t cap assume t: "t \<in> set (s_types s')" "tt_capacity t = Some cap"
  have t1: "t \<in> set (s_types s)" using t(1) by (simp add: s')
  have cap: "firm_seats now (tt_id t) s \<le> cap" using ok(3) t1 t(2) by (simp add: seats_ok_def)
  have add: "firm_seats now (tt_id t) s' = firm_seats now (tt_id t) s + (if firm now x then qty_of (tt_id t) x else 0)"
    by (simp add: firm_seats_def s')
  show "firm_seats now (tt_id t) s' \<le> cap"
  proof (cases "tt_id t \<in> oi_type ` set (o_items x)")
    case False
    then show ?thesis using cap add by (simp add: qty_of_absent)
  next
    case True
    then obtain it where it: "it \<in> set (o_items x)" "oi_type it = tt_id t" by auto
    have "listTicketTypes TICKET_SITE s = s_types s"
      using ok(2) by (simp add: listTicketTypes_def types_ok_def)
    then have "item_capacities (listTicketTypes TICKET_SITE s) (o_items x) (oi_type it) = Some (Some cap)"
      using it True ok(2) t1 t(2) last_type_distinct[of "s_types s" t] by (auto simp: item_capacities_def types_ok_def)
    then have room: "held TICKET_SITE (tt_id t) (pendingSince now) s + oi_qty it \<le> cap"
      using insert_ok(2)[OF ins it(1)] wf it(2) by (simp add: well_formed_def)
    have "firm_seats now (tt_id t) s \<le> held TICKET_SITE (tt_id t) (pendingSince now) s"
      unfolding firm_seats_def held_eq
    proof (rule sum_by_filter_mono)
      fix y assume y: "y \<in> set (s_orders s)"
      then have "well_formed y" by (rule orders_ok_wf[OF ok(1)])
      then show "0 \<le> qty_of (tt_id t) y" "firm now y \<Longrightarrow> o_site y = TICKET_SITE \<and> isHeld (pendingSince now) y"
        using firm_held by (auto simp: qty_of_nonneg well_formed_def)
    qed
    moreover have "qty_of (tt_id t) x = oi_qty it" using wf qty_of_item[of x it] it by (simp add: well_formed_def)
    moreover have "0 < oi_qty it" using wf it(1) by (simp add: well_formed_def)
    ultimately show ?thesis using room add by simp
  qed
qed

lemma sell_coupons:
  assumes ok: "orders_ok s" "coupons_ok s" and wf: "well_formed x"
    and ins: "insertOrderIfAvailable x caps (pendingSince now) s = (Insert_ok, s')"
  shows "coupons_ok s' \<and> (\<forall>i. o_couponId x = Some i \<longrightarrow> i \<in> cp_id ` set (s_coupons s))"
proof (cases "o_couponId x")
  case None
  then show ?thesis using ok(2) insert_ok(1)[OF ins] by (simp add: coupons_ok_def coupon_seats_def)
next
  case (Some i)
  obtain c where c: "find (\<lambda>c. cp_site c = TICKET_SITE \<and> cp_id c = i) (s_coupons s) = Some c"
    and room: "usedBy (cp_id c) (pendingSince now) s + o_quantity x \<le> cp_maxUses c"
    using insert_ok(3)[OF ins Some] wf by (auto simp: coupon_fits_def well_formed_def split: option.splits)
  have cin: "c \<in> set (s_coupons s)" "cp_id c = i" using find_Some_in[OF c] by auto
  have used: "usedBy i (pendingSince now) s = coupon_seats i s"
  proof -
    have "filter (\<lambda>x. o_couponId x = Some i \<and> isHeld (pendingSince now) x) (s_orders s) = filter (\<lambda>x. o_couponId x = Some i) (s_orders s)"
      using orders_okD[OF ok(1)] by (intro filter_cong) (auto simp: order_ok_def isHeld_def)
    then show ?thesis by (simp add: usedBy_def coupon_seats_def)
  qed
  have "coupon_seats (cp_id c') s' \<le> cp_maxUses c'" if "c' \<in> set (s_coupons s)" for c'
  proof (cases "cp_id c' = i")
    case True
    then have "c' = c" using ok(2) cin that by (auto simp: coupons_ok_def distinct_map inj_on_def)
    then show ?thesis using room used cin(2) Some by (simp add: insert_ok(1)[OF ins] coupon_seats_def)
  next
    case False
    then show ?thesis using ok(2) that Some by (simp add: insert_ok(1)[OF ins] coupon_seats_def coupons_ok_def)
  qed
  then show ?thesis using ok(2) cin Some by (auto simp: coupons_ok_def insert_ok(1)[OF ins])
qed

lemma inv_sell:
  assumes inv: "shop_inv now s" and wf: "well_formed x" and new: "o_id x \<notin> o_id ` set (s_orders s)"
    and st: "o_status x = (if o_amount x = 0 then O_paid else O_pending)" "o_intent x = None" "o_session x = None"
    and cp: "o_couponId x \<noteq> None \<longrightarrow> o_amount x = 0"
    and ins: "insertOrderIfAvailable x (item_capacities (listTicketTypes TICKET_SITE s) (o_items x)) (pendingSince now) s = (Insert_ok, s')"
    and ty: "set (map oi_type (o_items x)) \<subseteq> tt_id ` set (listTicketTypes TICKET_SITE s)"
    and cl: "o_amount x = 0 \<or> (case o_clientKey x of None \<Rightarrow> True | Some k \<Rightarrow>
      heldPendingByClient TICKET_SITE k (pendingSince now) s + o_quantity x \<le> PER_CLIENT_HELD_MAX)"
  shows "shop_inv now s'"
proof -
  have ok: "orders_ok s" "types_ok s" "seats_ok now s" "coupons_ok s" "clients_ok now s" "void_ok s"
    using inv by (simp_all add: shop_inv_def)
  have s': "s' = s\<lparr>s_orders := s_orders s @ [x]\<rparr>" by (rule insert_ok(1)[OF ins])
  note coup = sell_coupons[OF ok(1,4) wf ins]
  have "order_ok s' x"
    using wf st cp ty coup by (auto simp: order_ok_def s' listTicketTypes_def)
  moreover have "order_ok s' = order_ok s" by (rule ext) (simp add: order_ok_def s')
  ultimately have "orders_ok s'" using ok(1) new unfolding orders_ok_def by (simp add: s')
  moreover have "clients_ok now s'"
    using ok(5) cl st(1) unfolding clients_ok_def client_split
    by (auto simp: s' fresh_pending_def)
  moreover have "void_ok s'" using ok(6) st(1) by (auto simp: void_ok_def s')
  ultimately show ?thesis
    using coup sell_seats[OF ok(1-3) wf ins] ok(2) by (simp add: shop_inv_def types_ok_def s')
qed

section \<open>Types, coupons and time\<close>

lemma inv_unchanged_orders:
  assumes "shop_inv now s" "s_orders s' = s_orders s" "s_types s' = s_types s" "s_coupons s' = s_coupons s" "void_ok s'"
  shows "shop_inv now s'"
proof -
  have "order_ok s' = order_ok s" by (rule ext) (simp add: order_ok_def assms(3,4))
  then show ?thesis
    using assms by (simp add: shop_inv_def orders_ok_def types_ok_def seats_ok_def firm_seats_def coupons_ok_def coupon_seats_def
        clients_ok_def heldPendingByClient_def)
qed

lemma put_new_subset: "set (put_new clash rows tab) \<subseteq> set tab \<union> set rows"
proof (induction rows arbitrary: tab)
  case (Cons r rows)
  have "put_new clash (r # rows) tab = put_new clash rows (if \<exists>x\<in>set tab. clash x r then tab else tab @ [r])"
    by (simp add: put_new_def)
  with Cons.IH[of "if \<exists>x\<in>set tab. clash x r then tab else tab @ [r]"] show ?case by (auto split: if_splits)
qed (simp add: put_new_def)

lemma seat_tickets_order: "k \<in> set (seat_tickets x t0) \<Longrightarrow> tk_order k = o_id x"
  by (auto simp: seat_tickets_def seat_ticket_def)

lemma inv_issue:
  assumes "shop_inv now s" "same_shop s s'" "s_orders s' = s_orders s" "x \<in> set (s_orders s)" "o_status x = O_paid"
    "set (s_tickets s') \<subseteq> set (s_tickets s) \<union> {t. tk_order t = o_id x}"
  shows "shop_inv now s'"
proof (rule inv_unchanged_orders[OF assms(1,3)])
  have d: "distinct (map o_id (s_orders s))" and v: "void_ok s" using assms(1) by (simp_all add: shop_inv_def orders_ok_def)
  have "o_id y \<noteq> o_id x" if "y \<in> set (s_orders s)" "o_status y = O_refunded" for y
  proof
    assume "o_id y = o_id x"
    then have "y = x" using d that(1) assms(4) by (simp add: distinct_map inj_on_def)
    with that(2) assms(5) show False by simp
  qed
  then show "void_ok s'" using v assms(3,6) unfolding void_ok_def by fastforce
qed (use assms(2) in \<open>simp_all add: same_shop_def\<close>)

lemma firm_seats_unsold:
  assumes "orders_ok s" "typ \<notin> tt_id ` set (s_types s)"
  shows "firm_seats now typ s = 0"
proof -
  have "qty_of typ x = 0" if "x \<in> set (s_orders s)" for x
    using orders_okD[OF assms(1) that] assms(2) by (intro qty_of_absent) (auto simp: order_ok_def)
  then have "sum_by (qty_of typ) (filter (firm now) (s_orders s)) = sum_by (\<lambda>_. 0) (filter (firm now) (s_orders s))"
    by (intro sum_by_cong) simp
  moreover have "sum_by (\<lambda>_. 0) xs = 0" for xs :: "ticket_order list" by (induction xs) auto
  ultimately show ?thesis by (simp add: firm_seats_def)
qed

lemma inv_new_type:
  assumes inv: "shop_inv now s" and eq: "s_coupons s' = s_coupons s" "s_orders s' = s_orders s" "s_tickets s' = s_tickets s"
    and t: "s_types s' = s_types s @ [t]" "tt_site t = TICKET_SITE" "tt_id t \<notin> tt_id ` set (s_types s)"
    "\<forall>cap. tt_capacity t = Some cap \<longrightarrow> 0 \<le> cap"
  shows "shop_inv now s'"
proof -
  have ok: "orders_ok s" "types_ok s" "seats_ok now s" "coupons_ok s" "clients_ok now s" "void_ok s"
    using inv by (simp_all add: shop_inv_def)
  have "order_ok s' y" if "order_ok s y" for y using that by (auto simp: order_ok_def t(1) eq(1))
  then have "orders_ok s'" using ok(1) eq(2) by (auto simp: orders_ok_def list_all_iff)
  moreover have fs: "firm_seats now v s' = firm_seats now v s" for v by (simp add: firm_seats_def eq(2))
  have "seats_ok now s'"
    using ok(3) t(4) firm_seats_unsold[OF ok(1) t(3)] by (auto simp: seats_ok_def t(1) fs)
  ultimately show ?thesis
    using ok(2,4-6) t(2,3) by (auto simp: shop_inv_def types_ok_def t(1) coupons_ok_def coupon_seats_def clients_ok_def
        heldPendingByClient_def void_ok_def eq)
qed

lemma inv_change_type:
  assumes inv: "shop_inv now s" and eq: "s_coupons s' = s_coupons s" "s_orders s' = s_orders s" "s_tickets s' = s_tickets s"
    and t: "s_types s = ys @ t # zs" "s_types s' = ys @ t' # zs" "tt_site t' = tt_site t" "tt_id t' = tt_id t"
    "\<forall>cap. tt_capacity t' = Some cap \<longrightarrow> firm_seats now (tt_id t) s \<le> cap"
  shows "shop_inv now s'"
proof -
  have ok: "orders_ok s" "types_ok s" "seats_ok now s" "coupons_ok s" "clients_ok now s" "void_ok s"
    using inv by (simp_all add: shop_inv_def)
  have ids: "tt_id ` set (s_types s') = tt_id ` set (s_types s)" by (simp add: t)
  have "order_ok s' = order_ok s" by (rule ext) (simp add: order_ok_def ids eq(1))
  then have "orders_ok s'" using ok(1) eq(2) by (simp add: orders_ok_def)
  moreover have fs: "firm_seats now v s' = firm_seats now v s" for v by (simp add: firm_seats_def eq(2))
  have "seats_ok now s'" using ok(3) t(5) by (auto simp: seats_ok_def t(1,2,4) fs)
  ultimately show ?thesis
    using ok(2,4-6) by (auto simp: shop_inv_def types_ok_def t coupons_ok_def coupon_seats_def clients_ok_def
        heldPendingByClient_def void_ok_def eq)
qed

lemma inv_new_coupon:
  assumes inv: "shop_inv now s" and eq: "s_types s' = s_types s" "s_orders s' = s_orders s" "s_tickets s' = s_tickets s"
    and c: "s_coupons s' = s_coupons s @ [c]" "cp_site c = TICKET_SITE" "cp_id c \<notin> cp_id ` set (s_coupons s)" "0 \<le> cp_maxUses c"
  shows "shop_inv now s'"
proof -
  have ok: "orders_ok s" "types_ok s" "seats_ok now s" "coupons_ok s" "clients_ok now s" "void_ok s"
    using inv by (simp_all add: shop_inv_def)
  have "order_ok s' y" if "order_ok s y" for y using that by (auto simp: order_ok_def c(1) eq(1))
  then have "orders_ok s'" using ok(1) eq(2) by (auto simp: orders_ok_def list_all_iff)
  moreover have cs: "coupon_seats v s' = coupon_seats v s" for v by (simp add: coupon_seats_def eq(2))
  have "filter (\<lambda>x. o_couponId x = Some (cp_id c)) (s_orders s) = []"
    using orders_okD[OF ok(1)] c(3) by (auto simp: filter_empty_conv order_ok_def)
  then have "coupon_seats (cp_id c) s = 0" by (simp add: coupon_seats_def)
  then have "coupons_ok s'" using ok(4) c(2-4) by (auto simp: coupons_ok_def c(1) cs)
  ultimately show ?thesis
    using ok(2,3,5,6) by (simp add: shop_inv_def types_ok_def seats_ok_def firm_seats_def clients_ok_def
        heldPendingByClient_def void_ok_def eq)
qed

lemma inv_change_coupon:
  assumes inv: "shop_inv now s" and eq: "s_types s' = s_types s" "s_orders s' = s_orders s" "s_tickets s' = s_tickets s"
    and c: "s_coupons s = ys @ c # zs" "s_coupons s' = ys @ c' # zs" "cp_site c' = cp_site c" "cp_id c' = cp_id c" "cp_maxUses c' = cp_maxUses c"
  shows "shop_inv now s'"
proof -
  have ok: "orders_ok s" "types_ok s" "seats_ok now s" "coupons_ok s" "clients_ok now s" "void_ok s"
    using inv by (simp_all add: shop_inv_def)
  have ids: "cp_id ` set (s_coupons s') = cp_id ` set (s_coupons s)" by (simp add: c)
  have "order_ok s' = order_ok s" by (rule ext) (simp add: order_ok_def ids eq(1))
  then have "orders_ok s'" using ok(1) eq(2) by (simp add: orders_ok_def)
  moreover have "coupons_ok s'" using ok(4) by (auto simp: coupons_ok_def coupon_seats_def c eq(2))
  ultimately show ?thesis
    using ok(2,3,5,6) by (simp add: shop_inv_def types_ok_def seats_ok_def firm_seats_def clients_ok_def
        heldPendingByClient_def void_ok_def eq)
qed

theorem shop_inv_move:
  assumes "shop_move now s s'" "shop_inv now s"
  shows "shop_inv now s'"
  using assms(1)
proof cases
  case other
  then show ?thesis using assms(2) by (intro inv_unchanged_orders[OF assms(2)]) (auto simp: same_shop_def shop_inv_def void_ok_def)
next
  case (issue x t0)
  have "set (s_tickets s') \<subseteq> set (s_tickets s) \<union> {t. tk_order t = o_id x}"
    unfolding issue(5) using put_new_subset seat_tickets_order by fastforce
  then show ?thesis using inv_issue[OF assms(2)] issue by blast
next
  case (order ys x zs x')
  then show ?thesis using inv_order[OF assms(2)] by blast
next
  case (refund ys x zs x' t0)
  then show ?thesis using inv_refund[OF assms(2)] by blast
next
  case (sell x)
  then show ?thesis using inv_sell[OF assms(2)] by blast
next
  case (new_type t)
  then show ?thesis using inv_new_type[OF assms(2)] by blast
next
  case (change_type ys t zs t')
  then show ?thesis using inv_change_type[OF assms(2)] by blast
next
  case (new_coupon c)
  then show ?thesis using inv_new_coupon[OF assms(2)] by blast
next
  case (change_coupon ys c zs c')
  then show ?thesis using inv_change_coupon[OF assms(2)] by blast
qed

definition good_time :: "ms \<Rightarrow> bool" where
  \<comment> \<open>the year has four digits, so that timestamps compare as their instants do\<close>
  "good_time now = (four_digit_year now \<and> four_digit_year (now - PENDING_HOLD_MS))"

lemma pendingSince_mono: "good_time now \<Longrightarrow> good_time now' \<Longrightarrow> now \<le> now' \<Longrightarrow> pendingSince now \<le> pendingSince now'"
  using iso_string_mono[of "now - PENDING_HOLD_MS" "now' - PENDING_HOLD_MS"]
  by (cases "now = now'") (auto simp: pendingSince_def good_time_def)

theorem shop_inv_time:
  assumes "shop_inv now s" "good_time now" "good_time now'" "now \<le> now'"
  shows "shop_inv now' s"
proof -
  have ok: "orders_ok s" "types_ok s" "seats_ok now s" "coupons_ok s" "clients_ok now s" "void_ok s"
    using assms(1) by (simp_all add: shop_inv_def)
  have fp: "fresh_pending now' x \<Longrightarrow> fresh_pending now x" for x
    using pendingSince_mono[OF assms(2-4)] by (auto simp: fresh_pending_def)
  have "firm_seats now' v s \<le> firm_seats now v s" for v
    unfolding firm_seats_def
    by (rule sum_by_filter_mono) (use fp qty_of_nonneg orders_ok_wf[OF ok(1)] in \<open>auto simp: firm_def\<close>)
  then have "seats_ok now' s" using ok(3) order_trans unfolding seats_ok_def by metis
  moreover have "heldPendingByClient TICKET_SITE k (pendingSince now') s \<le> heldPendingByClient TICKET_SITE k (pendingSince now) s" for k
    unfolding client_split
    by (rule sum_by_filter_mono) (use fp quantity_nonneg orders_ok_wf[OF ok(1)] in auto)
  then have "clients_ok now' s" using ok(5) order_trans unfolding clients_ok_def by blast
  ultimately show ?thesis using ok by (simp add: shop_inv_def)
qed

end
