(* ===== verification/Ticket_Refine.thy ===== *)
theory Ticket_Refine
  imports Ticket_Moves
begin

text \<open>
  Every method of the ticket service is a sequence of the moves of \<open>Ticket_Moves\<close>, whatever the
  outside world answers.
\<close>

definition moves :: "ms \<Rightarrow> store \<Rightarrow> store \<Rightarrow> bool" where
  "moves now = (shop_move now)\<^sup>*\<^sup>*"

lemma moves_refl [simp]: "moves now s s"
  by (simp add: moves_def)

lemma moves_trans: "moves now s s' \<Longrightarrow> moves now s' s'' \<Longrightarrow> moves now s s''"
  unfolding moves_def by (rule rtranclp_trans)

lemma moves_one: "shop_move now s s' \<Longrightarrow> moves now s s'"
  by (simp add: moves_def)

lemma moves_inv: "moves now s s' \<Longrightarrow> shop_inv now s \<Longrightarrow> shop_inv now s'"
  unfolding moves_def by (induction rule: rtranclp_induct) (auto intro: shop_inv_move)

section \<open>Operations that find one order\<close>

lemma transition_cases:
  "transition i froms patch s = (False, s) \<or>
   (\<exists>ys x zs. s_orders s = ys @ x # zs \<and> o_id x = i \<and> o_status x \<in> set froms \<and>
      transition i froms patch s = (True, s\<lparr>s_orders := ys @ patch x # zs\<rparr>))"
proof (cases "find (\<lambda>x. o_id x = i \<and> o_status x \<in> set froms) (s_orders s)")
  case None
  then show ?thesis by (simp add: transition_def)
next
  case (Some x)
  from upd_first_split[OF Some, of patch] obtain ys zs where "s_orders s = ys @ x # zs" "o_id x = i \<and> o_status x \<in> set froms"
    "upd_first (\<lambda>x. o_id x = i \<and> o_status x \<in> set froms) patch (s_orders s) = ys @ patch x # zs" by blast
  then show ?thesis using Some by (auto simp: transition_def)
qed

lemma on_order_cases:
  "on_order i f s = s \<or> (\<exists>ys x zs. s_orders s = ys @ x # zs \<and> o_id x = i \<and> on_order i f s = s\<lparr>s_orders := ys @ f x # zs\<rparr>)"
proof (cases "find (\<lambda>x. o_id x = i) (s_orders s)")
  case None
  then show ?thesis by (simp add: on_order_def upd_first_none)
next
  case (Some x)
  from upd_first_split[OF Some, of f] obtain ys zs where "s_orders s = ys @ x # zs" "o_id x = i"
    "upd_first (\<lambda>x. o_id x = i) f (s_orders s) = ys @ f x # zs" by blast
  then show ?thesis by (metis on_order_def)
qed

lemma same_id: "orders_ok s \<Longrightarrow> x \<in> set (s_orders s) \<Longrightarrow> y \<in> set (s_orders s) \<Longrightarrow> o_id x = o_id y \<Longrightarrow> x = y"
  by (auto simp: orders_ok_def distinct_map inj_on_def)

lemma shop_inv_orders: "shop_inv now s \<Longrightarrow> orders_ok s"
  by (simp add: shop_inv_def)

lemma first_order_in: "orders_ok s \<Longrightarrow> x \<in> set (s_orders s) \<Longrightarrow> first_order (o_id x) s = Some x"
  unfolding first_order_def by (rule find_distinct_key) (simp_all add: orders_ok_def)

lemma same_shop_orders [simp]: "same_shop s (s\<lparr>s_orders := xs\<rparr>)"
  by (simp add: same_shop_def)

lemma order_replaced:
  "s_orders s = ys @ x # zs \<Longrightarrow> order_move now s x x' \<Longrightarrow> moves now s (s\<lparr>s_orders := ys @ x' # zs\<rparr>)"
  by (rule moves_one, rule shop_move.order) simp_all

lemma touch_moves:
  assumes "\<And>x. frame (f x) = frame x \<and> o_status (f x) = o_status x \<and> o_reviewReason (f x) = o_reviewReason x \<and> o_intent (f x) = o_intent x"
    and "\<And>x. x \<in> set (s_orders s) \<Longrightarrow> o_id x = i \<Longrightarrow> o_session (f x) = o_session x \<or> o_couponId x = None"
  shows "moves now s (on_order i f s)"
proof (cases "on_order i f s = s")
  case False
  then obtain ys x zs where x: "s_orders s = ys @ x # zs" "o_id x = i" "on_order i f s = s\<lparr>s_orders := ys @ f x # zs\<rparr>"
    using on_order_cases[of i f s] by blast
  have "order_move now s x (f x)"
    by (rule touch) (use assms(1)[of x] assms(2)[of x] x in simp_all)
  then show ?thesis using order_replaced[OF x(1)] x(3) by simp
qed simp

lemma preview_moves: "moves now s (markOrderPreview i s)"
  unfolding markOrderPreview_def by (rule touch_moves) (simp_all add: frame_def)

lemma method_moves: "moves now s (setOrderPaymentMethod i m s)"
  unfolding setOrderPaymentMethod_def by (rule touch_moves) (simp_all add: frame_def)

lemma session_moves:
  "(\<And>x. x \<in> set (s_orders s) \<Longrightarrow> o_id x = i \<Longrightarrow> o_couponId x = None) \<Longrightarrow> moves now s (setOrderSession i v s)"
  unfolding setOrderSession_def by (rule touch_moves) (simp_all add: frame_def)

lemma intent_moves:
  assumes "orders_ok s" "x \<in> set (s_orders s)" "o_status x \<in> {O_paid, O_needs_review}" "o_session x \<noteq> None"
  shows "moves now s (setOrderPaymentIntent (o_id x) v s)"
proof (cases "setOrderPaymentIntent (o_id x) v s = s")
  case False
  then obtain ys y zs where y: "s_orders s = ys @ y # zs" "o_id y = o_id x"
    "setOrderPaymentIntent (o_id x) v s = s\<lparr>s_orders := ys @ (if o_intent y = None then y\<lparr>o_intent := Some v\<rparr> else y) # zs\<rparr>"
    unfolding setOrderPaymentIntent_def using on_order_cases by blast
  have "y = x" using same_id[OF assms(1), of y x] y(1,2) assms(2) by simp
  then have "order_move now s y (if o_intent y = None then y\<lparr>o_intent := Some v\<rparr> else y)"
    using assms(3,4) by (intro set_intent) (auto simp: frame_def)
  then show ?thesis using order_replaced[OF y(1)] y(3) by simp
qed simp

lemma expire_moves: "moves now s (snd (markOrderExpired i s))"
proof -
  have "order_move now s x (x\<lparr>o_status := O_expired\<rparr>)" if "o_status x = O_pending" for x
    using that by (intro expire) (simp_all add: frame_def)
  then show ?thesis
    using transition_cases[of i "[O_pending]" "\<lambda>x. x\<lparr>o_status := O_expired\<rparr>" s] order_replaced
    by (auto simp: markOrderExpired_def)
qed

lemma review_moves:
  assumes "orders_ok s" "x \<in> set (s_orders s)" "o_status x \<noteq> O_paid \<and> r \<noteq> ''dispute'' \<or> o_intent x \<noteq> None"
  shows "moves now s (snd (markOrderNeedsReview (o_id x) r v s))"
proof -
  define f where "f = (\<lambda>y :: ticket_order. y\<lparr>o_status := O_needs_review, o_reviewReason := Some r,
             o_intent := coalesce (Option.bind (first_order (o_id x) s) o_intent) v\<rparr>)"
  have e: "markOrderNeedsReview (o_id x) r v s = transition (o_id x) [O_pending, O_expired, O_paid] f s"
    by (simp add: markOrderNeedsReview_def f_def)
  show ?thesis
  proof (cases "transition (o_id x) [O_pending, O_expired, O_paid] f s = (False, s)")
    case False
    then obtain ys y zs where y: "s_orders s = ys @ y # zs" "o_id y = o_id x" "o_status y \<in> {O_pending, O_expired, O_paid}"
      "transition (o_id x) [O_pending, O_expired, O_paid] f s = (True, s\<lparr>s_orders := ys @ f y # zs\<rparr>)"
      using transition_cases[of "o_id x" "[O_pending, O_expired, O_paid]" f s] by auto
    have "y = x" using same_id[OF assms(1), of y x] y(1,2) assms(2) by simp
    then have "order_move now s y (f y)"
      using assms(3) y(3) by (intro review[where r = r]) (auto simp: f_def frame_def)
    then show ?thesis using order_replaced[OF y(1)] y(4) e by simp
  qed (simp add: e)
qed

lemma paid_moves:
  assumes ok: "orders_ok s" and x: "x \<in> set (s_orders s)" and st: "o_status x \<in> {O_pending, O_expired}"
    and since: "ps_capacitySince p = Some (pendingSince now) \<or> ps_capacitySince p = None \<and> fresh_pending now x"
  shows "moves now s (snd (markOrderPaid (o_id x) p s))"
proof -
  define over where "over = oversold_by (o_id x) (ps_capacitySince p) s"
  define f where "f = (\<lambda>y :: ticket_order. y\<lparr>o_status := (if over then O_needs_review else O_paid), o_paidAt := Some (ps_paidAt p),
                  o_session := coalesce (Option.bind (first_order (o_id x) s) o_session) (ps_session p),
                  o_intent := coalesce (Option.bind (first_order (o_id x) s) o_intent) (ps_intent p),
                  o_reviewReason := (if over then Some ''oversold'' else None)\<rparr>)"
  have e: "snd (markOrderPaid (o_id x) p s) = snd (transition (o_id x) [O_pending, O_expired] f s)"
    by (simp add: markOrderPaid_def f_def over_def Let_def split: prod.splits)
  show ?thesis
  proof (cases "transition (o_id x) [O_pending, O_expired] f s = (False, s)")
    case False
    then obtain ys y zs where y: "s_orders s = ys @ y # zs" "o_id y = o_id x"
      "transition (o_id x) [O_pending, O_expired] f s = (True, s\<lparr>s_orders := ys @ f y # zs\<rparr>)"
      using transition_cases[of "o_id x" "[O_pending, O_expired]" f s] by auto
    have "y = x" using same_id[OF ok, of y x] y(1,2) x by simp
    have "order_move now s x (f x)"
    proof (cases over)
      case True
      then show ?thesis using st by (intro review[where r = "''oversold''"]) (auto simp: f_def frame_def)
    next
      case False
      then have "fresh_pending now x \<or> \<not> oversold_by (o_id x) (Some (pendingSince now)) s"
        using since by (auto simp: over_def)
      then show ?thesis using st False by (intro pay) (auto simp: f_def frame_def)
    qed
    then show ?thesis using order_replaced[OF y(1)] y(3) e \<open>y = x\<close> by simp
  qed (simp add: e)
qed

lemma approve_moves:
  assumes ok: "orders_ok s" and fits: "only = Some ''dispute'' \<or> \<not> oversold_by i (Some (pendingSince now)) s"
  shows "moves now s (snd (approveOrder i user at0 only s))"
proof (cases "first_order i s")
  case None
  then show ?thesis by (simp add: approveOrder_def)
next
  case (Some x0)
  then have x0: "x0 \<in> set (s_orders s)" "o_id x0 = i" using find_Some_in[of _ "s_orders s"] by (auto simp: first_order_def)
  define f where "f = (\<lambda>y :: ticket_order. y\<lparr>o_status := O_paid, o_paidAt := coalesce (o_paidAt x0) (Some at0),
                       o_resolvedBy := Some user, o_resolvedAt := Some at0\<rparr>)"
  show ?thesis
  proof (cases "only \<noteq> None \<and> o_reviewReason x0 \<noteq> only \<or> transition i [O_needs_review] f s = (False, s)")
    case False
    then obtain ys y zs where y: "s_orders s = ys @ y # zs" "o_id y = i" "o_status y = O_needs_review"
      "transition i [O_needs_review] f s = (True, s\<lparr>s_orders := ys @ f y # zs\<rparr>)"
      using transition_cases[of i "[O_needs_review]" f s] by auto
    have yx: "y = x0" using same_id[OF ok, of y x0] y(1,2) x0 by simp
    have "order_move now s y (f y)"
    proof (cases "only = Some ''dispute''")
      case True
      then show ?thesis using False y(3) yx by (intro dispute_won) (auto simp: f_def frame_def)
    next
      case not: False
      then show ?thesis using fits y(2,3) by (intro pay) (auto simp: f_def frame_def)
    qed
    then show ?thesis using order_replaced[OF y(1)] y(4) False Some by (simp add: approveOrder_def f_def)
  qed (auto simp: approveOrder_def Some f_def)
qed

lemma refund_moves:
  assumes ok: "orders_ok s" and x: "x \<in> set (s_orders s)" "o_intent x \<noteq> None"
  shows "moves now s (snd (markOrderRefunded (o_id x) at0 s))"
proof -
  define f where "f = (\<lambda>y :: ticket_order. y\<lparr>o_status := O_refunded, o_refundedAt := Some at0\<rparr>)"
  have e: "markOrderRefunded (o_id x) at0 s =
      (let (ok, s') = transition (o_id x) [O_paid, O_needs_review] f s
       in (ok, if ok then s'\<lparr>s_tickets := void_tickets (o_id x) at0 (s_tickets s')\<rparr> else s'))"
    by (simp add: markOrderRefunded_def f_def void_tickets_def Let_def cong: if_cong)
  show ?thesis
  proof (cases "transition (o_id x) [O_paid, O_needs_review] f s = (False, s)")
    case False
    then obtain ys y zs where y: "s_orders s = ys @ y # zs" "o_id y = o_id x" "o_status y \<in> {O_paid, O_needs_review}"
      "transition (o_id x) [O_paid, O_needs_review] f s = (True, s\<lparr>s_orders := ys @ f y # zs\<rparr>)"
      using transition_cases[of "o_id x" "[O_paid, O_needs_review]" f s] by auto
    have yx: "y = x" using same_id[OF ok, of y x] y(1,2) x by simp
    have "shop_move now s (s\<lparr>s_orders := ys @ f y # zs, s_tickets := void_tickets (o_id y) at0 (s_tickets s)\<rparr>)"
      by (rule shop_move.refund[OF _ y(1), where x' = "f y"]) (use y(3) x(2) yx in \<open>auto simp: same_shop_def f_def frame_def\<close>)
    then show ?thesis using y(4) yx by (simp add: e moves_one)
  qed (simp add: e)
qed

lemma fulfill_moves: "moves now s (fulfill t i s)"
proof (cases "getOrder TICKET_SITE i s")
  case None
  then show ?thesis by (simp add: fulfill_def)
next
  case (Some x)
  then have x: "x \<in> set (s_orders s)" by (auto simp: getOrder_def dest: find_Some_in)
  show ?thesis
  proof (cases "o_status x = O_paid")
    case True
    define s' where "s' = issueFulfilment (o_id x) (seat_tickets x (iso_string t)) (map (owed_mail x (iso_string t)) (owed_kinds x)) s"
    have f: "fulfill t i s = s'"
      using Some True by (simp add: fulfill_def fulfilmentOf_def s'_def seat_tickets_def)
    have "shop_move now s s'"
      by (rule issue[OF _ _ x True]) (use x True in \<open>auto simp: s'_def issueFulfilment_def same_shop_def\<close>)
    then show ?thesis unfolding f by (rule moves_one)
  qed (simp add: fulfill_def Some)
qed

section \<open>Operations that touch no order\<close>

lemma other_moves:
  "s_orders s' = s_orders s \<Longrightarrow> s_types s' = s_types s \<Longrightarrow> s_coupons s' = s_coupons s \<Longrightarrow> s_tickets s' = s_tickets s \<Longrightarrow> moves now s s'"
  by (rule moves_one, rule other) (simp_all add: same_shop_def)

lemma settings_moves [simp]:
  "moves now s (setTicketEnabled a b c e s)" "moves now s (setTicketCta a b c e s)" "moves now s (setTicketFields a f c e s)"
  "moves now s (setTicketRelease a b b' c e s)" "moves now s (setJobState k v s)" "moves now s (applyOutboxUpdates us s)"
  "moves now s (snd (claimOutbox cl s))"
  by (rule other_moves; simp add: setTicketEnabled_def setTicketCta_def setTicketFields_def setTicketRelease_def upsertSettings_def
      setJobState_def applyOutboxUpdates_def claimOutbox_def Let_def split: option.splits)+

lemma drain_moves: "moves now s (snd (drain_mail d tick r s))"
proof -
  obtain claimed s1 where c: "claimOutbox (drain_claim d (tick 0) r (dailyAllowance d (tick 0) s)) s = (claimed, s1)" by fastforce
  have m: "moves now s s1" using settings_moves(7)[of now s] c by (metis snd_conv)
  have "moves now s (applyOutboxUpdates us s1)" for us by (rule moves_trans[OF m settings_moves(6)])
  then show ?thesis using m by (simp add: drain_mail_def c Let_def)
qed

lemma drainPass_moves: "moves now s (snd (drainPass d tick limit s))"
proof (cases "0 < limit")
  case True
  then show ?thesis using drain_moves[of now s d tick]
    by (simp add: drainPass_def Let_def split: prod.splits) (metis snd_conv)
qed (simp add: drainPass_def Let_def)

lemma sendSoon_moves: "moves now s (sendSoon d tick i s)"
  using drain_moves by (simp add: sendSoon_def)

lemma fold_moves:
  assumes "\<And>x s. x \<in> set xs \<Longrightarrow> moves now s (f x s)"
  shows "moves now s (fold f xs s)"
  using assms by (induction xs arbitrary: s) (auto intro: moves_trans)

lemma sweep_moves: "moves now s (snd (sweep t jobs s))"
proof -
  have m: "moves now s (fold (\<lambda>x. fulfill t (o_id x)) rows s)" for rows :: "ticket_order list"
    by (rule fold_moves) (rule fulfill_moves)
  show ?thesis using m moves_trans[OF m settings_moves(5)] by (simp add: sweep_def Let_def)
qed

lemma send_csv_moves: "moves now s (snd (send_csv d day jobs snap s))"
  by (simp add: send_csv_def Let_def split: option.splits mail_result.splits)

lemma daily_moves: "moves now s (snd (snd (daily d t jobs s)))"
proof -
  have "moves now s (snd (send_csv d day jobs snap (setJobState k v s)))" for day snap k v
    by (rule moves_trans[OF settings_moves(5) send_csv_moves])
  then have "moves now s s1" if "send_csv d day jobs snap (setJobState k v s) = (r, s1)" for day snap k v r s1
    using that by (metis snd_conv)
  then show ?thesis by (auto simp: daily_def Let_def split: option.splits prod.splits)
qed

lemma reconcilePass_moves: "moves now s (snd (reconcilePass d tick spent s))"
proof -
  obtain n s1 where 1: "sweep (tick 0) (getJobStates s) s = (n, s1)" by fastforce
  obtain ran put s2 where 2: "daily d (tick 0) (getJobStates s) s1 = (ran, put, s2)" by (metis prod_cases3)
  have "moves now s s1" using sweep_moves[of now s "tick 0"] 1 by (metis snd_conv)
  moreover have "moves now s1 s2" using daily_moves[of now s1 d "tick 0"] 2 by (metis snd_conv)
  moreover have "moves now s2 (snd (drainPass d tick l s2))" for l by (rule drainPass_moves)
  ultimately show ?thesis by (simp add: reconcilePass_def 1 2 Let_def split: prod.splits) (metis moves_trans snd_conv)
qed

section \<open>Settlement\<close>

lemma settle_paid_moves:
  assumes inv: "shop_inv now s" and x: "x \<in> set (s_orders s)" and st: "o_status x \<in> {O_pending, O_expired}"
  shows "moves now s (snd (settle_paid now x ss s))"
proof -
  define late where "late = (o_status x = O_expired \<or> o_createdAt x < pendingSince now)"
  define p where "p = \<lparr>ps_paidAt = iso_string now, ps_session = non_empty (Some (cs_id ss)), ps_intent = cs_paymentIntentId ss,
             ps_capacitySince = (if late then Some (pendingSince now) else None)\<rparr>"
  obtain r s1 where m: "markOrderPaid (o_id x) p s = (r, s1)" by fastforce
  have "ps_capacitySince p = Some (pendingSince now) \<or> ps_capacitySince p = None \<and> fresh_pending now x"
    using st by (auto simp: p_def late_def fresh_pending_def)
  then have 1: "moves now s s1"
    using paid_moves[OF shop_inv_orders[OF inv] x st] m by (metis snd_conv)
  define s2 where "s2 = (case non_empty (cs_paymentMethodType ss) of Some m \<Rightarrow> setOrderPaymentMethod (o_id x) m s1 | None \<Rightarrow> s1)"
  have "moves now s1 s2" using method_moves by (auto simp: s2_def split: option.splits)
  then have 2: "moves now s s2" by (rule moves_trans[OF 1])
  have "snd (settle_paid now x ss s) \<in> {s1, s2, fulfill now (o_id x) s2}"
    using m by (simp add: settle_paid_def late_def[symmetric] p_def[symmetric] s2_def[symmetric] Let_def split: option.splits)
  then show ?thesis using 1 2 moves_trans[OF 2 fulfill_moves] by auto
qed

lemma settle_moves:
  assumes inv: "shop_inv now s" and x: "x \<in> set (s_orders s)"
  shows "moves now s (snd (settle d now x ss rel s))"
proof (cases "dp_stripe d")
  case None
  then show ?thesis by (simp add: settle_def)
next
  case (Some stripe)
  consider "settle d now x ss rel s = (fst (settle d now x ss rel s), s)"
    | reason where "o_status x \<in> {O_pending, O_expired}" "mismatch x ss = Some reason"
      "snd (settle d now x ss rel s) = snd (markOrderNeedsReview (o_id x) reason (cs_paymentIntentId ss) s)"
    | "o_status x \<in> {O_pending, O_expired}" "snd (settle d now x ss rel s) = snd (settle_paid now x ss s)"
    | "snd (settle d now x ss rel s) = snd (markOrderExpired (o_id x) s)"
    by (cases "cs_livemode ss = Some (sk_livemode stripe)"; cases "o_status x \<in> {O_pending, O_expired}";
        cases "cs_paymentStatus ss = Some ''paid''"; cases "mismatch x ss"; cases "rel \<or> cs_status ss = Some ''expired''")
       (auto simp: settle_def Some split: prod.splits)
  then show ?thesis
  proof cases
    case 1
    then show ?thesis by (metis moves_refl snd_conv)
  next
    case (2 reason)
    then have "reason \<noteq> ''dispute''" by (auto simp: mismatch_def split: if_splits)
    then have "o_status x \<noteq> O_paid \<and> reason \<noteq> ''dispute'' \<or> o_intent x \<noteq> None" using 2(1) by auto
    from review_moves[OF shop_inv_orders[OF inv] x this] show ?thesis using 2(3) by simp
  next
    case 3
    then show ?thesis using settle_paid_moves[OF inv x] by simp
  next
    case 4
    then show ?thesis using expire_moves by simp
  qed
qed

lemma getOrder_in: "getOrder site i s = Some x \<Longrightarrow> x \<in> set (s_orders s) \<and> o_id x = i"
  by (auto simp: getOrder_def dest: find_Some_in)

lemma getOrderBySession_in: "getOrderBySession i s = Some x \<Longrightarrow> x \<in> set (s_orders s)"
  by (auto simp: getOrderBySession_def dest: find_Some_in)

lemma confirm_moves:
  assumes "shop_inv now s"
  shows "moves now s (snd (confirm d now body s))"
proof -
  define sid where "sid = str_trim (js_get body ''sessionId'')"
  define oid where "oid = str_trim (js_get body ''orderId'')"
  show ?thesis
  proof (cases "if sid \<noteq> [] then getOrderBySession sid s else getOrder TICKET_SITE oid s")
    case None
    then show ?thesis by (simp add: confirm_def sid_def[symmetric] oid_def[symmetric] Let_def)
  next
    case (Some x)
    then have "x \<in> set (s_orders s)" by (auto dest: getOrder_in getOrderBySession_in split: if_splits)
    from settle_moves[OF assms this] show ?thesis using Some
      by (simp add: confirm_def sid_def[symmetric] oid_def[symmetric] Let_def split: option.splits sum.splits bool.splits)
  qed
qed

lemma applyCharge_moves:
  assumes "shop_inv now s"
  shows "moves now s (applyCharge t ty obj s)"
proof (cases "Option.bind (non_empty (stripeId (js_get obj ''payment_intent''))) (\<lambda>v. getOrderByPaymentIntent v s)")
  case None
  then show ?thesis by (simp add: applyCharge_def)
next
  case (Some x)
  then have x: "x \<in> set (s_orders s)" "o_intent x \<noteq> None"
    by (auto simp: getOrderByPaymentIntent_def bind_eq_Some_conv dest!: find_Some_in)
  have ok: "orders_ok s" by (rule shop_inv_orders[OF assms])
  obtain b s1 where ap: "approveOrder (o_id x) ''stripe'' (iso_string t) (Some ''dispute'') s = (b, s1)" by fastforce
  have 1: "moves now s s1"
    using approve_moves[OF ok, of "Some ''dispute''" "o_id x" now "''stripe''" "iso_string t"] ap by simp
  have 2: "moves now s (fulfill t (o_id x) s1)" by (rule moves_trans[OF 1 fulfill_moves])
  have 3: "moves now s (snd (markOrderRefunded (o_id x) (iso_string t) s))" by (rule refund_moves[OF ok x])
  have 4: "moves now s (snd (markOrderNeedsReview (o_id x) ''dispute'' None s))" by (rule review_moves[OF ok x(1)]) (simp add: x)
  show ?thesis
    unfolding applyCharge_def Some option.case using 1 2 3 4 ap by (auto simp: Let_def split: js.splits)
qed

lemma apply_event_moves:
  assumes "shop_inv now s"
  shows "moves now s (apply_event d now event s)"
proof -
  have "x \<in> set (s_orders s)" if "event_order session obj s = Some x" for session obj x
    using that by (auto simp: event_order_def Let_def bind_eq_Some_conv split: option.splits if_splits dest: getOrder_in getOrderBySession_in)
  then have "moves now s (snd (settle d now x ss rel s))" if "event_order session obj s = Some x" for session obj x ss rel
    using settle_moves[OF assms] that by blast
  then show ?thesis using applyCharge_moves[OF assms] by (auto simp: apply_event_def Let_def split: option.splits)
qed

lemma webhook_moves: "shop_inv now s \<Longrightarrow> moves now s (snd (webhook d now raw sig s))"
  using apply_event_moves by (auto simp: webhook_def split: option.splits)

lemma approve_service_moves:
  assumes "shop_inv now s" "\<not> oversold_by i (Some (pendingSince now)) s"
  shows "moves now s (snd (approve now user i s))"
proof -
  obtain b s1 where ap: "approveOrder i user (iso_string now) None s = (b, s1)" by fastforce
  have 1: "moves now s s1"
    using approve_moves[OF shop_inv_orders[OF assms(1)], of None i now user "iso_string now"] ap assms(2) by simp
  have "moves now s (fulfill now i s1)" by (rule moves_trans[OF 1 fulfill_moves])
  with 1 show ?thesis by (simp add: approve_def ap Let_def split: option.splits)
qed

section \<open>Reconciliation\<close>

text \<open>An operation on one order leaves every other order where it is.\<close>

definition only :: "string \<Rightarrow> store \<Rightarrow> store \<Rightarrow> bool" where
  "only i s s' \<longleftrightarrow> (\<forall>y\<in>set (s_orders s). o_id y \<noteq> i \<longrightarrow> y \<in> set (s_orders s'))"

lemma only_refl: "only i s s"
  by (simp add: only_def)

lemma only_trans: "only i s s' \<Longrightarrow> only i s' s'' \<Longrightarrow> only i s s''"
  unfolding only_def by blast

lemma only_transition: "only i s (snd (transition i froms patch s))"
  using transition_cases[of i froms patch s] by (auto simp: only_def)

lemma only_on_order: "only i s (on_order i f s)"
  using on_order_cases[of i f s] by (auto simp: only_def)

lemma fulfill_orders: "s_orders (fulfill t i s) = s_orders s"
  by (simp add: fulfill_def fulfilmentOf_def issueFulfilment_def split: option.splits)

lemma only_settle: "only (o_id x) s (snd (settle d now x ss rel s))"
proof -
  have paid: "only (o_id x) s (snd (markOrderPaid (o_id x) p s))" for p
    using only_transition by (simp add: markOrderPaid_def Let_def split: prod.splits) (metis snd_conv)
  have "only (o_id x) s (snd (settle_paid now x ss s))"
  proof -
    define p where "p = \<lparr>ps_paidAt = iso_string now, ps_session = non_empty (Some (cs_id ss)), ps_intent = cs_paymentIntentId ss,
       ps_capacitySince = (if o_status x = O_expired \<or> o_createdAt x < pendingSince now then Some (pendingSince now) else None)\<rparr>"
    obtain r s1 where m: "markOrderPaid (o_id x) p s = (r, s1)" by fastforce
    have 1: "only (o_id x) s s1" using paid[of p] m by simp
    have "only (o_id x) s1 (case non_empty (cs_paymentMethodType ss) of Some m \<Rightarrow> setOrderPaymentMethod (o_id x) m s1 | None \<Rightarrow> s1)"
      using only_on_order by (auto simp: only_refl setOrderPaymentMethod_def split: option.splits)
    then have 2: "only (o_id x) s (case non_empty (cs_paymentMethodType ss) of Some m \<Rightarrow> setOrderPaymentMethod (o_id x) m s1 | None \<Rightarrow> s1)"
      by (rule only_trans[OF 1])
    show ?thesis
      using 1 2 by (auto simp: settle_paid_def p_def[symmetric] m Let_def only_def fulfill_orders split: option.splits if_splits)
  qed
  moreover have "only (o_id x) s (snd (markOrderNeedsReview (o_id x) r v s))" for r v
    by (simp add: markOrderNeedsReview_def only_transition)
  moreover have "only (o_id x) s (snd (markOrderExpired (o_id x) s))"
    by (simp add: markOrderExpired_def only_transition)
  ultimately show ?thesis by (auto simp: settle_def only_refl split: option.splits prod.splits)
qed

lemma fold_each_order:
  assumes step: "\<And>x acc. shop_inv now (snd acc) \<Longrightarrow> x \<in> set (s_orders (snd acc)) \<Longrightarrow> P x \<Longrightarrow>
      moves now (snd acc) (snd (f x acc)) \<and> only (o_id x) (snd acc) (snd (f x acc))"
  shows "shop_inv now (snd acc) \<Longrightarrow> distinct (map o_id rows) \<Longrightarrow> set rows \<subseteq> set (s_orders (snd acc)) \<Longrightarrow> list_all P rows \<Longrightarrow>
    moves now (snd acc) (snd (fold f rows acc))"
proof (induction rows arbitrary: acc)
  case (Cons x rows)
  have 1: "moves now (snd acc) (snd (f x acc))" "only (o_id x) (snd acc) (snd (f x acc))"
    using step[OF Cons.prems(1)] Cons.prems by auto
  have "set rows \<subseteq> set (s_orders (snd (f x acc)))"
  proof
    fix y assume y: "y \<in> set rows"
    then have "o_id y \<noteq> o_id x" using Cons.prems(2) by (metis image_eqI distinct.simps(2) list.simps(9) set_map)
    with y Cons.prems(3) 1(2) show "y \<in> set (s_orders (snd (f x acc)))" by (auto simp: only_def)
  qed
  then have "moves now (snd (f x acc)) (snd (fold f rows (f x acc)))"
    using Cons.prems moves_inv[OF 1(1)] by (intro Cons.IH) auto
  then show ?case using moves_trans[OF 1(1)] by simp
qed simp

lemma rows_distinct:
  "distinct (map o_id os) \<Longrightarrow> distinct (map o_id (take n (sort_key k (filter P os)))) \<and> set (take n (sort_key k (filter P os))) \<subseteq> {x \<in> set os. P x}"
proof -
  assume "distinct (map o_id os)"
  then have "distinct (map o_id (filter P os))" by (simp add: distinct_map_filter)
  then have "distinct (map o_id (sort_key k (filter P os)))"
    by (metis distinct_map distinct_sort set_sort)
  moreover have "set (take n (sort_key k (filter P os))) \<subseteq> set (sort_key k (filter P os))" by (rule set_take_subset)
  ultimately show ?thesis by (auto simp: distinct_take take_map[symmetric])
qed

lemma expire_all_moves: "moves now s (s\<lparr>s_orders := map (\<lambda>x. if sessionless_before site t x then x\<lparr>o_status := O_expired\<rparr> else x) (s_orders s)\<rparr>)"
proof -
  define g where "g = (\<lambda>x. if sessionless_before site t x then x\<lparr>o_status := O_expired\<rparr> else x)"
  have "moves now (s\<lparr>s_orders := ys @ zs\<rparr>) (s\<lparr>s_orders := ys @ map g zs\<rparr>)" for ys zs
  proof (induction zs arbitrary: ys)
    case (Cons z zs)
    have "moves now (s\<lparr>s_orders := ys @ z # zs\<rparr>) (s\<lparr>s_orders := ys @ g z # zs\<rparr>)"
    proof (cases "sessionless_before site t z")
      case True
      then have "order_move now (s\<lparr>s_orders := ys @ z # zs\<rparr>) z (g z)"
        by (intro expire) (auto simp: g_def frame_def sessionless_before_def)
      then show ?thesis using order_replaced[of "s\<lparr>s_orders := ys @ z # zs\<rparr>" ys z zs now "g z"] by simp
    qed (simp add: g_def)
    moreover have "moves now (s\<lparr>s_orders := ys @ g z # zs\<rparr>) (s\<lparr>s_orders := ys @ g z # map g zs\<rparr>)"
      using Cons.IH[of "ys @ [g z]"] by simp
    ultimately show ?case using moves_trans by auto
  qed simp
  from this[of "[]" "s_orders s"] show ?thesis by (simp add: g_def)
qed

lemma recheck_moves:
  assumes "shop_inv now (snd acc)" "x \<in> set (s_orders (snd acc))"
  shows "moves now (snd acc) (snd (recheck d now stripe x acc)) \<and> only (o_id x) (snd acc) (snd (recheck d now stripe x acc))"
proof (cases "sk_get stripe (session_of x)")
  case (Inl e)
  then show ?thesis by (simp add: recheck_def Let_def only_refl)
next
  case (Inr ss)
  obtain out s1 where st: "settle d now x ss False (snd acc) = (out, s1)" by fastforce
  have "snd (recheck d now stripe x acc) = s1" by (simp add: recheck_def Inr st Let_def)
  then show ?thesis using settle_moves[OF assms, of d ss False] only_settle[of x "snd acc" d now ss False] st by simp
qed

lemma backfill_moves:
  assumes "shop_inv now (snd acc)" "x \<in> set (s_orders (snd acc))" "o_status x \<in> {O_paid, O_needs_review} \<and> o_session x \<noteq> None"
  shows "moves now (snd acc) (snd (backfill stripe x acc)) \<and> only (o_id x) (snd acc) (snd (backfill stripe x acc))"
proof -
  obtain rep s where acc: "acc = (rep, s)" by fastforce
  have "moves now s (setOrderPaymentIntent (o_id x) v s)" "only (o_id x) s (setOrderPaymentIntent (o_id x) v s)" for v
    using intent_moves[where s = s and x = x and v = v and now = now] shop_inv_orders[of now s] assms acc
    by (simp_all add: setOrderPaymentIntent_def only_on_order)
  then show ?thesis
    by (auto simp: backfill_def acc only_refl split: sum.splits option.splits bool.splits)
qed

lemma reconcile_moves:
  assumes inv: "shop_inv (tick 0) s"
  shows "moves (tick 0) s (snd (reconcile d tick s))"
proof -
  define now where "now = tick 0"
  obtain n s1 where 1: "expireSessionlessPending TICKET_SITE (pendingSince now) s = (n, s1)" by fastforce
  have m1: "moves now s s1"
    using expire_all_moves[of now s TICKET_SITE "pendingSince now"] 1 by (simp add: expireSessionlessPending_def)
  have end': "moves now s (snd (reconcilePass d tick spent s2))" if "moves now s s2" for spent s2
    by (rule moves_trans[OF that reconcilePass_moves])
  show ?thesis
  proof (cases "dp_stripe d")
    case None
    then show ?thesis using end'[OF m1] 1
      by (simp add: reconcile_def Let_def now_def split: prod.splits) (metis snd_conv)
  next
    case (Some stripe)
    define rows where "rows = listPendingWithSession TICKET_SITE (plusMs now (- RECONCILE_MAX_AGE_MS)) (plusMs now (- RECONCILE_MIN_AGE_MS)) RECONCILE_LIMIT s1"
    have inv1: "shop_inv now s1" by (rule moves_inv[OF m1 inv[folded now_def]])
    have d1: "distinct (map o_id (s_orders s1))" using shop_inv_orders[OF inv1] by (simp add: orders_ok_def)
    have r1: "distinct (map o_id rows)" "set rows \<subseteq> set (s_orders s1)"
      using rows_distinct[OF d1] unfolding rows_def listPendingWithSession_def by blast+
    have mf: "moves now s (snd (fold (recheck d now stripe) rows (rep, s1)))" for rep
      by (rule moves_trans[OF m1], rule fold_each_order[where P = "\<lambda>_. True" and acc = "(rep, s1)", simplified])
         (use recheck_moves inv1 r1 in \<open>auto simp: list_all_iff\<close>)
    have mb: "moves now s (snd (fold (backfill stripe) (listMissingPaymentIntent TICKET_SITE (sk_livemode stripe) RECONCILE_LIMIT sa) (rep', sa)))"
      if f: "fold (recheck d now stripe) rows (rep, s1) = (rep', sa)" for rep rep' sa
    proof -
      have ma: "moves now s sa" using mf[of rep] f by simp
      have inva: "shop_inv now sa" by (rule moves_inv[OF ma inv[folded now_def]])
      define miss where "miss = listMissingPaymentIntent TICKET_SITE (sk_livemode stripe) RECONCILE_LIMIT sa"
      have da: "distinct (map o_id (s_orders sa))" using shop_inv_orders[OF inva] by (simp add: orders_ok_def)
      have m2: "distinct (map o_id miss)" "set miss \<subseteq> set (s_orders sa)"
        using rows_distinct[OF da] unfolding miss_def listMissingPaymentIntent_def by blast+
      have "o_status x \<in> {O_paid, O_needs_review} \<and> o_session x \<noteq> None" if "x \<in> set miss" for x
        using that by (auto simp: miss_def listMissingPaymentIntent_def dest!: in_set_takeD split: option.splits)
      then have "moves now sa (snd (fold (backfill stripe) miss (rep', sa)))"
        using fold_each_order[where P = "\<lambda>x. o_status x \<in> {O_paid, O_needs_review} \<and> o_session x \<noteq> None" and acc = "(rep', sa)"
            and f = "backfill stripe" and rows = miss and now = now] backfill_moves inva m2 by (simp add: list_all_iff)
      then show ?thesis using moves_trans[OF ma] by (simp add: miss_def)
    qed
    obtain rep0 where rep0: "rep0 = \<lparr>rs_checked = 0, rs_paid = 0, rs_needsReview = 0, rs_expired = 0, rs_unchanged = 0, rs_ignored = 0,
                 rs_errors = 0, rs_sessionlessExpired = n, rs_backfilled = 0, rs_delivery =
        \<lparr>ds_fulfilled = 0, ds_mailSent = 0, ds_mailRetried = 0, ds_mailFailed = 0, ds_mailBacklog = 0\<rparr>\<rparr>" by simp
    obtain rep1 sa where a: "fold (recheck d now stripe) rows (rep0, s1) = (rep1, sa)" by fastforce
    obtain rep2 sb where b: "fold (backfill stripe) (listMissingPaymentIntent TICKET_SITE (sk_livemode stripe) RECONCILE_LIMIT sa) (rep1, sa) = (rep2, sb)"
      by fastforce
    have "moves now s sb" using mb[OF a] b by simp
    from end'[OF this] show ?thesis
      using 1 a b by (simp add: reconcile_def Some Let_def now_def[symmetric] rows_def[symmetric] rep0[symmetric] split: prod.splits)
        (metis snd_conv)
  qed
qed

end
