(* ===== verification/Ticket_Safety.thy ===== *)
theory Ticket_Safety
  imports Ticket_Refine
begin

text \<open>
  Checkout and the staff's methods as moves, the runs of the whole shop, and the safety properties of
  every run: no seat is sold twice, coupons and senders stay within their limits, orders only take the
  transitions of their life cycle, and a refunded order has no valid ticket.
\<close>

section \<open>What a checkout request can hold\<close>

definition items_ok :: "checkout_item list \<Rightarrow> bool" where
  "items_ok items \<longleftrightarrow> distinct (map ct_type items) \<and> list_all (\<lambda>i. 0 < ct_qty i \<and> ct_qty i \<le> ORDER_QTY_MAX) items"

lemma parse_item_ok: "items_ok (fst acc) \<Longrightarrow> items_ok (fst (parse_item r acc))"
  by (auto simp: parse_item_def items_ok_def Let_def list_ex_iff image_iff split: prod.splits option.splits)

lemma parse_items_ok: "items_ok (fst (parse_items b))"
proof -
  have step: "items_ok (fst (fold parse_item rs acc))" if "items_ok (fst acc)" for rs acc
    using that
  proof (induction rs arbitrary: acc)
    case (Cons r rs)
    show ?case unfolding fold_simps(2) by (rule Cons.IH) (rule parse_item_ok[OF Cons.prems])
  qed simp
  define bad where "bad = (if js_items (js_get b ''items'') = [] then [(''items'', ''required'')] else [])"
  obtain items es where "fold parse_item (js_items (js_get b ''items'')) ([], bad) = (items, es)" by fastforce
  moreover have "items_ok (fst (fold parse_item (js_items (js_get b ''items'')) ([], bad)))"
    by (rule step) (simp add: items_ok_def)
  ultimately show ?thesis by (simp add: parse_items_def bad_def[symmetric] Let_def)
qed

lemma parseCheckout_items: "parseCheckout url b fs = Inr input \<Longrightarrow> items_ok (co_items input)"
  using parse_items_ok[of b] by (auto simp: parseCheckout_def Let_def split: prod.splits if_splits)

lemma last_type_in: "last_type i ts = Some t \<Longrightarrow> t \<in> set ts \<and> tt_id t = i"
  unfolding last_type_def by (drule find_Some_in) auto

lemma order_line_Inr:
  "order_line types coupon i = Inr l \<Longrightarrow> oi_type l = ct_type i \<and> oi_qty l = ct_qty i \<and> oi_type l \<in> tt_id ` set types \<and> (coupon \<longrightarrow> oi_price l = 0)"
proof -
  assume l: "order_line types coupon i = Inr l"
  then obtain t where t: "last_type (ct_type i) types = Some t" by (auto simp: order_line_def split: option.splits)
  have "ct_type i \<in> tt_id ` set types" using last_type_in[OF t] by (metis image_eqI)
  then show ?thesis using l t last_type_in[OF t] by (auto simp: order_line_def split: if_splits)
qed

lemma order_lines_ok:
  assumes "order_lines types coupon items = ([], ls)"
  shows "map oi_type ls = map ct_type items" "map oi_qty ls = map ct_qty items" "set (map oi_type ls) \<subseteq> tt_id ` set types"
    "coupon \<Longrightarrow> sum_by (\<lambda>i. oi_price i * oi_qty i) ls = 0"
proof -
  have "map oi_type ls = map ct_type items \<and> map oi_qty ls = map ct_qty items \<and> set (map oi_type ls) \<subseteq> tt_id ` set types
      \<and> (coupon \<longrightarrow> sum_by (\<lambda>i. oi_price i * oi_qty i) ls = 0)"
    using assms
  proof (induction items arbitrary: ls)
    case (Cons i items)
    show ?case
    proof (cases "order_line types coupon i")
      case (Inl e)
      then show ?thesis using Cons.prems by (simp add: order_lines_def Let_def)
    next
      case (Inr l)
      then obtain ls' where "order_lines types coupon items = ([], ls')" "ls = l # ls'"
        using Cons.prems by (auto simp: order_lines_def Let_def)
      note ih = Cons.IH[OF this(1)] and l = order_line_Inr[OF Inr]
      have "oi_type l \<in> tt_id ` set types" using l by blast
      then have "set (map oi_type ls) \<subseteq> tt_id ` set types" using conjunct1[OF conjunct2[OF conjunct2[OF ih]]] \<open>ls = l # ls'\<close> by simp
      moreover have "map oi_type ls = map ct_type (i # items)" "map oi_qty ls = map ct_qty (i # items)"
        "coupon \<Longrightarrow> sum_by (\<lambda>i. oi_price i * oi_qty i) ls = 0" using ih l \<open>ls = l # ls'\<close> by simp_all
      ultimately show ?thesis by blast
    qed
  qed (simp add: order_lines_def Let_def)
  then show "map oi_type ls = map ct_type items" "map oi_qty ls = map ct_qty items" "set (map oi_type ls) \<subseteq> tt_id ` set types"
    "coupon \<Longrightarrow> sum_by (\<lambda>i. oi_price i * oi_qty i) ls = 0" by blast+
qed

lemma order_row_wf:
  assumes "items_ok items" "order_lines types coupon items = ([], ls)"
  shows "well_formed (order_row i now input ls cp pv)"
proof -
  have "\<forall>l\<in>set ls. 0 < oi_qty l"
  proof
    fix l assume "l \<in> set ls"
    then have "oi_qty l \<in> set (map oi_qty ls)" by simp
    then obtain j where "j \<in> set items" "oi_qty l = ct_qty j" unfolding order_lines_ok(2)[OF assms(2)] by auto
    then show "0 < oi_qty l" using assms(1) by (simp add: items_ok_def list_all_iff)
  qed
  then show ?thesis
    using assms(1) order_lines_ok(1)[OF assms(2)] by (simp add: well_formed_def order_row_def Let_def items_ok_def)
qed

lemma place_order_moves:
  assumes wf: "well_formed row" "o_id row \<notin> o_id ` set (s_orders s)"
    "o_status row = (if o_amount row = 0 then O_paid else O_pending)" "o_intent row = None" "o_session row = None"
    "o_couponId row \<noteq> None \<longrightarrow> o_amount row = 0"
    "set (map oi_type (o_items row)) \<subseteq> tt_id ` set (listTicketTypes TICKET_SITE s)"
    "o_amount row = 0 \<or> (case o_clientKey row of None \<Rightarrow> True | Some k \<Rightarrow>
      heldPendingByClient TICKET_SITE k (pendingSince now) s + o_quantity row \<le> PER_CLIENT_HELD_MAX)"
  shows "moves now s (snd (place_order d now input row (listTicketTypes TICKET_SITE s) pv s))"
proof -
  obtain r s1 where ins: "insertOrderIfAvailable row (item_capacities (listTicketTypes TICKET_SITE s) (o_items row)) (pendingSince now) s = (r, s1)"
    by fastforce
  show ?thesis
  proof (cases r)
    case Insert_ok
    note ins = ins[unfolded Insert_ok]
    have s1: "s1 = s\<lparr>s_orders := s_orders s @ [row]\<rparr>" by (rule insert_ok(1)[OF ins])
    have 1: "moves now s s1"
      by (rule moves_one, rule sell[OF _ wf(1-6) ins wf(7,8)]) (simp add: s1 same_shop_def)
    define s2 where "s2 = (if o_preview row then markOrderPreview (o_id row) s1 else s1)"
    define s3 where "s3 = (if o_amount row = 0 then fulfill now (o_id row) s2 else s2)"
    have "moves now s1 s2" by (simp add: s2_def preview_moves)
    then have "moves now s s2" by (rule moves_trans[OF 1])
    moreover have "moves now s2 s3" by (simp add: s3_def fulfill_moves)
    ultimately have 3: "moves now s s3" by (rule moves_trans)
    have cp: "o_couponId x = None" if c: "o_amount row \<noteq> 0" "x \<in> set (s_orders s3)" "o_id x = o_id row" for x
    proof -
      have "(o_id x, o_couponId x) \<in> (\<lambda>y. (o_id y, o_couponId y)) ` set (s_orders s1)"
      proof (cases "s2 = s1")
        case True
        then show ?thesis using c(1,2) by (auto simp: s3_def)
      next
        case False
        have "map (\<lambda>y. (o_id y, o_couponId y)) (s_orders s2) = map (\<lambda>y. (o_id y, o_couponId y)) (s_orders s1)"
          unfolding s2_def by (auto simp: markOrderPreview_def on_order_def intro!: map_upd_first)
        then have "(\<lambda>y. (o_id y, o_couponId y)) ` set (s_orders s2) = (\<lambda>y. (o_id y, o_couponId y)) ` set (s_orders s1)"
          by (metis set_map)
        moreover have "s3 = s2" using c(1) by (simp add: s3_def)
        ultimately show ?thesis using c(2) by (metis (mono_tags, lifting) image_eqI)
      qed
      then obtain y where "y \<in> set (s_orders s1)" "o_id y = o_id row" "o_couponId x = o_couponId y" using c(3) by auto
      then have "y = row" using wf(2) by (auto simp: s1) (metis image_eqI)
      then show ?thesis using \<open>o_couponId x = o_couponId y\<close> wf(6) c(1) by simp
    qed
    have fin: "moves now s3 (snd (open_session d now input row pv s3))"
    proof (cases "o_amount row = 0")
      case True
      then show ?thesis by (simp add: open_session_def)
    next
      case False
      then have "moves now s3 (setOrderSession (o_id row) v s3)" for v using cp by (intro session_moves) blast
      then show ?thesis using False expire_moves by (auto simp: open_session_def split: option.splits sum.splits)
    qed
    have "place_order d now input row (listTicketTypes TICKET_SITE s) pv s = open_session d now input row pv s3"
      by (simp add: place_order_def ins s2_def s3_def Let_def)
    then show ?thesis using moves_trans[OF 3 fin] by simp
  next
    case (Sold_out t)
    then have "s1 = s" using ins by (auto simp: insertOrderIfAvailable_def Let_def split: if_splits option.splits)
    then show ?thesis using Sold_out ins by (simp add: place_order_def)
  next
    case Coupon_used_up
    then have "s1 = s" using ins by (auto simp: insertOrderIfAvailable_def Let_def split: if_splits option.splits)
    then show ?thesis using Coupon_used_up ins by (simp add: place_order_def)
  qed
qed

text \<open>A checkout is refused and changes nothing, or it places the order it has priced itself.\<close>

lemma checkout_cases:
  obtains (refused) e where "checkout d now newId body s = (Inl e, s)"
  | (placed) input coupon ls preview pv where
      "checkout d now newId body s = place_order d now input (order_row newId (iso_string now) input ls coupon preview) (listTicketTypes TICKET_SITE s) pv s"
      "sales_open s \<or> preview"
      "\<exists>fs. parseCheckout (dp_url d) body fs = Inr input"
      "coupon = None \<longleftrightarrow> co_couponCode input = None"
      "\<forall>c. coupon = Some c \<longrightarrow> usableCoupon (the (co_couponCode input)) (listTicketTypes TICKET_SITE s) (iso_string now) s = Inr c"
      "order_lines (listTicketTypes TICKET_SITE s) (coupon \<noteq> None) (co_items input) = ([], ls)"
      "\<not> (o_amount (order_row newId (iso_string now) input ls coupon preview) \<noteq> 0 \<and> dp_stripe d = None)"
      "o_amount (order_row newId (iso_string now) input ls coupon preview) = 0 \<or> (case co_clientKey input of None \<Rightarrow> True | Some k \<Rightarrow>
         heldPendingByClient TICKET_SITE k (pendingSince now) s + o_quantity (order_row newId (iso_string now) input ls coupon preview) \<le> PER_CLIENT_HELD_MAX)"
proof -
  define token where "token = js_get body ''previewToken''"
  define preview where "preview = (\<not> sales_open s \<and> token \<noteq> Undef \<and> previewValid d now token)"
  define fs where "fs = (case getTicketSettings TICKET_SITE s of Some x \<Rightarrow> st_fields x | None \<Rightarrow> [])"
  define types where "types = listTicketTypes TICKET_SITE s"
  define pv where "pv = (if preview then ''&tickets_preview='' @ dp_encode d (js_str_or [] token) else [])"
  define limit where "limit = (\<lambda>(input :: checkout_input) row. case co_clientKey input of None \<Rightarrow> False | Some k \<Rightarrow> PER_CLIENT_HELD_MAX
      < heldPendingByClient TICKET_SITE k (pendingSince now) s + o_quantity (row :: ticket_order))"
  define plan where "plan = try_bind (parseCheckout (dp_url d) body fs) (\<lambda>input.
                try_bind (case co_couponCode input of
                            None \<Rightarrow> Inr None
                          | Some code \<Rightarrow> try_bind (usableCoupon code types (iso_string now) s) (\<lambda>c. Inr (Some c))) (\<lambda>coupon.
                if (case coupon of None \<Rightarrow> False
                    | Some c \<Rightarrow> length (co_items input) \<noteq> 1 \<or> ct_type (hd (co_items input)) \<noteq> cp_type c)
                then Inl (validationFailed [(''couponCode'', ''not_applicable'')])
                else let (bad, items) = order_lines types (coupon \<noteq> None) (co_items input);
                         row = order_row newId (iso_string now) input items coupon preview
                     in if bad \<noteq> [] then Inl (validationFailed bad)
                        else if o_amount row \<noteq> 0 \<and> dp_stripe d = None then Inl paymentNotConfigured
                        else if \<not> preview \<and> \<not> canAcceptOrder d now (pendingSince now) s then Inl (rateLimited 60)
                        else if o_amount row \<noteq> 0 \<and> limit input row then Inl (rateLimited 60)
                        else Inr (input, row)))"
  have c: "checkout d now newId body s =
      (if \<not> sales_open s \<and> \<not> preview then (Inl (notFound ''lp_tickets'' None), s)
       else case plan of Inl e \<Rightarrow> (Inl e, s) | Inr (input, row) \<Rightarrow> place_order d now input row types pv s)"
    by (simp only: checkout_def token_def preview_def fs_def types_def pv_def limit_def plan_def Let_def)
  show ?thesis
  proof (cases "plan")
    case (Inl e)
    then show ?thesis using refused[of "if \<not> sales_open s \<and> \<not> preview then notFound ''lp_tickets'' None else e"] by (simp add: c)
  next
    case (Inr r)
    obtain input row where r: "r = (input, row)" by fastforce
    obtain coupon ls where p: "parseCheckout (dp_url d) body fs = Inr input"
      "order_lines types (coupon \<noteq> None) (co_items input) = ([], ls)"
      "row = order_row newId (iso_string now) input ls coupon preview" "\<not> (o_amount row \<noteq> 0 \<and> limit input row)"
      "\<not> (o_amount row \<noteq> 0 \<and> dp_stripe d = None)"
      "(case co_couponCode input of None \<Rightarrow> Inr None
          | Some code \<Rightarrow> try_bind (usableCoupon code types (iso_string now) s) (\<lambda>c. Inr (Some c))) = Inr coupon"
      using Inr unfolding r plan_def by (auto simp: try_bind_Inr Let_def split: if_splits prod.splits)
    show ?thesis
    proof (cases "\<not> sales_open s \<and> \<not> preview")
      case True
      then show ?thesis using refused by (simp add: c)
    next
      case False
      show ?thesis
      proof (rule placed[where input = input and coupon = coupon and ls = ls and preview = preview and pv = pv])
        show "checkout d now newId body s = place_order d now input (order_row newId (iso_string now) input ls coupon preview) (listTicketTypes TICKET_SITE s) pv s"
          by (simp only: c if_not_P[OF False] Inr r p(3) sum.case prod.case types_def)
        show "o_amount (order_row newId (iso_string now) input ls coupon preview) = 0 \<or> (case co_clientKey input of None \<Rightarrow> True | Some k \<Rightarrow>
            heldPendingByClient TICKET_SITE k (pendingSince now) s + o_quantity (order_row newId (iso_string now) input ls coupon preview) \<le> PER_CLIENT_HELD_MAX)"
          using p(4) unfolding p(3) by (auto simp: limit_def split: option.splits)
      qed (use False p in \<open>auto simp: types_def try_bind_Inr split: option.splits\<close>)
    qed
  qed
qed

lemma checkout_moves:
  assumes new: "newId \<notin> o_id ` set (s_orders s)"
  shows "moves now s (snd (checkout d now newId body s))"
proof (cases rule: checkout_cases[of d now newId body s])
  case (refused e)
  then show ?thesis by simp
next
  case (placed input coupon ls preview pv)
  define row where "row = order_row newId (iso_string now) input ls coupon preview"
  obtain fs where fs: "parseCheckout (dp_url d) body fs = Inr input" using placed(3) by blast
  show ?thesis
    unfolding placed(1) row_def[symmetric]
  proof (rule place_order_moves)
    show "well_formed row" unfolding row_def by (rule order_row_wf[OF parseCheckout_items[OF fs] placed(6)])
    show "set (map oi_type (o_items row)) \<subseteq> tt_id ` set (listTicketTypes TICKET_SITE s)"
      using order_lines_ok(3)[OF placed(6)] by (simp add: row_def order_row_def Let_def)
    show "o_couponId row \<noteq> None \<longrightarrow> o_amount row = 0"
      using order_lines_ok(4)[OF placed(6)] by (simp add: row_def order_row_def Let_def)
    have "o_clientKey row = co_clientKey input" by (simp add: row_def order_row_def Let_def)
    then show "o_amount row = 0 \<or> (case o_clientKey row of None \<Rightarrow> True | Some k \<Rightarrow>
        heldPendingByClient TICKET_SITE k (pendingSince now) s + o_quantity row \<le> PER_CLIENT_HELD_MAX)"
      using placed(8) by (simp only: row_def)
  qed (use new in \<open>simp_all add: row_def order_row_def Let_def\<close>)
qed

section \<open>The staff's methods\<close>

lemma parse_capacity:
  "parseTicketTypeInput b partial = Inr p \<Longrightarrow> tp_capacity p = Some (Some cap) \<Longrightarrow> 1 \<le> cap"
  by (auto simp: parseTicketTypeInput_def check_capacity_def bad_field_def Let_def split: prod.splits if_splits option.splits)

lemma createType_moves:
  assumes "newId \<notin> tt_id ` set (s_types s)"
  shows "moves now s (snd (createType now newId body s))"
proof (cases "parseTicketTypeInput body False")
  case (Inr p)
  define row where "row = patched p (blank_type newId (iso_string now)
      (fold (\<lambda>t m. max m (tt_sortOrder t + 1)) (listTicketTypes TICKET_SITE s) 0))"
  have e: "snd (createType now newId body s) = s\<lparr>s_types := s_types s @ [row]\<rparr>"
    by (simp add: createType_def Inr row_def insertTicketType_def Let_def)
  have "shop_move now s (s\<lparr>s_types := s_types s @ [row]\<rparr>)"
    by (rule new_type[where t = row])
       (use assms parse_capacity[OF Inr] in \<open>auto simp: row_def patched_def blank_type_def split: option.splits\<close>)
  then show ?thesis unfolding e by (rule moves_one)
qed (simp add: createType_def)

definition capacities_kept :: "ms \<Rightarrow> store \<Rightarrow> store \<Rightarrow> bool" where
  \<comment> \<open>no capacity is set below the seats that are firm already\<close>
  "capacities_kept now s s' \<longleftrightarrow> (\<forall>t\<in>set (s_types s'). \<forall>cap. tt_capacity t = Some cap \<longrightarrow> firm_seats now (tt_id t) s \<le> cap)"

lemma patchType_moves:
  assumes "capacities_kept now s (snd (patchType now i body s))"
  shows "moves now s (snd (patchType now i body s))"
proof (cases "parseTicketTypeInput body True")
  case (Inr p)
  show ?thesis
  proof (cases "getTicketType TICKET_SITE i s")
    case (Some cur)
    define row where "row = (patched p cur)\<lparr>tt_updatedAt := iso_string now\<rparr>"
    have row: "tt_site row = tt_site cur" "tt_id row = tt_id cur" by (simp_all add: row_def patched_def)
    have cur: "tt_site cur = TICKET_SITE" "tt_id cur = i" using Some by (auto simp: getTicketType_def dest: find_Some_in)
    have e: "snd (patchType now i body s) = updateTicketType row s"
      by (simp add: patchType_def Inr Some row_def Let_def)
    have "find (\<lambda>t. tt_site t = tt_site row \<and> tt_id t = tt_id row) (s_types s) = Some cur"
      using Some cur by (simp add: getTicketType_def row)
    from upd_first_split[OF this, of "\<lambda>_. row"] obtain ys zs where t: "s_types s = ys @ cur # zs"
      "s_types (updateTicketType row s) = ys @ row # zs" by (auto simp: updateTicketType_def)
    have "shop_move now s (updateTicketType row s)"
      by (rule change_type[OF _ _ _ t row])
         (use assms[unfolded e] t row in \<open>auto simp: updateTicketType_def capacities_kept_def\<close>)
    then show ?thesis unfolding e by (rule moves_one)
  qed (simp add: patchType_def Inr)
qed (simp add: patchType_def)

lemma try_coupons_moves:
  assumes "0 \<le> ci_maxUses input"
  shows "(\<forall>e\<in>set draws. fst e \<notin> cp_id ` set (s_coupons s)) \<Longrightarrow> moves now s (snd (try_coupons draws input user t s))"
proof (induction draws arbitrary: s)
  case (Cons e draws)
  obtain i code where e: "e = (i, code)" by fastforce
  define row where "row = new_coupon i code input user t"
  show ?case
  proof (cases "\<exists>c\<in>set (s_coupons s). cp_site c = cp_site row \<and> cp_code c = cp_code row")
    case True
    then have "insertCoupon row s = (False, s)" by (simp add: insertCoupon_def)
    then show ?thesis using Cons by (simp add: e row_def[symmetric] Let_def)
  next
    case False
    then have ins: "insertCoupon row s = (True, s\<lparr>s_coupons := s_coupons s @ [row]\<rparr>)" by (simp add: insertCoupon_def)
    have "shop_move now s (s\<lparr>s_coupons := s_coupons s @ [row]\<rparr>)"
      by (rule shop_move.new_coupon[where c = row]) (use Cons.prems assms in \<open>auto simp: e row_def new_coupon_def\<close>)
    then show ?thesis using ins moves_one by (simp add: e row_def[symmetric] Let_def)
  qed
qed simp

lemma parse_maxUses: "parseCouponInput b now = Inr input \<Longrightarrow> 1 \<le> ci_maxUses input"
  by (auto simp: parseCouponInput_def check_maxUses_def bad_field_def Let_def split: prod.splits option.splits if_splits)

lemma createCoupon_moves:
  assumes "\<forall>e\<in>set draws. fst e \<notin> cp_id ` set (s_coupons s)"
  shows "moves now s (snd (createCoupon t user draws body s))"
proof (cases "parseCouponInput body (iso_string t)")
  case (Inr input)
  have "moves now s (snd (try_coupons (take 3 draws) input user (iso_string t) s))"
    by (rule try_coupons_moves) (use parse_maxUses[OF Inr] assms in \<open>auto dest: in_set_takeD\<close>)
  then show ?thesis by (simp add: createCoupon_def Inr)
qed (simp add: createCoupon_def)

lemma toggleCoupon_moves: "moves now s (snd (toggleCoupon t i body s))"
proof (cases "js_bool (js_get body ''active'')")
  case (Some active)
  obtain b s1 where set: "setCouponActive TICKET_SITE i active (iso_string t) s = (b, s1)" by fastforce
  have "moves now s s1"
  proof (cases "find (\<lambda>c. cp_site c = TICKET_SITE \<and> cp_id c = i) (s_coupons s)")
    case None
    then show ?thesis using set by (simp add: setCouponActive_def)
  next
    case (Some c)
    define f where "f = (\<lambda>c :: coupon. c\<lparr>cp_active := active, cp_updatedAt := iso_string t\<rparr>)"
    have "s1 = s\<lparr>s_coupons := upd_first (\<lambda>c. cp_site c = TICKET_SITE \<and> cp_id c = i) f (s_coupons s)\<rparr>"
      using set Some by (simp add: setCouponActive_def f_def)
    with upd_first_split[OF Some, of f] obtain ys zs where "s_coupons s = ys @ c # zs" "s1 = s\<lparr>s_coupons := ys @ f c # zs\<rparr>" by auto
    then show ?thesis
      by (intro moves_one change_coupon[where c = c and c' = "f c" and ys = ys and zs = zs]) (simp_all add: f_def)
  qed
  then show ?thesis by (simp add: toggleCoupon_def Some set)
qed (simp add: toggleCoupon_def)

section \<open>Runs of the shop\<close>

text \<open>
  The steps of the shop: the requests of buyers and staff, the webhooks and passes, and time going by.
  The outside world \<open>d\<close> is arbitrary in every step, so Stripe, the mail provider and the platform may
  answer anything at any time. Ids are fresh when they are drawn; a human approves only an order that
  fits, and no capacity is set below the seats that are firm already.
\<close>

inductive shop_step :: "ms \<times> store \<Rightarrow> ms \<times> store \<Rightarrow> bool" where
  wait: "now \<le> now' \<Longrightarrow> good_time now' \<Longrightarrow> shop_step (now, s) (now', s)"
| checkout: "newId \<notin> o_id ` set (s_orders s) \<Longrightarrow> shop_step (now, s) (now, snd (checkout d now newId body s))"
| confirm: "shop_step (now, s) (now, snd (confirm d now body s))"
| webhook: "shop_step (now, s) (now, snd (webhook d now rawBody signature s))"
| reconcile: "tick 0 = now \<Longrightarrow> shop_step (now, s) (now, snd (reconcile d tick s))"
| sendSoon: "shop_step (now, s) (now, sendSoon d tick i s)"
| drainMail: "shop_step (now, s) (now, snd (drainMail d tick s))"
| approve: "\<not> oversold_by i (Some (pendingSince now)) s \<Longrightarrow> shop_step (now, s) (now, snd (approve now user i s))"
| createType: "newId \<notin> tt_id ` set (s_types s) \<Longrightarrow> shop_step (now, s) (now, snd (createType now newId body s))"
| patchType: "capacities_kept now s (snd (patchType now i body s)) \<Longrightarrow> shop_step (now, s) (now, snd (patchType now i body s))"
| createCoupon: "\<forall>e\<in>set draws. fst e \<notin> cp_id ` set (s_coupons s) \<Longrightarrow>
    shop_step (now, s) (now, snd (createCoupon now user draws body s))"
| toggleCoupon: "shop_step (now, s) (now, snd (toggleCoupon now i body s))"
| setEnabled: "shop_step (now, s) (now, snd (setEnabled d now user body s))"
| setCta: "shop_step (now, s) (now, snd (setCta d now user body s))"
| setRelease: "shop_step (now, s) (now, snd (setRelease now user body s))"
| setFields: "shop_step (now, s) (now, snd (setFields d now user body s))"

definition empty_shop :: store where
  "empty_shop = \<lparr>s_settings = Map.empty, s_types = [], s_orders = [], s_coupons = [], s_tickets = [], s_mails = [], s_jobs = Map.empty\<rparr>"

definition shop_runs :: "ms \<times> store \<Rightarrow> ms \<times> store \<Rightarrow> bool" where
  "shop_runs = shop_step\<^sup>*\<^sup>*"

lemma shop_step_moves:
  assumes "shop_step (now, s) (now', s')" "shop_inv now s"
  shows "now = now' \<and> moves now s s' \<or> s' = s \<and> now \<le> now' \<and> good_time now'"
  using assms(1)
proof cases
  case wait
  then show ?thesis by simp
next
  case (setEnabled d user body)
  then show ?thesis by (simp add: setEnabled_def Let_def split: option.splits)
next
  case (setCta d user body)
  then show ?thesis by (simp add: setCta_def Let_def split: option.splits)
next
  case (setRelease user body)
  then show ?thesis by (simp add: setRelease_def Let_def split: option.splits)
next
  case (setFields d user body)
  then show ?thesis by (simp add: setFields_def Let_def split: sum.splits)
next
  case (drainMail d tick)
  then show ?thesis using drainPass_moves by (simp add: drainMail_def)
next
  case (reconcile tick d)
  then show ?thesis using reconcile_moves[of tick s d] assms(2) by simp
qed (use assms(2) checkout_moves confirm_moves webhook_moves sendSoon_moves approve_service_moves createType_moves
      patchType_moves createCoupon_moves toggleCoupon_moves in simp_all)

lemma shop_step_inv:
  assumes "shop_step (now, s) (now', s')" "shop_inv now s" "good_time now"
  shows "shop_inv now' s' \<and> good_time now'"
  using shop_step_moves[OF assms(1,2)] moves_inv[OF _ assms(2)] shop_inv_time[OF assms(2,3)] assms(2,3) by blast

lemma shop_runs_inv:
  assumes "shop_runs (now, s) (now', s')" "shop_inv now s" "good_time now"
  shows "shop_inv now' s' \<and> good_time now'"
proof -
  have "shop_inv (fst w) (snd w) \<and> good_time (fst w)" if "shop_runs (now, s) w" for w
    using that unfolding shop_runs_def
  proof (induction rule: rtranclp_induct)
    case (step y z)
    then show ?case using shop_step_inv[of "fst y" "snd y" "fst z" "snd z"] by simp
  qed (use assms(2,3) in simp)
  from this[OF assms(1)] show ?thesis by simp
qed

lemma empty_shop_inv: "shop_inv now empty_shop"
  by (simp add: shop_inv_def empty_shop_def orders_ok_def types_ok_def seats_ok_def coupons_ok_def clients_ok_def
      heldPendingByClient_def void_ok_def PER_CLIENT_HELD_MAX_def)

lemma reachable_inv: "good_time t0 \<Longrightarrow> shop_runs (t0, empty_shop) (now, s) \<Longrightarrow> shop_inv now s"
  using shop_runs_inv empty_shop_inv by blast

end
