(* ===== verification/Ticket_Guarantees.thy ===== *)
theory Ticket_Guarantees
  imports Ticket_Safety
begin

text \<open>
  What holds in every state the ticket shop can reach, whatever its buyers, its staff, Stripe, the mail
  provider and the clock do: seats, coupons, senders, the life cycle of an order, and the tickets of a
  refunded order. A concrete run shows that the hypotheses can hold.
\<close>

section \<open>The life cycle of an order\<close>

fun may_become :: "order_status \<Rightarrow> order_status \<Rightarrow> bool" where
  \<comment> \<open>in any number of transitions\<close>
  "may_become O_pending _ = True"
| "may_become O_expired st = (st \<noteq> O_pending)"
| "may_become O_paid st = (st \<notin> {O_pending, O_expired})"
| "may_become O_needs_review st = (st \<notin> {O_pending, O_expired})"
| "may_become O_refunded st = (st = O_refunded)"

lemma may_become_refl [simp]: "may_become st st"
  by (cases st) auto

lemma may_become_trans: "may_become a b \<Longrightarrow> may_become b c \<Longrightarrow> may_become a c"
  by (cases a; cases b; cases c) auto

definition lives_on :: "store \<Rightarrow> store \<Rightarrow> bool" where
  \<comment> \<open>every order is still there, with the same terms, in a status its old one leads to\<close>
  "lives_on s s' \<longleftrightarrow> (\<forall>x\<in>set (s_orders s). \<exists>x'\<in>set (s_orders s'). frame x' = frame x \<and> may_become (o_status x) (o_status x'))"

lemma lives_on_refl: "lives_on s s"
  by (auto simp: lives_on_def)

lemma lives_on_trans: "lives_on s s' \<Longrightarrow> lives_on s' s'' \<Longrightarrow> lives_on s s''"
  unfolding lives_on_def by (metis may_become_trans)

lemma lives_on_same: "s_orders s' = s_orders s \<Longrightarrow> lives_on s s'"
  by (auto simp: lives_on_def)

lemma lives_on_replace:
  assumes "s_orders s = ys @ x # zs" "s_orders s' = ys @ x' # zs" "frame x' = frame x" "may_become (o_status x) (o_status x')"
  shows "lives_on s s'"
  unfolding lives_on_def assms(1,2) using assms(3,4) by force

lemma order_move_status: "order_move now s x x' \<Longrightarrow> may_become (o_status x) (o_status x')"
  by (induction rule: order_move.induct) auto

lemma shop_move_lives_on: "shop_move now s s' \<Longrightarrow> lives_on s s'"
proof (induction rule: shop_move.induct)
  case (order s s' ys x zs x')
  then show ?case by (metis lives_on_replace order_move_frame order_move_status)
next
  case (refund s s' ys x zs x' t0)
  then have "may_become (o_status x) (o_status x')" by auto
  with refund show ?case by (metis lives_on_replace)
next
  case (sell s s' x)
  then show ?case using insert_ok(1)[OF sell(8)] by (auto simp: lives_on_def)
qed (rule lives_on_same; simp)+

lemma moves_live_on: "moves now s s' \<Longrightarrow> lives_on s s'"
  unfolding moves_def
  by (induction rule: rtranclp_induct) (auto intro: lives_on_refl lives_on_trans shop_move_lives_on)

lemma shop_runs_live_on:
  assumes "shop_runs (now, s) (now', s')" "shop_inv now s" "good_time now"
  shows "lives_on s s'"
proof -
  have "lives_on s (snd w) \<and> shop_inv (fst w) (snd w) \<and> good_time (fst w)" if "shop_runs (now, s) w" for w
    using that unfolding shop_runs_def
  proof (induction rule: rtranclp_induct)
    case (step y z)
    have 1: "shop_step (fst y, snd y) (fst z, snd z)" using step by simp
    have "lives_on (snd y) (snd z)"
      using shop_step_moves[OF 1] step moves_live_on lives_on_refl by auto
    then show ?case using shop_step_inv[OF 1] step lives_on_trans by blast
  qed (use assms in \<open>simp add: lives_on_refl\<close>)
  from this[OF assms(1)] show ?thesis by simp
qed

section \<open>One ticket per seat\<close>

definition seat_id :: "ticket_order \<Rightarrow> nat \<Rightarrow> string" where
  "seat_id x n = o_id x @ ''-'' @ nat_string (n + 1)"

definition seat_ids :: "ticket_order \<Rightarrow> string set" where
  "seat_ids x = seat_id x ` {..<length (order_seats x)}"

definition tickets_ok :: "store \<Rightarrow> bool" where
  "tickets_ok s \<longleftrightarrow> distinct (map tk_id (s_tickets s))
     \<and> (\<forall>t\<in>set (s_tickets s). \<exists>x\<in>set (s_orders s). tk_order t = o_id x \<and> tk_id t \<in> seat_ids x)"

lemma seat_ids_frame: "frame x' = frame x \<Longrightarrow> seat_ids x' = seat_ids x"
  by (simp add: seat_ids_def seat_id_def order_seats_def frame_def)

lemma nat_string_inj: "nat_string m = nat_string n \<Longrightarrow> m = n"
  by (metis digits_int_nat_string of_nat_eq_iff)

lemma seat_id_inj:
  assumes "seat_id x m = seat_id y n"
  shows "o_id x = o_id y \<and> m = n"
proof -
  have h: "CHR ''-'' \<notin> set (nat_string k)" for k
    using nat_string_digits[of "CHR ''-''" k] by (auto simp: char_between_def)
  have tw: "takeWhile (\<lambda>c. c \<noteq> CHR ''-'') (rev (seat_id z k)) = rev (nat_string (k + 1))" for z k
  proof -
    have "\<forall>c\<in>set (rev (nat_string (k + 1))). c \<noteq> CHR ''-''" using h[of "k + 1"] by auto
    then have "takeWhile (\<lambda>c. c \<noteq> CHR ''-'') (rev (nat_string (k + 1))) = rev (nat_string (k + 1))"
      by (simp only: takeWhile_eq_all_conv)
    then show ?thesis by (simp add: seat_id_def takeWhile_tail)
  qed
  have "rev (nat_string (m + 1)) = rev (nat_string (n + 1))" using tw[of x m] tw[of y n] assms by simp
  then have "m = n" using nat_string_inj by fastforce
  then show ?thesis using assms by (simp add: seat_id_def)
qed

lemma length_order_seats: "well_formed x \<Longrightarrow> int (length (order_seats x)) = o_quantity x"
proof -
  assume wf: "well_formed x"
  have "int (length (concat (map (\<lambda>i. replicate (nat (oi_qty i)) i) is))) = sum_by oi_qty is" if "\<forall>i\<in>set is. 0 < oi_qty i" for "is"
    using that by (induction "is") auto
  from this[of "o_items x"] wf show ?thesis by (simp add: well_formed_def order_seats_def)
qed

lemma seat_tickets_ids: "map tk_id (seat_tickets x t0) = map (seat_id x) [0..<length (order_seats x)]"
  by (rule nth_equalityI) (simp_all add: seat_tickets_def numbered_def seat_ticket_def seat_id_def)

lemma seat_tickets_id_set: "t \<in> set (seat_tickets x t0) \<Longrightarrow> tk_id t \<in> seat_ids x"
proof -
  assume "t \<in> set (seat_tickets x t0)"
  then have "tk_id t \<in> set (map tk_id (seat_tickets x t0))" by simp
  then show ?thesis unfolding seat_tickets_ids by (auto simp: seat_ids_def)
qed

lemma put_new_cons:
  "put_new clash (r # rows) tab = put_new clash rows (if \<exists>x\<in>set tab. clash x r then tab else tab @ [r])"
  by (simp add: put_new_def)

lemma put_new_Nil [simp]: "put_new clash [] tab = tab"
  by (simp add: put_new_def)

lemma put_new_distinct:
  "distinct (map k tab) \<Longrightarrow> distinct (map k (put_new (\<lambda>a b. k a = k b) rows tab))"
proof (induction rows arbitrary: tab)
  case (Cons r rows)
  show ?case unfolding put_new_cons by (rule Cons.IH) (use Cons.prems in auto)
qed simp

lemma put_new_prefix: "\<exists>new. put_new clash rows tab = tab @ new \<and> set new \<subseteq> set rows"
proof (induction rows arbitrary: tab)
  case (Cons r rows)
  from Cons.IH[of "if \<exists>x\<in>set tab. clash x r then tab else tab @ [r]"] show ?case
    unfolding put_new_cons by (auto split: if_splits)
qed simp

lemma put_new_covers: "r \<in> set rows \<Longrightarrow> (\<And>r. clash r r) \<Longrightarrow> \<exists>x\<in>set (put_new clash rows tab). clash x r"
proof (induction rows arbitrary: tab)
  case (Cons a rows)
  define t1 where "t1 = (if \<exists>x\<in>set tab. clash x a then tab else tab @ [a])"
  show ?case
  proof (cases "r \<in> set rows")
    case False
    then have "r = a" using Cons.prems(1) by simp
    then have "\<exists>x\<in>set t1. clash x r" using Cons.prems(2) by (auto simp: t1_def)
    then show ?thesis unfolding put_new_cons t1_def[symmetric]
      using put_new_prefix[of clash rows t1] by auto
  qed (use Cons in \<open>simp add: put_new_cons\<close>)
qed simp

lemma put_new_known: "(\<And>r. r \<in> set rows \<Longrightarrow> \<exists>x\<in>set tab. clash x r) \<Longrightarrow> put_new clash rows tab = tab"
  by (induction rows) (auto simp: put_new_cons)

lemma tickets_ok_orders:
  assumes "tickets_ok s" "s_tickets s' = s_tickets s" "lives_on s s'"
  shows "tickets_ok s'"
proof -
  have "\<exists>x'\<in>set (s_orders s'). tk_order t = o_id x' \<and> tk_id t \<in> seat_ids x'" if t: "t \<in> set (s_tickets s)" for t
  proof -
    obtain x where x: "x \<in> set (s_orders s)" "tk_order t = o_id x" "tk_id t \<in> seat_ids x"
      using assms(1) t by (auto simp: tickets_ok_def)
    then obtain x' where "x' \<in> set (s_orders s')" "frame x' = frame x" using assms(3) by (auto simp: lives_on_def)
    with x show ?thesis using seat_ids_frame by (metis frameD(1))
  qed
  then show ?thesis using assms(1,2) by (simp add: tickets_ok_def)
qed

lemma tickets_ok_move: "shop_move now s s' \<Longrightarrow> tickets_ok s \<Longrightarrow> tickets_ok s'"
proof (induction rule: shop_move.induct)
  case (issue s s' x t0)
  have "distinct (map tk_id (s_tickets s'))"
    unfolding issue(5) by (rule put_new_distinct) (use issue.prems in \<open>simp add: tickets_ok_def\<close>)
  moreover obtain new where new: "s_tickets s' = s_tickets s @ new" "set new \<subseteq> set (seat_tickets x t0)"
    using put_new_prefix[of "\<lambda>a b. tk_id a = tk_id b" "seat_tickets x t0" "s_tickets s"] issue(5) by metis
  have "\<exists>y\<in>set (s_orders s'). tk_order t = o_id y \<and> tk_id t \<in> seat_ids y" if "t \<in> set (s_tickets s')" for t
  proof (cases "t \<in> set (s_tickets s)")
    case True
    then show ?thesis using issue.prems issue(2) by (simp add: tickets_ok_def)
  next
    case False
    then have "t \<in> set (seat_tickets x t0)" using that new by auto
    then show ?thesis using seat_tickets_order seat_tickets_id_set issue(2,3) by metis
  qed
  ultimately show ?case by (simp add: tickets_ok_def)
next
  case (refund s s' ys x zs x' t0)
  have "may_become (o_status x) (o_status x')" using refund by auto
  then have "lives_on s s'" using refund by (metis lives_on_replace)
  then have "tickets_ok (s'\<lparr>s_tickets := s_tickets s\<rparr>)"
    by (intro tickets_ok_orders[OF refund.prems]) (simp_all add: lives_on_def)
  moreover have "map tk_id (void_tickets (o_id x) t0 ts) = map tk_id ts" for ts
    by (simp add: void_tickets_def)
  moreover have "\<exists>u\<in>set ts. tk_id t = tk_id u \<and> tk_order t = tk_order u" if "t \<in> set (void_tickets (o_id x) t0 ts)" for t ts
    using that by (auto simp: void_tickets_def split: if_splits)
  ultimately show ?case unfolding tickets_ok_def refund(8) by simp metis
next
  case (order s s' ys x zs x')
  have "lives_on s s'"
    using order(2,4) order_move_frame[OF order(3)] order_move_status[OF order(3)] by (rule lives_on_replace)
  then show ?case using order tickets_ok_orders by blast
next
  case (sell s s' x)
  have "s' = s\<lparr>s_orders := s_orders s @ [x]\<rparr>" by (rule insert_ok(1)[OF sell(8)])
  then have "lives_on s s'" "s_tickets s' = s_tickets s" by (auto simp: lives_on_def)
  then show ?case using sell.prems tickets_ok_orders by blast
qed (simp_all add: tickets_ok_def)

section \<open>Invariants of the store\<close>

text \<open>
  What the contract of an invariant is: it holds in the empty shop and every move keeps it. Then it holds in
  every reachable state.
\<close>

locale store_invariant =
  fixes keeps :: "store \<Rightarrow> bool"
  assumes keeps_empty: "keeps empty_shop"
    and keeps_move: "shop_move now s s' \<Longrightarrow> keeps s \<Longrightarrow> keeps s'"
begin

lemma keeps_moves: "moves now s s' \<Longrightarrow> keeps s \<Longrightarrow> keeps s'"
  unfolding moves_def by (induction rule: rtranclp_induct) (auto intro: keeps_move)

lemma keeps_step: "shop_step (now, s) (now', s') \<Longrightarrow> shop_inv now s \<Longrightarrow> keeps s \<Longrightarrow> keeps s'"
  using shop_step_moves keeps_moves by blast

lemma reachable:
  assumes "good_time t0" "shop_runs (t0, empty_shop) (now, s)"
  shows "keeps s"
proof -
  have "keeps (snd w) \<and> shop_inv (fst w) (snd w) \<and> good_time (fst w)" if "shop_runs (t0, empty_shop) w" for w
    using that unfolding shop_runs_def
  proof (induction rule: rtranclp_induct)
    case (step y z)
    have "shop_step (fst y, snd y) (fst z, snd z)" using step by simp
    then show ?case using keeps_step shop_step_inv step by blast
  qed (use assms(1) in \<open>simp add: keeps_empty empty_shop_inv\<close>)
  from this[OF assms(2)] show ?thesis by simp
qed

end

interpretation seat_tickets: store_invariant tickets_ok
  by unfold_locales (simp add: tickets_ok_def empty_shop_def, rule tickets_ok_move)

lemma one_order:
  assumes "orders_ok s" "x \<in> set (s_orders s)" "t \<in> set (s_tickets s)" "tk_order t = o_id x" "tickets_ok s"
  shows "tk_id t \<in> seat_ids x"
  using assms same_id[OF assms(1) _ assms(2)] unfolding tickets_ok_def by metis

lemma getOrder_unique:
  assumes "orders_ok s" "x \<in> set (s_orders s)"
  shows "getOrder TICKET_SITE (o_id x) s = Some x"
proof (cases "getOrder TICKET_SITE (o_id x) s")
  case None
  then show ?thesis using assms orders_ok_wf[OF assms] by (auto simp: getOrder_def find_None_iff well_formed_def)
next
  case (Some y)
  with getOrder_in[OF this] show ?thesis using same_id[OF assms(1) _ assms(2)] by simp
qed

lemma order_tickets_bound:
  assumes "orders_ok s" "tickets_ok s" "x \<in> set (s_orders s)"
  shows "int (length (filter (\<lambda>t. tk_order t = o_id x) (s_tickets s))) \<le> o_quantity x"
proof -
  define ts where "ts = filter (\<lambda>t. tk_order t = o_id x) (s_tickets s)"
  have "distinct (map tk_id (s_tickets s))" using assms(2) by (simp add: tickets_ok_def)
  then have d: "distinct (map tk_id ts)" by (simp add: ts_def distinct_map_filter)
  have "set (map tk_id ts) \<subseteq> seat_ids x" using one_order[OF assms(1,3) _ _ assms(2)] by (auto simp: ts_def)
  then have "card (set (map tk_id ts)) \<le> card (seat_ids x)" by (intro card_mono) (simp_all add: seat_ids_def)
  also have "\<dots> \<le> length (order_seats x)" unfolding seat_ids_def by (metis card_image_le card_lessThan finite_lessThan)
  finally show ?thesis
    using length_order_seats[OF orders_ok_wf[OF assms(1,3)]] d distinct_card[OF d] by (simp add: ts_def)
qed

lemma fulfill_paid:
  assumes "orders_ok s" "x \<in> set (s_orders s)" "o_status x = O_paid"
  shows "s_tickets (fulfill t (o_id x) s) = put_new (\<lambda>a b. tk_id a = tk_id b) (seat_tickets x (iso_string t)) (s_tickets s)"
proof -
  have "getOrder TICKET_SITE (o_id x) s = Some x" by (rule getOrder_unique[OF assms(1,2)])
  then show ?thesis using assms by (auto simp: fulfill_def fulfilmentOf_def issueFulfilment_def seat_tickets_def)
qed

lemma fulfill_same_shop: "same_shop s (fulfill t i s)"
  by (simp add: same_shop_def fulfill_def fulfilmentOf_def issueFulfilment_def split: option.splits)

lemma fulfilled_tickets:
  assumes ok: "orders_ok s" "tickets_ok s" and x: "x \<in> set (s_orders s)" "o_status x = O_paid"
  shows "int (length (filter (\<lambda>k. tk_order k = o_id x) (s_tickets (fulfill t (o_id x) s)))) = o_quantity x"
proof -
  define s' where "s' = fulfill t (o_id x) s"
  have o': "s_orders s' = s_orders s" by (simp add: s'_def fulfill_orders)
  have t': "s_tickets s' = put_new (\<lambda>a b. tk_id a = tk_id b) (seat_tickets x (iso_string t)) (s_tickets s)"
    unfolding s'_def by (rule fulfill_paid[OF ok(1) x])
  have "moves t s s'" by (simp add: s'_def fulfill_moves)
  then have ok': "tickets_ok s'" by (rule seat_tickets.keeps_moves[OF _ ok(2)])
  have unique: "y = x" if "y \<in> set (s_orders s)" "o_id y = o_id x" for y
    using same_id[OF ok(1) that(1) x(1) that(2)] .
  define ts where "ts = filter (\<lambda>k. tk_order k = o_id x) (s_tickets s')"
  have "distinct (map tk_id (s_tickets s'))" using ok' by (simp add: tickets_ok_def)
  then have d: "distinct (map tk_id ts)" by (simp add: ts_def distinct_map_filter)
  have "seat_id x n \<in> set (map tk_id ts)" if n: "n < length (order_seats x)" for n
  proof -
    have "seat_id x n \<in> set (map tk_id (seat_tickets x (iso_string t)))" unfolding seat_tickets_ids using n by simp
    then obtain r where r: "r \<in> set (seat_tickets x (iso_string t))" "tk_id r = seat_id x n" by auto
    obtain k where k: "k \<in> set (s_tickets s')" "tk_id k = seat_id x n"
      using put_new_covers[OF r(1), of "\<lambda>a b. tk_id a = tk_id b" "s_tickets s"] r(2) by (auto simp: t')
    obtain y where y: "y \<in> set (s_orders s)" "tk_order k = o_id y" "tk_id k \<in> seat_ids y"
      using ok' k(1) o' by (auto simp: tickets_ok_def)
    then obtain m where "seat_id y m = seat_id x n" using k(2) by (auto simp: seat_ids_def)
    then have "o_id y = o_id x" by (rule seat_id_inj[THEN conjunct1])
    then show ?thesis using k y(2) by (auto simp: ts_def image_iff intro!: bexI[of _ k])
  qed
  moreover have "inj_on (seat_id x) {..<length (order_seats x)}" using seat_id_inj by (blast intro: inj_onI)
  ultimately have "length (order_seats x) \<le> card (set (map tk_id ts))"
    using card_mono[of "set (map tk_id ts)" "seat_ids x"] by (auto simp: seat_ids_def card_image)
  then have "length (order_seats x) \<le> length ts" using distinct_card[OF d] by simp
  moreover have "order_ok s' = order_ok s"
    using fulfill_same_shop[of s t "o_id x"] by (intro ext) (simp add: s'_def order_ok_def same_shop_def)
  then have "orders_ok s'" using ok(1) o' by (simp add: orders_ok_def)
  ultimately show ?thesis
    using order_tickets_bound[of s' x] ok' x(1) o' length_order_seats[OF orders_ok_wf[OF ok(1) x(1)]]
    by (simp add: ts_def s'_def)
qed

section \<open>A concrete run\<close>

text \<open>
  Sales are opened, a ticket type with two seats is created, a buyer checks both out, pays, and comes
  back to the thanks page.
\<close>

definition demo_now :: ms where "demo_now = 3600000"

definition demo_session :: checkout_session where
  "demo_session = \<lparr>cs_id = ''cs_test_1'', cs_url = Some ''https://pay.example'', cs_status = Some ''complete'',
     cs_paymentStatus = Some ''paid'', cs_clientReferenceId = Some ''o1'', cs_amountTotal = Some 2000,
     cs_currency = Some ''jpy'', cs_paymentIntentId = Some ''pi_1'', cs_livemode = Some False, cs_paymentMethodType = Some ''card''\<rparr>"

definition demo_refund :: js where
  "demo_refund = JObj [(''type'', JStr ''charge.refunded''), (''livemode'', JBool False),
     (''data'', JObj [(''object'', JObj [(''payment_intent'', JStr ''pi_1''), (''amount'', JNum 2000), (''amount_refunded'', JNum 2000)])])]"

definition demo_deps :: deps where
  "demo_deps = \<lparr>dp_lpBaseUrl = ''https://lp.example'',
     dp_stripe = Some \<lparr>sk_livemode = False, sk_create = (\<lambda>_. Inr demo_session), sk_get = (\<lambda>_. Inr demo_session)\<rparr>,
     dp_webhookSecret = Some ''w'', dp_previewKey = None, dp_paypayEnabled = False,
     dp_mailer = Some (\<lambda>_ _. Some (Mail_ok ''m1'')), dp_tokenSecret = Some ''k'', dp_opsEmail = None,
     dp_mailFrom = ''shop@lp.example'', dp_dailyCap = None, dp_backup = None, dp_hmac = (\<lambda>_ _. [10]), dp_sha256 = (\<lambda>_. []),
     dp_url = (\<lambda>u. Some (''https:'', u)), dp_encode = (\<lambda>v. v), dp_json = (\<lambda>_. Some demo_refund)\<rparr>"

definition demo_open :: store where
  "demo_open = snd (setEnabled demo_deps demo_now ''staff'' (JObj [(''enabled'', JBool True)]) empty_shop)"

definition demo_typed :: store where
  "demo_typed = snd (createType demo_now ''t1''
     (JObj [(''name'', JStr ''Day 1''), (''priceJpy'', JNum 1000), (''capacity'', JNum 2)]) demo_open)"

definition demo_sold :: store where
  "demo_sold = snd (checkout demo_deps demo_now ''o1''
     (JObj [(''items'', JArr [JObj [(''ticketTypeId'', JStr ''t1''), (''quantity'', JNum 2)]]), (''name'', JStr ''A''),
            (''email'', JStr ''a@example.org''), (''origin'', JStr ''https://lp.example'')]) demo_typed)"

definition demo_paid :: store where
  "demo_paid = snd (confirm demo_deps demo_now (JObj [(''sessionId'', JStr ''cs_test_1'')]) demo_sold)"

text \<open>Then the buyer is refunded, a coupon for one seat is made, and a guest uses it.\<close>

definition demo_refunded :: store where
  "demo_refunded = snd (webhook demo_deps demo_now ''{}'' (Some ''t=3600,v1=0a'') demo_paid)"

definition demo_coupon :: store where
  "demo_coupon = snd (createCoupon demo_now ''staff'' [(''c1'', ''GUEST'')]
     (JObj [(''ticketTypeId'', JStr ''t1''), (''maxUses'', JNum 1)]) demo_refunded)"

definition demo_guest :: store where
  "demo_guest = snd (checkout demo_deps demo_now ''o2''
     (JObj [(''items'', JArr [JObj [(''ticketTypeId'', JStr ''t1''), (''quantity'', JNum 1)]]), (''name'', JStr ''B''),
            (''email'', JStr ''b@example.org''), (''origin'', JStr ''https://lp.example''), (''couponCode'', JStr ''guest'')]) demo_coupon)"

definition rows_of :: "store \<Rightarrow> (string \<times> int option) list \<times> (string \<times> order_status \<times> int) list \<times> (string \<times> int) list \<times> string list" where
  \<comment> \<open>what the run is observed by\<close>
  "rows_of s = (map (\<lambda>t. (tt_id t, tt_capacity t)) (s_types s), map (\<lambda>x. (o_id x, o_status x, o_quantity x)) (s_orders s),
     map (\<lambda>c. (cp_id c, cp_maxUses c)) (s_coupons s), map tk_order (s_tickets s))"

lemma demo_open_rows: "rows_of demo_open = ([], [], [], [])"
  by code_simp

lemma demo_typed_rows: "rows_of demo_typed = ([(''t1'', Some 2)], [], [], [])"
  by code_simp

lemma demo_paid_rows: "rows_of demo_paid = ([(''t1'', Some 2)], [(''o1'', O_paid, 2)], [], [''o1'', ''o1''])"
  by code_simp

lemma demo_refunded_rows: "rows_of demo_refunded = ([(''t1'', Some 2)], [(''o1'', O_refunded, 2)], [], [''o1'', ''o1''])"
  by code_simp

lemma demo_coupon_rows: "rows_of demo_coupon = ([(''t1'', Some 2)], [(''o1'', O_refunded, 2)], [(''c1'', 1)], [''o1'', ''o1''])"
  by code_simp

lemma demo_guest_rows:
  "rows_of demo_guest = ([(''t1'', Some 2)], [(''o1'', O_refunded, 2), (''o2'', O_paid, 1)], [(''c1'', 1)], [''o1'', ''o1'', ''o2''])"
  by code_simp

lemma rows_find:
  "rows_of s = (ts, os, cs, ks) \<Longrightarrow> (i, cap) \<in> set ts \<Longrightarrow> \<exists>t\<in>set (s_types s). tt_id t = i \<and> tt_capacity t = cap"
  "rows_of s = (ts, os, cs, ks) \<Longrightarrow> (i, st, q) \<in> set os \<Longrightarrow> \<exists>x\<in>set (s_orders s). o_id x = i \<and> o_status x = st \<and> o_quantity x = q"
  "rows_of s = (ts, os, cs, ks) \<Longrightarrow> (i, m) \<in> set cs \<Longrightarrow> \<exists>c\<in>set (s_coupons s). cp_id c = i \<and> cp_maxUses c = m"
  "rows_of s = (ts, os, cs, ks) \<Longrightarrow> i \<in> set ks \<Longrightarrow> \<exists>t\<in>set (s_tickets s). tk_order t = i"
  "rows_of s = (ts, os, cs, ks) \<Longrightarrow> tt_id ` set (s_types s) = fst ` set ts"
  "rows_of s = (ts, os, cs, ks) \<Longrightarrow> o_id ` set (s_orders s) = fst ` set os"
  "rows_of s = (ts, os, cs, ks) \<Longrightarrow> cp_id ` set (s_coupons s) = fst ` set cs"
  by (auto simp: rows_of_def image_image)

lemma run_on: "shop_runs w w' \<Longrightarrow> shop_step w' w'' \<Longrightarrow> shop_runs w w''"
  unfolding shop_runs_def by (rule rtranclp.rtrancl_into_rtrancl)

lemma run_none: "shop_runs w w"
  by (simp add: shop_runs_def)

lemma demo_run_typed: "shop_runs (demo_now, empty_shop) (demo_now, demo_typed)"
proof -
  have "shop_step (demo_now, empty_shop) (demo_now, demo_open)" unfolding demo_open_def by (rule shop_step.setEnabled)
  moreover have "shop_step (demo_now, demo_open) (demo_now, demo_typed)"
    unfolding demo_typed_def by (rule shop_step.createType) (simp add: rows_find(5)[OF demo_open_rows])
  ultimately show ?thesis using run_on run_none by blast
qed

lemma demo_run_sold: "shop_runs (demo_now, empty_shop) (demo_now, demo_sold)"
  by (rule run_on[OF demo_run_typed], unfold demo_sold_def, rule shop_step.checkout) (simp add: rows_find(6)[OF demo_typed_rows])

lemma demo_run: "shop_runs (demo_now, empty_shop) (demo_now, demo_paid)"
  by (rule run_on[OF demo_run_sold], unfold demo_paid_def, rule shop_step.confirm)

lemma demo_run_on: "shop_runs (demo_now, demo_paid) (demo_now, demo_guest)"
proof -
  have "shop_step (demo_now, demo_paid) (demo_now, demo_refunded)" unfolding demo_refunded_def by (rule shop_step.webhook)
  moreover have "shop_step (demo_now, demo_refunded) (demo_now, demo_coupon)"
    unfolding demo_coupon_def by (rule shop_step.createCoupon) (simp add: rows_find(7)[OF demo_refunded_rows])
  moreover have "shop_step (demo_now, demo_coupon) (demo_now, demo_guest)"
    unfolding demo_guest_def by (rule shop_step.checkout) (simp add: rows_find(6)[OF demo_coupon_rows])
  ultimately show ?thesis using run_on run_none by blast
qed

lemma demo_run_all: "shop_runs (demo_now, empty_shop) (demo_now, demo_guest)"
  using demo_run demo_run_on unfolding shop_runs_def by (rule rtranclp_trans)

lemma demo_time: "good_time demo_now"
  by (simp add: good_time_def four_digit_year_def demo_now_def PENDING_HOLD_MS_def)

section \<open>Guarantees\<close>



text \<open>C5. A coupon is never used beyond its limit: the seats of all the orders that carry it are at
  most its \<open>maxUses\<close>, in every reachable state.\<close>

theorem coupons_within_limit:
  assumes "good_time t0" "shop_runs (t0, empty_shop) (now, s)" "c \<in> set (s_coupons s)"
  shows "coupon_seats (cp_id c) s \<le> cp_maxUses c"
  using reachable_inv[OF assms(1,2)] assms(3) by (auto simp: shop_inv_def coupons_ok_def)

lemma coupons_within_limit_witness: "coupon_seats ''c1'' demo_guest \<le> 1"
proof -
  obtain c where "c \<in> set (s_coupons demo_guest)" "cp_id c = ''c1''" "cp_maxUses c = 1"
    using rows_find(3)[OF demo_guest_rows, of "''c1''" 1] by auto
  then show ?thesis using coupons_within_limit[OF demo_time demo_run_all, of c] by simp
qed



text \<open>C4. Whoever was refunded has no valid ticket left: in every reachable state all the tickets of a
  refunded order are void.\<close>

theorem refunded_tickets_are_void:
  assumes "good_time t0" "shop_runs (t0, empty_shop) (now, s)"
    "x \<in> set (s_orders s)" "o_status x = O_refunded" "t \<in> set (s_tickets s)" "tk_order t = o_id x"
  shows "tk_status t = T_void"
  using reachable_inv[OF assms(1,2)] assms(3-6) by (auto simp: shop_inv_def void_ok_def)

lemma refunded_tickets_are_void_witness:
  "\<exists>t\<in>set (s_tickets demo_guest). tk_order t = ''o1'' \<and> tk_status t = T_void"
proof -
  obtain x where "x \<in> set (s_orders demo_guest)" "o_id x = ''o1''" "o_status x = O_refunded"
    using rows_find(2)[OF demo_guest_rows, of "''o1''" O_refunded 2] by auto
  moreover obtain t where "t \<in> set (s_tickets demo_guest)" "tk_order t = ''o1''"
    using rows_find(4)[OF demo_guest_rows, of "''o1''"] by auto
  ultimately show ?thesis using refunded_tickets_are_void[OF demo_time demo_run_all, of x t] by auto
qed

text \<open>C2. No order is ever lost and its terms never change: whatever happens after a reachable state,
  each of its orders is still there with the same lines, amount, buyer key and coupon, in a status that
  its life cycle allows. In particular a refund is final, and a paid order never becomes unpaid again.\<close>

theorem order_life_cycle:
  assumes "good_time t0" "shop_runs (t0, empty_shop) (now, s)" "shop_runs (now, s) (now', s')" "x \<in> set (s_orders s)"
  shows "\<exists>x'\<in>set (s_orders s'). frame x' = frame x \<and> may_become (o_status x) (o_status x')"
proof -
  have "shop_inv now s \<and> good_time now" by (rule shop_runs_inv[OF assms(2) empty_shop_inv assms(1)])
  then show ?thesis using shop_runs_live_on[OF assms(3)] assms(4) by (auto simp: lives_on_def)
qed

lemma order_life_cycle_witness: "\<exists>x'\<in>set (s_orders demo_guest). o_id x' = ''o1'' \<and> may_become O_paid (o_status x')"
proof -
  obtain x where "x \<in> set (s_orders demo_paid)" "o_id x = ''o1''" "o_status x = O_paid"
    using rows_find(2)[OF demo_paid_rows, of "''o1''" O_paid 2] by auto
  then show ?thesis using order_life_cycle[OF demo_time demo_run demo_run_on, of x] by (auto simp: frame_def)
qed

text \<open>C3. One ticket per seat: in every reachable state an order has at most as many tickets as it
  bought seats, and issuing the tickets of a paid order, for the first time or again, leaves exactly one
  per seat.\<close>

theorem one_ticket_per_seat:
  assumes "good_time t0" "shop_runs (t0, empty_shop) (now, s)" "x \<in> set (s_orders s)"
  shows "int (length (filter (\<lambda>k. tk_order k = o_id x) (s_tickets s))) \<le> o_quantity x
    \<and> (o_status x = O_paid \<longrightarrow>
        int (length (filter (\<lambda>k. tk_order k = o_id x) (s_tickets (fulfill t (o_id x) s)))) = o_quantity x)"
proof -
  have "orders_ok s" using reachable_inv[OF assms(1,2)] by (simp add: shop_inv_def)
  moreover have "tickets_ok s" by (rule seat_tickets.reachable[OF assms(1,2)])
  ultimately show ?thesis using order_tickets_bound[OF _ _ assms(3)] fulfilled_tickets[OF _ _ assms(3)] by blast
qed


lemma one_ticket_per_seat_witness:
  "int (length (filter (\<lambda>k. tk_order k = ''o1'') (s_tickets (fulfill demo_now ''o1'' demo_paid)))) = 2"
proof -
  obtain x where "x \<in> set (s_orders demo_paid)" "o_id x = ''o1''" "o_status x = O_paid" "o_quantity x = 2"
    using rows_find(2)[OF demo_paid_rows, of "''o1''" O_paid 2] by auto
  then show ?thesis using one_ticket_per_seat[OF demo_time demo_run, of x] by simp
qed
end
