(* ===== verification/Ticket_Settle.thy ===== *)
theory Ticket_Settle
  imports Ticket_Guarantees
begin

text \<open>
  The settlement rule and the checkout, branch by branch: when an order becomes paid, when a human has to
  look, that a second delivery of the same event changes nothing, what a buyer is charged, and what an
  error of a checkout leaves behind.
\<close>

section \<open>One order of the table\<close>

lemma upd_first_cong: "(\<And>y. y \<in> set xs \<Longrightarrow> P y = Q y) \<Longrightarrow> upd_first P f xs = upd_first Q f xs"
  by (induction xs) auto

lemma upd_first_in:
  "y \<in> set (upd_first P f xs) \<Longrightarrow> y \<in> set xs \<or> (\<exists>x\<in>set xs. P x \<and> y = f x)"
  by (induction xs) (auto split: if_splits)

lemma upd_first_key:
  assumes "distinct (map k xs)" "x \<in> set xs" "\<And>z. k (f z) = k z" "y \<in> set (upd_first (\<lambda>z. k z = k x) f xs)" "k y = k x"
  shows "y = f x"
  using assms
proof (induction xs)
  case (Cons a xs)
  show ?case
  proof (cases "k a = k x")
    case True
    then have "a = x" using Cons.prems(1,2) by (metis distinct.simps(2) image_eqI list.set_map list.simps(9) set_ConsD)
    moreover have "k y \<notin> k ` set xs" using Cons.prems(1,5) True by auto
    ultimately show ?thesis using Cons.prems(4) by auto
  next
    case False
    then show ?thesis using Cons by auto
  qed
qed simp

lemma upd_first_new: "distinct (map k xs) \<Longrightarrow> x \<in> set xs \<Longrightarrow> f x \<in> set (upd_first (\<lambda>z. k z = k x) f xs)"
  by (induction xs) (auto simp: image_iff)

lemma transition_open:
  assumes "orders_ok s" "x \<in> set (s_orders s)" "o_status x \<in> set froms"
  shows "transition (o_id x) froms f s = (True, on_order (o_id x) f s)"
proof -
  have same: "(o_id y = o_id x \<and> o_status y \<in> set froms) = (o_id y = o_id x)" if "y \<in> set (s_orders s)" for y
    using same_id[OF assms(1) that assms(2)] assms(3) by auto
  have "find (\<lambda>y. o_id y = o_id x \<and> o_status y \<in> set froms) (s_orders s) \<noteq> None"
    using assms(2,3) by (auto simp: find_None_iff)
  then show ?thesis
    using upd_first_cong[of "s_orders s", OF same] by (auto simp: transition_def on_order_def)
qed

lemma transition_closed:
  assumes "orders_ok s" "x \<in> set (s_orders s)" "o_status x \<notin> set froms"
  shows "transition (o_id x) froms f s = (False, s)"
proof -
  have "find (\<lambda>y. o_id y = o_id x \<and> o_status y \<in> set froms) (s_orders s) = None"
    using assms(3) same_id[OF assms(1) _ assms(2)] by (auto simp: find_None_iff)
  then show ?thesis by (simp add: transition_def)
qed

definition row_at :: "store \<Rightarrow> string \<Rightarrow> (ticket_order \<Rightarrow> bool) \<Rightarrow> bool" where
  \<comment> \<open>the rows of an order id are of a kind\<close>
  "row_at s i P \<longleftrightarrow> (\<forall>y\<in>set (s_orders s). o_id y = i \<longrightarrow> P y)"

lemma row_at_on_order:
  assumes "orders_ok s" "x \<in> set (s_orders s)" "\<And>z. o_id (f z) = o_id z" "P (f x)"
  shows "row_at (on_order (o_id x) f s) (o_id x) P"
  unfolding row_at_def
proof (intro ballI impI)
  fix y assume "y \<in> set (s_orders (on_order (o_id x) f s))" "o_id y = o_id x"
  moreover have "distinct (map o_id (s_orders s))" using assms(1) by (simp add: orders_ok_def)
  ultimately have "y = f x"
    using upd_first_key[of o_id "s_orders s" x f y] assms(2,3) by (simp add: on_order_def)
  then show "P y" using assms(4) by simp
qed

lemma row_at_same: "row_at s i P \<Longrightarrow> s_orders s' = s_orders s \<Longrightarrow> row_at s' i P"
  by (simp add: row_at_def)

lemma row_at_method:
  assumes "row_at s i (\<lambda>y. Q (o_status y))"
  shows "row_at (setOrderPaymentMethod i m s) i (\<lambda>y. Q (o_status y))"
  unfolding row_at_def
proof (intro ballI impI)
  fix y assume y: "y \<in> set (s_orders (setOrderPaymentMethod i m s))" "o_id y = i"
  then consider "y \<in> set (s_orders s)" | x where "x \<in> set (s_orders s)" "o_id x = i" "y = x\<lparr>o_paymentMethod := Some m\<rparr>"
    using upd_first_in[of y "\<lambda>x. o_id x = i" "\<lambda>x. x\<lparr>o_paymentMethod := Some m\<rparr>" "s_orders s"]
    unfolding setOrderPaymentMethod_def on_order_def by auto
  then show "Q (o_status y)"
  proof cases
    case 1
    then show ?thesis using assms y(2) by (simp add: row_at_def)
  next
    case (2 x)
    then show ?thesis using assms by (simp add: row_at_def)
  qed
qed

lemma row_at_here:
  assumes "orders_ok s" "x \<in> set (s_orders s)" "P x"
  shows "row_at s (o_id x) P"
  unfolding row_at_def
proof (intro ballI impI)
  fix y assume "y \<in> set (s_orders s)" "o_id y = o_id x"
  then have "y = x" by (rule same_id[OF assms(1) _ assms(2)])
  then show "P y" using assms(3) by simp
qed

section \<open>Settlement\<close>

definition open_order :: "ticket_order \<Rightarrow> bool" where
  "open_order x = (o_status x = O_pending \<or> o_status x = O_expired)"

definition too_late :: "ms \<Rightarrow> ticket_order \<Rightarrow> store \<Rightarrow> bool" where
  \<comment> \<open>the hold of the seats has run out, and others have taken them\<close>
  "too_late now x s = ((o_status x = O_expired \<or> o_createdAt x < pendingSince now) \<and> oversold_by (o_id x) (Some (pendingSince now)) s)"

definition decided :: "settle_outcome \<Rightarrow> order_status \<Rightarrow> order_status" where
  "decided out st = (case out of SO_paid \<Rightarrow> O_paid | SO_needs_review \<Rightarrow> O_needs_review | SO_expired \<Rightarrow> O_expired | _ \<Rightarrow> st)"

lemma oversold_None [simp]: "oversold_by i None s = False"
  by (simp add: oversold_by_def)

lemma markOrderPaid_open:
  assumes "orders_ok s" "x \<in> set (s_orders s)" "open_order x"
  shows "\<exists>s1. markOrderPaid (o_id x) p s = (Some (if oversold_by (o_id x) (ps_capacitySince p) s then O_needs_review else O_paid), s1)
    \<and> row_at s1 (o_id x) (\<lambda>y. o_status y = (if oversold_by (o_id x) (ps_capacitySince p) s then O_needs_review else O_paid))"
proof -
  have o': "o_status x \<in> set [O_pending, O_expired]" using assms(3) by (auto simp: open_order_def)
  show ?thesis
    unfolding markOrderPaid_def Let_def transition_open[OF assms(1,2) o'] split
    by (simp add: row_at_on_order[OF assms(1,2)])
qed

lemma settle_paid_open:
  assumes "orders_ok s" "x \<in> set (s_orders s)" "open_order x"
  shows "\<exists>s1. settle_paid now x ss s = (if too_late now x s then SO_needs_review else SO_paid, s1)
    \<and> row_at s1 (o_id x) (\<lambda>y. o_status y = (if too_late now x s then O_needs_review else O_paid))"
proof -
  define p where "p = \<lparr>ps_paidAt = iso_string now, ps_session = non_empty (Some (cs_id ss)), ps_intent = cs_paymentIntentId ss,
     ps_capacitySince = (if o_status x = O_expired \<or> o_createdAt x < pendingSince now then Some (pendingSince now) else None)\<rparr>"
  have over: "oversold_by (o_id x) (ps_capacitySince p) s = too_late now x s" by (simp add: p_def too_late_def)
  obtain s1 where s1: "markOrderPaid (o_id x) p s = (Some (if too_late now x s then O_needs_review else O_paid), s1)"
    "row_at s1 (o_id x) (\<lambda>y. o_status y = (if too_late now x s then O_needs_review else O_paid))"
    using markOrderPaid_open[OF assms, of p] unfolding over by blast
  define s2 where "s2 = (case non_empty (cs_paymentMethodType ss) of Some m \<Rightarrow> setOrderPaymentMethod (o_id x) m s1 | None \<Rightarrow> s1)"
  have s2: "row_at s2 (o_id x) (\<lambda>y. o_status y = (if too_late now x s then O_needs_review else O_paid))"
    using s1(2) row_at_method by (auto simp: s2_def split: option.splits)
  have "settle_paid now x ss s = (if too_late now x s then (SO_needs_review, s2) else (SO_paid, fulfill now (o_id x) s2))"
    using s1(1) by (simp add: settle_paid_def p_def[symmetric] s2_def)
  then show ?thesis using s2 row_at_same[OF s2 fulfill_orders] by auto
qed

text \<open>C8. The settlement rule, case by case. A session of the other Stripe mode is ignored; an order
  that is not open stays as it is; a paid session pays the order exactly when currency and amount are
  those of the order and its seats are still there, and otherwise calls for a human; an unpaid session
  releases a pending order when it has expired. The row ends in the status the outcome names, and the
  outcomes that name none leave the whole store as it was.\<close>

theorem settle_decides:
  assumes "orders_ok s" "x \<in> set (s_orders s)" "dp_stripe d = Some stripe" "settle d now x ss release s = (out, s')"
  shows "out = (if cs_livemode ss \<noteq> Some (sk_livemode stripe) then SO_ignored
      else if \<not> open_order x then SO_unchanged
      else if cs_paymentStatus ss = Some ''paid''
      then (if cs_currency ss \<noteq> Some ''jpy'' \<or> cs_amountTotal ss \<noteq> Some (of_int (o_amount x)) \<or> too_late now x s
            then SO_needs_review else SO_paid)
      else if o_status x = O_pending \<and> (release \<or> cs_status ss = Some ''expired'') then SO_expired else SO_unchanged)
    \<and> row_at s' (o_id x) (\<lambda>y. o_status y = decided out (o_status x))
    \<and> (out = SO_ignored \<or> out = SO_unchanged \<longrightarrow> s' = s)"
proof -
  have here: "row_at s (o_id x) (\<lambda>y. o_status y = o_status x)" by (rule row_at_here[OF assms(1,2)]) simp
  consider (mode) "cs_livemode ss \<noteq> Some (sk_livemode stripe)"
    | (closed) "cs_livemode ss = Some (sk_livemode stripe)" "\<not> open_order x"
    | (mismatch) r where "cs_livemode ss = Some (sk_livemode stripe)" "open_order x" "cs_paymentStatus ss = Some ''paid''" "mismatch x ss = Some r"
    | (pay) "cs_livemode ss = Some (sk_livemode stripe)" "open_order x" "cs_paymentStatus ss = Some ''paid''" "mismatch x ss = None"
    | (unpaid) "cs_livemode ss = Some (sk_livemode stripe)" "open_order x" "cs_paymentStatus ss \<noteq> Some ''paid''"
    by blast
  then show ?thesis
  proof cases
    case mode
    then show ?thesis using assms(3,4) here by (auto simp: settle_def decided_def)
  next
    case closed
    then show ?thesis using assms(3,4) here by (auto simp: settle_def decided_def open_order_def)
  next
    case (mismatch r)
    have "o_status x \<in> set [O_pending, O_expired, O_paid]" using mismatch(2) by (auto simp: open_order_def)
    from transition_open[OF assms(1,2) this] have "settle d now x ss release s = (SO_needs_review,
        on_order (o_id x) (\<lambda>y. y\<lparr>o_status := O_needs_review, o_reviewReason := Some r,
          o_intent := coalesce (Option.bind (first_order (o_id x) s) o_intent) (cs_paymentIntentId ss)\<rparr>) s)"
      using mismatch assms(3) by (auto simp: settle_def open_order_def markOrderNeedsReview_def)
    moreover have "cs_currency ss \<noteq> Some ''jpy'' \<or> cs_amountTotal ss \<noteq> Some (of_int (o_amount x))"
      using mismatch(4) by (auto simp: mismatch_def split: if_splits)
    ultimately show ?thesis
      using mismatch(1-3) assms(4) row_at_on_order[OF assms(1,2)] by (auto simp: decided_def)
  next
    case pay
    have "cs_currency ss = Some ''jpy'' \<and> cs_amountTotal ss = Some (of_int (o_amount x))"
      using pay(4) by (auto simp: mismatch_def split: if_splits)
    moreover have "settle d now x ss release s = settle_paid now x ss s"
      using pay assms(3) by (auto simp: settle_def open_order_def)
    ultimately show ?thesis using settle_paid_open[OF assms(1,2) pay(2), of now ss] pay(1-3) assms(4)
      by (auto simp: decided_def)
  next
    case unpaid
    show ?thesis
    proof (cases "o_status x = O_pending")
      case True
      then have "o_status x \<in> set [O_pending]" by simp
      from transition_open[OF assms(1,2) this] show ?thesis
        using unpaid assms(3,4) here True row_at_on_order[OF assms(1,2)]
        by (auto simp: settle_def markOrderExpired_def decided_def split: if_splits)
    next
      case False
      then have "o_status x \<notin> set [O_pending]" by simp
      from transition_closed[OF assms(1,2) this] show ?thesis
        using unpaid assms(3,4) here False
        by (auto simp: settle_def markOrderExpired_def decided_def split: if_splits)
    qed
  qed
qed

lemma demo_sold_ok: "orders_ok demo_sold"
  using reachable_inv[OF demo_time demo_run_sold] by (rule shop_inv_orders)

definition demo_order :: ticket_order where
  "demo_order = hd (s_orders demo_sold)"

lemma demo_order_in: "demo_order \<in> set (s_orders demo_sold)"
proof -
  have "length (s_orders demo_sold) = 1" by code_simp
  then show ?thesis by (cases "s_orders demo_sold") (simp_all add: demo_order_def)
qed

lemma settle_decides_witness: "fst (settle demo_deps demo_now demo_order demo_session False demo_sold) = SO_paid"
proof -
  obtain out s' where r: "settle demo_deps demo_now demo_order demo_session False demo_sold = (out, s')" by fastforce
  have "dp_stripe demo_deps = Some (the (dp_stripe demo_deps))" "\<not> sk_livemode (the (dp_stripe demo_deps))" by (simp_all add: demo_deps_def)
  moreover have "(open_order demo_order, o_amount demo_order, too_late demo_now demo_order demo_sold) = (True, 2000, False)" by code_simp
  ultimately show ?thesis
    using settle_decides[OF demo_sold_ok demo_order_in _ r] r by (simp add: demo_session_def)
qed

lemma transition_none: "row_at s i (\<lambda>y. o_status y \<notin> set froms) \<Longrightarrow> transition i froms f s = (False, s)"
proof -
  assume "row_at s i (\<lambda>y. o_status y \<notin> set froms)"
  then have "find (\<lambda>y. o_id y = i \<and> o_status y \<in> set froms) (s_orders s) = None" by (auto simp: row_at_def find_None_iff)
  then show ?thesis by (simp add: transition_def)
qed

lemma row_at_mono: "row_at s i P \<Longrightarrow> (\<And>y. P y \<Longrightarrow> Q y) \<Longrightarrow> row_at s i Q"
  by (simp add: row_at_def)

lemma markOrderPaid_none: "row_at s i (\<lambda>y. o_status y \<notin> {O_pending, O_expired}) \<Longrightarrow> markOrderPaid i p s = (None, s)"
  unfolding markOrderPaid_def Let_def by (subst transition_none) (auto elim: row_at_mono)

lemma settle_paid_none: "row_at s (o_id z) (\<lambda>y. o_status y \<notin> {O_pending, O_expired}) \<Longrightarrow> settle_paid now z ss s = (SO_unchanged, s)"
  by (simp add: settle_paid_def markOrderPaid_none)

lemma markOrderExpired_none: "row_at s i (\<lambda>y. o_status y \<noteq> O_pending) \<Longrightarrow> markOrderExpired i s = (False, s)"
  unfolding markOrderExpired_def by (rule transition_none) (auto elim: row_at_mono)

lemma settle_after_review:
  assumes "row_at s (o_id z) (\<lambda>y. o_status y = O_needs_review)"
  shows "snd (settle d now z ss release s) = s"
proof -
  have "markOrderNeedsReview (o_id z) r v s = (False, s)" for r v
    unfolding markOrderNeedsReview_def by (rule transition_none) (use assms in \<open>auto elim: row_at_mono\<close>)
  moreover have "settle_paid now z ss s = (SO_unchanged, s)"
    by (rule settle_paid_none) (use assms in \<open>auto elim: row_at_mono\<close>)
  moreover have "markOrderExpired (o_id z) s = (False, s)"
    by (rule markOrderExpired_none) (use assms in \<open>auto elim: row_at_mono\<close>)
  ultimately show ?thesis by (simp add: settle_def split: option.splits)
qed

lemma settle_after_paid:
  assumes "row_at s (o_id z) (\<lambda>y. o_status y = O_paid)" "open_order z \<longrightarrow> cs_paymentStatus ss = Some ''paid'' \<and> mismatch z ss = None"
  shows "snd (settle d now z ss release s) = s"
proof -
  have "settle_paid now z ss s = (SO_unchanged, s)"
    by (rule settle_paid_none) (use assms in \<open>auto elim: row_at_mono\<close>)
  then show ?thesis using assms(2) by (auto simp: settle_def open_order_def split: option.splits)
qed

lemma settle_after_expiry:
  assumes "row_at s (o_id z) (\<lambda>y. o_status y = O_expired)" "cs_paymentStatus ss \<noteq> Some ''paid''"
  shows "snd (settle d now z ss release s) = s"
proof -
  have "markOrderExpired (o_id z) s = (False, s)"
    by (rule markOrderExpired_none) (use assms in \<open>auto elim: row_at_mono\<close>)
  then show ?thesis using assms(2) by (simp add: settle_def split: option.splits)
qed

text \<open>C9. Settling is idempotent. A second delivery of the same session, at any later time and by any
  of the three routes, changes nothing: neither with the row read again nor with the stale row a
  concurrent request still holds.\<close>

theorem settle_again_changes_nothing:
  assumes "orders_ok s" "x \<in> set (s_orders s)" "settle d now x ss release s = (out, s')"
    "y = x \<or> y \<in> set (s_orders s') \<and> o_id y = o_id x"
  shows "snd (settle d now' y ss release s') = s'"
proof (cases "dp_stripe d")
  case None
  then show ?thesis by (simp add: settle_def)
next
  case (Some stripe)
  note D = settle_decides[OF assms(1,2) Some assms(3)]
  have row: "row_at s' (o_id x) (\<lambda>z. o_status z = decided out (o_status x))" using D by blast
  have id: "o_id y = o_id x" using assms(4) by auto
  have st: "o_status y = o_status x \<or> o_status y = decided out (o_status x)"
    using assms(4) row by (auto simp: row_at_def)
  show ?thesis
  proof (cases out)
    case SO_paid
    have "open_order x" "cs_paymentStatus ss = Some ''paid''" "mismatch x ss = None"
      using D SO_paid by (auto simp: mismatch_def split: if_splits)
    moreover have "open_order y \<longrightarrow> y = x" using assms(4) row SO_paid by (auto simp: row_at_def open_order_def decided_def)
    ultimately show ?thesis
      using row id by (intro settle_after_paid) (auto simp: SO_paid decided_def)
  next
    case SO_needs_review
    then show ?thesis using row id by (intro settle_after_review) (simp add: decided_def)
  next
    case SO_expired
    then show ?thesis using D row id by (intro settle_after_expiry) (auto simp: decided_def split: if_splits)
  next
    case SO_unchanged
    then have "s' = s" using D by blast
    then have "y = x" using assms(1,2,4) same_id by blast
    obtain out2 s2 where r2: "settle d now' x ss release s = (out2, s2)" by fastforce
    note D2 = settle_decides[OF assms(1,2) Some r2]
    have "out2 = SO_unchanged" using D D2 SO_unchanged by (auto split: if_splits)
    then have "s2 = s" using D2 by blast
    then show ?thesis unfolding \<open>y = x\<close> \<open>s' = s\<close> r2 by simp
  next
    case SO_ignored
    then have "s' = s" using D by blast
    then have "y = x" using assms(1,2,4) same_id by blast
    then show ?thesis using D SO_ignored Some \<open>s' = s\<close> by (auto simp: settle_def split: if_splits)
  qed
qed

lemma settle_again_changes_nothing_witness:
  "snd (settle demo_deps (demo_now + 5000) demo_order demo_session False (snd (settle demo_deps demo_now demo_order demo_session False demo_sold)))
     = snd (settle demo_deps demo_now demo_order demo_session False demo_sold)"
  by (rule settle_again_changes_nothing[OF demo_sold_ok demo_order_in, of _ _ _ _ "fst (settle demo_deps demo_now demo_order demo_session False demo_sold)"])
     simp_all

end
