(* ===== verification/Ticket_Sale.thy ===== *)
theory Ticket_Sale
  imports Ticket_Settle
begin

text \<open>
  What a checkout promises: prices come from the ticket types and never from the request, only a coupon
  makes an order free, and a checkout that fails sells nothing.
\<close>

definition sold_line :: "ticket_type list \<Rightarrow> bool \<Rightarrow> checkout_item \<Rightarrow> order_item \<Rightarrow> bool" where
  \<comment> \<open>the line of an order for an item of the request\<close>
  "sold_line types free i l \<longleftrightarrow>
     (\<exists>t\<in>set types. tt_id t = ct_type i \<and> tt_active t \<and> ct_qty i \<le> tt_maxPerOrder t \<and> (free \<or> tt_price t \<noteq> 0)
        \<and> l = \<lparr>oi_type = tt_id t, oi_name = tt_name t, oi_day = tt_day t, oi_price = (if free then 0 else tt_price t), oi_qty = ct_qty i\<rparr>)"

lemma order_line_sold: "order_line types free i = Inr l \<Longrightarrow> sold_line types free i l"
proof -
  assume l: "order_line types free i = Inr l"
  then obtain t where t: "last_type (ct_type i) types = Some t" by (auto simp: order_line_def split: option.splits)
  from last_type_in[OF t] l t show ?thesis
    by (auto simp: sold_line_def order_line_def split: if_splits intro!: bexI[of _ t])
qed

lemma order_lines_sold: "order_lines types free items = ([], ls) \<Longrightarrow> list_all2 (sold_line types free) items ls"
proof (induction items arbitrary: ls)
  case (Cons i items)
  then obtain l ls' where "order_line types free i = Inr l" "order_lines types free items = ([], ls')" "ls = l # ls'"
    by (cases "order_line types free i") (auto simp: order_lines_def Let_def)
  then show ?case using Cons.IH order_line_sold by simp
qed (simp add: order_lines_def Let_def)

text \<open>The new order is the last row of the table, until the answer.\<close>

lemma on_order_last:
  "o_id r \<notin> o_id ` set xs \<Longrightarrow> s_orders s = xs @ [r] \<Longrightarrow> s_orders (on_order (o_id r) f s) = xs @ [f r]"
proof -
  have "upd_first (\<lambda>x. o_id x = o_id r) f (xs @ [r]) = xs @ [f r]" if "o_id r \<notin> o_id ` set xs" for xs
    using that by (induction xs) auto
  then show "o_id r \<notin> o_id ` set xs \<Longrightarrow> s_orders s = xs @ [r] \<Longrightarrow> s_orders (on_order (o_id r) f s) = xs @ [f r]"
    by (simp add: on_order_def)
qed

lemma transition_last:
  assumes "o_id r \<notin> o_id ` set xs" "s_orders s = xs @ [r]"
  shows "s_orders (snd (transition (o_id r) froms f s)) = xs @ [if o_status r \<in> set froms then f r else r]"
proof -
  have other: "o_id x \<noteq> o_id r" if "x \<in> set xs" for x
  proof
    assume "o_id x = o_id r"
    then have "o_id r \<in> o_id ` set xs" using that by (metis image_eqI)
    then show False using assms(1) by contradiction
  qed
  have none: "find (\<lambda>x. o_id x = o_id r \<and> o_status x \<in> set froms) xs = None"
    unfolding find_None_iff using other by blast
  then have u: "upd_first (\<lambda>x. o_id x = o_id r \<and> o_status x \<in> set froms) f (xs @ [r])
      = xs @ [if o_status r \<in> set froms then f r else r]" for f
    by (induction xs) (auto split: if_splits)
  have "(find (\<lambda>x. o_id x = o_id r \<and> o_status x \<in> set froms) (xs @ [r]) = None) = (o_status r \<notin> set froms)"
    using none by (auto simp: find_None_iff)
  then show ?thesis using u[of f] by (auto simp: transition_def assms(2) split: option.splits)
qed

lemma open_session_row:
  assumes "o_id row \<notin> o_id ` set (s_orders s)" "s_orders s3 = s_orders s @ [row\<lparr>o_preview := pv\<rparr>]"
    "o_status row = (if o_amount row = 0 then O_paid else O_pending)" "o_session row = None"
    "\<not> (o_amount row \<noteq> 0 \<and> dp_stripe d = None)"
    "open_session d now input row p s3 = (res, s')"
  shows "case res of
      Inl e \<Rightarrow> s_orders s' = s_orders s @ [row\<lparr>o_preview := pv, o_status := O_expired\<rparr>]
    | Inr url \<Rightarrow> \<exists>ses. s_orders s' = s_orders s @ [row\<lparr>o_preview := pv, o_session := ses\<rparr>] \<and> (o_amount row \<noteq> 0 \<longrightarrow> ses \<noteq> None)"
proof -
  define r where "r = row\<lparr>o_preview := pv\<rparr>"
  have r: "o_id r \<notin> o_id ` set (s_orders s)" "s_orders s3 = s_orders s @ [r]" "o_id r = o_id row" "o_status r = o_status row"
    using assms(1,2) by (simp_all add: r_def)
  have exp: "s_orders (snd (markOrderExpired (o_id row) s3)) = s_orders s @ [r\<lparr>o_status := O_expired\<rparr>]" if "o_amount row \<noteq> 0"
    using transition_last[OF r(1,2), of "[O_pending]"] that assms(3) r(3,4) by (simp add: markOrderExpired_def)
  have ses: "s_orders (setOrderSession (o_id row) i s3) = s_orders s @ [r\<lparr>o_session := Some i\<rparr>]" for i
    using on_order_last[OF r(1,2)] r(3) by (simp add: setOrderSession_def)
  show ?thesis
  proof (cases "o_amount row = 0")
    case True
    then have "res \<noteq> Inl e" "s' = s3" for e using assms(6) by (auto simp: open_session_def)
    moreover have "row\<lparr>o_preview := pv\<rparr> = row\<lparr>o_preview := pv, o_session := None\<rparr>" using assms(4) by simp
    ultimately show ?thesis using assms(2) True by (auto split: sum.splits)
  next
    case False
    then obtain stripe where "dp_stripe d = Some stripe" using assms(5) by auto
    then consider e where "res = Inl e" "s' = snd (markOrderExpired (o_id row) s3)" | url i where "res = Inr url" "s' = setOrderSession (o_id row) i s3"
      using assms(6) False by (auto simp: open_session_def split: sum.splits option.splits if_splits)
    then show ?thesis
    proof cases
      case 1
      then show ?thesis using exp[OF False] by (simp add: r_def)
    next
      case (2 url i)
      then have "s_orders s' = s_orders s @ [row\<lparr>o_preview := pv, o_session := Some i\<rparr>]" using ses[of i] by (simp add: r_def)
      then show ?thesis using 2(1) by auto
    qed
  qed
qed

lemma place_order_row:
  assumes new: "o_id row \<notin> o_id ` set (s_orders s)"
    and st: "o_status row = (if o_amount row = 0 then O_paid else O_pending)" "o_session row = None"
    and pay: "\<not> (o_amount row \<noteq> 0 \<and> dp_stripe d = None)"
    and r: "place_order d now input row types p s = (res, s')"
  shows "case res of
      Inl e \<Rightarrow> s' = s \<or> (\<exists>pv. s_orders s' = s_orders s @ [row\<lparr>o_preview := pv, o_status := O_expired\<rparr>])
    | Inr url \<Rightarrow> \<exists>pv ses. s_orders s' = s_orders s @ [row\<lparr>o_preview := pv, o_session := ses\<rparr>] \<and> (o_amount row \<noteq> 0 \<longrightarrow> ses \<noteq> None)"
proof -
  obtain out s1 where ins: "insertOrderIfAvailable row (item_capacities types (o_items row)) (pendingSince now) s = (out, s1)" by fastforce
  show ?thesis
  proof (cases out)
    case Insert_ok
    define s2 where "s2 = (if o_preview row then markOrderPreview (o_id row) s1 else s1)"
    define s3 where "s3 = (if o_amount row = 0 then fulfill now (o_id row) s2 else s2)"
    have s1: "s_orders s1 = s_orders s @ [row]" using insert_ok(1)[OF ins[unfolded Insert_ok]] by simp
    then have "s_orders s2 = s_orders s @ [row\<lparr>o_preview := o_preview row\<rparr>]"
      using on_order_last[OF new s1, of "\<lambda>x. x\<lparr>o_preview := True\<rparr>"] by (simp add: s2_def markOrderPreview_def)
    then have s3: "s_orders s3 = s_orders s @ [row\<lparr>o_preview := o_preview row\<rparr>]" by (simp add: s3_def fulfill_orders)
    have "place_order d now input row types p s = open_session d now input row p s3"
      by (simp add: place_order_def ins Insert_ok s2_def s3_def Let_def)
    then have "open_session d now input row p s3 = (res, s')" using r by simp
    from open_session_row[OF new s3 st pay this] show ?thesis by (cases res; simp only: sum.case; blast)
  next
    case (Sold_out t)
    then have "s1 = s" using ins by (auto simp: insertOrderIfAvailable_def Let_def split: if_splits option.splits)
    then show ?thesis using r ins Sold_out by (auto simp: place_order_def)
  next
    case Coupon_used_up
    then have "s1 = s" using ins by (auto simp: insertOrderIfAvailable_def Let_def split: if_splits option.splits)
    then show ?thesis using r ins Coupon_used_up by (auto simp: place_order_def)
  qed
qed

lemma parse_item_grows:
  "snd (fold parse_item rs acc) = [] \<Longrightarrow> snd acc = [] \<and> length (fst (fold parse_item rs acc)) = length (fst acc) + length rs"
proof (induction rs arbitrary: acc)
  case (Cons r rs)
  have "snd (parse_item r acc) = [] \<and> length (fst (fold parse_item rs (parse_item r acc))) = length (fst (parse_item r acc)) + length rs"
    by (rule Cons.IH) (use Cons.prems in simp)
  moreover have "snd (parse_item r acc) = [] \<Longrightarrow> snd acc = [] \<and> length (fst (parse_item r acc)) = Suc (length (fst acc))"
    by (auto simp: parse_item_def Let_def split: prod.splits if_splits option.splits)
  ultimately show ?case by simp
qed simp

lemma parseCheckout_some_item: "parseCheckout url b fs = Inr input \<Longrightarrow> co_items input \<noteq> []"
proof -
  assume p: "parseCheckout url b fs = Inr input"
  then have e: "snd (parse_items b) = []" "co_items input = fst (parse_items b)"
    by (auto simp: parseCheckout_def Let_def split: prod.splits if_splits)
  define raw where "raw = js_items (js_get b ''items'')"
  define acc where "acc = (([] :: checkout_item list), if raw = [] then [(''items'', ''required'')] else [])"
  have f: "snd (fold parse_item raw acc) = []" "fst (parse_items b) = fst (fold parse_item raw acc)"
    using e(1) by (auto simp: parse_items_def raw_def[symmetric] acc_def[symmetric] Let_def split: prod.splits if_splits)
  from parse_item_grows[OF f(1)] show ?thesis using e(2) f(2) by (auto simp: acc_def split: if_splits)
qed

lemma sold_lines_cost:
  assumes "list_all2 (sold_line types False) items ls" "items_ok items" "items \<noteq> []" "\<forall>t\<in>set types. 0 \<le> tt_price t"
  shows "0 < sum_by (\<lambda>l. oi_price l * oi_qty l) ls"
  using assms(1-3)
proof (induction items arbitrary: ls)
  case (Cons i items)
  then obtain l ls' where ls: "ls = l # ls'" "sold_line types False i l" "list_all2 (sold_line types False) items ls'"
    by (auto simp: list_all2_Cons1)
  have ok: "items_ok items" "0 < ct_qty i" using Cons.prems(2) by (auto simp: items_ok_def)
  have "0 < oi_price l * oi_qty l" using ls(2) ok(2) assms(4) by (auto simp: sold_line_def less_le)
  moreover have "0 \<le> sum_by (\<lambda>l. oi_price l * oi_qty l) ls'"
    using Cons.IH[OF ls(3) ok(1)] ls(3) by (cases items) auto
  ultimately show ?case by (simp add: ls(1))
qed simp

text \<open>C10. Prices are the shop's. When a checkout succeeds, exactly one order is added. Its lines are the
  requested items, each of an active ticket type of the shop within its limit per order, at the price
  that type has, or at no cost when the request carries a coupon; nothing else of the request reaches
  the amount. The order costs nothing only with a coupon, and then it is paid at once; any other order is
  pending and bound to a Stripe session.\<close>

theorem checkout_charges_listed_prices:
  assumes "newId \<notin> o_id ` set (s_orders s)" "checkout d now newId body s = (Inr url, s')"
    "\<forall>t\<in>set (s_types s). 0 \<le> tt_price t"
  shows "\<exists>input fs r. parseCheckout (dp_url d) body fs = Inr input \<and> s_orders s' = s_orders s @ [r] \<and> o_id r = newId
    \<and> list_all2 (sold_line (listTicketTypes TICKET_SITE s) (co_couponCode input \<noteq> None)) (co_items input) (o_items r)
    \<and> o_amount r = sum_by (\<lambda>l. oi_price l * oi_qty l) (o_items r)
    \<and> (o_amount r = 0 \<longleftrightarrow> co_couponCode input \<noteq> None)
    \<and> o_status r = (if co_couponCode input \<noteq> None then O_paid else O_pending)
    \<and> (co_couponCode input = None \<longrightarrow> o_session r \<noteq> None)"
  using assms(2)
proof (cases rule: checkout_cases[of d now newId body s])
  case (refused e)
  then show ?thesis using assms(2) by simp
next
  case (placed input coupon ls preview pv)
  define row where "row = order_row newId (iso_string now) input ls coupon preview"
  have row: "o_id row = newId" "o_status row = (if o_amount row = 0 then O_paid else O_pending)" "o_session row = None"
    "o_items row = ls" "o_amount row = sum_by (\<lambda>l. oi_price l * oi_qty l) ls"
    by (simp_all add: row_def order_row_def Let_def)
  obtain fs where fs: "parseCheckout (dp_url d) body fs = Inr input" using placed(3) by blast
  have lines: "list_all2 (sold_line (listTicketTypes TICKET_SITE s) (co_couponCode input \<noteq> None)) (co_items input) ls"
    using order_lines_sold[OF placed(6)] placed(4) by simp
  have free: "o_amount row = 0 \<longleftrightarrow> co_couponCode input \<noteq> None"
  proof (cases "co_couponCode input = None")
    case True
    then have "0 < sum_by (\<lambda>l. oi_price l * oi_qty l) ls"
      using sold_lines_cost[of "listTicketTypes TICKET_SITE s"] lines parseCheckout_items[OF fs] parseCheckout_some_item[OF fs] assms(3)
      by (auto simp: listTicketTypes_def)
    then show ?thesis using True row(5) by simp
  next
    case False
    then show ?thesis using order_lines_ok(4)[OF placed(6)] placed(4) row(5) by simp
  qed
  have "place_order d now input row (listTicketTypes TICKET_SITE s) pv s = (Inr url, s')"
    using assms(2) placed(1) by (simp add: row_def)
  from place_order_row[OF _ row(2,3) placed(7)[folded row_def] this] assms(1) row(1)
  obtain pv' ses where r: "s_orders s' = s_orders s @ [row\<lparr>o_preview := pv', o_session := ses\<rparr>]" "o_amount row \<noteq> 0 \<longrightarrow> ses \<noteq> None"
    by auto
  show ?thesis
    using fs r lines free row by (intro exI[of _ input] exI[of _ fs] exI[of _ "row\<lparr>o_preview := pv', o_session := ses\<rparr>"]) simp
qed

definition demo_request :: js where
  "demo_request = JObj [(''items'', JArr [JObj [(''ticketTypeId'', JStr ''t1''), (''quantity'', JNum 2)]]), (''name'', JStr ''A''),
     (''email'', JStr ''a@example.org''), (''origin'', JStr ''https://lp.example'')]"

lemma demo_sold_request: "demo_sold = snd (checkout demo_deps demo_now ''o1'' demo_request demo_typed)"
  by (simp only: demo_sold_def demo_request_def)

lemma demo_fresh: "''o1'' \<notin> o_id ` set (s_orders demo_typed)"
  by (simp add: rows_find(6)[OF demo_typed_rows])

lemma checkout_charges_listed_prices_witness:
  "\<exists>r. s_orders demo_sold = s_orders demo_typed @ [r] \<and> o_amount r = sum_by (\<lambda>l. oi_price l * oi_qty l) (o_items r)"
proof -
  have "fst (checkout demo_deps demo_now ''o1'' demo_request demo_typed) = Inr ''https://pay.example''" by code_simp
  then have "checkout demo_deps demo_now ''o1'' demo_request demo_typed = (Inr ''https://pay.example'', demo_sold)"
    by (simp only: demo_sold_request) (metis prod.collapse)
  moreover have "list_all (\<lambda>t. 0 \<le> tt_price t) (s_types demo_typed)" by code_simp
  ultimately show ?thesis
    using checkout_charges_listed_prices[OF demo_fresh, of demo_deps demo_now demo_request "''https://pay.example''" demo_sold]
    unfolding list_all_iff by blast
qed

text \<open>C11. A checkout that fails sells nothing: the store is as before, or one expired order more.\<close>

theorem failed_checkout_sells_nothing:
  assumes "newId \<notin> o_id ` set (s_orders s)" "checkout d now newId body s = (Inl e, s')"
  shows "s' = s \<or> (\<exists>r. s_orders s' = s_orders s @ [r] \<and> o_id r = newId \<and> o_status r = O_expired)"
  using assms(2)
proof (cases rule: checkout_cases[of d now newId body s])
  case (refused e')
  then show ?thesis using assms(2) by simp
next
  case (placed input coupon ls preview pv)
  define row where "row = order_row newId (iso_string now) input ls coupon preview"
  have row: "o_id row = newId" "o_status row = (if o_amount row = 0 then O_paid else O_pending)" "o_session row = None"
    by (simp_all add: row_def order_row_def Let_def)
  have "place_order d now input row (listTicketTypes TICKET_SITE s) pv s = (Inl e, s')"
    using assms(2) placed(1) by (simp add: row_def)
  from place_order_row[OF _ row(2,3) placed(7)[folded row_def] this] assms(1) row(1) show ?thesis by auto
qed

definition demo_down :: deps where
  "demo_down = demo_deps\<lparr>dp_stripe := Some \<lparr>sk_livemode = False, sk_create = (\<lambda>_. Inl (upstreamUnavailable ''stripe'')), sk_get = (\<lambda>_. Inl (upstreamUnavailable ''stripe''))\<rparr>\<rparr>"

lemma failed_checkout_sells_nothing_witness:
  "\<exists>r. s_orders (snd (checkout demo_down demo_now ''o1'' demo_request demo_typed)) = s_orders demo_typed @ [r] \<and> o_status r = O_expired"
proof -
  define w where "w = checkout demo_down demo_now ''o1'' demo_request demo_typed"
  have "isl (fst w) \<and> s_orders (snd w) \<noteq> [] \<and> s_orders demo_typed = []" unfolding w_def by code_simp
  moreover obtain r s' where "w = (r, s')" by fastforce
  ultimately obtain e where w: "w = (Inl e, s')" "s_orders s' \<noteq> s_orders demo_typed" by (cases r) auto
  then have "s' \<noteq> demo_typed" by auto
  then show ?thesis using failed_checkout_sells_nothing[OF demo_fresh, of demo_down demo_now demo_request e s'] w by (auto simp: w_def[symmetric])
qed

end
