(* ===== verification/Ticket_Export.thy ===== *)
theory Ticket_Export
  imports Ticket_Settle
begin

text \<open>
  The export loops of \<open>delivery.ts\<close> end and miss nothing: reading a table page by page, each page after the
  last key of the one before, yields every row once, in order. One locale states what a page is; the
  orders and the tickets are its two instances.
\<close>

lemma sorted_after:
  assumes "sorted (map key ys)" "distinct (map key ys)" "ys = as @ l # bs"
  shows "filter (\<lambda>x. key l < (key x :: 'k :: linorder)) ys = bs"
proof -
  have "key x < key l" if "x \<in> set as" for x
  proof -
    have "key l \<notin> key ` set as" using assms(2,3) by auto
    then have "key x \<noteq> key l" using that by (metis image_eqI)
    then show ?thesis using that assms(1,3) by (auto simp: sorted_append less_le)
  qed
  then have "filter (\<lambda>x. key l < key x) as = []" by (auto simp: filter_empty_conv dest: less_asym)
  moreover have "key l < key x" if "x \<in> set bs" for x
    using that assms by (auto simp: sorted_append less_le)
  then have "filter (\<lambda>x. key l < key x) bs = bs" by (simp add: filter_True)
  ultimately show ?thesis by (simp add: assms(3))
qed

locale keyset_pages =
  fixes rows :: "'s \<Rightarrow> 'a list"
    and key :: "'a \<Rightarrow> string"
    and fetch :: "'s \<Rightarrow> string option \<Rightarrow> 'a list"
  assumes fetch_page: "fetch s c = take EXPORT_PAGE (sort_key key
      (filter (\<lambda>x. case c of None \<Rightarrow> True | Some k \<Rightarrow> k = [] \<or> k < key x) (rows s)))"
begin

lemma pages_from:
  assumes "sort_key key (rows s) = got @ rest" "distinct (map key (rows s))" "\<forall>x\<in>set (rows s). key x \<noteq> []"
    and "got = [] \<and> c = None \<or> got \<noteq> [] \<and> c = Some (key (last got))" "length rest < fuel"
  shows "export_pages (fetch s) key fuel c = Some rest"
  using assms(1,4,5)
proof (induction fuel arbitrary: got rest c)
  case (Suc fuel)
  have srt: "sorted (map key (got @ rest))" using Suc.prems(1) by (metis sorted_sort_key)
  have st: "set (got @ rest) = set (rows s)" using Suc.prems(1) by (metis set_sort)
  have dst: "distinct (map key (got @ rest))"
    using assms(2) by (metis Suc.prems(1) distinct_map distinct_sort inj_on_cong set_sort)
  have "filter (\<lambda>x. case c of None \<Rightarrow> True | Some k \<Rightarrow> k = [] \<or> k < key x) (got @ rest) = rest"
  proof (cases "got = []")
    case True
    then show ?thesis using Suc.prems(2) by simp
  next
    case False
    then have c: "c = Some (key (last got))" using Suc.prems(2) by simp
    have "last got \<in> set (rows s)" using False st by auto
    then have "key (last got) \<noteq> []" using assms(3) by blast
    then have "filter (\<lambda>x. case c of None \<Rightarrow> True | Some k \<Rightarrow> k = [] \<or> k < key x) (got @ rest)
        = filter (\<lambda>x. key (last got) < key x) (got @ rest)" by (simp add: c)
    also have "\<dots> = rest"
      by (rule sorted_after[OF srt dst, of "butlast got"]) (simp add: append_butlast_last_id[OF False] flip: append_assoc)
    finally show ?thesis .
  qed
  then have page: "fetch s c = take EXPORT_PAGE rest"
    unfolding fetch_page Suc.prems(1)[symmetric] by (simp add: filter_sort)
  show ?case
  proof (cases "length rest < EXPORT_PAGE")
    case True
    then show ?thesis by (simp add: page Let_def)
  next
    case False
    have p: "EXPORT_PAGE \<noteq> 0" by (simp add: EXPORT_PAGE_def)
    have ne: "take EXPORT_PAGE rest \<noteq> []" using False p by auto
    have "export_pages (fetch s) key fuel (Some (key (last (take EXPORT_PAGE rest)))) = Some (drop EXPORT_PAGE rest)"
    proof (rule Suc.IH[of "got @ take EXPORT_PAGE rest"])
      show "sort_key key (rows s) = (got @ take EXPORT_PAGE rest) @ drop EXPORT_PAGE rest" using Suc.prems(1) by simp
      show "length (drop EXPORT_PAGE rest) < fuel" using Suc.prems(3) False p by simp
    qed (use ne in simp)
    then show ?thesis using False by (simp add: page Let_def)
  qed
qed simp

lemma export_all:
  assumes "distinct (map key (rows s))" "\<forall>x\<in>set (rows s). key x \<noteq> []" "length (rows s) < fuel"
  shows "export_pages (fetch s) key fuel None = Some (sort_key key (rows s))"
  by (rule pages_from[of s "[]"]) (use assms in simp_all)

end

definition site_orders :: "store \<Rightarrow> ticket_order list" where
  "site_orders s = filter (\<lambda>x. o_site x = TICKET_SITE) (s_orders s)"

interpretation order_pages: keyset_pages site_orders orderCursor "\<lambda>s c. listOrdersAscending TICKET_SITE c EXPORT_PAGE s"
proof
  fix s c
  have k': "orderCursor = created_key" by (rule ext) (simp add: orderCursor_def created_key_def)
  have a: "after_cursor (>) c x = (case c of None \<Rightarrow> True | Some k \<Rightarrow> k = [] \<or> k < created_key x)" for x
    by (simp add: after_cursor_def split: option.splits)
  then show "listOrdersAscending TICKET_SITE c EXPORT_PAGE s = take EXPORT_PAGE (sort_key orderCursor
      (filter (\<lambda>x. case c of None \<Rightarrow> True | Some k \<Rightarrow> k = [] \<or> k < orderCursor x) (site_orders s)))"
    unfolding listOrdersAscending_def site_orders_def k' a filter_filter by (simp add: conj_commute)
qed

interpretation ticket_pages: keyset_pages s_tickets tk_id "\<lambda>s c. listTickets c EXPORT_PAGE s"
  by unfold_locales (simp add: listTickets_def)

text \<open>Creation times have a fixed width and hold no tilde, so that the cursor determines the order.\<close>

definition stamped :: "store \<Rightarrow> bool" where
  "stamped s = list_all (\<lambda>x. length (o_createdAt x) = 24) (s_orders s)"

lemma cursors_distinct:
  assumes "orders_ok s" "stamped s"
  shows "distinct (map orderCursor (site_orders s))"
proof -
  have "inj_on orderCursor (set (s_orders s))"
  proof (rule inj_onI)
    fix x y assume xy: "x \<in> set (s_orders s)" "y \<in> set (s_orders s)" "orderCursor x = orderCursor y"
    then have "length (o_createdAt x) = length (o_createdAt y)" using assms(2) by (simp add: stamped_def list_all_iff)
    then have "o_id x = o_id y" using xy(3) by (simp add: orderCursor_def)
    then show "x = y" using same_id[OF assms(1)] xy by blast
  qed
  moreover have "distinct (s_orders s)" using assms(1) by (simp add: orders_ok_def distinct_map)
  ultimately show ?thesis by (simp add: site_orders_def distinct_map inj_on_def)
qed

text \<open>C13. The export ends and is complete: however many pages it takes, \<open>allOrders\<close> returns, and what it
  returns are all the orders of the shop, each once, oldest first; and so does \<open>allTickets\<close> for the
  tickets.\<close>

theorem export_is_complete:
  assumes "orders_ok s" "stamped s" "tickets_ok s" "\<forall>t\<in>set (s_tickets s). tk_id t \<noteq> []"
  shows "allOrders s = Some (sort_key orderCursor (site_orders s)) \<and> allTickets s = Some (sort_key tk_id (s_tickets s))"
proof
  have "length (site_orders s) \<le> length (s_orders s)" by (simp add: site_orders_def)
  then show "allOrders s = Some (sort_key orderCursor (site_orders s))"
    unfolding allOrders_def
    by (intro order_pages.export_all cursors_distinct[OF assms(1,2)]) (simp_all add: orderCursor_def)
  show "allTickets s = Some (sort_key tk_id (s_tickets s))"
    unfolding allTickets_def
    by (intro ticket_pages.export_all) (use assms(3,4) in \<open>simp_all add: tickets_ok_def\<close>)
qed

lemma export_is_complete_witness:
  "allOrders demo_paid = Some (sort_key orderCursor (site_orders demo_paid)) \<and> allTickets demo_paid = Some (sort_key tk_id (s_tickets demo_paid))"
proof (rule export_is_complete)
  show "orders_ok demo_paid" using reachable_inv[OF demo_time demo_run] by (rule shop_inv_orders)
  show "tickets_ok demo_paid" by (rule seat_tickets.reachable[OF demo_time demo_run])
  show "stamped demo_paid" by code_simp
  have "list_all (\<lambda>t. tk_id t \<noteq> []) (s_tickets demo_paid)" by code_simp
  then show "\<forall>t\<in>set (s_tickets demo_paid). tk_id t \<noteq> []" by (simp add: list_all_iff)
qed

end
