(* ===== verification/Ticket_Codes.thy ===== *)
theory Ticket_Codes
  imports Ticket_Mail Stripe_Client
begin

text \<open>
  The printed forms of the shop and their readers: the ticket token, the preview token and the buyer list.
  A reader accepts exactly what its printer makes, and the list can be read back by any reader of quoted,
  comma-separated values.
\<close>

section \<open>Splitting and comparing\<close>

lemma split_on_two: "split_on c s = [a, b] \<Longrightarrow> s = a @ c # b"
proof -
  have one: "split_on c s = [a] \<Longrightarrow> s = a" for s a
  proof (induction s arbitrary: a)
    case (Cons x xs)
    then show ?case using split_on_nonempty[of c xs] by (auto split: if_splits list.splits)
  qed simp
  show "split_on c s = [a, b] \<Longrightarrow> s = a @ c # b"
  proof (induction s arbitrary: a)
    case (Cons x xs)
    then show ?case using one by (auto split: if_splits list.splits)
  qed simp
qed

lemma same_text_iff: "length a = length e \<Longrightarrow> same_text e a \<longleftrightarrow> e = a"
proof -
  assume len: "length a = length e"
  have "fold (\<lambda>i diff. or diff (xor (of_char (e ! i)) (if i < length a then of_char (a ! i) else 0))) [0..<n] (0 :: nat)
      = fold (\<lambda>(x, y) diff. or diff (xor (of_char x) (of_char y))) (zip (take n e) (take n a)) 0" if "n \<le> length e" for n
    using that
  proof (induction n)
    case (Suc n)
    then show ?case using len by (simp add: take_Suc_conv_app_nth)
  qed simp
  from this[of "length e"] have "same_text e a = timingSafeEqual e a"
    using len by (simp add: same_text_def timingSafeEqual_def)
  then show ?thesis by (simp add: timingSafeEqual_iff)
qed

section \<open>Ticket tokens\<close>

definition is_mac :: "nat \<Rightarrow> (bytes \<Rightarrow> bytes \<Rightarrow> bytes) \<Rightarrow> bool" where
  \<comment> \<open>a keyed hash: a fixed number of bytes\<close>
  "is_mac n hmac \<longleftrightarrow> (\<forall>k m. length (hmac k m) = n \<and> (\<forall>b\<in>set (hmac k m). b < 256))"

definition ticket_id_ok :: "string \<Rightarrow> bool" where
  "ticket_id_ok i = (1 \<le> length i \<and> length i \<le> 80 \<and> list_all b64_alphabet i)"

lemma dot_not_alphabet: "list_all b64_alphabet s \<Longrightarrow> CHR ''.'' \<notin> set s"
  by (auto simp: list_all_iff b64_alphabet_def char_between_def)

lemma ticket_sign_shape:
  assumes "is_mac 32 hmac"
  shows "length (ticket_sign hmac k i) = 24" "list_all b64_alphabet (ticket_sign hmac k i)"
proof -
  define m where "m = take SIG_BYTES (hmac (utf8 k) (utf8 i))"
  have "length m = 3 * 6" using assms by (simp add: m_def is_mac_def SIG_BYTES_def)
  then show "length (ticket_sign hmac k i) = 24" using length_base64url[of m 6] by (simp add: ticket_sign_def m_def)
  have "b < 256" if "b \<in> set m" for b using that assms by (auto simp: m_def is_mac_def dest: in_set_takeD)
  then show "list_all b64_alphabet (ticket_sign hmac k i)" using base64url_chars[of m] by (simp add: ticket_sign_def m_def)
qed

text \<open>C15. A ticket URL is genuine exactly when the shop made it: the check of a token returns a ticket id
  for the one token that the shop derives for that id, and for no other text, whatever keyed hash of 32
  bytes is used.\<close>

theorem ticket_token_genuine:
  assumes "is_mac 32 hmac" "secret \<noteq> []"
  shows "verifyTicketToken hmac (Some secret) (JStr s) = Some i \<longleftrightarrow> ticket_id_ok i \<and> s = ticketToken hmac secret i"
proof
  assume v: "verifyTicketToken hmac (Some secret) (JStr s) = Some i"
  then obtain sg where re: "TICKET_TOKEN_RE s = Some (i, sg)" "same_text (ticket_sign hmac secret i) sg"
    using assms(2) by (auto simp: verifyTicketToken_def split: option.splits if_splits)
  then have p: "split_on CHR ''.'' s = [i, sg]" "ticket_id_ok i" "length sg = 24"
    by (auto simp: TICKET_TOKEN_RE_def ticket_id_ok_def split: list.splits if_splits)
  have "ticket_sign hmac secret i = sg"
    using same_text_iff re(2) p(3) ticket_sign_shape(1)[OF assms(1)] by simp
  then show "ticket_id_ok i \<and> s = ticketToken hmac secret i"
    using split_on_two[OF p(1)] p(2) by (simp add: ticketToken_def)
next
  assume r: "ticket_id_ok i \<and> s = ticketToken hmac secret i"
  note sh = ticket_sign_shape[OF assms(1), of secret i]
  have "split_on CHR ''.'' s = [i, ticket_sign hmac secret i]"
    using r dot_not_alphabet[of i] dot_not_alphabet[OF sh(2)]
    by (simp add: ticketToken_def split_on_append split_on_free ticket_id_ok_def)
  then have "TICKET_TOKEN_RE s = Some (i, ticket_sign hmac secret i)"
    using r sh by (simp add: TICKET_TOKEN_RE_def ticket_id_ok_def)
  then show "verifyTicketToken hmac (Some secret) (JStr s) = Some i"
    using assms(2) same_text_iff by (simp add: verifyTicketToken_def)
qed

definition demo_mac :: "bytes \<Rightarrow> bytes \<Rightarrow> bytes" where
  "demo_mac k m = replicate 32 ((sum_list k + sum_list m) mod 256)"

lemma demo_mac: "is_mac 32 demo_mac"
  by (simp add: is_mac_def demo_mac_def)

lemma ticket_token_genuine_witness:
  "verifyTicketToken demo_mac (Some ''k'') (JStr (ticketToken demo_mac ''k'' ''o1-1'')) = Some ''o1-1''"
proof -
  have "ticket_id_ok ''o1-1''" by code_simp
  then show ?thesis by (simp add: ticket_token_genuine[OF demo_mac])
qed

section \<open>Preview tokens\<close>

lemma nat_string_length: "n < 10 ^ Suc k \<Longrightarrow> length (nat_string n) \<le> Suc k"
proof (induction k arbitrary: n)
  case 0
  then show ?case by (subst nat_string.simps) simp
next
  case (Suc k)
  then have "n div 10 < 10 ^ Suc k" by (simp add: less_mult_imp_div_less)
  then show ?case using Suc.IH[of "n div 10"] by (subst nat_string.simps) simp
qed

lemma digits_value_int_string: "0 \<le> i \<Longrightarrow> digits_value (int_string i) = i"
  using digits_int_nat_string[of "nat i"] by (simp add: digits_value_def digits_int_def int_string_def)

text \<open>A preview token opens the test purchase for its hour and not longer: the token issued at one
  instant is accepted at another exactly until it expires, and not before the latest instant at which it
  could have been issued with the standard lifetime and a minute of clock skew.\<close>

theorem preview_token_lifetime:
  assumes "is_mac 32 hmac" "secret \<noteq> []" "0 \<le> t + ttl" "t + ttl < 10 ^ 12"
  shows "verifyPreviewToken hmac (Some secret) (JStr (fst (issuePreviewToken hmac secret t ttl))) now
    \<longleftrightarrow> now < t + ttl \<and> t + ttl \<le> now + PREVIEW_TOKEN_TTL_SEC + 60"
proof -
  define e where "e = t + ttl"
  define sg where "sg = preview_sign hmac secret e"
  have len: "length sg = 64" using assms(1) by (simp add: sg_def preview_sign_def Let_def length_hex is_mac_def)
  have hexd: "is_digit c \<or> char_between CHR ''a'' CHR ''f'' c" if "c \<in> set sg" for c
    using that hex_chars[of "hmac (hmac (utf8 secret) (utf8 PREVIEW_LABEL)) (utf8 (PREVIEW_LABEL @ ''.'' @ int_string e))" c] assms(1)
    by (auto simp: sg_def preview_sign_def Let_def is_mac_def is_digit_def)
  have e: "int_string e = nat_string (nat e)" using assms(3) by (simp add: e_def int_string_def)
  have dig: "is_digit c" if "c \<in> set (int_string e)" for c
    using that nat_string_digits[of c "nat e"] by (simp add: e is_digit_def)
  have "nat e < 10 ^ Suc 11" using assms(4) by (simp add: e_def)
  then have le: "length (int_string e) \<le> 12" using nat_string_length[of "nat e" 11] by (simp add: e)
  have ne: "int_string e \<noteq> []" by (simp add: e nat_string_Nil)
  have dot: "CHR ''.'' \<notin> set (int_string e)" "CHR ''.'' \<notin> set sg"
    using dig[of "CHR ''.''"] hexd[of "CHR ''.''"] by (auto simp: is_digit_def char_between_def)
  have "split_on CHR ''.'' (int_string e @ ''.'' @ sg) = [int_string e, sg]"
    using split_on_append[OF dot(1), of sg] split_on_free[OF dot(2)] by simp
  then have re: "PREVIEW_TOKEN_RE (int_string e @ ''.'' @ sg) = Some (int_string e, sg)"
    using len le ne dig hexd by (auto simp: PREVIEW_TOKEN_RE_def list_all_iff Suc_le_eq)
  have tok: "fst (issuePreviewToken hmac secret t ttl) = int_string e @ ''.'' @ sg"
    by (simp add: issuePreviewToken_def e_def sg_def Let_def)
  have v: "digits_value (int_string e) = e" using assms(3) by (simp add: digits_value_int_string e_def)
  have "verifyPreviewToken hmac (Some secret) (JStr (int_string e @ ''.'' @ sg)) now \<longleftrightarrow>
      \<not> (e \<le> now \<or> now + PREVIEW_TOKEN_TTL_SEC + 60 < e)"
    unfolding verifyPreviewToken_def js_str_simps option.case re prod.case v Let_def
    using assms(2) same_text_iff[of sg sg] by (simp add: sg_def)
  then show ?thesis unfolding tok by (auto simp: e_def)
qed

lemma preview_token_lifetime_witness:
  "verifyPreviewToken demo_mac (Some ''k'') (JStr (fst (issuePreviewToken demo_mac ''k'' 1000 PREVIEW_TOKEN_TTL_SEC))) 4599
   \<and> \<not> verifyPreviewToken demo_mac (Some ''k'') (JStr (fst (issuePreviewToken demo_mac ''k'' 1000 PREVIEW_TOKEN_TTL_SEC))) 4600"
  by (simp add: preview_token_lifetime[OF demo_mac] PREVIEW_TOKEN_TTL_SEC_def)

section \<open>The buyer list\<close>

text \<open>A reader of quoted, comma-separated values, in the grammar of RFC 4180: rows end in a carriage return
  and a line feed, a quoted cell may hold any character, and a quote in it is doubled.\<close>

fun read_quoted :: "string \<Rightarrow> string \<times> string" where
  \<comment> \<open>after the opening quote: the cell, and what follows the closing quote\<close>
  "read_quoted [] = ([], [])"
| "read_quoted (c # cs) =
     (if c = CHR 0x22
      then (case cs of d # ds \<Rightarrow> if d = CHR 0x22 then (let (t, r) = read_quoted ds in (c # t, r)) else ([], cs) | [] \<Rightarrow> ([], []))
      else let (t, r) = read_quoted cs in (c # t, r))"

definition plain_char :: "char \<Rightarrow> bool" where
  "plain_char c = (c \<notin> {CHR 0x22, CHR '','', CHR 0x0D, CHR 0x0A})"

definition read_cell :: "string \<Rightarrow> string \<times> string" where
  "read_cell s = (case s of c # cs \<Rightarrow> if c = CHR 0x22 then read_quoted cs else (takeWhile plain_char s, dropWhile plain_char s) | [] \<Rightarrow> ([], []))"

fun read_rows :: "nat \<Rightarrow> string list \<Rightarrow> string \<Rightarrow> string list list option" where
  \<comment> \<open>the fuel bounds the number of cells; \<open>None\<close> is a malformed file\<close>
  "read_rows 0 cells s = None"
| "read_rows (Suc n) cells s =
     (let (cell, r) = read_cell s
      in case r of
           [] \<Rightarrow> None
         | c # r' \<Rightarrow>
             if c = CHR '','' then read_rows n (cells @ [cell]) r'
             else (case r' of
                     [] \<Rightarrow> None
                   | d # rest \<Rightarrow>
                       if c = CHR 0x0D \<and> d = CHR 0x0A
                       then (if rest = [] then Some [cells @ [cell]] else map_option ((#) (cells @ [cell])) (read_rows n [] rest))
                       else None))"

definition cell_text :: "cell \<Rightarrow> string" where
  "cell_text v = (case v of C_text t \<Rightarrow> if FORMULA_LEAD t then CHR 0x27 # t else t | C_num n \<Rightarrow> int_string n | C_null \<Rightarrow> [])"

lemma csvCell_text: "csvCell v = (if needs_quotes (cell_text v) then CHR 0x22 # double_quotes (cell_text v) @ [CHR 0x22] else cell_text v)"
  by (simp add: csvCell_def cell_text_def Let_def)

definition cell_end :: "string \<Rightarrow> bool" where
  "cell_end r = (case r of c # _ \<Rightarrow> c = CHR '','' \<or> c = CHR 0x0D | [] \<Rightarrow> False)"

lemma read_quoted_back: "cell_end r \<Longrightarrow> read_quoted (double_quotes t @ CHR 0x22 # r) = (t, r)"
proof (induction t)
  case Nil
  then show ?case by (auto simp: double_quotes_def cell_end_def split: list.splits)
next
  case (Cons c t)
  then show ?case by (simp add: double_quotes_def)
qed

lemma read_cell_back: "cell_end r \<Longrightarrow> read_cell (csvCell v @ r) = (cell_text v, r)"
proof (cases "needs_quotes (cell_text v)")
  case True
  then show "cell_end r \<Longrightarrow> read_cell (csvCell v @ r) = (cell_text v, r)"
    by (simp add: csvCell_text read_cell_def read_quoted_back)
next
  case False
  assume r: "cell_end r"
  define t where "t = cell_text v"
  have p: "\<forall>c\<in>set t. plain_char c" using False by (auto simp: t_def needs_quotes_def plain_char_def list_ex_iff)
  have np: "takeWhile plain_char r = []" "dropWhile plain_char r = r"
    using r by (auto simp: cell_end_def plain_char_def split: list.splits)
  have tw: "takeWhile plain_char (t @ r) = t" "dropWhile plain_char (t @ r) = r"
    using p np by (simp_all add: takeWhile_append dropWhile_append)
  show "read_cell (csvCell v @ r) = (cell_text v, r)"
  proof (cases "t @ r")
    case Nil
    then show ?thesis using r by (simp add: cell_end_def)
  next
    case (Cons c cs)
    have "c \<noteq> CHR 0x22" using Cons p r by (cases t) (auto simp: plain_char_def cell_end_def)
    then have "read_cell (t @ r) = (takeWhile plain_char (t @ r), dropWhile plain_char (t @ r))" using Cons by (simp add: read_cell_def)
    then show ?thesis using False tw by (simp add: csvCell_text t_def)
  qed
qed

lemma read_row_back:
  assumes "cells \<noteq> []" "length cells \<le> n"
  shows "read_rows n before (csv_row cells @ crlf @ rest)
     = (if rest = [] then Some [before @ map cell_text cells]
        else map_option ((#) (before @ map cell_text cells)) (read_rows (n - length cells) [] rest))"
  using assms
proof (induction cells arbitrary: n before)
  case (Cons v vs)
  obtain m where n: "n = Suc m" "length vs \<le> m" using Cons.prems(2) by (cases n) auto
  show ?case
  proof (cases vs)
    case Nil
    have "read_cell (csvCell v @ crlf @ rest) = (cell_text v, crlf @ rest)"
      by (rule read_cell_back) (simp add: cell_end_def crlf_def)
    then show ?thesis by (simp add: Nil n csv_row_def crlf_def)
  next
    case (Cons w ws)
    have row: "csv_row (v # vs) = csvCell v @ CHR '','' # csv_row vs" by (simp add: csv_row_def Cons)
    have "read_cell (csvCell v @ CHR '','' # csv_row vs @ crlf @ rest) = (cell_text v, CHR '','' # csv_row vs @ crlf @ rest)"
      by (rule read_cell_back) (simp add: cell_end_def)
    then have "read_rows n before (csv_row (v # vs) @ crlf @ rest) = read_rows m (before @ [cell_text v]) (csv_row vs @ crlf @ rest)"
      by (simp add: row n)
    also have "\<dots> = (if rest = [] then Some [(before @ [cell_text v]) @ map cell_text vs]
        else map_option ((#) ((before @ [cell_text v]) @ map cell_text vs)) (read_rows (m - length vs) [] rest))"
      by (rule Cons.IH) (use Cons n(2) in simp_all)
    finally show ?thesis by (simp add: n)
  qed
qed simp

lemma join_rows: "rows \<noteq> [] \<Longrightarrow> join_with crlf rows @ crlf = concat (map (\<lambda>r. r @ crlf) rows)"
  by (induction crlf rows rule: join_with.induct) simp_all

lemma read_rows_back:
  assumes "\<forall>cells\<in>set rows. length cells = k" "0 < k" "rows \<noteq> []" "length rows * k \<le> n"
  shows "read_rows n [] (concat (map (\<lambda>cells. csv_row cells @ crlf) rows)) = Some (map (map cell_text) rows)"
  using assms
proof (induction rows arbitrary: n)
  case (Cons cells rows)
  let ?rest = "concat (map (\<lambda>cells. csv_row cells @ crlf) rows)"
  have k: "cells \<noteq> []" "length cells = k" "k \<le> n" "length rows * k \<le> n - k" using Cons.prems by (auto simp: add_mult_distrib)
  have row: "read_rows n [] (csv_row cells @ crlf @ ?rest)
      = (if ?rest = [] then Some [map cell_text cells] else map_option ((#) (map cell_text cells)) (read_rows (n - k) [] ?rest))"
    using read_row_back[of cells n "[]" ?rest] k by simp
  have empty: "?rest = [] \<longleftrightarrow> rows = []" by (cases rows) (simp_all add: crlf_def)
  show ?case
  proof (cases "rows = []")
    case True
    then show ?thesis using row empty by simp
  next
    case False
    have "read_rows (n - k) [] ?rest = Some (map (map cell_text) rows)"
      by (rule Cons.IH) (use Cons.prems False k in simp_all)
    then show ?thesis using row empty False by simp
  qed
qed simp

lemma cell_text_no_formula: "\<not> FORMULA_LEAD (cell_text (C_text t))"
  by (simp add: cell_text_def FORMULA_LEAD_def is_space_def)

text \<open>
  C16. The buyer list can be read back: a reader of comma-separated values recovers the heading and one row per
  order with the cells that were printed, whatever quotes, commas and line breaks the buyers typed, and no text
  cell it recovers starts a formula in a spreadsheet.
\<close>
theorem csv_reads_back:
  assumes "Suc (length orders) * (14 + length (answerLabels orders fs)) \<le> n"
  shows "read_rows n [] (drop (length BOM) (ordersCsv orders fs))
           = Some (map (\<lambda>h. cell_text (C_text h)) (csv_head @ answerLabels orders fs)
                   # map (\<lambda>x. map cell_text (csv_order (answerLabels orders fs) x)) orders)
         \<and> (\<forall>t. \<not> FORMULA_LEAD (cell_text (C_text t)))"
proof -
  let ?labels = "answerLabels orders fs"
  let ?rows = "map C_text (csv_head @ ?labels) # map (csv_order ?labels) orders"
  have "drop (length BOM) (ordersCsv orders fs) = join_with crlf (map csv_row ?rows) @ crlf"
    by (simp add: ordersCsv_def Let_def comp_def)
  also have "\<dots> = concat (map (\<lambda>cells. csv_row cells @ crlf) ?rows)"
    by (subst join_rows) (simp_all add: comp_def)
  finally have printed: "drop (length BOM) (ordersCsv orders fs) = concat (map (\<lambda>cells. csv_row cells @ crlf) ?rows)" .
  have "read_rows n [] (concat (map (\<lambda>cells. csv_row cells @ crlf) ?rows)) = Some (map (map cell_text) ?rows)"
    by (rule read_rows_back[where k = "14 + length ?labels"]) (use assms in \<open>auto simp: csv_head_def csv_order_def\<close>)
  then show ?thesis using cell_text_no_formula unfolding printed by (simp add: comp_def)
qed

lemma csv_reads_back_witness:
  "read_rows 14 [] (drop (length BOM) (ordersCsv [] []))
     = Some [[''Order number'', ''Order ID'', ''Status'', ''Test'', ''Name'', ''Mail'', ''Items'', ''Quantity'', ''Amount'',
              ''Payment method'', ''Coupon ID'', ''Created'', ''Paid'', ''Refunded'']]"
proof -
  have labels: "answerLabels [] [] = []" by (simp add: answerLabels_def)
  show ?thesis
    using csv_reads_back[of "[]" "[]" 14] unfolding labels
    by (simp add: csv_head_def cell_text_def FORMULA_LEAD_def is_space_def)
qed

end
