(* ===== verification/Ticket_D1.thy ===== *)
theory Ticket_D1
  imports Ticket_Checks "HOL-Library.Option_ord"
begin

text \<open>
  \<open>services/lp-tickets/src/d1-repo.ts\<close>: the repository in production, as operations on the tables of
  \<open>db/0001_init.sql\<close> and \<open>db/0002_delivery.sql\<close>. A table is the list of its rows by \<open>rowid\<close>; flags are 0, 1 or
  NULL; items live in a table of their own; a JSON column holds the value its text denotes. A statement that
  would break a key, and so throws and rolls its batch back, is \<open>None\<close>. Queries without an order return rows by
  \<open>rowid\<close>. \<open>lp_tickets\<close> and \<open>lp_ticket_outbox\<close> have the columns of the rows of \<open>types.ts\<close>.
\<close>

section \<open>Tables\<close>

record d1_settings =
  ds_site :: string
  ds_enabled :: int
  ds_cta_enabled :: int
  ds_fields :: js
  ds_updated_by :: "string option"
  ds_updated_at :: string

record d1_type =
  dt_id :: string
  dt_site :: string
  dt_name :: string
  dt_description :: string
  dt_price :: int
  dt_capacity :: "int option"
  dt_day_label :: string
  dt_max_per_order :: int
  dt_active :: int
  dt_sort_order :: int
  dt_created_at :: string
  dt_updated_at :: string

record d1_order =
  do_id :: string
  do_site :: string
  do_quantity :: int
  do_amount :: int
  do_status :: order_status
  do_buyer_name :: string
  do_buyer_email :: string
  do_answers :: js
  do_session :: "string option"
  do_created_at :: string
  do_paid_at :: "string option"
  do_intent :: "string option"
  do_refunded_at :: "string option"
  do_review_reason :: "string option"
  do_resolved_by :: "string option"
  do_resolved_at :: "string option"
  do_client_key :: "string option"
  do_payment_method :: "string option"
  do_preview :: "int option"
  do_coupon_id :: "string option"

record d1_coupon =
  dc_id :: string
  dc_site :: string
  dc_code :: string
  dc_label :: string
  dc_type :: string
  dc_max_uses :: int
  dc_expires_at :: "string option"
  dc_active :: int
  dc_created_by :: string
  dc_created_at :: string
  dc_updated_at :: string

record d1_item =
  di_order :: string
  di_type :: string
  di_name :: string
  di_day_label :: string
  di_price :: int
  di_quantity :: int

record d1_db =
  d_settings :: "d1_settings list"
  d_types :: "d1_type list"
  d_orders :: "d1_order list"
  d_items :: "d1_item list"
  d_coupons :: "d1_coupon list"
  d_tickets :: "ticket list"
  d_outbox :: "mail_row list"
  d_jobs :: "(string \<times> string) list"

section \<open>SQL\<close>

definition update_where :: "('r \<Rightarrow> bool) \<Rightarrow> ('r \<Rightarrow> 'r) \<Rightarrow> 'r list \<Rightarrow> nat \<times> 'r list" where
  \<comment> \<open>the number of changed rows, and the table\<close>
  "update_where P f tab = (length (filter P tab), map (\<lambda>r. if P r then f r else r) tab)"

definition or_ignore :: "('r \<Rightarrow> 'r \<Rightarrow> bool) \<Rightarrow> 'r \<Rightarrow> 'r list \<Rightarrow> 'r list" where
  \<comment> \<open>\<open>INSERT OR IGNORE\<close>\<close>
  "or_ignore clash r tab = (if \<exists>x\<in>set tab. clash x r then tab else tab @ [r])"

definition lower_ascii :: "char \<Rightarrow> char" where
  "lower_ascii c = (if char_between CHR ''A'' CHR ''Z'' c then char_of (of_char c + 32 :: nat) else c)"

fun sql_like :: "string \<Rightarrow> string \<Rightarrow> bool" where
  \<comment> \<open>an underscore stands for any character, a percent sign for any text; ASCII letters match in either case\<close>
  "sql_like [] s = (s = [])"
| "sql_like (c # p) s =
     (if c = CHR ''%'' then sql_like p s \<or> (case s of [] \<Rightarrow> False | _ # t \<Rightarrow> sql_like (c # p) t)
      else (case s of [] \<Rightarrow> False | d # t \<Rightarrow> (c = CHR ''_'' \<or> lower_ascii c = lower_ascii d) \<and> sql_like p t))"

definition sql_bool :: "bool \<Rightarrow> int" where
  "sql_bool b = (if b then 1 else 0)"

section \<open>Reading rows\<close>

definition parseJsonArray :: "js \<Rightarrow> js list" where
  "parseJsonArray v = js_items v"

definition json_text :: "js \<Rightarrow> string" where
  "json_text v = (case js_str v of Some s \<Rightarrow> s | None \<Rightarrow> [])"

definition answer_json :: "form_answer \<Rightarrow> js" where
  "answer_json a = JObj [(''fieldId'', JStr (fa_fieldId a)), (''label'', JStr (fa_label a)), (''value'', JStr (fa_value a))]"

definition json_answer :: "js \<Rightarrow> form_answer" where
  "json_answer v = \<lparr>fa_fieldId = json_text (js_get v ''fieldId''), fa_label = json_text (js_get v ''label''),
                    fa_value = json_text (js_get v ''value'')\<rparr>"

definition field_type_text :: "field_type \<Rightarrow> string" where
  "field_type_text t = (case find (\<lambda>p. snd p = t) LP_FIELD_TYPES of Some p \<Rightarrow> fst p | None \<Rightarrow> [])"

definition field_json :: "form_field \<Rightarrow> js" where
  "field_json f = JObj ([(''id'', JStr (ff_id f)), (''label'', JStr (ff_label f))]
     @ (case ff_description f of Some d \<Rightarrow> [(''description'', JStr d)] | None \<Rightarrow> [])
     @ [(''type'', JStr (field_type_text (ff_type f))), (''required'', JBool (ff_required f)),
        (''options'', JArr (map JStr (ff_options f)))])"

definition json_field :: "js \<Rightarrow> form_field" where
  "json_field v = \<lparr>ff_id = json_text (js_get v ''id''), ff_label = json_text (js_get v ''label''),
     ff_description = js_str (js_get v ''description''),
     ff_type = (case isLpFieldType (js_get v ''type'') of Some t \<Rightarrow> t | None \<Rightarrow> F_text),
     ff_required = (js_get v ''required'' = JBool True), ff_options = map json_text (js_items (js_get v ''options''))\<rparr>"

definition parseCursor :: "string \<Rightarrow> (string \<times> string) option" where
  "parseCursor raw = (case index_of CHR ''~'' raw of
      Some i \<Rightarrow> if 0 < i then Some (take i raw, drop (i + 1) raw) else None
    | None \<Rightarrow> None)"

definition cursor_of :: "string option \<Rightarrow> (string \<times> string) option" where
  \<comment> \<open>\<open>cursor ? parseCursor(cursor) : null\<close>\<close>
  "cursor_of cursor = (case cursor of Some raw \<Rightarrow> if raw = [] then None else parseCursor raw | None \<Rightarrow> None)"

definition toSettings :: "d1_settings \<Rightarrow> ticket_settings" where
  "toSettings r = \<lparr>st_site = ds_site r, st_enabled = (ds_enabled r = 1), st_cta = (ds_cta_enabled r = 1),
     st_fields = map json_field (parseJsonArray (ds_fields r)), st_updatedBy = ds_updated_by r, st_updatedAt = ds_updated_at r\<rparr>"

definition toTicketType :: "d1_type \<Rightarrow> ticket_type" where
  "toTicketType r = \<lparr>tt_id = dt_id r, tt_site = dt_site r, tt_name = dt_name r, tt_description = dt_description r,
     tt_price = dt_price r, tt_capacity = dt_capacity r, tt_day = dt_day_label r, tt_maxPerOrder = dt_max_per_order r,
     tt_active = (dt_active r = 1), tt_sortOrder = dt_sort_order r, tt_createdAt = dt_created_at r, tt_updatedAt = dt_updated_at r\<rparr>"

definition toItem :: "d1_item \<Rightarrow> order_item" where
  "toItem r = \<lparr>oi_type = di_type r, oi_name = di_name r, oi_day = di_day_label r, oi_price = di_price r, oi_qty = di_quantity r\<rparr>"

definition toTicketOrder :: "d1_order \<Rightarrow> order_item list \<Rightarrow> ticket_order" where
  "toTicketOrder r items = \<lparr>o_id = do_id r, o_site = do_site r, o_items = items, o_quantity = do_quantity r,
     o_amount = do_amount r, o_status = do_status r, o_buyerName = do_buyer_name r, o_buyerEmail = do_buyer_email r,
     o_answers = map json_answer (parseJsonArray (do_answers r)), o_session = do_session r, o_createdAt = do_created_at r,
     o_paidAt = do_paid_at r, o_intent = do_intent r, o_refundedAt = do_refunded_at r, o_reviewReason = do_review_reason r,
     o_resolvedBy = do_resolved_by r, o_resolvedAt = do_resolved_at r, o_clientKey = do_client_key r,
     o_couponId = do_coupon_id r, o_paymentMethod = do_payment_method r, o_preview = (do_preview r = Some 1)\<rparr>"

definition d1_toCoupon :: "d1_coupon \<Rightarrow> coupon" where
  "d1_toCoupon r = \<lparr>cp_id = dc_id r, cp_site = dc_site r, cp_code = dc_code r, cp_label = dc_label r, cp_type = dc_type r,
     cp_maxUses = dc_max_uses r, cp_expiresAt = dc_expires_at r, cp_active = (dc_active r = 1),
     cp_createdBy = dc_created_by r, cp_createdAt = dc_created_at r, cp_updatedAt = dc_updated_at r\<rparr>"

definition group_items :: "d1_item list \<Rightarrow> string \<rightharpoonup> order_item list" where
  \<comment> \<open>\<open>byOrder\<close>\<close>
  "group_items items =
     fold (\<lambda>i m. m(di_order i \<mapsto> (case m (di_order i) of Some l \<Rightarrow> l | None \<Rightarrow> []) @ [toItem i])) items Map.empty"

definition withItems :: "d1_order list \<Rightarrow> d1_db \<Rightarrow> ticket_order list" where
  "withItems rows db =
     (let items = sort_key di_order (filter (\<lambda>i. di_order i \<in> set (map do_id rows)) (d_items db));
          byOrder = group_items items
      in map (\<lambda>r. toTicketOrder r (case byOrder (do_id r) of Some l \<Rightarrow> l | None \<Rightarrow> [])) rows)"

definition d1_one :: "d1_order option \<Rightarrow> d1_db \<Rightarrow> ticket_order option" where
  "d1_one row db = map_option (\<lambda>r. hd (withItems [r] db)) row"

definition d1_HELD :: "string \<Rightarrow> d1_order \<Rightarrow> bool" where
  "d1_HELD since r =
     (do_status r = O_paid \<or> do_status r = O_needs_review \<or> (do_status r = O_pending \<and> since \<le> do_created_at r))"

definition joined :: "d1_db \<Rightarrow> (d1_item \<times> d1_order) list" where
  \<comment> \<open>\<open>lp_ticket_order_items i JOIN lp_ticket_orders o ON o.id = i.order_id\<close>\<close>
  "joined db = concat (map (\<lambda>i. map (Pair i) (filter (\<lambda>r. do_id r = di_order i) (d_orders db))) (d_items db))"

definition d1_held :: "(d1_order \<Rightarrow> bool) \<Rightarrow> string \<Rightarrow> string \<Rightarrow> d1_db \<Rightarrow> int" where
  "d1_held P typ since db =
     sum_by (\<lambda>(i, r). di_quantity i) (filter (\<lambda>(i, r). di_type i = typ \<and> P r \<and> d1_HELD since r) (joined db))"

section \<open>Settings and ticket types\<close>

definition d1_getTicketSettings :: "string \<Rightarrow> d1_db \<Rightarrow> ticket_settings option" where
  "d1_getTicketSettings site db = map_option toSettings (find (\<lambda>r. ds_site r = site) (d_settings db))"

definition upsertSetting ::
  "string \<Rightarrow> (d1_settings \<Rightarrow> bool) \<Rightarrow> (d1_settings \<Rightarrow> d1_settings) \<Rightarrow> string \<Rightarrow> string \<Rightarrow> d1_db \<Rightarrow> d1_db" where
  \<comment> \<open>\<open>differs\<close> is the condition of the conflict clause\<close>
  "upsertSetting site differs column updatedBy updatedAt db =
     (let stamp = (\<lambda>r. (column r)\<lparr>ds_updated_by := Some updatedBy, ds_updated_at := updatedAt\<rparr>)
      in if \<exists>r\<in>set (d_settings db). ds_site r = site
         then db\<lparr>d_settings := snd (update_where (\<lambda>r. ds_site r = site \<and> differs r) stamp (d_settings db))\<rparr>
         else db\<lparr>d_settings := d_settings db @
                [stamp \<lparr>ds_site = site, ds_enabled = 0, ds_cta_enabled = 0, ds_fields = JArr [], ds_updated_by = None, ds_updated_at = []\<rparr>]\<rparr>)"

definition d1_setTicketEnabled :: "string \<Rightarrow> bool \<Rightarrow> string \<Rightarrow> string \<Rightarrow> d1_db \<Rightarrow> d1_db" where
  "d1_setTicketEnabled site enabled = upsertSetting site (\<lambda>r. True) (\<lambda>r. r\<lparr>ds_enabled := sql_bool enabled\<rparr>)"

definition d1_setTicketCta :: "string \<Rightarrow> bool \<Rightarrow> string \<Rightarrow> string \<Rightarrow> d1_db \<Rightarrow> d1_db" where
  "d1_setTicketCta site cta = upsertSetting site (\<lambda>r. True) (\<lambda>r. r\<lparr>ds_cta_enabled := sql_bool cta\<rparr>)"

definition d1_setTicketFields :: "string \<Rightarrow> form_field list \<Rightarrow> string \<Rightarrow> string \<Rightarrow> d1_db \<Rightarrow> d1_db" where
  "d1_setTicketFields site fs = upsertSetting site (\<lambda>r. True) (\<lambda>r. r\<lparr>ds_fields := JArr (map field_json fs)\<rparr>)"

definition d1_setTicketRelease :: "string \<Rightarrow> bool \<Rightarrow> bool \<Rightarrow> string \<Rightarrow> string \<Rightarrow> d1_db \<Rightarrow> d1_db" where
  "d1_setTicketRelease site enabled cta =
     upsertSetting site (\<lambda>r. ds_enabled r \<noteq> sql_bool enabled \<or> ds_cta_enabled r \<noteq> sql_bool cta)
       (\<lambda>r. r\<lparr>ds_enabled := sql_bool enabled, ds_cta_enabled := sql_bool cta\<rparr>)"

definition d1_listTicketTypes :: "string \<Rightarrow> d1_db \<Rightarrow> ticket_type list" where
  "d1_listTicketTypes site db =
     map toTicketType (sort_key (\<lambda>r. (dt_sort_order r, dt_created_at r)) (filter (\<lambda>r. dt_site r = site) (d_types db)))"

definition d1_getTicketType :: "string \<Rightarrow> string \<Rightarrow> d1_db \<Rightarrow> ticket_type option" where
  "d1_getTicketType site i db = map_option toTicketType (find (\<lambda>r. dt_site r = site \<and> dt_id r = i) (d_types db))"

definition d1_insertTicketType :: "ticket_type \<Rightarrow> d1_db \<Rightarrow> d1_db option" where
  "d1_insertTicketType t db =
     (if \<exists>r\<in>set (d_types db). dt_id r = tt_id t then None
      else Some (db\<lparr>d_types := d_types db @ [\<lparr>dt_id = tt_id t, dt_site = tt_site t, dt_name = tt_name t,
             dt_description = tt_description t, dt_price = tt_price t, dt_capacity = tt_capacity t, dt_day_label = tt_day t,
             dt_max_per_order = tt_maxPerOrder t, dt_active = sql_bool (tt_active t), dt_sort_order = tt_sortOrder t,
             dt_created_at = tt_createdAt t, dt_updated_at = tt_updatedAt t\<rparr>]\<rparr>))"

definition d1_updateTicketType :: "ticket_type \<Rightarrow> d1_db \<Rightarrow> d1_db" where
  "d1_updateTicketType t db =
     db\<lparr>d_types := snd (update_where (\<lambda>r. dt_site r = tt_site t \<and> dt_id r = tt_id t)
       (\<lambda>r. r\<lparr>dt_name := tt_name t, dt_description := tt_description t, dt_price := tt_price t, dt_capacity := tt_capacity t,
             dt_day_label := tt_day t, dt_max_per_order := tt_maxPerOrder t, dt_active := sql_bool (tt_active t),
             dt_sort_order := tt_sortOrder t, dt_updated_at := tt_updatedAt t\<rparr>) (d_types db))\<rparr>"

definition d1_ticketAggregates :: "string \<Rightarrow> string \<Rightarrow> d1_db \<Rightarrow> type_agg list" where
  "d1_ticketAggregates site pendingSince db =
     (let rows = filter (\<lambda>(i, r). do_site r = site \<and> do_status r \<in> {O_paid, O_needs_review, O_pending}) (joined db);
          total = (\<lambda>k P f. sum_by (\<lambda>(i, r). if P r then f i else 0) (filter (\<lambda>(i, r). di_type i = k) rows))
      in map (\<lambda>k. \<lparr>ag_type = k, ag_sold = total k (\<lambda>r. do_status r = O_paid) di_quantity,
              ag_pending = total k (\<lambda>r. do_status r = O_needs_review \<or> (do_status r = O_pending \<and> pendingSince \<le> do_created_at r)) di_quantity,
              ag_revenue = total k (\<lambda>r. do_status r = O_paid) (\<lambda>i. di_quantity i * di_price i)\<rparr>)
           (uniq (map (\<lambda>(i, r). di_type i) rows)))"

definition d1_countPendingOrdersSince :: "string \<Rightarrow> string \<Rightarrow> d1_db \<Rightarrow> nat" where
  "d1_countPendingOrdersSince site pendingSince db =
     length (filter (\<lambda>r. do_site r = site \<and> do_status r = O_pending \<and> pendingSince \<le> do_created_at r) (d_orders db))"

definition d1_heldPendingByClient :: "string \<Rightarrow> string \<Rightarrow> string \<Rightarrow> d1_db \<Rightarrow> int" where
  "d1_heldPendingByClient site clientKey pendingSince db =
     sum_by do_quantity (filter (\<lambda>r. do_client_key r = Some clientKey \<and> do_site r = site \<and> do_status r = O_pending
       \<and> pendingSince \<le> do_created_at r) (d_orders db))"

section \<open>Placing an order\<close>

definition sessions_unique :: "d1_order list \<Rightarrow> bool" where
  \<comment> \<open>\<open>stripe_session_id TEXT UNIQUE\<close>; NULLs never clash\<close>
  "sessions_unique tab = distinct (filter (\<lambda>x. x \<noteq> None) (map do_session tab))"

definition insert_order_row :: "ticket_order \<Rightarrow> d1_order" where
  \<comment> \<open>the columns the statement leaves out are NULL\<close>
  "insert_order_row x = \<lparr>do_id = o_id x, do_site = o_site x, do_quantity = o_quantity x, do_amount = o_amount x,
     do_status = o_status x, do_buyer_name = o_buyerName x, do_buyer_email = o_buyerEmail x,
     do_answers = JArr (map answer_json (o_answers x)), do_session = o_session x, do_created_at = o_createdAt x,
     do_paid_at = o_paidAt x, do_intent = None, do_refunded_at = None, do_review_reason = None, do_resolved_by = None,
     do_resolved_at = None, do_client_key = o_clientKey x, do_payment_method = None, do_preview = None,
     do_coupon_id = o_couponId x\<rparr>"

definition coupon_has_room :: "ticket_order \<Rightarrow> string \<Rightarrow> d1_db \<Rightarrow> bool" where
  \<comment> \<open>the condition of the first statement\<close>
  "coupon_has_room x pendingSince db =
     (case o_couponId x of None \<Rightarrow> True
      | Some couponId \<Rightarrow> (\<exists>c\<in>set (d_coupons db). dc_id c = couponId \<and> dc_site c = o_site x \<and> dc_active c = 1
          \<and> (case dc_expires_at c of None \<Rightarrow> True | Some e \<Rightarrow> o_createdAt x < e)
          \<and> length (o_items x) = 1 \<and> (case o_items x of i # _ \<Rightarrow> dc_type c = oi_type i | [] \<Rightarrow> False)
          \<and> sum_by do_quantity (filter (\<lambda>r. do_coupon_id r = Some (dc_id c) \<and> d1_HELD pendingSince r) (d_orders db))
              + o_quantity x \<le> dc_max_uses c))"

definition insert_order :: "ticket_order \<Rightarrow> string \<Rightarrow> d1_db \<Rightarrow> (nat \<times> d1_db) option" where
  "insert_order x pendingSince db =
     (if \<not> coupon_has_room x pendingSince db then Some (0, db)
      else let tab = d_orders db @ [insert_order_row x]
           in if o_id x \<in> do_id ` set (d_orders db) \<or> \<not> sessions_unique tab then None
              else Some (1, db\<lparr>d_orders := tab\<rparr>))"

definition seats_free :: "ticket_order \<Rightarrow> (string \<rightharpoonup> int option) \<Rightarrow> string \<Rightarrow> d1_db \<Rightarrow> order_item \<Rightarrow> bool" where
  \<comment> \<open>the condition of an item statement\<close>
  "seats_free x capacities pendingSince db i =
     (case capacities (oi_type i) of
        Some (Some capacity) \<Rightarrow>
          d1_held (\<lambda>r. do_site r = o_site x \<and> do_id r \<noteq> o_id x) (oi_type i) pendingSince db + oi_qty i \<le> capacity
      | _ \<Rightarrow> True)"

fun insert_items ::
  "ticket_order \<Rightarrow> (string \<rightharpoonup> int option) \<Rightarrow> string \<Rightarrow> order_item list \<Rightarrow> d1_db \<Rightarrow> (nat list \<times> d1_db) option" where
  "insert_items x capacities pendingSince [] db = Some ([], db)"
| "insert_items x capacities pendingSince (i # is) db =
     (if \<not> seats_free x capacities pendingSince db i
      then map_option (\<lambda>(ns, db'). (0 # ns, db')) (insert_items x capacities pendingSince is db)
      else if \<exists>r\<in>set (d_items db). di_order r = o_id x \<and> di_type r = oi_type i then None
      else map_option (\<lambda>(ns, db'). (1 # ns, db'))
             (insert_items x capacities pendingSince is
               (db\<lparr>d_items := d_items db @ [\<lparr>di_order = o_id x, di_type = oi_type i, di_name = oi_name i,
                  di_day_label = oi_day i, di_price = oi_price i, di_quantity = oi_qty i\<rparr>]\<rparr>)))"

definition drop_partial :: "ticket_order \<Rightarrow> d1_db \<Rightarrow> d1_db" where
  \<comment> \<open>the two \<open>DELETE\<close> statements\<close>
  "drop_partial x db =
     (let n = length (filter (\<lambda>i. di_order i = o_id x) (d_items db));
          orders = filter (\<lambda>r. \<not> (do_id r = o_id x \<and> n < length (o_items x))) (d_orders db)
      in db\<lparr>d_orders := orders,
            d_items := filter (\<lambda>i. \<not> (di_order i = o_id x \<and> o_id x \<notin> do_id ` set orders)) (d_items db)\<rparr>)"

definition d1_insertOrderIfAvailable ::
  "ticket_order \<Rightarrow> (string \<rightharpoonup> int option) \<Rightarrow> string \<Rightarrow> d1_db \<Rightarrow> (insert_result \<times> d1_db) option" where
  "d1_insertOrderIfAvailable x capacities pendingSince db =
     (case insert_order x pendingSince db of
        None \<Rightarrow> None
      | Some (n0, db1) \<Rightarrow>
          (case insert_items x capacities pendingSince (o_items x) db1 of
             None \<Rightarrow> None
           | Some (ns, db2) \<Rightarrow>
               Some (if n0 = 0 then Coupon_used_up
                     else (case find (\<lambda>(n, i). n = 0) (zip ns (o_items x)) of
                             Some (n, i) \<Rightarrow> Sold_out (oi_type i)
                           | None \<Rightarrow> Insert_ok),
                     drop_partial x db2)))"

section \<open>Coupons\<close>

definition d1_insertCoupon :: "coupon \<Rightarrow> d1_db \<Rightarrow> (bool \<times> d1_db) option" where
  "d1_insertCoupon c db =
     (if \<exists>r\<in>set (d_coupons db). dc_site r = cp_site c \<and> dc_code r = cp_code c then Some (False, db)
      else if \<exists>r\<in>set (d_coupons db). dc_id r = cp_id c then None
      else Some (True, db\<lparr>d_coupons := d_coupons db @ [\<lparr>dc_id = cp_id c, dc_site = cp_site c, dc_code = cp_code c,
             dc_label = cp_label c, dc_type = cp_type c, dc_max_uses = cp_maxUses c, dc_expires_at = cp_expiresAt c,
             dc_active = sql_bool (cp_active c), dc_created_by = cp_createdBy c, dc_created_at = cp_createdAt c,
             dc_updated_at = cp_updatedAt c\<rparr>]\<rparr>))"

definition d1_getCoupon :: "string \<Rightarrow> string \<Rightarrow> d1_db \<Rightarrow> coupon option" where
  "d1_getCoupon site i db = map_option d1_toCoupon (find (\<lambda>r. dc_site r = site \<and> dc_id r = i) (d_coupons db))"

definition d1_getCouponByCode :: "string \<Rightarrow> string \<Rightarrow> d1_db \<Rightarrow> coupon option" where
  "d1_getCouponByCode site code db = map_option d1_toCoupon (find (\<lambda>r. dc_site r = site \<and> dc_code r = code) (d_coupons db))"

definition d1_setCouponActive :: "string \<Rightarrow> string \<Rightarrow> bool \<Rightarrow> string \<Rightarrow> d1_db \<Rightarrow> bool \<times> d1_db" where
  "d1_setCouponActive site i active updatedAt db =
     (let (n, tab) = update_where (\<lambda>r. dc_site r = site \<and> dc_id r = i)
            (\<lambda>r. r\<lparr>dc_active := sql_bool active, dc_updated_at := updatedAt\<rparr>) (d_coupons db)
      in (0 < n, db\<lparr>d_coupons := tab\<rparr>))"

definition d1_listCoupons :: "string \<Rightarrow> d1_db \<Rightarrow> coupon list" where
  "d1_listCoupons site db =
     map d1_toCoupon (rev (sort_key (\<lambda>r. (dc_created_at r, dc_id r)) (filter (\<lambda>r. dc_site r = site) (d_coupons db))))"

definition d1_couponUses :: "string \<Rightarrow> string \<Rightarrow> d1_db \<Rightarrow> (string \<rightharpoonup> int)" where
  \<comment> \<open>the groups and their sums\<close>
  "d1_couponUses site pendingSince db =
     (let rows = filter (\<lambda>r. do_site r = site \<and> d1_HELD pendingSince r) (d_orders db)
      in (\<lambda>k. if Some k \<in> do_coupon_id ` set rows
              then Some (sum_by do_quantity (filter (\<lambda>r. do_coupon_id r = Some k) rows)) else None))"

section \<open>Orders\<close>

definition d1_getOrder :: "string \<Rightarrow> string \<Rightarrow> d1_db \<Rightarrow> ticket_order option" where
  "d1_getOrder site i db = d1_one (find (\<lambda>r. do_site r = site \<and> do_id r = i) (d_orders db)) db"

definition d1_getOrderBySession :: "string \<Rightarrow> d1_db \<Rightarrow> ticket_order option" where
  "d1_getOrderBySession sessionId db = d1_one (find (\<lambda>r. do_session r = Some sessionId) (d_orders db)) db"

definition update_orders :: "(d1_order \<Rightarrow> bool) \<Rightarrow> (d1_order \<Rightarrow> d1_order) \<Rightarrow> d1_db \<Rightarrow> nat \<times> d1_db" where
  "update_orders P f db = (let (n, tab) = update_where P f (d_orders db) in (n, db\<lparr>d_orders := tab\<rparr>))"

definition d1_setOrderSession :: "string \<Rightarrow> string \<Rightarrow> d1_db \<Rightarrow> d1_db option" where
  "d1_setOrderSession i sessionId db =
     (let db' = snd (update_orders (\<lambda>r. do_id r = i) (\<lambda>r. r\<lparr>do_session := Some sessionId\<rparr>) db)
      in if sessions_unique (d_orders db') then Some db' else None)"

definition d1_getOrderByPaymentIntent :: "string \<Rightarrow> d1_db \<Rightarrow> ticket_order option" where
  "d1_getOrderByPaymentIntent intent db = d1_one (find (\<lambda>r. do_intent r = Some intent) (d_orders db)) db"

definition d1_over :: "string \<Rightarrow> string option \<Rightarrow> d1_db \<Rightarrow> bool" where
  "d1_over i capacitySince db =
     (case capacitySince of None \<Rightarrow> False
      | Some since \<Rightarrow> (\<exists>mine\<in>set (d_items db). \<exists>t\<in>set (d_types db). dt_id t = di_type mine \<and> di_order mine = i
          \<and> (case dt_capacity t of None \<Rightarrow> False
             | Some cap \<Rightarrow> cap < d1_held (\<lambda>r. do_id r \<noteq> i) (di_type mine) since db + di_quantity mine)))"

definition d1_markOrderPaid :: "string \<Rightarrow> paid_settlement \<Rightarrow> d1_db \<Rightarrow> (order_status option \<times> d1_db) option" where
  "d1_markOrderPaid i p db =
     (let over = d1_over i (ps_capacitySince p) db;
          status = (if over then O_needs_review else O_paid);
          (n, db') = update_orders (\<lambda>r. do_id r = i \<and> do_status r \<in> {O_pending, O_expired})
            (\<lambda>r. r\<lparr>do_status := status, do_review_reason := (if over then Some ''oversold'' else None),
                  do_paid_at := Some (ps_paidAt p), do_session := coalesce (do_session r) (ps_session p),
                  do_intent := coalesce (do_intent r) (ps_intent p)\<rparr>) db
      in if sessions_unique (d_orders db') then Some (if 0 < n then Some status else None, db') else None)"

definition d1_markOrderPreview :: "string \<Rightarrow> d1_db \<Rightarrow> d1_db" where
  "d1_markOrderPreview i db = snd (update_orders (\<lambda>r. do_id r = i) (\<lambda>r. r\<lparr>do_preview := Some 1\<rparr>) db)"

definition d1_setOrderPaymentMethod :: "string \<Rightarrow> string \<Rightarrow> d1_db \<Rightarrow> d1_db" where
  "d1_setOrderPaymentMethod i method db =
     snd (update_orders (\<lambda>r. do_id r = i) (\<lambda>r. r\<lparr>do_payment_method := Some method\<rparr>) db)"

definition d1_markOrderExpired :: "string \<Rightarrow> d1_db \<Rightarrow> bool \<times> d1_db" where
  "d1_markOrderExpired i db =
     (let (n, db') = update_orders (\<lambda>r. do_id r = i \<and> do_status r = O_pending) (\<lambda>r. r\<lparr>do_status := O_expired\<rparr>) db
      in (0 < n, db'))"

definition d1_markOrderNeedsReview :: "string \<Rightarrow> string \<Rightarrow> string option \<Rightarrow> d1_db \<Rightarrow> bool \<times> d1_db" where
  "d1_markOrderNeedsReview i reason intent db =
     (let (n, db') = update_orders (\<lambda>r. do_id r = i \<and> do_status r \<in> {O_pending, O_expired, O_paid})
            (\<lambda>r. r\<lparr>do_status := O_needs_review, do_review_reason := Some reason, do_intent := coalesce (do_intent r) intent\<rparr>) db
      in (0 < n, db'))"

definition d1_markOrderRefunded :: "string \<Rightarrow> string \<Rightarrow> d1_db \<Rightarrow> bool \<times> d1_db" where
  \<comment> \<open>the second statement does not depend on the first\<close>
  "d1_markOrderRefunded i refundedAt db =
     (let (n, db') = update_orders (\<lambda>r. do_id r = i \<and> do_status r \<in> {O_paid, O_needs_review})
            (\<lambda>r. r\<lparr>do_status := O_refunded, do_refunded_at := Some refundedAt\<rparr>) db
      in (0 < n, db'\<lparr>d_tickets := snd (update_where (\<lambda>t. tk_order t = i \<and> tk_status t = T_valid)
                   (\<lambda>t. t\<lparr>tk_status := T_void, tk_voidedAt := Some refundedAt\<rparr>) (d_tickets db'))\<rparr>))"

definition d1_approveOrder :: "string \<Rightarrow> string \<Rightarrow> string \<Rightarrow> string option \<Rightarrow> d1_db \<Rightarrow> bool \<times> d1_db" where
  "d1_approveOrder i resolvedBy resolvedAt onlyReason db =
     (let (n, db') = update_orders (\<lambda>r. do_id r = i \<and> do_status r = O_needs_review
              \<and> (onlyReason = None \<or> do_review_reason r = onlyReason))
            (\<lambda>r. r\<lparr>do_status := O_paid, do_paid_at := coalesce (do_paid_at r) (Some resolvedAt),
                  do_resolved_by := Some resolvedBy, do_resolved_at := Some resolvedAt\<rparr>) db
      in (0 < n, db'))"

definition d1_setOrderPaymentIntent :: "string \<Rightarrow> string \<Rightarrow> d1_db \<Rightarrow> d1_db" where
  "d1_setOrderPaymentIntent i intent db =
     snd (update_orders (\<lambda>r. do_id r = i \<and> do_intent r = None) (\<lambda>r. r\<lparr>do_intent := Some intent\<rparr>) db)"

definition like_null :: "string \<Rightarrow> string option \<Rightarrow> bool" where
  "like_null pattern v = (case v of None \<Rightarrow> False | Some s \<Rightarrow> sql_like pattern s)"

definition by_created :: "d1_order list \<Rightarrow> d1_order list" where
  \<comment> \<open>\<open>ORDER BY created_at, id\<close>\<close>
  "by_created = sort_key (\<lambda>r. (do_created_at r, do_id r))"

definition d1_listMissingPaymentIntent :: "string \<Rightarrow> bool \<Rightarrow> nat \<Rightarrow> d1_db \<Rightarrow> ticket_order list" where
  "d1_listMissingPaymentIntent site livemode limit db =
     withItems (take limit (by_created (filter (\<lambda>r. do_site r = site \<and> do_status r \<in> {O_paid, O_needs_review}
       \<and> like_null (if livemode then ''cs_live_%'' else ''cs_test_%'') (do_session r) \<and> do_intent r = None) (d_orders db)))) db"

definition d1_listPendingWithSession :: "string \<Rightarrow> string \<Rightarrow> string \<Rightarrow> nat \<Rightarrow> d1_db \<Rightarrow> ticket_order list" where
  "d1_listPendingWithSession site from to limit db =
     withItems (take limit (by_created (filter (\<lambda>r. do_site r = site \<and> do_status r = O_pending \<and> do_session r \<noteq> None
       \<and> from \<le> do_created_at r \<and> do_created_at r < to) (d_orders db)))) db"

definition d1_expireSessionlessPending :: "string \<Rightarrow> string \<Rightarrow> d1_db \<Rightarrow> nat \<times> d1_db" where
  "d1_expireSessionlessPending site before =
     update_orders (\<lambda>r. do_site r = site \<and> do_status r = O_pending \<and> do_session r = None \<and> do_created_at r < before)
       (\<lambda>r. r\<lparr>do_status := O_expired\<rparr>)"

definition d1_listOrders :: "string \<Rightarrow> string option \<Rightarrow> nat \<Rightarrow> d1_db \<Rightarrow> ticket_order list" where
  "d1_listOrders site cursor limit db =
     withItems (take limit (rev (by_created (filter (\<lambda>r. do_site r = site
       \<and> (case cursor_of cursor of None \<Rightarrow> True
          | Some (d, i) \<Rightarrow> do_created_at r < d \<or> (do_created_at r = d \<and> do_id r < i))) (d_orders db))))) db"

definition d1_listOrdersAscending :: "string \<Rightarrow> string option \<Rightarrow> nat \<Rightarrow> d1_db \<Rightarrow> ticket_order list" where
  \<comment> \<open>the items come through the same page, as a subquery\<close>
  "d1_listOrdersAscending site cursor limit db =
     withItems (take limit (by_created (filter (\<lambda>r. do_site r = site
       \<and> (case cursor_of cursor of None \<Rightarrow> True
          | Some (d, i) \<Rightarrow> d < do_created_at r \<or> (do_created_at r = d \<and> i < do_id r))) (d_orders db)))) db"

section \<open>Tickets, the mail outbox and the daily jobs\<close>

definition d1_issueFulfilment :: "string \<Rightarrow> ticket list \<Rightarrow> mail_row list \<Rightarrow> d1_db \<Rightarrow> d1_db" where
  "d1_issueFulfilment i tickets outbox db =
     (let paid = (\<lambda>db. \<exists>r\<in>set (d_orders db). do_id r = i \<and> do_status r = O_paid);
          put_ticket = (\<lambda>t db. if paid db
            then db\<lparr>d_tickets := or_ignore (\<lambda>x t. tk_id x = tk_id t) (t\<lparr>tk_voidedAt := None\<rparr>) (d_tickets db)\<rparr> else db);
          put_mail = (\<lambda>r db. if paid db
            then db\<lparr>d_outbox := or_ignore (\<lambda>x r. ml_id x = ml_id r \<or> (ml_order x = ml_order r \<and> ml_kind x = ml_kind r))
                   (r\<lparr>ml_error := None, ml_sentAt := None\<rparr>) (d_outbox db)\<rparr> else db)
      in fold put_mail outbox (fold put_ticket tickets db))"

definition d1_unfulfilled :: "d1_db \<Rightarrow> d1_order \<Rightarrow> bool" where
  "d1_unfulfilled db r =
     (int (length (filter (\<lambda>t. tk_order t = do_id r) (d_tickets db))) < do_quantity r
      \<or> \<not> (\<exists>m\<in>set (d_outbox db). ml_order m = do_id r \<and> ml_kind m = Buyer_confirmation)
      \<or> ((case do_preview r of Some n \<Rightarrow> n | None \<Rightarrow> 0) = 0
         \<and> \<not> sql_like ''cs_test_%'' (case do_session r of Some n \<Rightarrow> n | None \<Rightarrow> [])
         \<and> \<not> (\<exists>m\<in>set (d_outbox db). ml_order m = do_id r \<and> ml_kind m = Ops_copy)))"

definition d1_listUnfulfilled :: "string \<Rightarrow> string option \<Rightarrow> nat \<Rightarrow> d1_db \<Rightarrow> ticket_order list" where
  "d1_listUnfulfilled site paidSince limit db =
     withItems (take limit (sort_key (\<lambda>r. (do_paid_at r, do_id r)) (filter (\<lambda>r. do_site r = site \<and> do_status r = O_paid
       \<and> (case paidSince of None \<Rightarrow> True | Some since \<Rightarrow> (case do_paid_at r of Some p \<Rightarrow> since \<le> p | None \<Rightarrow> False))
       \<and> d1_unfulfilled db r) (d_orders db)))) db"

definition d1_getTicket :: "string \<Rightarrow> d1_db \<Rightarrow> ticket option" where
  "d1_getTicket i db = find (\<lambda>t. tk_id t = i) (d_tickets db)"

definition d1_ticketsForOrders :: "string list \<Rightarrow> d1_db \<Rightarrow> ticket list" where
  "d1_ticketsForOrders ids db = sort_key tk_order (filter (\<lambda>t. tk_order t \<in> set ids) (d_tickets db))"

definition d1_listTickets :: "string option \<Rightarrow> nat \<Rightarrow> d1_db \<Rightarrow> ticket list" where
  "d1_listTickets cursor limit db =
     take limit (sort_key tk_id (filter (\<lambda>t. (case cursor of Some c \<Rightarrow> c | None \<Rightarrow> []) < tk_id t) (d_tickets db)))"

definition d1_ordersByIds :: "string \<Rightarrow> string list \<Rightarrow> d1_db \<Rightarrow> ticket_order list" where
  "d1_ordersByIds site ids db = withItems (filter (\<lambda>r. do_site r = site \<and> do_id r \<in> set ids) (d_orders db)) db"

definition d1_countOutboxQueued :: "mail_kind list \<Rightarrow> d1_db \<Rightarrow> nat" where
  "d1_countOutboxQueued kinds db =
     (if kinds = [] then 0 else length (filter (\<lambda>r. ml_status r = M_pending \<and> ml_kind r \<in> set kinds) (d_outbox db)))"

definition d1_countOutboxSentSince :: "string \<Rightarrow> d1_db \<Rightarrow> nat" where
  "d1_countOutboxSentSince since db =
     length (filter (\<lambda>r. ml_status r = M_sent \<and> (case ml_sentAt r of Some t \<Rightarrow> since \<le> t | None \<Rightarrow> False)) (d_outbox db))"

definition d1_claimOutbox :: "mail_claim \<Rightarrow> d1_db \<Rightarrow> mail_row list \<times> d1_db" where
  \<comment> \<open>the rows come back with the lease already in them, and are sorted then\<close>
  "d1_claimOutbox c db =
     (if cl_kinds c = [] then ([], db)
      else let due = filter (\<lambda>r. ml_status r = M_pending \<and> ml_next r \<le> cl_now c \<and> ml_kind r \<in> set (cl_kinds c)
                        \<and> (case cl_order c of None \<Rightarrow> True | Some i \<Rightarrow> ml_order r = i)) (d_outbox db);
               ids = map ml_id (take (cl_limit c) (sort_key (\<lambda>r. (kind_string (ml_kind r), ml_next r, ml_id r)) due));
               lease = (\<lambda>r. r\<lparr>ml_next := cl_leaseUntil c\<rparr>)
           in (sort_key mail_key (map lease (filter (\<lambda>r. ml_id r \<in> set ids) (d_outbox db))),
               db\<lparr>d_outbox := snd (update_where (\<lambda>r. ml_id r \<in> set ids) lease (d_outbox db))\<rparr>))"

definition d1_applyOutboxUpdates :: "mail_update list \<Rightarrow> d1_db \<Rightarrow> d1_db" where
  "d1_applyOutboxUpdates updates db =
     db\<lparr>d_outbox := fold (\<lambda>u tab. snd (update_where (\<lambda>r. ml_id r = mu_id u) (apply_update u) tab)) updates (d_outbox db)\<rparr>"

definition d1_outboxDue :: "string \<Rightarrow> d1_db \<Rightarrow> mail_kind \<Rightarrow> nat" where
  \<comment> \<open>no group for a kind reads as 0\<close>
  "d1_outboxDue before db k = length (filter (\<lambda>r. ml_kind r = k) (filter (\<lambda>r. ml_status r = M_pending \<and> ml_next r \<le> before) (d_outbox db)))"

definition d1_listOrderOutbox :: "string \<Rightarrow> d1_db \<Rightarrow> mail_row list" where
  "d1_listOrderOutbox i db = sort_key (\<lambda>r. kind_string (ml_kind r)) (filter (\<lambda>r. ml_order r = i) (d_outbox db))"

definition d1_getJobStates :: "d1_db \<Rightarrow> (string \<rightharpoonup> string)" where
  "d1_getJobStates db = map_of (rev (d_jobs db))"

definition d1_setJobState :: "string \<Rightarrow> string \<Rightarrow> d1_db \<Rightarrow> d1_db" where
  "d1_setJobState k v db =
     (if k \<in> fst ` set (d_jobs db) then db\<lparr>d_jobs := snd (update_where (\<lambda>r. fst r = k) (\<lambda>r. (k, v)) (d_jobs db))\<rparr>
      else db\<lparr>d_jobs := d_jobs db @ [(k, v)]\<rparr>)"

end
