(* ===== verification/Ticket_D1_Refine.thy ===== *)
theory Ticket_D1_Refine
  imports Ticket_D1
begin

text \<open>
  The production repository against the one of \<open>Ticket_Store\<close>. \<open>repo_of\<close> reads the rows of the database as the
  service sees them; under the keys of the schema every operation of \<open>d1-repo.ts\<close> returns what the operation of
  \<open>memory-repo.ts\<close> returns on \<open>repo_of db\<close>, and leaves a database whose reading is the new store.
\<close>

section \<open>The reading of the tables\<close>

definition items_of :: "d1_db \<Rightarrow> string \<Rightarrow> order_item list" where
  "items_of db i = map toItem (filter (\<lambda>r. di_order r = i) (d_items db))"

definition order_of :: "d1_db \<Rightarrow> d1_order \<Rightarrow> ticket_order" where
  "order_of db r = toTicketOrder r (items_of db (do_id r))"

definition repo_of :: "d1_db \<Rightarrow> store" where
  "repo_of db = \<lparr>s_settings = (\<lambda>site. d1_getTicketSettings site db), s_types = map toTicketType (d_types db),
     s_orders = map (order_of db) (d_orders db), s_coupons = map d1_toCoupon (d_coupons db),
     s_tickets = d_tickets db, s_mails = d_outbox db, s_jobs = d1_getJobStates db\<rparr>"

definition iso_text :: "string \<Rightarrow> bool" where
  \<comment> \<open>a timestamp as \<open>toISOString\<close> prints it in the years 0 to 9999\<close>
  "iso_text t = (length t = 24 \<and> CHR ''~'' \<notin> set t)"

definition stripe_session :: "string \<Rightarrow> bool" where
  "stripe_session n = (starts_with ''cs_test_'' n \<or> starts_with ''cs_live_'' n)"

definition order_ok :: "coupon list \<Rightarrow> ticket_order \<Rightarrow> bool" where
  \<comment> \<open>what the service keeps of every order\<close>
  "order_ok cs x =
     (iso_text (o_createdAt x) \<and> (\<forall>p. o_paidAt x = Some p \<longrightarrow> iso_text p) \<and> (o_status x = O_paid \<longrightarrow> o_paidAt x \<noteq> None)
      \<and> (\<forall>n. o_session x = Some n \<longrightarrow> stripe_session n) \<and> o_intent x \<noteq> Some '''' \<and> distinct (map oi_type (o_items x))
      \<and> (\<forall>k. o_couponId x = Some k \<longrightarrow> 0 < o_quantity x \<and> (\<exists>c\<in>set cs. cp_id c = k \<and> cp_site c = o_site x)))"

definition sessions :: "ticket_order list \<Rightarrow> string option list" where
  "sessions xs = filter (\<lambda>x. x \<noteq> None) (map o_session xs)"

definition tables_ok :: "store \<Rightarrow> bool" where
  "tables_ok s =
     (distinct (map tt_id (s_types s)) \<and> distinct (map o_id (s_orders s)) \<and> distinct (sessions (s_orders s))
      \<and> distinct (map cp_id (s_coupons s)) \<and> (\<forall>x\<in>set (s_orders s). order_ok (s_coupons s) x)
      \<and> (\<forall>t\<in>set (s_tickets s). tk_id t \<noteq> []) \<and> distinct (map tk_id (s_tickets s))
      \<and> distinct (map ml_id (s_mails s)) \<and> (\<forall>r\<in>set (s_mails s). iso_text (ml_next r)))"

definition d1_ok :: "d1_db \<Rightarrow> bool" where
  \<comment> \<open>the keys of the schema, no items without their order, flags that are flags\<close>
  "d1_ok db =
     (distinct (map ds_site (d_settings db)) \<and> (\<forall>r\<in>set (d_settings db). ds_enabled r \<in> {0, 1} \<and> ds_cta_enabled r \<in> {0, 1})
      \<and> di_order ` set (d_items db) \<subseteq> do_id ` set (d_orders db) \<and> distinct (map fst (d_jobs db))
      \<and> (\<forall>r\<in>set (d_orders db). do_preview r \<in> {None, Some 0, Some 1}) \<and> tables_ok (repo_of db))"

lemma repo_of_sel [simp]:
  "s_settings (repo_of db) = (\<lambda>site. d1_getTicketSettings site db)" "s_types (repo_of db) = map toTicketType (d_types db)"
  "s_orders (repo_of db) = map (order_of db) (d_orders db)" "s_coupons (repo_of db) = map d1_toCoupon (d_coupons db)"
  "s_tickets (repo_of db) = d_tickets db" "s_mails (repo_of db) = d_outbox db" "s_jobs (repo_of db) = d1_getJobStates db"
  by (simp_all add: repo_of_def)

lemma order_of_sel [simp]:
  "o_id (order_of db r) = do_id r" "o_site (order_of db r) = do_site r" "o_items (order_of db r) = items_of db (do_id r)"
  "o_quantity (order_of db r) = do_quantity r" "o_status (order_of db r) = do_status r" "o_session (order_of db r) = do_session r"
  "o_createdAt (order_of db r) = do_created_at r" "o_paidAt (order_of db r) = do_paid_at r" "o_intent (order_of db r) = do_intent r"
  "o_reviewReason (order_of db r) = do_review_reason r" "o_clientKey (order_of db r) = do_client_key r"
  "o_couponId (order_of db r) = do_coupon_id r" "o_preview (order_of db r) = (do_preview r = Some 1)"
  by (simp_all add: order_of_def toTicketOrder_def)

lemma toTicketType_sel [simp]:
  "tt_id (toTicketType r) = dt_id r" "tt_site (toTicketType r) = dt_site r" "tt_capacity (toTicketType r) = dt_capacity r"
  "tt_sortOrder (toTicketType r) = dt_sort_order r" "tt_createdAt (toTicketType r) = dt_created_at r"
  by (simp_all add: toTicketType_def)

lemma d1_toCoupon_sel [simp]:
  "cp_id (d1_toCoupon r) = dc_id r" "cp_site (d1_toCoupon r) = dc_site r" "cp_code (d1_toCoupon r) = dc_code r"
  "cp_createdAt (d1_toCoupon r) = dc_created_at r" "cp_type (d1_toCoupon r) = dc_type r" "cp_maxUses (d1_toCoupon r) = dc_max_uses r"
  "cp_expiresAt (d1_toCoupon r) = dc_expires_at r" "cp_active (d1_toCoupon r) = (dc_active r = 1)"
  by (simp_all add: d1_toCoupon_def)

lemma toItem_sel [simp]: "oi_type (toItem r) = di_type r" "oi_qty (toItem r) = di_quantity r" "oi_price (toItem r) = di_price r"
  by (simp_all add: toItem_def)

lemma sql_bool_simps [simp]: "(sql_bool b = 1) = b" "(sql_bool b = 0) = (\<not> b)" "sql_bool b \<in> {0, 1}" "(sql_bool a = sql_bool b) = (a = b)"
  by (auto simp: sql_bool_def)

section \<open>Reading by query\<close>

lemma find_map: "find P (map f xs) = map_option f (find (P \<circ> f) xs)"
  by (induction xs) auto

lemma sort_key_Cons: "sort_key f (x # xs) = insort_key f x (sort_key f xs)"
  by (simp add: sort_key_def)

lemma sort_key_map: "sort_key f (map g xs) = map g (sort_key (\<lambda>x. f (g x)) xs)"
proof (induction xs)
  case (Cons x xs)
  have "insort_key f (g x) (map g ys) = map g (insort_key (\<lambda>x. f (g x)) x ys)" for ys by (induction ys) auto
  then show ?case using Cons by (simp add: sort_key_Cons)
qed (simp add: sort_key_def)

lemma sort_key_agree:
  assumes "\<And>x y. x \<in> set xs \<Longrightarrow> y \<in> set xs \<Longrightarrow> f x \<le> f y \<longleftrightarrow> g x \<le> g y"
  shows "sort_key f xs = sort_key g xs"
  using assms
proof (induction xs)
  case (Cons x xs)
  have insort: "set ys \<subseteq> set xs \<Longrightarrow> insort_key f x ys = insort_key g x ys" for ys using Cons.prems by (induction ys) auto
  have "sort_key f xs = sort_key g xs" by (rule Cons.IH) (use Cons.prems in auto)
  moreover have "insort_key f x (sort_key g xs) = insort_key g x (sort_key g xs)" by (rule insort) simp
  ultimately show ?case unfolding sort_key_Cons by simp
qed (simp add: sort_key_def)

lemma group_items_eq: "group_items items i = (let l = filter (\<lambda>r. di_order r = i) items in if l = [] then None else Some (map toItem l))"
proof -
  have "fold (\<lambda>r m. m(di_order r \<mapsto> (case m (di_order r) of Some l \<Rightarrow> l | None \<Rightarrow> []) @ [toItem r])) items m i
      = (let l = filter (\<lambda>r. di_order r = i) items
         in if l = [] then m i else Some ((case m i of Some l \<Rightarrow> l | None \<Rightarrow> []) @ map toItem l))" for m
    by (induction items arbitrary: m) (auto simp: Let_def)
  then show ?thesis by (simp add: group_items_def Let_def)
qed

lemma withItems_eq: "withItems rows db = map (order_of db) rows"
proof -
  have "filter (\<lambda>r. di_order r = do_id x) (sort_key di_order (filter (\<lambda>i. di_order i \<in> set (map do_id rows)) (d_items db)))
      = filter (\<lambda>r. di_order r = do_id x) (d_items db)" if "x \<in> set rows" for x
    using that by (auto simp: sort_key_stable intro: filter_cong)
  then show ?thesis
    by (simp add: withItems_def group_items_eq Let_def order_of_def items_of_def)
qed

lemma d1_one_eq: "d1_one row db = map_option (order_of db) row"
  by (cases row) (simp_all add: d1_one_def withItems_eq)

lemma getOrder_d1: "d1_getOrder site i db = getOrder site i (repo_of db)"
  by (simp add: d1_getOrder_def getOrder_def d1_one_eq find_map comp_def)

lemma getOrderBySession_d1: "d1_getOrderBySession n db = getOrderBySession n (repo_of db)"
  by (simp add: d1_getOrderBySession_def getOrderBySession_def d1_one_eq find_map comp_def)

lemma getOrderByPaymentIntent_d1: "d1_getOrderByPaymentIntent n db = getOrderByPaymentIntent n (repo_of db)"
  by (simp add: d1_getOrderByPaymentIntent_def getOrderByPaymentIntent_def d1_one_eq find_map comp_def)

lemma getTicketType_d1: "d1_getTicketType site i db = getTicketType site i (repo_of db)"
  by (simp add: d1_getTicketType_def getTicketType_def find_map comp_def)

lemma listTicketTypes_d1: "d1_listTicketTypes site db = sortTypes (listTicketTypes site (repo_of db))"
  by (simp add: d1_listTicketTypes_def listTicketTypes_def sortTypes_def sort_key_map filter_map comp_def)

lemma getCoupon_d1: "d1_getCoupon site i db = getCoupon site i (repo_of db)"
  by (simp add: d1_getCoupon_def getCoupon_def find_map comp_def)

lemma getCouponByCode_d1: "d1_getCouponByCode site code db = getCouponByCode site code (repo_of db)"
  by (simp add: d1_getCouponByCode_def getCouponByCode_def find_map comp_def)

lemma listCoupons_d1: "d1_listCoupons site db = listCoupons site (repo_of db)"
  by (simp add: d1_listCoupons_def listCoupons_def sort_key_map filter_map comp_def rev_map)

lemma countPendingOrdersSince_d1: "d1_countPendingOrdersSince site since db = countPendingOrdersSince site since (repo_of db)"
  by (simp add: d1_countPendingOrdersSince_def countPendingOrdersSince_def filter_map comp_def)

lemma heldPendingByClient_d1: "d1_heldPendingByClient site k since db = heldPendingByClient site k since (repo_of db)"
  by (simp add: d1_heldPendingByClient_def heldPendingByClient_def filter_map comp_def sum_by_map conj_commute conj_left_commute)

lemma ordersByIds_d1: "d1_ordersByIds site ids db = ordersByIds site ids (repo_of db)"
  by (simp add: d1_ordersByIds_def ordersByIds_def withItems_eq filter_map comp_def)

lemma d1_HELD_eq: "d1_HELD since r = isHeld since (order_of db r)"
  by (simp add: d1_HELD_def isHeld_def)

section \<open>Sums over the join\<close>

lemma sum_by_zero [simp]: "sum_by (\<lambda>x. 0) xs = 0"
  by (induction xs) auto

lemma sum_by_add: "sum_by (\<lambda>x. f x + g x) xs = sum_by f xs + sum_by g xs"
  by (induction xs) auto

lemma sum_by_swap: "sum_by (\<lambda>x. sum_by (\<lambda>y. f x y) ys) xs = sum_by (\<lambda>y. sum_by (\<lambda>x. f x y) xs) ys"
  by (induction xs) (auto simp: sum_by_add)

lemma joined_sum:
  "sum_by (\<lambda>(i, r). g i r) (filter (\<lambda>(i, r). Q i r) (joined db))
     = sum_by (\<lambda>r. sum_by (\<lambda>i. g i r) (filter (\<lambda>i. di_order i = do_id r \<and> Q i r) (d_items db))) (d_orders db)"
proof -
  let ?h = "\<lambda>i r. if di_order i = do_id r \<and> Q i r then g i r else 0"
  have "sum_by (\<lambda>(i, r). g i r) (filter (\<lambda>(i, r). Q i r) (joined db)) = sum_by (\<lambda>i. sum_by (?h i) (d_orders db)) (d_items db)"
    by (auto simp: joined_def sum_by_filter sum_by_concat sum_by_map comp_def intro!: sum_by_cong)
  then show ?thesis by (subst (asm) sum_by_swap) (simp add: sum_by_filter)
qed

lemma d1_held_eq:
  "d1_held P typ since db
     = sum_by (\<lambda>r. if P r \<and> isHeld since (order_of db r) then sum_by oi_qty (filter (\<lambda>i. oi_type i = typ) (items_of db (do_id r))) else 0)
         (d_orders db)"
proof -
  have row: "sum_by di_quantity (filter (\<lambda>i. di_order i = do_id r \<and> di_type i = typ) (d_items db))
      = sum_by oi_qty (filter (\<lambda>i. oi_type i = typ) (items_of db (do_id r)))" for r
    by (simp add: items_of_def filter_map comp_def sum_by_map conj_commute)
  have "sum_by di_quantity (filter (\<lambda>i. di_order i = do_id r \<and> di_type i = typ \<and> P r \<and> d1_HELD since r) (d_items db))
      = (if P r \<and> isHeld since (order_of db r) then sum_by oi_qty (filter (\<lambda>i. oi_type i = typ) (items_of db (do_id r))) else 0)" for r
    using row[of r] by (auto simp: d1_HELD_eq[of _ _ db])
  then show ?thesis unfolding d1_held_def by (subst joined_sum) simp
qed

lemma sum_items:
  "sum_by oi_qty (filter T (concat (map o_items (filter P xs)))) = sum_by (\<lambda>x. if P x then sum_by oi_qty (filter T (o_items x)) else 0) xs"
  by (induction xs) auto

lemma held_d1: "held site typ since (repo_of db) = d1_held (\<lambda>r. do_site r = site) typ since db"
  by (simp add: held_def sum_items d1_held_eq sum_by_map comp_def cong: if_cong)

lemma held_by_others_d1: "held_by_others i typ since (repo_of db) = d1_held (\<lambda>r. do_id r \<noteq> i) typ since db"
  by (simp add: held_by_others_def sum_items d1_held_eq sum_by_map comp_def cong: if_cong)

lemma usedBy_d1: "usedBy k since (repo_of db) = sum_by do_quantity (filter (\<lambda>r. do_coupon_id r = Some k \<and> d1_HELD since r) (d_orders db))"
  by (simp add: usedBy_def filter_map comp_def sum_by_map d1_HELD_eq[of _ _ db])

section \<open>Aggregates\<close>

definition agg_zero :: "string \<Rightarrow> type_agg" where
  "agg_zero k = \<lparr>ag_type = k, ag_sold = 0, ag_pending = 0, ag_revenue = 0\<rparr>"

definition agg_of :: "string \<Rightarrow> type_agg list \<Rightarrow> type_agg option" where
  \<comment> \<open>the service looks an aggregate up by its type\<close>
  "agg_of k m = find (\<lambda>a. ag_type a = k) m"

lemma agg_of_Nil [simp]: "agg_of k [] = None"
  by (simp add: agg_of_def)

lemma agg_of_put:
  "(\<And>a. ag_type (f a) = ag_type a) \<Longrightarrow>
     agg_of k (agg_put j f m) = (if j = k then Some (f (case agg_of k m of Some a \<Rightarrow> a | None \<Rightarrow> agg_zero k)) else agg_of k m)"
  by (induction m) (auto simp: agg_of_def agg_zero_def)

lemma agg_item_sums:
  "ag_type (agg_item since x i a) = ag_type a"
  "agg_item since x i a = a\<lparr>ag_sold := ag_sold a + (if o_status x = O_paid then oi_qty i else 0),
     ag_pending := ag_pending a + (if o_status x \<noteq> O_paid \<and> isHeld since x then oi_qty i else 0),
     ag_revenue := ag_revenue a + (if o_status x = O_paid then oi_qty i * oi_price i else 0)\<rparr>"
  by (simp_all add: agg_item_def)

lemma agg_of_fold:
  "agg_of k (fold (\<lambda>(x, i). agg_put (oi_type i) (agg_item since x i)) ps m)
     = (let qs = filter (\<lambda>(x, i). oi_type i = k) ps
        in if qs = [] then agg_of k m
           else Some (fold (\<lambda>(x, i). agg_item since x i) qs (case agg_of k m of Some a \<Rightarrow> a | None \<Rightarrow> agg_zero k)))"
  by (induction ps arbitrary: m) (auto simp: agg_of_put agg_item_sums(1) Let_def)

lemma agg_fold_sums:
  "fold (\<lambda>(x, i). agg_item since x i) qs a
     = a\<lparr>ag_sold := ag_sold a + sum_by (\<lambda>(x, i). if o_status x = O_paid then oi_qty i else 0) qs,
        ag_pending := ag_pending a + sum_by (\<lambda>(x, i). if o_status x \<noteq> O_paid \<and> isHeld since x then oi_qty i else 0) qs,
        ag_revenue := ag_revenue a + sum_by (\<lambda>(x, i). if o_status x = O_paid then oi_qty i * oi_price i else 0) qs\<rparr>"
  by (induction qs arbitrary: a) (auto simp: agg_item_sums(2) algebra_simps)

definition order_pairs :: "ticket_order list \<Rightarrow> (ticket_order \<times> order_item) list" where
  "order_pairs xs = concat (map (\<lambda>x. map (Pair x) (o_items x)) xs)"

lemma fold_order_pairs: "fold (\<lambda>x m. fold (f x) (o_items x) m) xs m = fold (\<lambda>(x, i). f x i) (order_pairs xs) m"
  by (induction xs arbitrary: m) (auto simp: order_pairs_def fold_map comp_def)

lemma pairs_sum:
  "sum_by (\<lambda>(x, i). g x i) (filter (\<lambda>(x, i). oi_type i = k) (order_pairs xs))
     = sum_by (\<lambda>x. sum_by (g x) (filter (\<lambda>i. oi_type i = k) (o_items x))) xs"
  by (induction xs) (auto simp: order_pairs_def filter_map sum_by_map comp_def)

definition active_row :: "string \<Rightarrow> d1_order \<Rightarrow> bool" where
  "active_row site r = (do_site r = site \<and> do_status r \<in> {O_paid, O_needs_review, O_pending})"

lemma d1_total:
  "sum_by (\<lambda>(i, r). if P r then f i else 0) (filter (\<lambda>(i, r). di_type i = k) (filter (\<lambda>(i, r). active_row site r) (joined db)))
     = sum_by (\<lambda>r. if active_row site r \<and> P r then sum_by f (filter (\<lambda>i. di_order i = do_id r \<and> di_type i = k) (d_items db)) else 0) (d_orders db)"
proof -
  have "filter (\<lambda>(i, r). di_type i = k) (filter (\<lambda>(i, r). active_row site r) (joined db))
      = filter (\<lambda>(i, r). active_row site r \<and> di_type i = k) (joined db)"
    by (auto intro: filter_cong)
  moreover have "sum_by (\<lambda>i. if P r then f i else 0) (filter (\<lambda>i. di_order i = do_id r \<and> active_row site r \<and> di_type i = k) (d_items db))
      = (if active_row site r \<and> P r then sum_by f (filter (\<lambda>i. di_order i = do_id r \<and> di_type i = k) (d_items db)) else 0)" for r
    by auto
  ultimately show ?thesis by (simp add: joined_sum)
qed

lemma store_total:
  "sum_by (\<lambda>x. sum_by (\<lambda>i. if P x then g i else 0) (filter (\<lambda>i. oi_type i = k) (o_items x)))
       (filter (\<lambda>x. o_site x = site \<and> o_status x \<in> {O_paid, O_needs_review, O_pending}) (map (order_of db) (d_orders db)))
     = sum_by (\<lambda>r. if active_row site r \<and> P (order_of db r)
         then sum_by (\<lambda>i. g (toItem i)) (filter (\<lambda>i. di_order i = do_id r \<and> di_type i = k) (d_items db)) else 0) (d_orders db)"
  by (auto simp: filter_map sum_by_map sum_by_filter[of _ _ "d_orders db"] active_row_def comp_def items_of_def conj_commute
      intro!: sum_by_cong)

lemma agg_of_map: "(\<And>k. ag_type (F k) = k) \<Longrightarrow> agg_of k (map F ks) = (if k \<in> set ks then Some (F k) else None)"
  by (induction ks) (auto simp: agg_of_def)

lemma ticketAggregates_d1:
  "agg_of k (d1_ticketAggregates site since db) = agg_of k (ticketAggregates site since (repo_of db))"
proof -
  let ?xs = "filter (\<lambda>x. o_site x = site \<and> o_status x \<in> {O_paid, O_needs_review, O_pending}) (map (order_of db) (d_orders db))"
  let ?rows = "filter (\<lambda>(i, r). active_row site r) (joined db)"
  let ?qs = "filter (\<lambda>(x, i). oi_type i = k) (order_pairs ?xs)"
  let ?of = "\<lambda>P g. sum_by (\<lambda>(x, i). if P x then g i else 0) ?qs"
  have store: "agg_of k (ticketAggregates site since (repo_of db))
      = (if ?qs = [] then None
         else Some \<lparr>ag_type = k, ag_sold = ?of (\<lambda>x. o_status x = O_paid) oi_qty,
                    ag_pending = ?of (\<lambda>x. o_status x \<noteq> O_paid \<and> isHeld since x) oi_qty,
                    ag_revenue = ?of (\<lambda>x. o_status x = O_paid) (\<lambda>i. oi_qty i * oi_price i)\<rparr>)"
    unfolding ticketAggregates_def fold_order_pairs repo_of_sel
    by (simp add: agg_of_fold agg_fold_sums agg_zero_def Let_def)
  have rows: "filter (\<lambda>(i, r). do_site r = site \<and> do_status r \<in> {O_paid, O_needs_review, O_pending}) (joined db) = ?rows"
    by (simp add: active_row_def)
  let ?total = "\<lambda>P f. sum_by (\<lambda>(i, r). if P r then f i else 0) (filter (\<lambda>(i, r). di_type i = k) ?rows)"
  have d1: "agg_of k (d1_ticketAggregates site since db)
      = (if k \<in> set (map (\<lambda>(i, r). di_type i) ?rows)
         then Some \<lparr>ag_type = k, ag_sold = ?total (\<lambda>r. do_status r = O_paid) di_quantity,
           ag_pending = ?total (\<lambda>r. do_status r = O_needs_review \<or> (do_status r = O_pending \<and> since \<le> do_created_at r)) di_quantity,
           ag_revenue = ?total (\<lambda>r. do_status r = O_paid) (\<lambda>i. di_quantity i * di_price i)\<rparr> else None)"
    unfolding d1_ticketAggregates_def Let_def rows by (subst agg_of_map) simp_all
  have total: "?of P g = ?total Q f" if "\<And>r. active_row site r \<Longrightarrow> P (order_of db r) = Q r" "\<And>i. g (toItem i) = f i" for P Q g f
    unfolding pairs_sum store_total d1_total by (rule sum_by_cong) (use that in auto)
  have none: "?qs = [] \<longleftrightarrow> k \<notin> set (map (\<lambda>(i, r). di_type i) ?rows)"
    by (fastforce simp: order_pairs_def joined_def filter_empty_conv active_row_def items_of_def)
  have "?of (\<lambda>x. o_status x = O_paid) oi_qty = ?total (\<lambda>r. do_status r = O_paid) di_quantity"
    "?of (\<lambda>x. o_status x = O_paid) (\<lambda>i. oi_qty i * oi_price i) = ?total (\<lambda>r. do_status r = O_paid) (\<lambda>i. di_quantity i * di_price i)"
    "?of (\<lambda>x. o_status x \<noteq> O_paid \<and> isHeld since x) oi_qty
       = ?total (\<lambda>r. do_status r = O_needs_review \<or> (do_status r = O_pending \<and> since \<le> do_created_at r)) di_quantity"
    by (rule total; auto simp: active_row_def isHeld_def)+
  then show ?thesis using none unfolding store d1 by simp
qed

section \<open>Sorted pages\<close>

lemma keyed_less:
  assumes "iso_text a" "iso_text b"
  shows "(a @ CHR ''~'' # x) < (b @ CHR ''~'' # y) \<longleftrightarrow> a < b \<or> (a = b \<and> x < y)"
  using assms lex_append[of a b "CHR ''~'' # x" "CHR ''~'' # y"] by (simp add: iso_text_def)

lemma keyed_le:
  assumes "iso_text a" "iso_text b"
  shows "(a @ CHR ''~'' # x) \<le> (b @ CHR ''~'' # y) \<longleftrightarrow> (a, x) \<le> (b, y)"
  using keyed_less[OF assms(2,1), of y x] by (auto simp: not_less[symmetric])

lemma order_row_ok: "d1_ok db \<Longrightarrow> r \<in> set (d_orders db) \<Longrightarrow> order_ok (map d1_toCoupon (d_coupons db)) (order_of db r)"
  by (simp add: d1_ok_def tables_ok_def)

lemma row_created: "d1_ok db \<Longrightarrow> r \<in> set (d_orders db) \<Longrightarrow> iso_text (do_created_at r)"
  by (drule (1) order_row_ok) (simp add: order_ok_def)

lemma row_session: "d1_ok db \<Longrightarrow> r \<in> set (d_orders db) \<Longrightarrow> do_session r = Some n \<Longrightarrow> stripe_session n"
  by (drule (1) order_row_ok) (simp add: order_ok_def)

lemma row_intent: "d1_ok db \<Longrightarrow> r \<in> set (d_orders db) \<Longrightarrow> do_intent r \<noteq> Some []"
  by (drule (1) order_row_ok) (simp add: order_ok_def)

lemma row_paid: "d1_ok db \<Longrightarrow> r \<in> set (d_orders db) \<Longrightarrow> do_status r = O_paid \<Longrightarrow> \<exists>p. do_paid_at r = Some p \<and> iso_text p"
  by (drule (1) order_row_ok) (auto simp: order_ok_def)

lemma by_created_eq:
  assumes "d1_ok db" "set rows \<subseteq> set (d_orders db)"
  shows "sort_key created_key (map (order_of db) rows) = map (order_of db) (by_created rows)"
proof -
  have "sort_key (\<lambda>r. created_key (order_of db r)) rows = by_created rows"
    unfolding by_created_def
  proof (rule sort_key_agree)
    fix x y assume "x \<in> set rows" "y \<in> set rows"
    then have "iso_text (do_created_at x)" "iso_text (do_created_at y)" using assms row_created by auto
    then show "created_key (order_of db x) \<le> created_key (order_of db y) \<longleftrightarrow> (do_created_at x, do_id x) \<le> (do_created_at y, do_id y)"
      by (simp add: created_key_def keyed_le)
  qed
  then show ?thesis by (simp add: sort_key_map)
qed

definition cursor_ok :: "string option \<Rightarrow> bool" where
  \<comment> \<open>no cursor, or one that \<open>orderCursor\<close> made\<close>
  "cursor_ok cursor = (case cursor of None \<Rightarrow> True
     | Some raw \<Rightarrow> raw = [] \<or> (\<exists>d i. raw = d @ CHR ''~'' # i \<and> iso_text d))"

lemma parseCursor_made: "iso_text d \<Longrightarrow> parseCursor (d @ CHR ''~'' # i) = Some (d, i)"
  by (auto simp: parseCursor_def iso_text_def index_of_append)

lemma order_pages:
  assumes "d1_ok db" "\<And>r. r \<in> set (d_orders db) \<Longrightarrow> P' (order_of db r) = P r"
  shows "map (order_of db) (take n (by_created (filter P (d_orders db)))) = take n (sort_key created_key (filter P' (s_orders (repo_of db))))"
    and "map (order_of db) (take n (rev (by_created (filter P (d_orders db))))) = take n (rev (sort_key created_key (filter P' (s_orders (repo_of db)))))"
proof -
  have "filter P' (s_orders (repo_of db)) = map (order_of db) (filter P (d_orders db))"
    using assms(2) by (simp add: filter_map comp_def cong: filter_cong)
  then have "sort_key created_key (filter P' (s_orders (repo_of db))) = map (order_of db) (by_created (filter P (d_orders db)))"
    using by_created_eq[OF assms(1), of "filter P (d_orders db)"] by auto
  then show "map (order_of db) (take n (by_created (filter P (d_orders db)))) = take n (sort_key created_key (filter P' (s_orders (repo_of db))))"
    "map (order_of db) (take n (rev (by_created (filter P (d_orders db))))) = take n (rev (sort_key created_key (filter P' (s_orders (repo_of db)))))"
    by (simp_all add: take_map rev_map)
qed

lemma cursor_less:
  assumes "d1_ok db" "cursor_ok cursor" "r \<in> set (d_orders db)"
  shows "after_cursor (<) cursor (order_of db r) = (case cursor_of cursor of None \<Rightarrow> True
           | Some (d, i) \<Rightarrow> do_created_at r < d \<or> (do_created_at r = d \<and> do_id r < i))"
    and "after_cursor (>) cursor (order_of db r) = (case cursor_of cursor of None \<Rightarrow> True
           | Some (d, i) \<Rightarrow> d < do_created_at r \<or> (do_created_at r = d \<and> i < do_id r))"
proof -
  note made = row_created[OF assms(1,3)]
  have "(\<exists>d i. cursor = Some (d @ CHR ''~'' # i) \<and> iso_text d) \<or> cursor = None \<or> cursor = Some []"
    using assms(2) by (auto simp: cursor_ok_def split: option.splits)
  then consider d i where "cursor = Some (d @ CHR ''~'' # i)" "iso_text d" | "cursor = None \<or> cursor = Some []" by blast
  then show "after_cursor (<) cursor (order_of db r) = (case cursor_of cursor of None \<Rightarrow> True
           | Some (d, i) \<Rightarrow> do_created_at r < d \<or> (do_created_at r = d \<and> do_id r < i))"
    by cases (auto simp: after_cursor_def cursor_of_def parseCursor_made created_key_def keyed_less[OF made])
  from \<open>(\<exists>d i. cursor = Some (d @ CHR ''~'' # i) \<and> iso_text d) \<or> cursor = None \<or> cursor = Some []\<close>
  consider d i where "cursor = Some (d @ CHR ''~'' # i)" "iso_text d" | "cursor = None \<or> cursor = Some []" by blast
  then show "after_cursor (>) cursor (order_of db r) = (case cursor_of cursor of None \<Rightarrow> True
           | Some (d, i) \<Rightarrow> d < do_created_at r \<or> (do_created_at r = d \<and> i < do_id r))"
    by cases (auto simp: after_cursor_def cursor_of_def parseCursor_made created_key_def keyed_less[OF _ made])
qed

lemma listOrders_d1:
  "d1_ok db \<Longrightarrow> cursor_ok cursor \<Longrightarrow> d1_listOrders site cursor limit db = listOrders site cursor limit (repo_of db)"
  unfolding d1_listOrders_def listOrders_def withItems_eq
  by (rule order_pages(2)) (simp_all add: cursor_less(1))

lemma listOrdersAscending_d1:
  "d1_ok db \<Longrightarrow> cursor_ok cursor \<Longrightarrow> d1_listOrdersAscending site cursor limit db = listOrdersAscending site cursor limit (repo_of db)"
  unfolding d1_listOrdersAscending_def listOrdersAscending_def withItems_eq
  by (rule order_pages(1)) (simp_all add: cursor_less(2))

lemma like_rest: "sql_like ''%'' s"
  by (induction s) simp_all

lemma like_prefix:
  assumes "stripe_session n"
  shows "sql_like ''cs_test_%'' n = starts_with ''cs_test_'' n" "sql_like ''cs_live_%'' n = starts_with ''cs_live_'' n"
proof -
  obtain r where "n = ''cs_test_'' @ r \<or> n = ''cs_live_'' @ r"
    using assms unfolding stripe_session_def starts_with_def by (metis append_take_drop_id)
  then show "sql_like ''cs_test_%'' n = starts_with ''cs_test_'' n" "sql_like ''cs_live_%'' n = starts_with ''cs_live_'' n"
    using like_rest[of r] by (auto simp: starts_with_def lower_ascii_def char_between_def)
qed

lemma like_empty: "\<not> sql_like ''cs_test_%'' []"
  by simp

lemma stripe_session_nonempty: "\<not> stripe_session []"
  by (simp add: stripe_session_def starts_with_def)

lemma listMissingPaymentIntent_d1:
  assumes "d1_ok db"
  shows "d1_listMissingPaymentIntent site livemode limit db = listMissingPaymentIntent site livemode limit (repo_of db)"
  unfolding d1_listMissingPaymentIntent_def listMissingPaymentIntent_def withItems_eq
proof (rule order_pages(1)[OF assms])
  fix r assume r: "r \<in> set (d_orders db)"
  have "like_null (if livemode then ''cs_live_%'' else ''cs_test_%'') (do_session r)
      = (case do_session r of Some n \<Rightarrow> starts_with (if livemode then ''cs_live_'' else ''cs_test_'') n | None \<Rightarrow> False)"
    using row_session[OF assms r] by (auto simp: like_null_def like_prefix simp del: sql_like.simps split: option.splits)
  then show "(o_site (order_of db r) = site \<and> (o_status (order_of db r) = O_paid \<or> o_status (order_of db r) = O_needs_review)
         \<and> (case o_session (order_of db r) of Some n \<Rightarrow> starts_with (if livemode then ''cs_live_'' else ''cs_test_'') n | None \<Rightarrow> False)
         \<and> (o_intent (order_of db r) = None \<or> o_intent (order_of db r) = Some ''''))
     = (do_site r = site \<and> do_status r \<in> {O_paid, O_needs_review}
         \<and> like_null (if livemode then ''cs_live_%'' else ''cs_test_%'') (do_session r) \<and> do_intent r = None)"
    using row_intent[OF assms r] by (cases livemode) auto
qed

lemma session_never_empty: "d1_ok db \<Longrightarrow> r \<in> set (d_orders db) \<Longrightarrow> do_session r \<noteq> Some []"
  using row_session stripe_session_nonempty by blast

lemma listPendingWithSession_d1:
  assumes "d1_ok db"
  shows "d1_listPendingWithSession site from to limit db = listPendingWithSession site from to limit (repo_of db)"
  unfolding d1_listPendingWithSession_def listPendingWithSession_def withItems_eq
  by (rule order_pages(1)[OF assms]) (use session_never_empty[OF assms] in auto)

lemma unfulfilled_d1:
  assumes "d1_ok db" "r \<in> set (d_orders db)"
  shows "unfulfilled (repo_of db) (order_of db r) = d1_unfulfilled db r"
proof -
  have "do_preview r \<in> {None, Some 0, Some 1}" using assms by (simp add: d1_ok_def)
  then have preview: "((case do_preview r of Some n \<Rightarrow> n | None \<Rightarrow> 0) = 0) = (do_preview r \<noteq> Some 1)" by auto
  have "sql_like ''cs_test_%'' (case do_session r of Some n \<Rightarrow> n | None \<Rightarrow> [])
      = (case do_session r of Some n \<Rightarrow> starts_with ''cs_test_'' n | None \<Rightarrow> False)"
    using row_session[OF assms] by (auto simp: like_prefix(1) like_empty simp del: sql_like.simps split: option.splits)
  then show ?thesis by (auto simp: unfulfilled_def d1_unfulfilled_def has_mail_def isTestOrder_def preview)
qed

lemma listUnfulfilled_d1:
  assumes "d1_ok db"
  shows "d1_listUnfulfilled site since limit db = listUnfulfilled site since limit (repo_of db)"
proof -
  let ?P = "\<lambda>r. do_site r = site \<and> do_status r = O_paid
       \<and> (case since of None \<Rightarrow> True | Some since \<Rightarrow> (case do_paid_at r of Some p \<Rightarrow> since \<le> p | None \<Rightarrow> False)) \<and> d1_unfulfilled db r"
  let ?rows = "filter ?P (d_orders db)"
  let ?key = "\<lambda>x. (case o_paidAt x of Some p \<Rightarrow> p | None \<Rightarrow> ''null'') @ ''~'' @ o_id x"
  have "filter (\<lambda>x. o_site x = site \<and> o_status x = O_paid
           \<and> (case since of None \<Rightarrow> True | Some since \<Rightarrow> (case o_paidAt x of Some p \<Rightarrow> since \<le> p | None \<Rightarrow> False))
           \<and> unfulfilled (repo_of db) x) (s_orders (repo_of db)) = map (order_of db) ?rows"
    using unfulfilled_d1[OF assms] by (simp add: filter_map comp_def cong: filter_cong option.case_cong)
  moreover have "sort_key (\<lambda>r. ?key (order_of db r)) ?rows = sort_key (\<lambda>r. (do_paid_at r, do_id r)) ?rows"
  proof (rule sort_key_agree)
    fix x y assume "x \<in> set ?rows" "y \<in> set ?rows"
    then obtain p q where "do_paid_at x = Some p" "iso_text p" "do_paid_at y = Some q" "iso_text q"
      using row_paid[OF assms, of x] row_paid[OF assms, of y] by auto
    then show "?key (order_of db x) \<le> ?key (order_of db y) \<longleftrightarrow> (do_paid_at x, do_id x) \<le> (do_paid_at y, do_id y)"
      by (simp add: keyed_le)
  qed
  ultimately show ?thesis
    by (simp add: d1_listUnfulfilled_def listUnfulfilled_def withItems_eq sort_key_map take_map)
qed

section \<open>Tickets and mails\<close>

lemma getTicket_d1: "d1_getTicket i db = getTicket i (repo_of db)"
  by (simp add: d1_getTicket_def getTicket_def)

lemma ticketsForOrders_d1:
  "filter (\<lambda>t. tk_order t = i) (d1_ticketsForOrders ids db) = filter (\<lambda>t. tk_order t = i) (ticketsForOrders ids (repo_of db))"
  by (simp add: d1_ticketsForOrders_def ticketsForOrders_def sort_key_stable)

lemma Nil_less: "[] < (xs :: string) \<longleftrightarrow> xs \<noteq> []"
  by (cases xs) simp_all

lemma listTickets_d1:
  assumes "d1_ok db"
  shows "d1_listTickets cursor limit db = listTickets cursor limit (repo_of db)"
proof -
  have "tk_id t \<noteq> []" if "t \<in> set (d_tickets db)" for t using assms that by (auto simp: d1_ok_def tables_ok_def)
  then have "filter (\<lambda>t. (case cursor of Some c \<Rightarrow> c | None \<Rightarrow> []) < tk_id t) (d_tickets db)
      = filter (\<lambda>t. case cursor of None \<Rightarrow> True | Some c \<Rightarrow> c = '''' \<or> c < tk_id t) (d_tickets db)"
    by (intro filter_cong) (auto split: option.splits simp: Nil_less)
  then show ?thesis by (simp add: d1_listTickets_def listTickets_def)
qed

lemma outbox_counts_d1:
  "d1_countOutboxQueued kinds db = countOutboxQueued kinds (repo_of db)"
  "d1_countOutboxSentSince since db = countOutboxSentSince since (repo_of db)"
  "d1_outboxDue since db = outboxDue since (repo_of db)"
  by (simp_all add: d1_countOutboxQueued_def countOutboxQueued_def d1_countOutboxSentSince_def countOutboxSentSince_def
      d1_outboxDue_def outboxDue_def fun_eq_iff conj_commute conj_left_commute)

lemma kind_string_inj: "kind_string a = kind_string b \<longleftrightarrow> a = b"
  by (cases a; cases b) (simp_all add: kind_string_def)

lemma listOrderOutbox_d1:
  "filter (\<lambda>r. ml_kind r = k) (d1_listOrderOutbox i db) = filter (\<lambda>r. ml_kind r = k) (listOrderOutbox i (repo_of db))"
  using sort_key_stable[of "\<lambda>r. kind_string (ml_kind r)" "kind_string k" "filter (\<lambda>r. ml_order r = i) (d_outbox db)"]
  by (simp add: d1_listOrderOutbox_def listOrderOutbox_def kind_string_inj)

lemma jobs_d1: "d1_getJobStates db = getJobStates (repo_of db)"
  by (simp add: getJobStates_def)

lemma settings_d1: "d1_getTicketSettings site db = getTicketSettings site (repo_of db)"
  by (simp add: getTicketSettings_def)

section \<open>Changing rows\<close>

lemma repo_of_upd [simp]:
  "repo_of (db\<lparr>d_orders := rows\<rparr>) = (repo_of db)\<lparr>s_orders := map (order_of db) rows\<rparr>"
  "repo_of (db\<lparr>d_types := types\<rparr>) = (repo_of db)\<lparr>s_types := map toTicketType types\<rparr>"
  "repo_of (db\<lparr>d_coupons := cs\<rparr>) = (repo_of db)\<lparr>s_coupons := map d1_toCoupon cs\<rparr>"
  "repo_of (db\<lparr>d_tickets := ts\<rparr>) = (repo_of db)\<lparr>s_tickets := ts\<rparr>"
  "repo_of (db\<lparr>d_outbox := ms\<rparr>) = (repo_of db)\<lparr>s_mails := ms\<rparr>"
  by (simp_all add: repo_of_def order_of_def items_of_def d1_getTicketSettings_def d1_getJobStates_def)

lemma upd_first_map:
  assumes "distinct (map k xs)" "\<And>x. P x \<Longrightarrow> k x = a"
  shows "upd_first P f xs = map (\<lambda>x. if P x then f x else x) xs"
  using assms(1)
proof (induction xs)
  case (Cons x xs)
  have "map (\<lambda>y. if P y then f y else y) xs = xs" if "P x"
    using Cons.prems assms(2) that by (intro map_idI) (metis (full_types) distinct.simps(2) image_eqI list.set_map list.simps(9))
  then show ?case using Cons by auto
qed simp

lemma first_order_distinct: "distinct (map o_id (s_orders s)) \<Longrightarrow> x \<in> set (s_orders s) \<Longrightarrow> first_order (o_id x) s = Some x"
  by (simp add: first_order_def find_distinct_key)

lemma transition_map:
  assumes "distinct (map o_id (s_orders s))"
  shows "transition i froms patch s
    = (0 < length (filter (\<lambda>x. o_id x = i \<and> o_status x \<in> set froms) (s_orders s)),
       s\<lparr>s_orders := map (\<lambda>x. if o_id x = i \<and> o_status x \<in> set froms then patch x else x) (s_orders s)\<rparr>)"
proof (cases "find (\<lambda>x. o_id x = i \<and> o_status x \<in> set froms) (s_orders s)")
  case None
  then have "filter (\<lambda>x. o_id x = i \<and> o_status x \<in> set froms) (s_orders s) = []"
    "map (\<lambda>x. if o_id x = i \<and> o_status x \<in> set froms then patch x else x) (s_orders s) = s_orders s"
    by (auto simp: find_None_iff filter_empty_conv intro!: map_idI)
  then show ?thesis using None by (simp add: transition_def)
next
  case (Some y)
  then have "filter (\<lambda>x. o_id x = i \<and> o_status x \<in> set froms) (s_orders s) \<noteq> []"
    using find_Some_in[OF Some] by (auto simp: filter_empty_conv)
  then show ?thesis using Some upd_first_map[OF assms, of "\<lambda>x. o_id x = i \<and> o_status x \<in> set froms" i]
    by (simp add: transition_def)
qed

lemma on_order_map:
  "distinct (map o_id (s_orders s)) \<Longrightarrow>
     on_order i g s = s\<lparr>s_orders := map (\<lambda>x. if o_id x = i then g x else x) (s_orders s)\<rparr>"
  by (simp add: on_order_def upd_first_map)

lemma update_orders_repo:
  assumes "\<And>r. r \<in> set (d_orders db) \<Longrightarrow> P' (order_of db r) = P r"
    and "\<And>r. r \<in> set (d_orders db) \<Longrightarrow> P r \<Longrightarrow> order_of db (f r) = g (order_of db r)"
  shows "apsnd repo_of (update_orders P f db)
    = (length (filter P' (s_orders (repo_of db))), (repo_of db)\<lparr>s_orders := map (\<lambda>x. if P' x then g x else x) (s_orders (repo_of db))\<rparr>)"
  using assms by (auto simp: update_orders_def update_where_def filter_map comp_def cong: filter_cong)

lemma update_orders_upd: "\<exists>rows. snd (update_orders P f db) = db\<lparr>d_orders := rows\<rparr>"
  by (auto simp: update_orders_def update_where_def)

lemma d1_ids: "d1_ok db \<Longrightarrow> distinct (map o_id (s_orders (repo_of db)))"
  by (simp add: d1_ok_def tables_ok_def)

lemma markOrderExpired_d1:
  assumes "d1_ok db"
  shows "apsnd repo_of (d1_markOrderExpired i db) = markOrderExpired i (repo_of db)"
  using update_orders_repo[of db "\<lambda>x. o_id x = i \<and> o_status x \<in> set [O_pending]" "\<lambda>r. do_id r = i \<and> do_status r = O_pending"
      "\<lambda>r. r\<lparr>do_status := O_expired\<rparr>" "\<lambda>x. x\<lparr>o_status := O_expired\<rparr>"]
  by (auto simp: d1_markOrderExpired_def markOrderExpired_def transition_map[OF d1_ids[OF assms]] order_of_def toTicketOrder_def
      apsnd_def map_prod_def split: prod.splits)

lemmas row_simps = order_of_def toTicketOrder_def

lemma setOrderSession_d1:
  assumes "d1_ok db"
  shows "map_option repo_of (d1_setOrderSession i n db)
    = (let s = setOrderSession i n (repo_of db) in if distinct (sessions (s_orders s)) then Some s else None)"
proof -
  let ?db' = "snd (update_orders (\<lambda>r. do_id r = i) (\<lambda>r. r\<lparr>do_session := Some n\<rparr>) db)"
  have "snd (apsnd repo_of (update_orders (\<lambda>r. do_id r = i) (\<lambda>r. r\<lparr>do_session := Some n\<rparr>) db)) = setOrderSession i n (repo_of db)"
    using update_orders_repo[of db "\<lambda>x. o_id x = i" "\<lambda>r. do_id r = i" "\<lambda>r. r\<lparr>do_session := Some n\<rparr>" "\<lambda>x. x\<lparr>o_session := Some n\<rparr>"]
    by (simp add: setOrderSession_def on_order_map[OF d1_ids[OF assms]] row_simps)
  then have "repo_of (snd (update_orders (\<lambda>r. do_id r = i) (\<lambda>r. r\<lparr>do_session := Some n\<rparr>) db)) = setOrderSession i n (repo_of db)"
    by simp
  moreover have "sessions_unique (d_orders db') \<longleftrightarrow> distinct (sessions (s_orders (repo_of db')))" for db'
    by (simp add: sessions_unique_def sessions_def comp_def)
  ultimately have "sessions_unique (d_orders ?db') \<longleftrightarrow> distinct (sessions (s_orders (setOrderSession i n (repo_of db))))" "repo_of ?db' = setOrderSession i n (repo_of db)"
    by (simp_all del: repo_of_sel)
  then show ?thesis by (simp add: d1_setOrderSession_def Let_def del: repo_of_sel)
qed

lemma markOrderPreview_d1:
  assumes "d1_ok db"
  shows "repo_of (d1_markOrderPreview i db) = markOrderPreview i (repo_of db)"
  using update_orders_repo[of db "\<lambda>x. o_id x = i" "\<lambda>r. do_id r = i" "\<lambda>r. r\<lparr>do_preview := Some 1\<rparr>" "\<lambda>x. x\<lparr>o_preview := True\<rparr>"]
  by (simp add: d1_markOrderPreview_def markOrderPreview_def on_order_map[OF d1_ids[OF assms]] row_simps
      flip: snd_apsnd[of repo_of])

lemma setOrderPaymentMethod_d1:
  assumes "d1_ok db"
  shows "repo_of (d1_setOrderPaymentMethod i m db) = setOrderPaymentMethod i m (repo_of db)"
  using update_orders_repo[of db "\<lambda>x. o_id x = i" "\<lambda>r. do_id r = i" "\<lambda>r. r\<lparr>do_payment_method := Some m\<rparr>" "\<lambda>x. x\<lparr>o_paymentMethod := Some m\<rparr>"]
  by (simp add: d1_setOrderPaymentMethod_def setOrderPaymentMethod_def on_order_map[OF d1_ids[OF assms]] row_simps
      flip: snd_apsnd[of repo_of])

lemma setOrderPaymentIntent_d1:
  assumes "d1_ok db"
  shows "repo_of (d1_setOrderPaymentIntent i n db) = setOrderPaymentIntent i n (repo_of db)"
proof -
  have "setOrderPaymentIntent i n (repo_of db) = (repo_of db)\<lparr>s_orders :=
      map (\<lambda>x. if o_id x = i \<and> o_intent x = None then x\<lparr>o_intent := Some n\<rparr> else x) (s_orders (repo_of db))\<rparr>"
    by (simp add: setOrderPaymentIntent_def on_order_map[OF d1_ids[OF assms]])
  then show ?thesis
    using update_orders_repo[of db "\<lambda>x. o_id x = i \<and> o_intent x = None" "\<lambda>r. do_id r = i \<and> do_intent r = None"
        "\<lambda>r. r\<lparr>do_intent := Some n\<rparr>" "\<lambda>x. x\<lparr>o_intent := Some n\<rparr>"]
    by (simp add: d1_setOrderPaymentIntent_def row_simps flip: snd_apsnd[of repo_of])
qed

lemma markOrderNeedsReview_d1:
  assumes "d1_ok db"
  shows "apsnd repo_of (d1_markOrderNeedsReview i reason intent db) = markOrderNeedsReview i reason intent (repo_of db)"
proof -
  have own: "r \<in> set (d_orders db) \<Longrightarrow> do_id r = i \<Longrightarrow> first_order i (repo_of db) = Some (order_of db r)" for r
    using first_order_distinct[OF d1_ids[OF assms], of "order_of db r"] by auto
  show ?thesis
    using update_orders_repo[of db "\<lambda>x. o_id x = i \<and> o_status x \<in> set [O_pending, O_expired, O_paid]"
        "\<lambda>r. do_id r = i \<and> do_status r \<in> {O_pending, O_expired, O_paid}"
        "\<lambda>r. r\<lparr>do_status := O_needs_review, do_review_reason := Some reason, do_intent := coalesce (do_intent r) intent\<rparr>"
        "\<lambda>x. x\<lparr>o_status := O_needs_review, o_reviewReason := Some reason,
             o_intent := coalesce (Option.bind (first_order i (repo_of db)) o_intent) intent\<rparr>"]
    by (auto simp: d1_markOrderNeedsReview_def markOrderNeedsReview_def transition_map[OF d1_ids[OF assms]] own row_simps
        apsnd_def map_prod_def split: prod.splits)
qed

lemma no_row_changes:
  assumes "\<forall>x\<in>set (s_orders s). \<not> P x"
  shows "(0 < length (filter P (s_orders s)), s\<lparr>s_orders := map (\<lambda>x. if P x then g x else x) (s_orders s)\<rparr>) = (False, s :: store)"
proof -
  have "map (\<lambda>x. if P x then g x else x) (s_orders s) = s_orders s" using assms by (intro map_idI) auto
  then show ?thesis using assms by (simp add: filter_empty_conv)
qed

lemma approveOrder_d1:
  assumes "d1_ok db"
  shows "apsnd repo_of (d1_approveOrder i who stamp only db) = approveOrder i who stamp only (repo_of db)"
proof -
  let ?P = "\<lambda>x. o_id x = i \<and> o_status x = O_needs_review \<and> (only = None \<or> o_reviewReason x = only)"
  let ?g = "\<lambda>x. x\<lparr>o_status := O_paid, o_paidAt := coalesce (o_paidAt x) (Some stamp), o_resolvedBy := Some who, o_resolvedAt := Some stamp\<rparr>"
  have store: "approveOrder i who stamp only s = (0 < length (filter ?P (s_orders s)), s\<lparr>s_orders := map (\<lambda>x. if ?P x then ?g x else x) (s_orders s)\<rparr>)"
    if ids: "distinct (map o_id (s_orders s))" for s
  proof (cases "first_order i s")
    case None
    then have "\<forall>x\<in>set (s_orders s). o_id x \<noteq> i" by (auto simp: first_order_def find_None_iff)
    then show ?thesis using None by (auto simp: approveOrder_def filter_empty_conv map_idI intro!: store.equality)
  next
    case (Some x0)
    have own: "x = x0" if "x \<in> set (s_orders s)" "o_id x = i" for x
      using first_order_distinct[OF ids that(1)] that Some by simp
    show ?thesis
    proof (cases "only \<noteq> None \<and> o_reviewReason x0 \<noteq> only")
      case True
      then have "\<forall>x\<in>set (s_orders s). \<not> ?P x" using own by auto
      then have "(0 < length (filter ?P (s_orders s)), s\<lparr>s_orders := map (\<lambda>x. if ?P x then ?g x else x) (s_orders s)\<rparr>) = (False, s)"
        by (rule no_row_changes)
      moreover have "approveOrder i who stamp only s = (False, s)" using True Some by (simp add: approveOrder_def)
      ultimately show ?thesis by (rule trans[OF _ sym, rotated])
    next
      case False
      have rows: "filter (\<lambda>x. o_id x = i \<and> o_status x \<in> set [O_needs_review]) (s_orders s) = filter ?P (s_orders s)"
        using own False by (intro filter_cong) auto
      have changed: "map (\<lambda>x. if o_id x = i \<and> o_status x \<in> set [O_needs_review]
            then x\<lparr>o_status := O_paid, o_paidAt := coalesce (o_paidAt x0) (Some stamp), o_resolvedBy := Some who, o_resolvedAt := Some stamp\<rparr>
            else x) (s_orders s) = map (\<lambda>x. if ?P x then ?g x else x) (s_orders s)"
        using own False by (intro map_cong) auto
      have "approveOrder i who stamp only s = transition i [O_needs_review]
          (\<lambda>x. x\<lparr>o_status := O_paid, o_paidAt := coalesce (o_paidAt x0) (Some stamp), o_resolvedBy := Some who, o_resolvedAt := Some stamp\<rparr>) s"
        using False Some by (auto simp: approveOrder_def)
      then show ?thesis by (simp only: transition_map[OF ids] rows changed)
    qed
  qed
  show ?thesis
    using update_orders_repo[of db ?P "\<lambda>r. do_id r = i \<and> do_status r = O_needs_review \<and> (only = None \<or> do_review_reason r = only)"
        "\<lambda>r. r\<lparr>do_status := O_paid, do_paid_at := coalesce (do_paid_at r) (Some stamp), do_resolved_by := Some who, do_resolved_at := Some stamp\<rparr>" ?g]
    by (auto simp: d1_approveOrder_def store[OF d1_ids[OF assms]] row_simps apsnd_def map_prod_def split: prod.splits)
qed

lemma expireSessionlessPending_d1:
  assumes "d1_ok db"
  shows "apsnd repo_of (d1_expireSessionlessPending site before db) = expireSessionlessPending site before (repo_of db)"
  unfolding d1_expireSessionlessPending_def expireSessionlessPending_def
  by (rule update_orders_repo) (use session_never_empty[OF assms] in \<open>auto simp: sessionless_before_def row_simps\<close>)

end
