(* ===== verification/Ticket_D1_Steps.thy ===== *)
theory Ticket_D1_Steps
  imports Ticket_D1_Refine
begin

text \<open>
  The writing operations of the production repository: settlement, refunds, the batch that places an order, coupons,
  ticket types, settings, fulfilment, the claim of mails and their updates, each against its operation on the store.
\<close>

section \<open>Settlement and refunds\<close>

lemma not_image: "a \<notin> f ` A \<longleftrightarrow> (\<forall>x\<in>A. f x \<noteq> a)"
  by auto

lemma type_ids: "d1_ok db \<Longrightarrow> inj_on dt_id (set (d_types db))"
  by (simp add: d1_ok_def tables_ok_def comp_def distinct_map)

lemma coupon_ids: "d1_ok db \<Longrightarrow> inj_on dc_id (set (d_coupons db))"
  by (simp add: d1_ok_def tables_ok_def comp_def distinct_map)

lemma over_d1:
  assumes "d1_ok db"
  shows "d1_over i since db = oversold_by i since (repo_of db)"
proof (cases since)
  case None
  then show ?thesis by (simp add: d1_over_def oversold_by_def)
next
  case (Some t0)
  have types: "find (\<lambda>t. tt_id t = k) (map toTicketType (d_types db)) = Some t \<longleftrightarrow> (\<exists>r\<in>set (d_types db). dt_id r = k \<and> t = toTicketType r)" for k t
  proof -
    have "distinct (map tt_id (map toTicketType (d_types db)))" using assms by (simp add: d1_ok_def tables_ok_def)
    then have "find (\<lambda>t. tt_id t = tt_id (toTicketType r)) (map toTicketType (d_types db)) = Some (toTicketType r)" if "r \<in> set (d_types db)" for r
      using that by (intro find_distinct_key) auto
    note found = this
    show ?thesis
    proof
      assume "find (\<lambda>t. tt_id t = k) (map toTicketType (d_types db)) = Some t"
      from find_Some_in[OF this] show "\<exists>r\<in>set (d_types db). dt_id r = k \<and> t = toTicketType r" by auto
    next
      assume "\<exists>r\<in>set (d_types db). dt_id r = k \<and> t = toTicketType r"
      then show "find (\<lambda>t. tt_id t = k) (map toTicketType (d_types db)) = Some t" using found by auto
    qed
  qed
  have items: "(case first_order i (repo_of db) of Some x \<Rightarrow> o_items x | None \<Rightarrow> []) = items_of db i"
  proof (cases "\<exists>r\<in>set (d_orders db). do_id r = i")
    case True
    then show ?thesis using first_order_distinct[OF d1_ids[OF assms]] by force
  next
    case False
    moreover have "di_order ` set (d_items db) \<subseteq> do_id ` set (d_orders db)" using assms by (simp add: d1_ok_def)
    ultimately have "items_of db i = []" by (force simp: items_of_def filter_empty_conv)
    moreover have "first_order i (repo_of db) = None" using False by (auto simp: first_order_def find_None_iff)
    ultimately show ?thesis by simp
  qed
  have room: "(case find (\<lambda>t. tt_id t = oi_type it) (s_types (repo_of db)) of None \<Rightarrow> False
      | Some t \<Rightarrow> (case tt_capacity t of None \<Rightarrow> False | Some cap \<Rightarrow> cap < held_by_others i (oi_type it) t0 (repo_of db) + oi_qty it))
     = (\<exists>r\<in>set (d_types db). dt_id r = oi_type it
          \<and> (case dt_capacity r of None \<Rightarrow> False | Some cap \<Rightarrow> cap < d1_held (\<lambda>r. do_id r \<noteq> i) (oi_type it) t0 db + oi_qty it))" for it
  proof (cases "find (\<lambda>t. tt_id t = oi_type it) (s_types (repo_of db))")
    case None
    then have "\<forall>r\<in>set (d_types db). dt_id r \<noteq> oi_type it" by (auto simp: find_None_iff)
    then show ?thesis using None by auto
  next
    case (Some t)
    then obtain r where r: "r \<in> set (d_types db)" "dt_id r = oi_type it" "t = toTicketType r" using types by auto
    have only: "r' = r" if "r' \<in> set (d_types db)" "dt_id r' = oi_type it" for r'
      using inj_onD[OF type_ids[OF assms], of r' r] r that by simp
    then have "(\<exists>r\<in>set (d_types db). dt_id r = oi_type it \<and> Q r) = Q r" for Q using r(1,2) by blast
    then show ?thesis unfolding Some using r(3) by (simp add: held_by_others_d1 cong: option.case_cong)
  qed
  show ?thesis
    unfolding d1_over_def oversold_by_def Some option.case items room
    by (auto simp: items_of_def cong: option.case_cong)
qed

lemma markOrderPaid_d1:
  assumes "d1_ok db"
  shows "map_option (apsnd repo_of) (d1_markOrderPaid i p db)
    = (let (status, s) = markOrderPaid i p (repo_of db) in if distinct (sessions (s_orders s)) then Some (status, s) else None)"
proof -
  define over where "over = oversold_by i (ps_capacitySince p) (repo_of db)"
  have own: "r \<in> set (d_orders db) \<Longrightarrow> do_id r = i \<Longrightarrow> first_order i (repo_of db) = Some (order_of db r)" for r
    using first_order_distinct[OF d1_ids[OF assms], of "order_of db r"] by auto
  let ?f = "\<lambda>r. r\<lparr>do_status := if over then O_needs_review else O_paid, do_review_reason := (if over then Some ''oversold'' else None),
                  do_paid_at := Some (ps_paidAt p), do_session := coalesce (do_session r) (ps_session p),
                  do_intent := coalesce (do_intent r) (ps_intent p)\<rparr>"
  let ?P = "\<lambda>r. do_id r = i \<and> do_status r \<in> {O_pending, O_expired}"
  obtain n db' where u: "update_orders ?P ?f db = (n, db')" by fastforce
  have "apsnd repo_of (update_orders ?P ?f db)
      = (let (ok, s) = transition i [O_pending, O_expired]
           (\<lambda>x. x\<lparr>o_status := if over then O_needs_review else O_paid, o_paidAt := Some (ps_paidAt p),
                 o_session := coalesce (Option.bind (first_order i (repo_of db)) o_session) (ps_session p),
                 o_intent := coalesce (Option.bind (first_order i (repo_of db)) o_intent) (ps_intent p),
                 o_reviewReason := (if over then Some ''oversold'' else None)\<rparr>) (repo_of db)
         in (length (filter (\<lambda>x. o_id x = i \<and> o_status x \<in> set [O_pending, O_expired]) (s_orders (repo_of db))), s))"
    unfolding transition_map[OF d1_ids[OF assms]] Let_def prod.case
    by (rule update_orders_repo) (simp_all add: own row_simps)
  then have paid: "markOrderPaid i p (repo_of db) = (if 0 < n then Some (if over then O_needs_review else O_paid) else None, repo_of db')"
    unfolding u by (auto simp: markOrderPaid_def over_def[symmetric] Let_def transition_map[OF d1_ids[OF assms]])
  have "sessions_unique (d_orders db') \<longleftrightarrow> distinct (sessions (s_orders (repo_of db')))"
    by (simp add: sessions_unique_def sessions_def comp_def)
  then show ?thesis
    unfolding paid d1_markOrderPaid_def over_d1[OF assms] over_def[symmetric] Let_def u by (simp del: repo_of_sel)
qed

lemma markOrderRefunded_d1:
  assumes "d1_ok db"
    and "(\<exists>x\<in>set (s_orders (repo_of db)). o_id x = i \<and> o_status x \<in> {O_paid, O_needs_review})
       \<or> (\<forall>t\<in>set (s_tickets (repo_of db)). tk_order t = i \<longrightarrow> tk_status t \<noteq> T_valid)"
  shows "apsnd repo_of (d1_markOrderRefunded i stamp db) = markOrderRefunded i stamp (repo_of db)"
proof -
  let ?P = "\<lambda>r. do_id r = i \<and> do_status r \<in> {O_paid, O_needs_review}"
  let ?f = "\<lambda>r. r\<lparr>do_status := O_refunded, do_refunded_at := Some stamp\<rparr>"
  let ?v = "\<lambda>t. if tk_order t = i \<and> tk_status t = T_valid then t\<lparr>tk_status := T_void, tk_voidedAt := Some stamp\<rparr> else t"
  obtain n db' where u: "update_orders ?P ?f db = (n, db')" by fastforce
  have same: "d_tickets db' = d_tickets db" using u by (auto simp: update_orders_def update_where_def)
  have step: "transition i [O_paid, O_needs_review] (\<lambda>x. x\<lparr>o_status := O_refunded, o_refundedAt := Some stamp\<rparr>) (repo_of db) = (0 < n, repo_of db')"
  proof -
    have "apsnd repo_of (n, db') = (length (filter (\<lambda>x. o_id x = i \<and> o_status x \<in> set [O_paid, O_needs_review]) (s_orders (repo_of db))),
        (repo_of db)\<lparr>s_orders := map (\<lambda>x. if o_id x = i \<and> o_status x \<in> set [O_paid, O_needs_review]
          then x\<lparr>o_status := O_refunded, o_refundedAt := Some stamp\<rparr> else x) (s_orders (repo_of db))\<rparr>)"
      unfolding u[symmetric] by (rule update_orders_repo) (simp_all add: row_simps)
    then show ?thesis by (simp add: transition_map[OF d1_ids[OF assms(1)]] del: repo_of_sel)
  qed
  have unchanged: "map ?v (d_tickets db) = d_tickets db" if "n = 0"
  proof -
    have "\<not> (\<exists>x\<in>set (s_orders (repo_of db)). o_id x = i \<and> o_status x \<in> {O_paid, O_needs_review})"
      using that step transition_map[OF d1_ids[OF assms(1)], of i "[O_paid, O_needs_review]"] by (auto simp: filter_empty_conv)
    then show ?thesis using assms(2) by (intro map_idI) auto
  qed
  have "d_tickets db' = map ?v (d_tickets db) \<Longrightarrow> db'\<lparr>d_tickets := map ?v (d_tickets db)\<rparr> = db'" by simp
  then show ?thesis
    using unchanged unfolding d1_markOrderRefunded_def markOrderRefunded_def u step
    by (auto simp: update_where_def same)
qed

section \<open>Placing an order\<close>

definition item_row :: "ticket_order \<Rightarrow> order_item \<Rightarrow> d1_item" where
  "item_row x i = \<lparr>di_order = o_id x, di_type = oi_type i, di_name = oi_name i, di_day_label = oi_day i,
                   di_price = oi_price i, di_quantity = oi_qty i\<rparr>"

lemma toItem_row [simp]: "toItem (item_row x i) = i"
  by (simp add: toItem_def item_row_def)

lemma item_row_order [simp]: "di_order (item_row x i) = o_id x"
  by (simp add: item_row_def)

lemma d1_held_sum:
  "d1_held P typ since db
     = sum_by (\<lambda>r. if P r \<and> d1_HELD since r then sum_by oi_qty (filter (\<lambda>i. oi_type i = typ) (items_of db (do_id r))) else 0) (d_orders db)"
  unfolding d1_held_eq by (simp add: d1_HELD_eq[of _ _ db])

lemma held_unaffected:
  assumes "\<forall>r\<in>set (d_orders db). P r \<longrightarrow> do_id r \<notin> di_order ` set extra" "\<forall>r\<in>set added. \<not> P r"
  shows "d1_held P typ since (db\<lparr>d_orders := d_orders db @ added, d_items := d_items db @ extra\<rparr>) = d1_held P typ since db"
proof -
  have "items_of (db\<lparr>d_orders := d_orders db @ added, d_items := d_items db @ extra\<rparr>) (do_id r) = items_of db (do_id r)"
    if "r \<in> set (d_orders db)" "P r" for r
  proof -
    have "do_id r \<notin> di_order ` set extra" using assms(1) that by blast
    then show ?thesis by (force simp: items_of_def filter_empty_conv)
  qed
  then have "sum_by (\<lambda>r. if P r \<and> d1_HELD since r then sum_by oi_qty (filter (\<lambda>i. oi_type i = typ)
          (items_of (db\<lparr>d_orders := d_orders db @ added, d_items := d_items db @ extra\<rparr>) (do_id r))) else 0) (d_orders db)
      = d1_held P typ since db"
    unfolding d1_held_sum by (intro sum_by_cong) auto
  moreover have "sum_by (\<lambda>r. if P r \<and> d1_HELD since r then sum_by oi_qty (filter (\<lambda>i. oi_type i = typ)
          (items_of (db\<lparr>d_orders := d_orders db @ added, d_items := d_items db @ extra\<rparr>) (do_id r))) else 0) added = 0"
    using assms(2) by (simp add: sum_by_cong[of added _ "\<lambda>r. 0"])
  ultimately show ?thesis by (subst d1_held_sum) simp
qed

lemma insert_items_eq:
  assumes "distinct (map oi_type is)" "\<forall>r\<in>set (d_items db). di_order r = o_id x \<longrightarrow> di_type r \<notin> oi_type ` set is"
  shows "insert_items x capacities since is db
    = Some (map (\<lambda>i. if seats_free x capacities since db i then 1 else 0) is,
            db\<lparr>d_items := d_items db @ map (item_row x) (filter (seats_free x capacities since db) is)\<rparr>)"
  using assms
proof (induction "is" arbitrary: db)
  case (Cons i "is")
  show ?case
  proof (cases "seats_free x capacities since db i")
    case False
    then show ?thesis using Cons.prems by (simp add: Cons.IH)
  next
    case True
    let ?db = "db\<lparr>d_items := d_items db @ [item_row x i]\<rparr>"
    have same: "seats_free x capacities since ?db = seats_free x capacities since db"
    proof
      fix j :: order_item
      have "d1_held (\<lambda>r. do_site r = o_site x \<and> do_id r \<noteq> o_id x) (oi_type j) since (db\<lparr>d_orders := d_orders db @ [], d_items := d_items db @ [item_row x i]\<rparr>)
          = d1_held (\<lambda>r. do_site r = o_site x \<and> do_id r \<noteq> o_id x) (oi_type j) since db"
        by (rule held_unaffected) (auto simp: item_row_def)
      then show "seats_free x capacities since ?db j = seats_free x capacities since db j"
        by (simp add: seats_free_def split: option.splits)
    qed
    have "insert_items x capacities since is ?db
        = Some (map (\<lambda>i. if seats_free x capacities since db i then 1 else 0) is,
            ?db\<lparr>d_items := d_items ?db @ map (item_row x) (filter (seats_free x capacities since db) is)\<rparr>)"
      using Cons.IH[of ?db] Cons.prems unfolding same by (auto simp: item_row_def)
    then show ?thesis using True Cons.prems by (simp add: item_row_def)
  qed
qed simp

lemma json_answer_inverse: "json_answer (answer_json a) = a"
  by (simp add: json_answer_def answer_json_def js_get_def json_text_def)

definition fresh_order :: "ticket_order \<Rightarrow> store \<Rightarrow> bool" where
  \<comment> \<open>an order as the checkout makes it\<close>
  "fresh_order x s =
     (o_id x \<notin> o_id ` set (s_orders s) \<and> distinct (map oi_type (o_items x)) \<and> o_items x \<noteq> []
      \<and> (o_session x = None \<or> o_session x \<notin> o_session ` set (s_orders s)) \<and> o_intent x = None \<and> o_refundedAt x = None \<and> o_reviewReason x = None
      \<and> o_resolvedBy x = None \<and> o_resolvedAt x = None \<and> o_paymentMethod x = None \<and> \<not> o_preview x)"

lemma coupon_room_d1:
  assumes "d1_ok db" "o_items x \<noteq> []"
  shows "coupon_has_room x since db = (case o_couponId x of None \<Rightarrow> True | Some k \<Rightarrow> coupon_fits x k since (repo_of db))"
proof (cases "o_couponId x")
  case None
  then show ?thesis by (simp add: coupon_has_room_def)
next
  case (Some k)
  define fits :: "d1_coupon \<Rightarrow> bool" where "fits c = (dc_active c = 1 \<and> (case dc_expires_at c of None \<Rightarrow> True | Some e \<Rightarrow> o_createdAt x < e)
      \<and> length (o_items x) = 1 \<and> oi_type (hd (o_items x)) = dc_type c \<and> usedBy (dc_id c) since (repo_of db) + o_quantity x \<le> dc_max_uses c)" for c
  have room: "coupon_has_room x since db \<longleftrightarrow> (\<exists>c\<in>set (d_coupons db). dc_id c = k \<and> dc_site c = o_site x \<and> fits c)"
    using assms(2) by (cases "o_items x") (auto simp: coupon_has_room_def Some fits_def usedBy_d1)
  have only: "c = c'" if "c \<in> set (d_coupons db)" "c' \<in> set (d_coupons db)" "dc_id c = dc_id c'" for c c'
    using inj_onD[OF coupon_ids[OF assms(1)]] that by blast
  have fits: "coupon_fits x k since (repo_of db) = (case find (\<lambda>c. dc_site c = o_site x \<and> dc_id c = k) (d_coupons db) of None \<Rightarrow> False | Some c \<Rightarrow> fits c)"
    by (auto simp: coupon_fits_def find_map comp_def fits_def split: option.splits)
  show ?thesis
  proof (cases "find (\<lambda>c. dc_site c = o_site x \<and> dc_id c = k) (d_coupons db)")
    case None
    then have "\<not> coupon_fits x k since (repo_of db)" "\<not> (\<exists>c\<in>set (d_coupons db). dc_id c = k \<and> dc_site c = o_site x \<and> fits c)"
      using fits by (simp, auto simp: find_None_iff)
    then show ?thesis unfolding room by (simp add: Some)
  next
    case (Some c)
    note c = find_Some_in[OF Some]
    then have "(\<exists>c\<in>set (d_coupons db). dc_id c = k \<and> dc_site c = o_site x \<and> fits c) \<longleftrightarrow> fits c" using only by blast
    then show ?thesis using fits unfolding room by (simp add: Some \<open>o_couponId x = Some k\<close>)
  qed
qed

definition with_order :: "ticket_order \<Rightarrow> d1_db \<Rightarrow> d1_db" where
  "with_order x db = db\<lparr>d_orders := d_orders db @ [insert_order_row x], d_items := d_items db @ map (item_row x) (o_items x)\<rparr>"

lemma no_items_yet: "d1_ok db \<Longrightarrow> o_id x \<notin> do_id ` set (d_orders db) \<Longrightarrow> r \<in> set (d_items db) \<Longrightarrow> di_order r \<noteq> o_id x"
  unfolding d1_ok_def by (metis image_eqI subsetD)

lemma repo_of_with_order:
  assumes "d1_ok db" "fresh_order x (repo_of db)"
  shows "repo_of (with_order x db) = (repo_of db)\<lparr>s_orders := s_orders (repo_of db) @ [x]\<rparr>"
proof -
  have new: "o_id x \<notin> do_id ` set (d_orders db)" using assms(2) by (simp add: fresh_order_def image_image)
  let ?extra = "map (item_row x) (o_items x)"
  have old: "order_of (with_order x db) r = order_of db r" if "r \<in> set (d_orders db)" for r
  proof -
    have "do_id r \<noteq> o_id x" using new that by (metis image_eqI)
    then show ?thesis by (simp add: with_order_def order_of_def items_of_def filter_empty_conv item_row_def)
  qed
  have "items_of (with_order x db) (o_id x) = o_items x"
    using no_items_yet[OF assms(1) new] by (simp add: with_order_def items_of_def filter_map comp_def filter_empty_conv item_row_order)
  then have "order_of (with_order x db) (insert_order_row x) = x"
    using assms(2) by (simp add: order_of_def insert_order_row_def toTicketOrder_def parseJsonArray_def js_items_def
        fresh_order_def json_answer_inverse comp_def)
  moreover have "d_orders (with_order x db) = d_orders db @ [insert_order_row x]" "d_settings (with_order x db) = d_settings db"
    "d_types (with_order x db) = d_types db" "d_coupons (with_order x db) = d_coupons db" "d_tickets (with_order x db) = d_tickets db"
    "d_outbox (with_order x db) = d_outbox db" "d_jobs (with_order x db) = d_jobs db"
    by (simp_all add: with_order_def)
  ultimately show ?thesis using old by (simp add: repo_of_def d1_getTicketSettings_def d1_getJobStates_def)
qed

lemma insertOrderIfAvailable_rows:
  assumes "d1_ok db" "fresh_order x (repo_of db)"
  shows "d1_insertOrderIfAvailable x capacities since db
    = (let res = fst (insertOrderIfAvailable x capacities since (repo_of db)) in Some (res, if res = Insert_ok then with_order x db else db))"
proof -
  have fresh: "o_id x \<notin> do_id ` set (d_orders db)" "distinct (map oi_type (o_items x))" "o_items x \<noteq> []"
    "o_session x = None \<or> o_session x \<notin> do_session ` set (d_orders db)"
    using assms(2) by (auto simp: fresh_order_def image_image)
  have items: "\<forall>r\<in>set (d_items db). di_order r \<noteq> o_id x" using no_items_yet[OF assms(1) fresh(1)] by blast
  let ?room = "seats_free x capacities since db"
  have room: "?room i = (case capacities (oi_type i) of Some (Some capacity) \<Rightarrow> \<not> capacity < held (o_site x) (oi_type i) since (repo_of db) + oi_qty i | _ \<Rightarrow> True)" for i
  proof -
    have "d1_held (\<lambda>r. do_site r = o_site x \<and> do_id r \<noteq> o_id x) (oi_type i) since db = held (o_site x) (oi_type i) since (repo_of db)"
      unfolding held_d1 d1_held_sum by (rule sum_by_cong) (metis fresh(1) image_eqI)
    then show ?thesis by (simp add: seats_free_def not_less split: option.splits)
  qed
  let ?short = "find (\<lambda>i. \<not> ?room i) (o_items x)"
  have short: "find (\<lambda>i. case capacities (oi_type i) of
            Some (Some capacity) \<Rightarrow> capacity < held (o_site x) (oi_type i) since (repo_of db) + oi_qty i
          | _ \<Rightarrow> False) (o_items x) = ?short"
    by (rule arg_cong2[where f = find]) (auto simp: room split: option.splits)
  have first: "find (\<lambda>(n, i). n = (0::nat)) (zip (map (\<lambda>i. if ?room i then 1 else 0) is) is) = map_option (Pair 0) (find (\<lambda>i. \<not> ?room i) is)" for "is"
    by (induction "is") auto
  have outcome: "(case map_option (Pair (0::nat)) ?short of Some (n, i) \<Rightarrow> Sold_out (oi_type i) | None \<Rightarrow> Insert_ok)
      = (case ?short of Some i \<Rightarrow> Sold_out (oi_type i) | None \<Rightarrow> Insert_ok)"
    by (cases ?short) simp_all
  let ?rows = "map (item_row x) (filter ?room (o_items x))"
  have placed: "insert_items x capacities since (o_items x) db = Some (map (\<lambda>i. if ?room i then 1 else 0) (o_items x), db\<lparr>d_items := d_items db @ ?rows\<rparr>)"
    by (rule insert_items_eq) (use fresh items in auto)
  show ?thesis
  proof (cases "coupon_has_room x since db")
    case False
    then have "\<not> (case o_couponId x of None \<Rightarrow> True | Some k \<Rightarrow> coupon_fits x k since (repo_of db))"
      using coupon_room_d1[OF assms(1) fresh(3)] by simp
    then have store: "fst (insertOrderIfAvailable x capacities since (repo_of db)) = Coupon_used_up"
      by (auto simp: insertOrderIfAvailable_def Let_def split: option.splits)
    have "filter (\<lambda>r. \<not> (do_id r = o_id x \<and> n < length (o_items x))) (d_orders db) = d_orders db" for n
      using fresh(1) by (metis (mono_tags, lifting) filter_True image_eqI)
    then have "drop_partial x (db\<lparr>d_items := d_items db @ ?rows\<rparr>) = db"
      using items fresh(1) by (simp add: drop_partial_def Let_def filter_id_conv filter_empty_conv item_row_def)
    then show ?thesis
      unfolding d1_insertOrderIfAvailable_def insert_order_def using False by (simp add: placed store)
  next
    case True
    let ?db = "db\<lparr>d_orders := d_orders db @ [insert_order_row x]\<rparr>"
    have "seats_free x capacities since ?db i = ?room i" for i
      using held_unaffected[of db "\<lambda>r. do_site r = o_site x \<and> do_id r \<noteq> o_id x" "[]" "[insert_order_row x]"]
      by (simp add: seats_free_def insert_order_row_def split: option.splits)
    then have same: "seats_free x capacities since ?db = ?room" by blast
    have placed': "insert_items x capacities since (o_items x) ?db = Some (map (\<lambda>i. if ?room i then 1 else 0) (o_items x), ?db\<lparr>d_items := d_items db @ ?rows\<rparr>)"
      using insert_items_eq[of "o_items x" ?db x capacities since] fresh items unfolding same by simp
    have "distinct (filter (\<lambda>x. x \<noteq> None) (map do_session (d_orders db)))"
      using assms(1) by (simp add: d1_ok_def tables_ok_def sessions_def comp_def)
    then have unique: "sessions_unique (d_orders db @ [insert_order_row x])"
      using fresh(4) by (auto simp: sessions_unique_def insert_order_row_def)
    have start: "insert_order x since db = Some (1, ?db)" using True fresh(1) unique by (simp add: insert_order_def)
    have "(case o_couponId x of None \<Rightarrow> True | Some k \<Rightarrow> coupon_fits x k since (repo_of db))"
      using True coupon_room_d1[OF assms(1) fresh(3)] by simp
    then have store: "fst (insertOrderIfAvailable x capacities since (repo_of db)) = (case ?short of Some i \<Rightarrow> Sold_out (oi_type i) | None \<Rightarrow> Insert_ok)"
      unfolding insertOrderIfAvailable_def Let_def short by (auto split: option.splits)
    have count: "length (filter (\<lambda>i. di_order i = o_id x) (d_items db @ ?rows)) = length (filter ?room (o_items x))"
      using items by (simp add: filter_empty_conv filter_map comp_def item_row_def)
    have own: "do_id (insert_order_row x) = o_id x" by (simp add: insert_order_row_def)
    have final: "drop_partial x (?db\<lparr>d_items := d_items db @ ?rows\<rparr>) = (if ?short = None then with_order x db else db)"
    proof (cases ?short)
      case None
      then have "filter ?room (o_items x) = o_items x" by (auto simp: find_None_iff filter_id_conv)
      then show ?thesis using None count own
        by (simp add: drop_partial_def Let_def with_order_def filter_id_conv)
    next
      case (Some i)
      then have "length (filter ?room (o_items x)) < length (o_items x)"
        using find_Some_in[OF Some] by (intro length_filter_less) auto
      moreover have "filter (\<lambda>r. do_id r \<noteq> o_id x) (d_orders db) = d_orders db"
        using fresh(1) by (metis (mono_tags, lifting) filter_True image_eqI)
      ultimately show ?thesis using Some count own items fresh(1)
        by (simp add: drop_partial_def Let_def filter_id_conv filter_empty_conv item_row_def)
    qed
    show ?thesis
      unfolding d1_insertOrderIfAvailable_def start by (cases ?short) (simp_all add: placed' first outcome store final Let_def)
  qed
qed

section \<open>Settings, ticket types, coupons and jobs\<close>

lemma repo_of_settings: "repo_of (db\<lparr>d_settings := rows\<rparr>)
    = (repo_of db)\<lparr>s_settings := (\<lambda>site. map_option toSettings (find (\<lambda>r. ds_site r = site) rows))\<rparr>"
  by (simp add: repo_of_def order_of_def items_of_def d1_getTicketSettings_def d1_getJobStates_def)

lemma find_append: "find P (xs @ ys) = (case find P xs of Some x \<Rightarrow> Some x | None \<Rightarrow> find P ys)"
  by (induction xs) auto

lemma find_update:
  "(\<And>r. k (f r) = k r) \<Longrightarrow>
     find (\<lambda>r. k r = a) (map (\<lambda>r. if k r = b \<and> D r then f r else r) xs)
       = (if a = b then map_option (\<lambda>r. if D r then f r else r) (find (\<lambda>r. k r = a) xs) else find (\<lambda>r. k r = a) xs)"
  by (induction xs) auto

lemma upsertSetting_d1:
  assumes "\<And>r. ds_site (column r) = ds_site r"
    and "\<And>r u t. toSettings ((column r)\<lparr>ds_updated_by := u, ds_updated_at := t\<rparr>) = (patch (toSettings r))\<lparr>st_updatedBy := u, st_updatedAt := t\<rparr>"
    and "\<And>c u t. (patch (c\<lparr>st_updatedAt := t\<rparr>))\<lparr>st_updatedBy := Some who, st_updatedAt := u\<rparr> = (patch c)\<lparr>st_updatedBy := Some who, st_updatedAt := u\<rparr>"
  shows "repo_of (upsertSetting site (\<lambda>r. True) column who stamp db) = upsertSettings site patch who stamp (repo_of db)"
proof (cases "find (\<lambda>r. ds_site r = site) (d_settings db)")
  case None
  then have "\<not> (\<exists>r\<in>set (d_settings db). ds_site r = site)" by (auto simp: find_None_iff)
  moreover have append: "find (\<lambda>r. ds_site r = site') (d_settings db @ [r])
      = (if site' = site then Some r else find (\<lambda>r. ds_site r = site') (d_settings db))" if "ds_site r = site" for site' r
    using None that by (auto simp: find_append split: option.splits)
  ultimately show ?thesis
    using assms(3)[where t = stamp and u = stamp and c = "\<lparr>st_site = site, st_enabled = False, st_cta = False, st_fields = [], st_updatedBy = None, st_updatedAt = []\<rparr>"]
    by (auto simp: upsertSetting_def upsertSettings_def Let_def repo_of_settings append assms(1,2) d1_getTicketSettings_def None
        toSettings_def[of "\<lparr>ds_site = _, ds_enabled = 0, ds_cta_enabled = 0, ds_fields = JArr [], ds_updated_by = None, ds_updated_at = []\<rparr>"]
        parseJsonArray_def js_items_def intro!: store.equality ext)
next
  case (Some r)
  then have ex: "\<exists>r\<in>set (d_settings db). ds_site r = site" using find_Some_in by fastforce
  let ?stamp = "\<lambda>r. (column r)\<lparr>ds_updated_by := Some who, ds_updated_at := stamp\<rparr>"
  have upd: "find (\<lambda>r. ds_site r = site') (map (\<lambda>r. if ds_site r = site then ?stamp r else r) (d_settings db))
      = (if site' = site then Some (?stamp r) else find (\<lambda>r. ds_site r = site') (d_settings db))" for site'
    using find_update[of ds_site ?stamp site' site "\<lambda>r. True"] Some by (simp add: assms(1))
  have "upsertSetting site (\<lambda>r. True) column who stamp db = db\<lparr>d_settings := map (\<lambda>r. if ds_site r = site then ?stamp r else r) (d_settings db)\<rparr>"
    using ex by (simp add: upsertSetting_def update_where_def Let_def)
  moreover have "upsertSettings site patch who stamp (repo_of db) = (repo_of db)\<lparr>s_settings := (s_settings (repo_of db))(site \<mapsto> toSettings (?stamp r))\<rparr>"
    by (simp add: upsertSettings_def d1_getTicketSettings_def Some assms(2))
  ultimately show ?thesis
    by (auto simp: repo_of_settings upd d1_getTicketSettings_def intro!: store.equality ext)
qed

lemma field_json_inverse: "json_field (field_json f) = f"
proof -
  have "isLpFieldType (JStr (field_type_text t)) = Some t" for t
    by (cases t) (simp_all add: isLpFieldType_def field_type_text_def LP_FIELD_TYPES_def)
  then show ?thesis
    by (cases "ff_description f")
      (simp_all add: json_field_def field_json_def js_get_def json_text_def js_items_def comp_def)
qed

lemma setTicketEnabled_d1: "repo_of (d1_setTicketEnabled site v who stamp db) = setTicketEnabled site v who stamp (repo_of db)"
  unfolding d1_setTicketEnabled_def setTicketEnabled_def by (rule upsertSetting_d1) (simp_all add: toSettings_def)

lemma setTicketCta_d1: "repo_of (d1_setTicketCta site v who stamp db) = setTicketCta site v who stamp (repo_of db)"
  unfolding d1_setTicketCta_def setTicketCta_def by (rule upsertSetting_d1) (simp_all add: toSettings_def)

lemma setTicketFields_d1: "repo_of (d1_setTicketFields site fs who stamp db) = setTicketFields site fs who stamp (repo_of db)"
  unfolding d1_setTicketFields_def setTicketFields_def
  by (rule upsertSetting_d1) (simp_all add: toSettings_def parseJsonArray_def js_items_def comp_def field_json_inverse)

lemma setTicketRelease_d1:
  assumes "d1_ok db"
  shows "repo_of (d1_setTicketRelease site e c who stamp db) = setTicketRelease site e c who stamp (repo_of db)"
proof -
  let ?column = "\<lambda>r. r\<lparr>ds_enabled := sql_bool e, ds_cta_enabled := sql_bool c\<rparr>"
  let ?differs = "\<lambda>r. ds_enabled r \<noteq> sql_bool e \<or> ds_cta_enabled r \<noteq> sql_bool c"
  have all: "repo_of (upsertSetting site (\<lambda>r. True) ?column who stamp db) = upsertSettings site (\<lambda>c'. c'\<lparr>st_enabled := e, st_cta := c\<rparr>) who stamp (repo_of db)"
    by (rule upsertSetting_d1) (simp_all add: toSettings_def)
  show ?thesis
  proof (cases "find (\<lambda>r. ds_site r = site) (d_settings db)")
    case None
    then have "\<not> (\<exists>r\<in>set (d_settings db). ds_site r = site)" by (auto simp: find_None_iff)
    then have "d1_setTicketRelease site e c who stamp db = upsertSetting site (\<lambda>r. True) ?column who stamp db"
      by (simp add: d1_setTicketRelease_def upsertSetting_def)
    then show ?thesis using all None by (simp add: setTicketRelease_def d1_getTicketSettings_def)
  next
    case (Some r)
    note r = find_Some_in[OF Some]
    have only: "r' = r" if "r' \<in> set (d_settings db)" "ds_site r' = site" for r'
      using assms r that by (metis d1_ok_def distinct_map inj_onD)
    have flags: "ds_enabled r \<in> {0, 1}" "ds_cta_enabled r \<in> {0, 1}" using assms r by (auto simp: d1_ok_def)
    then have diff: "?differs r \<longleftrightarrow> st_enabled (toSettings r) \<noteq> e \<or> st_cta (toSettings r) \<noteq> c"
      by (auto simp: toSettings_def sql_bool_def)
    have ex: "\<exists>r\<in>set (d_settings db). ds_site r = site" using r by blast
    have same: "snd (update_where (\<lambda>r. ds_site r = site \<and> ?differs r) f (d_settings db))
        = (if ?differs r then snd (update_where (\<lambda>r. ds_site r = site \<and> True) f (d_settings db)) else d_settings db)" for f
      using only by (auto simp: update_where_def intro!: map_cong map_idI)
    show ?thesis
    proof (cases "?differs r")
      case True
      have "d1_setTicketRelease site e c who stamp db = upsertSetting site (\<lambda>r. True) ?column who stamp db"
        unfolding d1_setTicketRelease_def upsertSetting_def Let_def same using True by simp
      then show ?thesis using all True diff by (simp add: setTicketRelease_def d1_getTicketSettings_def Some)
    next
      case False
      have "d1_setTicketRelease site e c who stamp db = db"
        unfolding d1_setTicketRelease_def upsertSetting_def Let_def same using ex False by simp
      then show ?thesis using False diff by (simp add: setTicketRelease_def d1_getTicketSettings_def Some)
    qed
  qed
qed

lemma insertTicketType_d1:
  assumes "tt_id t \<notin> tt_id ` set (s_types (repo_of db))"
  shows "map_option repo_of (d1_insertTicketType t db) = Some (insertTicketType t (repo_of db))"
  using assms by (auto simp: d1_insertTicketType_def insertTicketType_def toTicketType_def not_image)

lemma updateTicketType_d1:
  assumes "d1_ok db" "\<forall>u\<in>set (s_types (repo_of db)). tt_site u = tt_site t \<and> tt_id u = tt_id t \<longrightarrow> tt_createdAt u = tt_createdAt t"
  shows "repo_of (d1_updateTicketType t db) = updateTicketType t (repo_of db)"
proof -
  have ids: "distinct (map tt_id (s_types (repo_of db)))" using assms(1) by (simp add: d1_ok_def tables_ok_def)
  have "updateTicketType t (repo_of db) = (repo_of db)\<lparr>s_types :=
      map (\<lambda>u. if tt_site u = tt_site t \<and> tt_id u = tt_id t then t else u) (s_types (repo_of db))\<rparr>"
    unfolding updateTicketType_def by (subst upd_first_map[OF ids, of _ "tt_id t"]) simp_all
  moreover have "toTicketType (r\<lparr>dt_name := tt_name t, dt_description := tt_description t, dt_price := tt_price t, dt_capacity := tt_capacity t,
             dt_day_label := tt_day t, dt_max_per_order := tt_maxPerOrder t, dt_active := sql_bool (tt_active t),
             dt_sort_order := tt_sortOrder t, dt_updated_at := tt_updatedAt t\<rparr>) = t"
    if "r \<in> set (d_types db)" "dt_site r = tt_site t" "dt_id r = tt_id t" for r
    using assms(2) that by (auto simp: toTicketType_def)
  ultimately show ?thesis by (auto simp: d1_updateTicketType_def update_where_def)
qed

lemma insertCoupon_d1:
  assumes "cp_id c \<notin> cp_id ` set (s_coupons (repo_of db))"
  shows "map_option (apsnd repo_of) (d1_insertCoupon c db) = Some (insertCoupon c (repo_of db))"
  using assms by (auto simp: d1_insertCoupon_def insertCoupon_def d1_toCoupon_def not_image)

lemma setCouponActive_d1:
  assumes "d1_ok db"
  shows "apsnd repo_of (d1_setCouponActive site i active stamp db) = setCouponActive site i active stamp (repo_of db)"
proof -
  let ?P = "\<lambda>c. cp_site c = site \<and> cp_id c = i"
  have ids: "distinct (map cp_id (s_coupons (repo_of db)))" using assms by (simp add: d1_ok_def tables_ok_def)
  have upd: "upd_first ?P g (s_coupons (repo_of db)) = map (\<lambda>c. if ?P c then g c else c) (s_coupons (repo_of db))" for g
    by (rule upd_first_map[OF ids, of _ i]) simp
  have d1: "apsnd repo_of (d1_setCouponActive site i active stamp db)
      = (filter ?P (s_coupons (repo_of db)) \<noteq> [], (repo_of db)\<lparr>s_coupons := map (\<lambda>c. if ?P c then c\<lparr>cp_active := active, cp_updatedAt := stamp\<rparr> else c) (s_coupons (repo_of db))\<rparr>)"
    by (simp add: d1_setCouponActive_def update_where_def filter_map comp_def) (simp add: d1_toCoupon_def)
  show ?thesis
  proof (cases "find ?P (s_coupons (repo_of db))")
    case None
    then have none: "\<forall>c\<in>set (s_coupons (repo_of db)). \<not> ?P c" by (auto simp: find_None_iff)
    then have "filter ?P (s_coupons (repo_of db)) = []" "map (\<lambda>c. if ?P c then c\<lparr>cp_active := active, cp_updatedAt := stamp\<rparr> else c) (s_coupons (repo_of db)) = s_coupons (repo_of db)"
      by (auto simp only: filter_empty_conv intro!: map_idI split: if_splits)
    then show ?thesis unfolding d1 setCouponActive_def None by (simp del: repo_of_sel)
  next
    case (Some c)
    then have "filter ?P (s_coupons (repo_of db)) \<noteq> []" using find_Some_in[OF Some] by (auto simp only: filter_empty_conv)
    then show ?thesis unfolding d1 setCouponActive_def Some upd by simp
  qed
qed

lemma setJobState_d1:
  assumes "d1_ok db"
  shows "repo_of (d1_setJobState k v db) = setJobState k v (repo_of db)"
proof -
  have jobs: "repo_of (db\<lparr>d_jobs := js\<rparr>) = (repo_of db)\<lparr>s_jobs := map_of (rev js)\<rparr>" for js
    by (simp add: repo_of_def order_of_def items_of_def d1_getTicketSettings_def d1_getJobStates_def)
  have "map_of (map (\<lambda>r. if fst r = k then (k, v) else r) js) x
      = (if x = k then if k \<in> fst ` set js then Some v else None else map_of js x)" for js :: "(string \<times> string) list" and x
    by (induction js) (auto simp: rev_image_eqI)
  then show ?thesis
    by (auto simp: d1_setJobState_def setJobState_def update_where_def jobs d1_getJobStates_def rev_map fun_eq_iff intro!: store.equality)
qed

lemma couponUses_d1:
  assumes "d1_ok db"
  shows "d1_couponUses site since db = couponUses site since (repo_of db)"
proof
  fix k
  let ?rows = "filter (\<lambda>r. do_site r = site \<and> d1_HELD since r) (d_orders db)"
  have coupon: "0 < do_quantity r \<and> (\<exists>c\<in>set (d_coupons db). dc_id c = k \<and> dc_site c = do_site r)"
    if "r \<in> set (d_orders db)" "do_coupon_id r = Some k" for r
    using order_row_ok[OF assms that(1)] that(2) by (auto simp: order_ok_def)
  have here: "(\<exists>c\<in>set (s_coupons (repo_of db)). cp_site c = site \<and> cp_id c = k) \<longleftrightarrow> (\<exists>c\<in>set (d_coupons db). dc_site c = site \<and> dc_id c = k)"
    by auto
  show "d1_couponUses site since db k = couponUses site since (repo_of db) k"
  proof (cases "\<exists>c\<in>set (d_coupons db). dc_site c = site \<and> dc_id c = k")
    case False
    then have "Some k \<notin> do_coupon_id ` set ?rows" using coupon by (force simp: not_image)
    then show ?thesis using False here by (auto simp: d1_couponUses_def couponUses_def Let_def)
  next
    case True
    then obtain c where c: "c \<in> set (d_coupons db)" "dc_site c = site" "dc_id c = k" by blast
    have at: "do_site r = site" if "r \<in> set (d_orders db)" "do_coupon_id r = Some k" for r
    proof -
      note row = that
      obtain c' where "c' \<in> set (d_coupons db)" "dc_id c' = k" "dc_site c' = do_site r" using coupon[OF row] by blast
      then show ?thesis using inj_onD[OF coupon_ids[OF assms], of c' c] c by simp
    qed
    have "filter (\<lambda>r. do_coupon_id r = Some k) ?rows = filter (\<lambda>r. do_coupon_id r = Some k \<and> d1_HELD since r) (d_orders db)"
      using at by (auto intro: filter_cong)
    then have used: "usedBy k since (repo_of db) = sum_by do_quantity (filter (\<lambda>r. do_coupon_id r = Some k) ?rows)"
      by (simp add: usedBy_d1)
    have positive: "0 < do_quantity r" if "r \<in> set (filter (\<lambda>r. do_coupon_id r = Some k) ?rows)" for r
      using coupon that by auto
    have "0 < sum_by do_quantity xs \<longleftrightarrow> xs \<noteq> []" if "\<forall>r\<in>set xs. 0 < do_quantity r" for xs
      using that by (induction xs) (auto simp: add_pos_nonneg sum_by_nonneg less_imp_le)
    then have "0 < usedBy k since (repo_of db) \<longleftrightarrow> filter (\<lambda>r. do_coupon_id r = Some k) ?rows \<noteq> []"
      using positive unfolding used by blast
    also have "\<dots> \<longleftrightarrow> Some k \<in> do_coupon_id ` set ?rows"
      unfolding filter_empty_conv image_iff by metis
    finally have "0 < usedBy k since (repo_of db) \<longleftrightarrow> Some k \<in> do_coupon_id ` set ?rows" .
    then show ?thesis using True here used by (auto simp: d1_couponUses_def couponUses_def Let_def)
  qed
qed

section \<open>Fulfilment and mails\<close>

lemma or_ignore_fold: "fold (or_ignore clash) rows tab = put_new clash rows tab"
  by (simp add: put_new_def or_ignore_def[abs_def])

lemma not_voided: "tk_voidedAt t = None \<Longrightarrow> t\<lparr>tk_voidedAt := None\<rparr> = t"
  by (cases t) simp

lemma not_sent: "ml_error r = None \<and> ml_sentAt r = None \<Longrightarrow> r\<lparr>ml_error := None, ml_sentAt := None\<rparr> = r"
  by (cases r) simp

lemma guarded_fold: "\<not> P db \<Longrightarrow> fold (\<lambda>t db. if P db then f t db else db) xs db = db"
  by (induction xs) auto

lemma issueFulfilment_d1:
  assumes "\<forall>t\<in>set tickets. tk_voidedAt t = None" "\<forall>r\<in>set mails. ml_error r = None \<and> ml_sentAt r = None"
  shows "repo_of (d1_issueFulfilment i tickets mails db) = issueFulfilment i tickets mails (repo_of db)"
proof (cases "\<exists>r\<in>set (d_orders db). do_id r = i \<and> do_status r = O_paid")
  case False
  then show ?thesis by (simp add: d1_issueFulfilment_def issueFulfilment_def guarded_fold)
next
  case True
  have tickets: "fold (\<lambda>t db. if \<exists>r\<in>set (d_orders db). do_id r = i \<and> do_status r = O_paid
          then db\<lparr>d_tickets := or_ignore (\<lambda>x t. tk_id x = tk_id t) (t\<lparr>tk_voidedAt := None\<rparr>) (d_tickets db)\<rparr> else db) ts db
      = db\<lparr>d_tickets := put_new (\<lambda>x t. tk_id x = tk_id t) ts (d_tickets db)\<rparr>"
    if "\<forall>t\<in>set ts. tk_voidedAt t = None" "\<exists>r\<in>set (d_orders db). do_id r = i \<and> do_status r = O_paid" for ts db
    using that unfolding or_ignore_fold[symmetric]
    by (induction ts arbitrary: db) (simp_all add: not_voided)
  have mails: "fold (\<lambda>r db. if \<exists>r\<in>set (d_orders db). do_id r = i \<and> do_status r = O_paid
          then db\<lparr>d_outbox := or_ignore (\<lambda>x r. ml_id x = ml_id r \<or> (ml_order x = ml_order r \<and> ml_kind x = ml_kind r))
                 (r\<lparr>ml_error := None, ml_sentAt := None\<rparr>) (d_outbox db)\<rparr> else db) rs db
      = db\<lparr>d_outbox := put_new (\<lambda>x r. ml_id x = ml_id r \<or> (ml_order x = ml_order r \<and> ml_kind x = ml_kind r)) rs (d_outbox db)\<rparr>"
    if "\<forall>r\<in>set rs. ml_error r = None \<and> ml_sentAt r = None" "\<exists>r\<in>set (d_orders db). do_id r = i \<and> do_status r = O_paid" for rs db
    using that unfolding or_ignore_fold[symmetric]
    by (induction rs arbitrary: db) (simp_all add: not_sent)
  show ?thesis
    unfolding d1_issueFulfilment_def Let_def tickets[OF assms(1) True]
    using True by (subst mails[OF assms(2)]) (auto simp: issueFulfilment_def)
qed

lemma mail_key_le:
  assumes "iso_text (ml_next x)" "iso_text (ml_next y)"
  shows "mail_key x \<le> mail_key y \<longleftrightarrow> (kind_string (ml_kind x), ml_next x, ml_id x) \<le> (kind_string (ml_kind y), ml_next y, ml_id y)"
  using keyed_le[OF assms, of "ml_id x" "ml_id y"]
  by (cases "ml_kind x"; cases "ml_kind y") (simp_all add: mail_key_def kind_string_def)

lemma key_member:
  assumes "distinct (map k xs)" "set rows \<subseteq> set xs" "r \<in> set xs"
  shows "k r \<in> set (map k rows) \<longleftrightarrow> r \<in> set rows"
proof
  assume "k r \<in> set (map k rows)"
  then obtain q where q: "q \<in> set rows" "k q = k r" by auto
  then have "q = r" using assms by (intro inj_onD[of k "set xs"]) (auto simp: distinct_map)
  then show "r \<in> set rows" using q(1) by simp
qed simp

lemma mset_claimed:
  assumes "distinct (map k xs)" "distinct rows" "set rows \<subseteq> set xs"
  shows "mset (filter (\<lambda>r. k r \<in> set (map k rows)) xs) = mset rows"
proof (subst set_eq_iff_mset_eq_distinct[symmetric])
  have "set (filter (\<lambda>r. k r \<in> set (map k rows)) xs) = {r \<in> set xs. r \<in> set rows}"
    using key_member[OF assms(1,3)] by auto
  then show "set (filter (\<lambda>r. k r \<in> set (map k rows)) xs) = set rows" using assms(3) by auto
qed (use assms in \<open>auto simp: distinct_map\<close>)

lemma claimOutbox_d1:
  assumes "d1_ok db"
  shows "(let (rows, db') = d1_claimOutbox c db in (mset rows, repo_of db')) = (let (rows, s) = claimOutbox c (repo_of db) in (mset rows, s))"
proof (cases "cl_kinds c = []")
  case True
  then have "filter (claimable c) (s_mails (repo_of db)) = []" by (auto simp: claimable_def filter_empty_conv)
  then show ?thesis using True by (simp add: d1_claimOutbox_def claimOutbox_def)
next
  case False
  have ids: "distinct (map ml_id (d_outbox db))" and iso: "\<forall>r\<in>set (d_outbox db). iso_text (ml_next r)"
    using assms by (simp_all add: d1_ok_def tables_ok_def)
  let ?due = "filter (claimable c) (d_outbox db)"
  let ?rows = "take (cl_limit c) (sort_key mail_key ?due)"
  let ?lease = "\<lambda>r. r\<lparr>ml_next := cl_leaseUntil c\<rparr>"
  have due: "filter (\<lambda>r. ml_status r = M_pending \<and> ml_next r \<le> cl_now c \<and> ml_kind r \<in> set (cl_kinds c)
                        \<and> (case cl_order c of None \<Rightarrow> True | Some i \<Rightarrow> ml_order r = i)) (d_outbox db) = ?due"
    by (simp add: claimable_def[abs_def])
  have sorted: "sort_key (\<lambda>r. (kind_string (ml_kind r), ml_next r, ml_id r)) ?due = sort_key mail_key ?due"
    by (rule sort_key_agree) (use iso in \<open>simp add: mail_key_le\<close>)
  have rows: "distinct ?rows" "set ?rows \<subseteq> set (d_outbox db)"
    using ids by (auto simp: distinct_map dest: in_set_takeD)
  have member: "ml_id r \<in> set (map ml_id ?rows) \<longleftrightarrow> r \<in> set ?rows" if "r \<in> set (d_outbox db)" for r
    by (rule key_member[OF ids rows(2) that])
  have "mset (map ?lease (filter (\<lambda>r. ml_id r \<in> set (map ml_id ?rows)) (d_outbox db))) = image_mset ?lease (mset ?rows)"
    unfolding mset_map mset_claimed[OF ids rows] ..
  moreover have "map (\<lambda>r. if ml_id r \<in> set (map ml_id ?rows) then ?lease r else r) (d_outbox db)
      = map (\<lambda>r. if r \<in> set ?rows then ?lease r else r) (d_outbox db)"
    using member by (intro map_cong) auto
  ultimately show ?thesis
    using False unfolding d1_claimOutbox_def claimOutbox_def Let_def due sorted update_where_def
    by (simp del: set_map)
qed

lemma applyOutboxUpdates_d1:
  assumes "d1_ok db"
  shows "repo_of (d1_applyOutboxUpdates us db) = applyOutboxUpdates us (repo_of db)"
proof -
  have "fold (\<lambda>u tab. snd (update_where (\<lambda>r. ml_id r = mu_id u) (apply_update u) tab)) us rows
      = fold (\<lambda>u. upd_first (\<lambda>r. ml_id r = mu_id u) (apply_update u)) us rows" if "distinct (map ml_id rows)" for rows
    using that
  proof (induction us arbitrary: rows)
    case (Cons u us)
    have first: "upd_first (\<lambda>r. ml_id r = mu_id u) (apply_update u) rows = map (\<lambda>r. if ml_id r = mu_id u then apply_update u r else r) rows"
      by (rule upd_first_map[OF Cons.prems, of _ "mu_id u"]) simp
    have "map ml_id (map (\<lambda>r. if ml_id r = mu_id u then apply_update u r else r) rows) = map ml_id rows"
      by (simp add: apply_update_def)
    then have "distinct (map ml_id (map (\<lambda>r. if ml_id r = mu_id u then apply_update u r else r) rows))"
      using Cons.prems by (simp only:)
    from Cons.IH[OF this] show ?case by (simp add: first update_where_def)
  qed simp
  moreover have "distinct (map ml_id (d_outbox db))" using assms by (simp add: d1_ok_def tables_ok_def)
  ultimately show ?thesis by (simp add: d1_applyOutboxUpdates_def applyOutboxUpdates_def)
qed

end
