(* ===== verification/Ticket_D1_Runs.thy ===== *)
theory Ticket_D1_Runs
  imports Ticket_D1_Steps
begin

text \<open>
  The repository interface \<open>LpTicketRepo\<close> as calls and answers. \<open>mem_exec\<close> answers a call as \<open>memory-repo.ts\<close> does,
  \<open>d1_exec\<close> as \<open>d1-repo.ts\<close> does, and every admissible sequence of calls gets the same answers from both. Where the
  two leave the order of rows to the caller, the answer is what the service makes of the rows: ticket types sorted,
  aggregates and job states by key, tickets by order, mails by kind, the claimed mails as a bag.
\<close>

section \<open>A refinement of one machine by another\<close>

fun run_calls :: "('op \<Rightarrow> 's \<Rightarrow> 'r \<times> 's) \<Rightarrow> 'op list \<Rightarrow> 's \<Rightarrow> 'r list \<times> 's" where
  "run_calls f [] s = ([], s)"
| "run_calls f (c # cs) s = (let (a, s1) = f c s; (as, s2) = run_calls f cs s1 in (a # as, s2))"

fun run_throwing :: "('op \<Rightarrow> 'c \<Rightarrow> ('r \<times> 'c) option) \<Rightarrow> 'op list \<Rightarrow> 'c \<Rightarrow> ('r list \<times> 'c) option" where
  \<comment> \<open>calls that may throw, which ends the run\<close>
  "run_throwing f [] d = Some ([], d)"
| "run_throwing f (c # cs) d =
     (case f c d of None \<Rightarrow> None
      | Some (a, d1) \<Rightarrow> map_option (apfst ((#) a)) (run_throwing f cs d1))"

fun admitted :: "('op \<Rightarrow> 's \<Rightarrow> 'r \<times> 's) \<Rightarrow> ('op \<Rightarrow> 's \<Rightarrow> bool) \<Rightarrow> 'op list \<Rightarrow> 's \<Rightarrow> bool" where
  "admitted f ok [] s = True"
| "admitted f ok (c # cs) s = (ok c s \<and> admitted f ok cs (snd (f c s)))"

locale machine_refinement =
  fixes inv :: "'c \<Rightarrow> bool"
    and reading :: "'c \<Rightarrow> 's"
    and cexec :: "'op \<Rightarrow> 'c \<Rightarrow> ('r \<times> 'c) option"
    and aexec :: "'op \<Rightarrow> 's \<Rightarrow> 'r \<times> 's"
    and ok :: "'op \<Rightarrow> 's \<Rightarrow> bool"
  assumes step: "inv d \<Longrightarrow> ok c (reading d) \<Longrightarrow> map_option (apsnd reading) (cexec c d) = Some (aexec c (reading d))"
    and keep: "inv d \<Longrightarrow> ok c (reading d) \<Longrightarrow> cexec c d = Some (a, d') \<Longrightarrow> inv d'"
begin

lemma run:
  assumes "inv d" "admitted aexec ok cs (reading d)"
  shows "map_option (apsnd reading) (run_throwing cexec cs d) = Some (run_calls aexec cs (reading d))"
  using assms
proof (induction cs arbitrary: d)
  case (Cons c cs)
  obtain a d1 where d1: "cexec c d = Some (a, d1)" "aexec c (reading d) = (a, reading d1)"
    using step[OF Cons.prems(1), of c] Cons.prems(2) by (auto simp: apsnd_def map_prod_def)
  have "inv d1" using keep[OF Cons.prems(1) _ d1(1)] Cons.prems(2) by simp
  then have "map_option (apsnd reading) (run_throwing cexec cs d1) = Some (run_calls aexec cs (reading d1))"
    using Cons.IH Cons.prems(2) d1(2) by simp
  then show ?case using d1 by (auto split: prod.splits)
qed simp

end

section \<open>Calls and answers\<close>

datatype repo_call =
    Get_settings string
  | Set_enabled string bool string string
  | Set_cta string bool string string
  | Set_fields string "form_field list" string string
  | Set_release string bool bool string string
  | List_types string
  | Get_type string string
  | Insert_type ticket_type
  | Update_type ticket_type
  | Aggregates string string
  | Count_pending string string
  | Held_by_client string string string
  | Insert_order ticket_order "string \<rightharpoonup> int option" string
  | Insert_coupon coupon
  | Get_coupon string string
  | Get_coupon_by_code string string
  | Set_coupon_active string string bool string
  | List_coupons string
  | Coupon_uses string string
  | Get_order string string
  | Get_order_by_session string
  | Set_session string string
  | Get_order_by_intent string
  | Mark_paid string paid_settlement
  | Mark_preview string
  | Set_method string string
  | Mark_expired string
  | Mark_review string string "string option"
  | Mark_refunded string string
  | Approve string string string "string option"
  | Set_intent string string
  | List_missing_intent string bool nat
  | List_pending string string string nat
  | Expire_sessionless string string
  | List_orders string "string option" nat
  | List_orders_ascending string "string option" nat
  | Issue string "ticket list" "mail_row list"
  | List_unfulfilled string "string option" nat
  | Get_ticket string
  | Tickets_for "string list"
  | List_tickets "string option" nat
  | Orders_by_ids string "string list"
  | Count_queued "mail_kind list"
  | Count_sent string
  | Claim mail_claim
  | Apply_updates "mail_update list"
  | Outbox_due string
  | Order_outbox string
  | Get_jobs
  | Set_job string string

datatype repo_answer =
    A_unit
  | A_bool bool
  | A_nat nat
  | A_int int
  | A_settings "ticket_settings option"
  | A_type "ticket_type option"
  | A_types "ticket_type list"
  | A_aggregates "string \<rightharpoonup> type_agg"
  | A_insert insert_result
  | A_coupon "coupon option"
  | A_coupons "coupon list"
  | A_uses "string \<rightharpoonup> int"
  | A_order "ticket_order option"
  | A_orders "ticket_order list"
  | A_status "order_status option"
  | A_ticket "ticket option"
  | A_tickets "ticket list"
  | A_tickets_of "string \<Rightarrow> ticket list"
  | A_claimed "mail_row multiset"
  | A_due "mail_kind \<Rightarrow> nat"
  | A_mails_of "mail_kind \<Rightarrow> mail_row list"
  | A_jobs "string \<rightharpoonup> string"

primrec mem_exec :: "repo_call \<Rightarrow> store \<Rightarrow> repo_answer \<times> store" where
  "mem_exec (Get_settings site) s = (A_settings (getTicketSettings site s), s)"
| "mem_exec (Set_enabled site v by' t) s = (A_unit, setTicketEnabled site v by' t s)"
| "mem_exec (Set_cta site v by' t) s = (A_unit, setTicketCta site v by' t s)"
| "mem_exec (Set_fields site v by' t) s = (A_unit, setTicketFields site v by' t s)"
| "mem_exec (Set_release site v w by' t) s = (A_unit, setTicketRelease site v w by' t s)"
| "mem_exec (List_types site) s = (A_types (sortTypes (listTicketTypes site s)), s)"
| "mem_exec (Get_type site i) s = (A_type (getTicketType site i s), s)"
| "mem_exec (Insert_type t) s = (A_unit, insertTicketType t s)"
| "mem_exec (Update_type t) s = (A_unit, updateTicketType t s)"
| "mem_exec (Aggregates site since) s = (A_aggregates (\<lambda>k. agg_of k (ticketAggregates site since s)), s)"
| "mem_exec (Count_pending site since) s = (A_nat (countPendingOrdersSince site since s), s)"
| "mem_exec (Held_by_client site k since) s = (A_int (heldPendingByClient site k since s), s)"
| "mem_exec (Insert_order x caps since) s = apfst A_insert (insertOrderIfAvailable x caps since s)"
| "mem_exec (Insert_coupon c) s = apfst A_bool (insertCoupon c s)"
| "mem_exec (Get_coupon site i) s = (A_coupon (getCoupon site i s), s)"
| "mem_exec (Get_coupon_by_code site k) s = (A_coupon (getCouponByCode site k s), s)"
| "mem_exec (Set_coupon_active site i v t) s = apfst A_bool (setCouponActive site i v t s)"
| "mem_exec (List_coupons site) s = (A_coupons (listCoupons site s), s)"
| "mem_exec (Coupon_uses site since) s = (A_uses (couponUses site since s), s)"
| "mem_exec (Get_order site i) s = (A_order (getOrder site i s), s)"
| "mem_exec (Get_order_by_session n) s = (A_order (getOrderBySession n s), s)"
| "mem_exec (Set_session i n) s = (A_unit, setOrderSession i n s)"
| "mem_exec (Get_order_by_intent n) s = (A_order (getOrderByPaymentIntent n s), s)"
| "mem_exec (Mark_paid i p) s = apfst A_status (markOrderPaid i p s)"
| "mem_exec (Mark_preview i) s = (A_unit, markOrderPreview i s)"
| "mem_exec (Set_method i m) s = (A_unit, setOrderPaymentMethod i m s)"
| "mem_exec (Mark_expired i) s = apfst A_bool (markOrderExpired i s)"
| "mem_exec (Mark_review i r n) s = apfst A_bool (markOrderNeedsReview i r n s)"
| "mem_exec (Mark_refunded i t) s = apfst A_bool (markOrderRefunded i t s)"
| "mem_exec (Approve i by' t r) s = apfst A_bool (approveOrder i by' t r s)"
| "mem_exec (Set_intent i n) s = (A_unit, setOrderPaymentIntent i n s)"
| "mem_exec (List_missing_intent site live n) s = (A_orders (listMissingPaymentIntent site live n s), s)"
| "mem_exec (List_pending site a b n) s = (A_orders (listPendingWithSession site a b n s), s)"
| "mem_exec (Expire_sessionless site t) s = apfst A_nat (expireSessionlessPending site t s)"
| "mem_exec (List_orders site c n) s = (A_orders (listOrders site c n s), s)"
| "mem_exec (List_orders_ascending site c n) s = (A_orders (listOrdersAscending site c n s), s)"
| "mem_exec (Issue i ts ms) s = (A_unit, issueFulfilment i ts ms s)"
| "mem_exec (List_unfulfilled site since n) s = (A_orders (listUnfulfilled site since n s), s)"
| "mem_exec (Get_ticket i) s = (A_ticket (getTicket i s), s)"
| "mem_exec (Tickets_for ids) s = (A_tickets_of (\<lambda>i. filter (\<lambda>t. tk_order t = i) (ticketsForOrders ids s)), s)"
| "mem_exec (List_tickets c n) s = (A_tickets (listTickets c n s), s)"
| "mem_exec (Orders_by_ids site ids) s = (A_orders (ordersByIds site ids s), s)"
| "mem_exec (Count_queued ks) s = (A_nat (countOutboxQueued ks s), s)"
| "mem_exec (Count_sent since) s = (A_nat (countOutboxSentSince since s), s)"
| "mem_exec (Claim c) s = apfst (\<lambda>rows. A_claimed (mset rows)) (claimOutbox c s)"
| "mem_exec (Apply_updates us) s = (A_unit, applyOutboxUpdates us s)"
| "mem_exec (Outbox_due t) s = (A_due (outboxDue t s), s)"
| "mem_exec (Order_outbox i) s = (A_mails_of (\<lambda>k. filter (\<lambda>r. ml_kind r = k) (listOrderOutbox i s)), s)"
| "mem_exec Get_jobs s = (A_jobs (getJobStates s), s)"
| "mem_exec (Set_job k v) s = (A_unit, setJobState k v s)"

primrec d1_exec :: "repo_call \<Rightarrow> d1_db \<Rightarrow> (repo_answer \<times> d1_db) option" where
  "d1_exec (Get_settings site) d = Some (A_settings (d1_getTicketSettings site d), d)"
| "d1_exec (Set_enabled site v by' t) d = Some (A_unit, d1_setTicketEnabled site v by' t d)"
| "d1_exec (Set_cta site v by' t) d = Some (A_unit, d1_setTicketCta site v by' t d)"
| "d1_exec (Set_fields site v by' t) d = Some (A_unit, d1_setTicketFields site v by' t d)"
| "d1_exec (Set_release site v w by' t) d = Some (A_unit, d1_setTicketRelease site v w by' t d)"
| "d1_exec (List_types site) d = Some (A_types (sortTypes (d1_listTicketTypes site d)), d)"
| "d1_exec (Get_type site i) d = Some (A_type (d1_getTicketType site i d), d)"
| "d1_exec (Insert_type t) d = map_option (Pair A_unit) (d1_insertTicketType t d)"
| "d1_exec (Update_type t) d = Some (A_unit, d1_updateTicketType t d)"
| "d1_exec (Aggregates site since) d = Some (A_aggregates (\<lambda>k. agg_of k (d1_ticketAggregates site since d)), d)"
| "d1_exec (Count_pending site since) d = Some (A_nat (d1_countPendingOrdersSince site since d), d)"
| "d1_exec (Held_by_client site k since) d = Some (A_int (d1_heldPendingByClient site k since d), d)"
| "d1_exec (Insert_order x caps since) d = map_option (apfst A_insert) (d1_insertOrderIfAvailable x caps since d)"
| "d1_exec (Insert_coupon c) d = map_option (apfst A_bool) (d1_insertCoupon c d)"
| "d1_exec (Get_coupon site i) d = Some (A_coupon (d1_getCoupon site i d), d)"
| "d1_exec (Get_coupon_by_code site k) d = Some (A_coupon (d1_getCouponByCode site k d), d)"
| "d1_exec (Set_coupon_active site i v t) d = Some (apfst A_bool (d1_setCouponActive site i v t d))"
| "d1_exec (List_coupons site) d = Some (A_coupons (d1_listCoupons site d), d)"
| "d1_exec (Coupon_uses site since) d = Some (A_uses (d1_couponUses site since d), d)"
| "d1_exec (Get_order site i) d = Some (A_order (d1_getOrder site i d), d)"
| "d1_exec (Get_order_by_session n) d = Some (A_order (d1_getOrderBySession n d), d)"
| "d1_exec (Set_session i n) d = map_option (Pair A_unit) (d1_setOrderSession i n d)"
| "d1_exec (Get_order_by_intent n) d = Some (A_order (d1_getOrderByPaymentIntent n d), d)"
| "d1_exec (Mark_paid i p) d = map_option (apfst A_status) (d1_markOrderPaid i p d)"
| "d1_exec (Mark_preview i) d = Some (A_unit, d1_markOrderPreview i d)"
| "d1_exec (Set_method i m) d = Some (A_unit, d1_setOrderPaymentMethod i m d)"
| "d1_exec (Mark_expired i) d = Some (apfst A_bool (d1_markOrderExpired i d))"
| "d1_exec (Mark_review i r n) d = Some (apfst A_bool (d1_markOrderNeedsReview i r n d))"
| "d1_exec (Mark_refunded i t) d = Some (apfst A_bool (d1_markOrderRefunded i t d))"
| "d1_exec (Approve i by' t r) d = Some (apfst A_bool (d1_approveOrder i by' t r d))"
| "d1_exec (Set_intent i n) d = Some (A_unit, d1_setOrderPaymentIntent i n d)"
| "d1_exec (List_missing_intent site live n) d = Some (A_orders (d1_listMissingPaymentIntent site live n d), d)"
| "d1_exec (List_pending site a b n) d = Some (A_orders (d1_listPendingWithSession site a b n d), d)"
| "d1_exec (Expire_sessionless site t) d = Some (apfst A_nat (d1_expireSessionlessPending site t d))"
| "d1_exec (List_orders site c n) d = Some (A_orders (d1_listOrders site c n d), d)"
| "d1_exec (List_orders_ascending site c n) d = Some (A_orders (d1_listOrdersAscending site c n d), d)"
| "d1_exec (Issue i ts ms) d = Some (A_unit, d1_issueFulfilment i ts ms d)"
| "d1_exec (List_unfulfilled site since n) d = Some (A_orders (d1_listUnfulfilled site since n d), d)"
| "d1_exec (Get_ticket i) d = Some (A_ticket (d1_getTicket i d), d)"
| "d1_exec (Tickets_for ids) d = Some (A_tickets_of (\<lambda>i. filter (\<lambda>t. tk_order t = i) (d1_ticketsForOrders ids d)), d)"
| "d1_exec (List_tickets c n) d = Some (A_tickets (d1_listTickets c n d), d)"
| "d1_exec (Orders_by_ids site ids) d = Some (A_orders (d1_ordersByIds site ids d), d)"
| "d1_exec (Count_queued ks) d = Some (A_nat (d1_countOutboxQueued ks d), d)"
| "d1_exec (Count_sent since) d = Some (A_nat (d1_countOutboxSentSince since d), d)"
| "d1_exec (Claim c) d = Some (apfst (\<lambda>rows. A_claimed (mset rows)) (d1_claimOutbox c d))"
| "d1_exec (Apply_updates us) d = Some (A_unit, d1_applyOutboxUpdates us d)"
| "d1_exec (Outbox_due t) d = Some (A_due (d1_outboxDue t d), d)"
| "d1_exec (Order_outbox i) d = Some (A_mails_of (\<lambda>k. filter (\<lambda>r. ml_kind r = k) (d1_listOrderOutbox i d)), d)"
| "d1_exec Get_jobs d = Some (A_jobs (d1_getJobStates d), d)"
| "d1_exec (Set_job k v) d = Some (A_unit, d1_setJobState k v d)"

section \<open>Admissible calls\<close>

definition settled_order_ok :: "ticket_order \<Rightarrow> store \<Rightarrow> bool" where
  "settled_order_ok x s = (fresh_order x s \<and> order_ok (s_coupons s) (x\<lparr>o_couponId := None\<rparr>) \<and> 0 < o_quantity x)"

definition admissible :: "repo_call \<Rightarrow> store \<Rightarrow> bool" where
  \<comment> \<open>fresh keys, printed timestamps, session ids of the payment provider, cursors of \<open>orderCursor\<close>; an order is
    refunded only when it was settled or has no valid tickets\<close>
  "admissible c s = (case c of
      Insert_type t \<Rightarrow> tt_id t \<notin> tt_id ` set (s_types s)
    | Update_type t \<Rightarrow> \<forall>u\<in>set (s_types s). tt_site u = tt_site t \<and> tt_id u = tt_id t \<longrightarrow> tt_createdAt u = tt_createdAt t
    | Insert_order x caps since \<Rightarrow> settled_order_ok x s
    | Insert_coupon cp \<Rightarrow> cp_id cp \<notin> cp_id ` set (s_coupons s)
    | Set_session i n \<Rightarrow> stripe_session n \<and> distinct (sessions (s_orders (setOrderSession i n s)))
    | Mark_paid i p \<Rightarrow> iso_text (ps_paidAt p) \<and> (\<forall>n. ps_session p = Some n \<longrightarrow> stripe_session n) \<and> ps_intent p \<noteq> Some []
        \<and> distinct (sessions (s_orders (snd (markOrderPaid i p s))))
    | Mark_review i r n \<Rightarrow> n \<noteq> Some []
    | Mark_refunded i t \<Rightarrow> (\<exists>x\<in>set (s_orders s). o_id x = i \<and> o_status x \<in> {O_paid, O_needs_review})
        \<or> (\<forall>t\<in>set (s_tickets s). tk_order t = i \<longrightarrow> tk_status t \<noteq> T_valid)
    | Approve i who t r \<Rightarrow> iso_text t
    | Set_intent i n \<Rightarrow> n \<noteq> []
    | List_orders site cur n \<Rightarrow> cursor_ok cur
    | List_orders_ascending site cur n \<Rightarrow> cursor_ok cur
    | Issue i ts ms \<Rightarrow> (\<forall>t\<in>set ts. tk_voidedAt t = None \<and> tk_id t \<noteq> [])
        \<and> (\<forall>r\<in>set ms. ml_error r = None \<and> ml_sentAt r = None \<and> iso_text (ml_next r))
    | Claim cl \<Rightarrow> iso_text (cl_leaseUntil cl)
    | Apply_updates us \<Rightarrow> \<forall>u\<in>set us. iso_text (mu_next u)
    | _ \<Rightarrow> True)"

lemma sortTypes_idem: "sortTypes (sortTypes ts) = sortTypes ts"
  unfolding sortTypes_def
  by (rule properties_for_sort_key) (auto simp: sort_key_stable eq_commute)

lemma claim_answer:
  assumes "d1_ok db"
  shows "apsnd repo_of (apfst (\<lambda>rows. A_claimed (mset rows)) (d1_claimOutbox c db)) = apfst (\<lambda>rows. A_claimed (mset rows)) (claimOutbox c (repo_of db))"
  using claimOutbox_d1[OF assms, of c] by (auto split: prod.splits)

lemma insert_outcome:
  "snd (insertOrderIfAvailable x caps since s) = (if fst (insertOrderIfAvailable x caps since s) = Insert_ok then s\<lparr>s_orders := s_orders s @ [x]\<rparr> else s)"
  by (auto simp: insertOrderIfAvailable_def Let_def split: option.splits)

lemma insert_fits:
  "fst (insertOrderIfAvailable x caps since s) = Insert_ok \<Longrightarrow> o_couponId x = Some k \<Longrightarrow> coupon_fits x k since s"
  by (auto simp: insertOrderIfAvailable_def Let_def split: if_splits)

lemma insert_answer:
  assumes "d1_ok db" "fresh_order x (repo_of db)"
  shows "map_option (apsnd repo_of) (d1_insertOrderIfAvailable x caps since db) = Some (insertOrderIfAvailable x caps since (repo_of db))"
  by (auto simp: insertOrderIfAvailable_rows[OF assms] Let_def repo_of_with_order[OF assms] prod_eq_iff insert_outcome simp del: repo_of_sel)

lemma map_pair_answer: "map_option (apsnd f) (map_option (Pair a) x) = map_option (Pair a) (map_option f x)"
  by (cases x) simp_all

lemma map_fst_answer: "map_option (apsnd f) (map_option (apfst g) x) = map_option (apfst g) (map_option (apsnd f) x)"
  by (cases x) (simp_all add: apsnd_apfst_commute)

lemmas d1_reads = getOrder_d1 getOrderBySession_d1 getOrderByPaymentIntent_d1 getTicketType_d1 getCoupon_d1 getCouponByCode_d1
  listCoupons_d1 countPendingOrdersSince_d1 heldPendingByClient_d1 ordersByIds_d1 ticketAggregates_d1 getTicket_d1 ticketsForOrders_d1
  outbox_counts_d1 listOrderOutbox_d1 jobs_d1 settings_d1

lemmas d1_reads_ok = listOrders_d1 listOrdersAscending_d1 listMissingPaymentIntent_d1 listPendingWithSession_d1 listUnfulfilled_d1
  listTickets_d1 couponUses_d1

lemmas d1_writes = setTicketEnabled_d1 setTicketCta_d1 setTicketFields_d1

lemmas d1_writes_ok = setTicketRelease_d1 markOrderPreview_d1 setOrderPaymentMethod_d1 setOrderPaymentIntent_d1 setJobState_d1
  applyOutboxUpdates_d1 updateTicketType_d1 markOrderExpired_d1 markOrderNeedsReview_d1 approveOrder_d1
  expireSessionlessPending_d1 setCouponActive_d1

lemma d1_step:
  assumes "d1_ok db" "admissible c (repo_of db)"
  shows "map_option (apsnd repo_of) (d1_exec c db) = Some (mem_exec c (repo_of db))"
proof (cases c)
  case (Insert_order x caps since)
  then have fresh: "fresh_order x (repo_of db)" using assms(2) by (simp add: admissible_def settled_order_ok_def)
  show ?thesis unfolding Insert_order d1_exec.simps mem_exec.simps map_fst_answer insert_answer[OF assms(1) fresh] by simp
next
  case (Insert_type t)
  then show ?thesis using assms(2) insertTicketType_d1[of t db] by (simp add: map_pair_answer admissible_def del: repo_of_sel)
next
  case (Insert_coupon cp)
  then have fresh: "cp_id cp \<notin> cp_id ` set (s_coupons (repo_of db))" using assms(2) by (simp add: admissible_def)
  show ?thesis unfolding Insert_coupon d1_exec.simps mem_exec.simps map_fst_answer insertCoupon_d1[OF fresh] by simp
next
  case (Set_session i n)
  then show ?thesis using assms(2) setOrderSession_d1[OF assms(1), of i n]
    by (simp add: map_pair_answer admissible_def Let_def del: repo_of_sel)
next
  case (Mark_paid i p)
  then show ?thesis using assms(2) markOrderPaid_d1[OF assms(1), of i p]
    by (auto simp: map_fst_answer admissible_def Let_def simp del: repo_of_sel split: prod.splits)
next
  case (Mark_refunded i t)
  then show ?thesis using assms(2) markOrderRefunded_d1[OF assms(1), of i t]
    by (simp add: apsnd_apfst_commute admissible_def del: repo_of_sel apsnd_apfst apfst_apsnd)
next
  case (Issue i ts ms)
  then show ?thesis using assms(2) issueFulfilment_d1[of ts ms i db] by (simp add: admissible_def del: repo_of_sel)
next
  case (Claim cl)
  then show ?thesis using claim_answer[OF assms(1), of cl] by simp
qed (use assms in \<open>simp_all add: admissible_def d1_reads d1_reads_ok d1_writes d1_writes_ok listTicketTypes_d1 sortTypes_idem
      apsnd_apfst_commute del: repo_of_sel apsnd_apfst apfst_apsnd\<close>)

section \<open>The tables stay well formed\<close>

lemma tables_ok_orders:
  assumes "tables_ok s" "map o_id xs = map o_id (s_orders s)" "distinct (sessions xs)" "\<forall>x\<in>set xs. order_ok (s_coupons s) x"
  shows "tables_ok (s\<lparr>s_orders := xs\<rparr>)"
  using assms by (simp add: tables_ok_def)

lemma tables_ok_map:
  assumes "tables_ok s" "\<And>x. x \<in> set (s_orders s) \<Longrightarrow> P x \<Longrightarrow> o_id (g x) = o_id x \<and> order_ok (s_coupons s) (g x)"
    and "distinct (sessions (map (\<lambda>x. if P x then g x else x) (s_orders s)))"
  shows "tables_ok (s\<lparr>s_orders := map (\<lambda>x. if P x then g x else x) (s_orders s)\<rparr>)"
  by (rule tables_ok_orders) (use assms in \<open>auto simp: tables_ok_def\<close>)

lemma sessions_map: "(\<And>x. o_session (g x) = o_session x) \<Longrightarrow> sessions (map (\<lambda>x. if P x then g x else x) xs) = sessions xs"
  by (induction xs) (auto simp: sessions_def)

lemma tables_ok_map_same:
  assumes "tables_ok s" "\<And>x. o_session (g x) = o_session x" "\<And>x. x \<in> set (s_orders s) \<Longrightarrow> P x \<Longrightarrow> o_id (g x) = o_id x \<and> order_ok (s_coupons s) (g x)"
  shows "tables_ok (s\<lparr>s_orders := map (\<lambda>x. if P x then g x else x) (s_orders s)\<rparr>)"
  by (rule tables_ok_map[OF assms(1,3)]) (use assms in \<open>auto simp: sessions_map tables_ok_def\<close>)

lemma tables_ids: "tables_ok s \<Longrightarrow> distinct (map o_id (s_orders s))"
  by (simp add: tables_ok_def)

lemma tables_row: "tables_ok s \<Longrightarrow> x \<in> set (s_orders s) \<Longrightarrow> order_ok (s_coupons s) x"
  by (simp add: tables_ok_def)

lemma first_order_row: "tables_ok s \<Longrightarrow> first_order i s = Some x \<Longrightarrow> order_ok (s_coupons s) x"
  unfolding first_order_def using find_Some_in tables_row by fast

lemma keep_setOrderSession:
  assumes "tables_ok s" "stripe_session n" "distinct (sessions (s_orders (setOrderSession i n s)))"
  shows "tables_ok (setOrderSession i n s)"
proof -
  have e: "setOrderSession i n s = s\<lparr>s_orders := map (\<lambda>x. if o_id x = i then x\<lparr>o_session := Some n\<rparr> else x) (s_orders s)\<rparr>"
    by (simp add: setOrderSession_def on_order_map tables_ids assms(1))
  show ?thesis unfolding e
    by (rule tables_ok_map) (use assms e in \<open>auto simp: order_ok_def dest: tables_row\<close>)
qed

lemma keep_setOrderPaymentIntent:
  assumes "tables_ok s" "n \<noteq> []"
  shows "tables_ok (setOrderPaymentIntent i n s)"
  unfolding setOrderPaymentIntent_def on_order_map[OF tables_ids[OF assms(1)]]
  by (rule tables_ok_map_same) (use assms tables_row[OF assms(1)] in \<open>auto simp: order_ok_def\<close>)

lemma keep_markOrderPreview: "tables_ok s \<Longrightarrow> tables_ok (markOrderPreview i s)"
  unfolding markOrderPreview_def by (subst on_order_map, rule tables_ids, assumption, rule tables_ok_map_same) (auto simp: order_ok_def dest: tables_row)

lemma keep_setOrderPaymentMethod: "tables_ok s \<Longrightarrow> tables_ok (setOrderPaymentMethod i m s)"
  unfolding setOrderPaymentMethod_def by (subst on_order_map, rule tables_ids, assumption, rule tables_ok_map_same) (auto simp: order_ok_def dest: tables_row)

lemma keep_markOrderExpired:
  assumes "tables_ok s"
  shows "tables_ok (snd (markOrderExpired i s))"
  unfolding markOrderExpired_def transition_map[OF tables_ids[OF assms]] snd_conv
  by (rule tables_ok_map_same) (use assms tables_row[OF assms] in \<open>auto simp: order_ok_def\<close>)

lemma keep_expireSessionless:
  assumes "tables_ok s"
  shows "tables_ok (snd (expireSessionlessPending site t s))"
  unfolding expireSessionlessPending_def snd_conv
  by (rule tables_ok_map_same) (use assms tables_row[OF assms] in \<open>auto simp: order_ok_def\<close>)

lemma keep_markOrderRefunded:
  assumes "tables_ok s"
  shows "tables_ok (snd (markOrderRefunded i t s))"
proof -
  have refunded: "tables_ok (snd (transition i [O_paid, O_needs_review] (\<lambda>x. x\<lparr>o_status := O_refunded, o_refundedAt := Some t\<rparr>) s))"
    unfolding transition_map[OF tables_ids[OF assms]] snd_conv
    by (rule tables_ok_map_same) (use assms tables_row[OF assms] in \<open>auto simp: order_ok_def\<close>)
  have "tables_ok (s'\<lparr>s_tickets := map (\<lambda>u. if P u then u\<lparr>tk_status := T_void, tk_voidedAt := Some t\<rparr> else u) (s_tickets s')\<rparr>)"
    if "tables_ok s'" for s' P
    using that by (auto simp: tables_ok_def comp_def if_distrib[of tk_id] cong: if_cong)
  then show ?thesis using refunded by (auto simp: markOrderRefunded_def split: prod.splits)
qed

lemma keep_markOrderNeedsReview:
  assumes "tables_ok s" "n \<noteq> Some []"
  shows "tables_ok (snd (markOrderNeedsReview i r n s))"
proof -
  have "coalesce (Option.bind (first_order i s) o_intent) n \<noteq> Some []"
    using assms(2) first_order_row[OF assms(1), of i] by (auto simp: coalesce_def order_ok_def split: option.splits bind_split)
  then show ?thesis
    unfolding markOrderNeedsReview_def transition_map[OF tables_ids[OF assms(1)]] snd_conv
    by (intro tables_ok_map_same) (use assms tables_row[OF assms(1)] in \<open>auto simp: order_ok_def\<close>)
qed

lemma keep_markOrderPaid:
  assumes "tables_ok s" "iso_text (ps_paidAt p)" "\<forall>n. ps_session p = Some n \<longrightarrow> stripe_session n" "ps_intent p \<noteq> Some []"
    and "distinct (sessions (s_orders (snd (markOrderPaid i p s))))"
  shows "tables_ok (snd (markOrderPaid i p s))"
proof -
  have intent: "coalesce (Option.bind (first_order i s) o_intent) (ps_intent p) \<noteq> Some []"
    using assms(4) first_order_row[OF assms(1), of i] by (auto simp: coalesce_def order_ok_def split: option.splits bind_split)
  have session: "stripe_session n" if "coalesce (Option.bind (first_order i s) o_session) (ps_session p) = Some n" for n
    using that assms(3) first_order_row[OF assms(1), of i] by (cases "first_order i s") (auto simp: coalesce_def order_ok_def split: option.splits)
  have row: "order_ok (s_coupons s) x \<Longrightarrow> order_ok (s_coupons s) (x\<lparr>o_status := status, o_paidAt := Some (ps_paidAt p),
                  o_session := coalesce (Option.bind (first_order i s) o_session) (ps_session p),
                  o_intent := coalesce (Option.bind (first_order i s) o_intent) (ps_intent p), o_reviewReason := why\<rparr>)" for x status why
    using assms(2) intent session by (auto simp: order_ok_def)
  have "snd (markOrderPaid i p s) = s\<lparr>s_orders := s_orders (snd (markOrderPaid i p s))\<rparr>"
    by (simp add: markOrderPaid_def Let_def transition_map[OF tables_ids[OF assms(1)]])
  moreover have "tables_ok (s\<lparr>s_orders := s_orders (snd (markOrderPaid i p s))\<rparr>)"
  proof (rule tables_ok_orders[OF assms(1) _ assms(5)])
    show "map o_id (s_orders (snd (markOrderPaid i p s))) = map o_id (s_orders s)"
      by (simp add: markOrderPaid_def Let_def transition_map[OF tables_ids[OF assms(1)]])
    show "\<forall>x\<in>set (s_orders (snd (markOrderPaid i p s))). order_ok (s_coupons s) x"
      using row tables_row[OF assms(1)] by (auto simp: markOrderPaid_def Let_def transition_map[OF tables_ids[OF assms(1)]])
  qed
  ultimately show ?thesis by simp
qed

lemma keep_approveOrder:
  assumes "tables_ok s" "iso_text t"
  shows "tables_ok (snd (approveOrder i who t r s))"
proof (cases "first_order i s")
  case None
  then show ?thesis using assms(1) by (simp add: approveOrder_def)
next
  case (Some x0)
  have "iso_text p" if "coalesce (o_paidAt x0) (Some t) = Some p" for p
    using that assms(2) first_order_row[OF assms(1) Some] by (auto simp: coalesce_def order_ok_def split: option.splits)
  moreover have "coalesce (o_paidAt x0) (Some t) \<noteq> None" by (auto simp: coalesce_def split: option.splits)
  ultimately have "tables_ok (snd (transition i [O_needs_review] (\<lambda>x. x\<lparr>o_status := O_paid, o_paidAt := coalesce (o_paidAt x0) (Some t),
                       o_resolvedBy := Some who, o_resolvedAt := Some t\<rparr>) s))"
    unfolding transition_map[OF tables_ids[OF assms(1)]] snd_conv
    by (intro tables_ok_map_same) (use assms tables_row[OF assms(1)] in \<open>auto simp: order_ok_def\<close>)
  then show ?thesis using assms(1) Some by (simp add: approveOrder_def)
qed

lemma order_ok_mono: "set cs \<subseteq> set cs' \<Longrightarrow> order_ok cs x \<Longrightarrow> order_ok cs' x"
  by (fastforce simp: order_ok_def)

lemma keep_insertCoupon:
  assumes "tables_ok s" "cp_id c \<notin> cp_id ` set (s_coupons s)"
  shows "tables_ok (snd (insertCoupon c s))"
  using assms order_ok_mono[of "s_coupons s" "s_coupons s @ [c]"] by (auto simp: insertCoupon_def tables_ok_def)

lemma keep_setCouponActive:
  assumes "tables_ok s"
  shows "tables_ok (snd (setCouponActive site i v t s))"
proof -
  let ?cs = "upd_first (\<lambda>c. cp_site c = site \<and> cp_id c = i) (\<lambda>c. c\<lparr>cp_active := v, cp_updatedAt := t\<rparr>) (s_coupons s)"
  have keys: "map (\<lambda>c. (cp_id c, cp_site c)) ?cs = map (\<lambda>c. (cp_id c, cp_site c)) (s_coupons s)" "map cp_id ?cs = map cp_id (s_coupons s)"
    by (rule map_upd_first, simp)+
  have known: "(\<exists>c\<in>set cs. cp_id c = k \<and> cp_site c = w) \<longleftrightarrow> (k, w) \<in> set (map (\<lambda>c. (cp_id c, cp_site c)) cs)" for cs :: "coupon list" and k w
    by auto
  have "order_ok ?cs x = order_ok (s_coupons s) x" for x
    unfolding order_ok_def known keys ..
  then show ?thesis using assms keys(2) by (auto simp: setCouponActive_def tables_ok_def split: option.splits)
qed

lemma keep_insertOrder:
  assumes "tables_ok s" "settled_order_ok x s"
  shows "tables_ok (snd (insertOrderIfAvailable x caps since s))"
proof (cases "fst (insertOrderIfAvailable x caps since s) = Insert_ok")
  case False
  then show ?thesis using assms(1) by (simp add: insert_outcome)
next
  case True
  then have placed: "snd (insertOrderIfAvailable x caps since s) = s\<lparr>s_orders := s_orders s @ [x]\<rparr>"
    by (simp add: insert_outcome)
  note fits = insert_fits[OF True]
  have "\<exists>c\<in>set (s_coupons s). cp_id c = k \<and> cp_site c = o_site x" if "o_couponId x = Some k" for k
  proof -
    note k = that
    obtain c where "find (\<lambda>c. cp_site c = o_site x \<and> cp_id c = k) (s_coupons s) = Some c"
      using fits[OF k] by (cases "find (\<lambda>c. cp_site c = o_site x \<and> cp_id c = k) (s_coupons s)") (simp_all add: coupon_fits_def)
    from find_Some_in[OF this] show ?thesis by blast
  qed
  then have row: "order_ok (s_coupons s) x" using assms(2) by (auto simp: settled_order_ok_def order_ok_def)
  have "distinct (sessions (s_orders s @ [x]))"
    using assms by (auto simp: settled_order_ok_def fresh_order_def tables_ok_def sessions_def)
  then show ?thesis unfolding placed
    using assms row by (auto simp: tables_ok_def settled_order_ok_def fresh_order_def)
qed

lemma put_new_cases:
  assumes "r \<in> set (put_new clash rows tab)"
  shows "r \<in> set tab \<or> r \<in> set rows"
  using assms unfolding put_new_def by (induction rows arbitrary: tab) (fastforce split: if_splits)+

lemma put_new_keys_distinct:
  assumes "distinct (map k tab)" "\<And>x r. k x = k r \<Longrightarrow> clash x r"
  shows "distinct (map k (put_new clash rows tab))"
  using assms(1) unfolding put_new_def
proof (induction rows arbitrary: tab)
  case (Cons r rows)
  have "distinct (map k (if \<exists>x\<in>set tab. clash x r then tab else tab @ [r]))"
    using Cons.prems assms(2)[of _ r] by auto
  then show ?case using Cons.IH by simp
qed simp

lemma keep_issueFulfilment:
  assumes "tables_ok s" "\<forall>t\<in>set ts. tk_id t \<noteq> []" "\<forall>r\<in>set ms. iso_text (ml_next r)"
  shows "tables_ok (issueFulfilment i ts ms s)"
proof -
  let ?ts = "put_new (\<lambda>x t. tk_id x = tk_id t) ts (s_tickets s)"
  let ?ms = "put_new (\<lambda>x r. ml_id x = ml_id r \<or> (ml_order x = ml_order r \<and> ml_kind x = ml_kind r)) ms (s_mails s)"
  have "distinct (map tk_id ?ts)" "distinct (map ml_id ?ms)"
    using assms(1) by (auto intro!: put_new_keys_distinct simp: tables_ok_def)
  moreover have "\<forall>t\<in>set ?ts. tk_id t \<noteq> []" "\<forall>r\<in>set ?ms. iso_text (ml_next r)"
    using assms put_new_cases by (fastforce simp: tables_ok_def)+
  ultimately show ?thesis using assms(1) by (auto simp: issueFulfilment_def tables_ok_def)
qed

lemma keep_mails:
  assumes "tables_ok s" "map ml_id ms = map ml_id (s_mails s)" "\<forall>r\<in>set ms. iso_text (ml_next r)"
  shows "tables_ok (s\<lparr>s_mails := ms\<rparr>)"
  using assms by (simp add: tables_ok_def)

lemma keep_claimOutbox:
  assumes "tables_ok s" "iso_text (cl_leaseUntil c)"
  shows "tables_ok (snd (claimOutbox c s))"
  unfolding claimOutbox_def Let_def snd_conv
  by (rule keep_mails) (use assms in \<open>auto simp: tables_ok_def comp_def if_distrib[of ml_id] cong: if_cong\<close>)

lemma keep_applyOutboxUpdates:
  assumes "tables_ok s" "\<forall>u\<in>set us. iso_text (mu_next u)"
  shows "tables_ok (applyOutboxUpdates us s)"
proof -
  have "map ml_id (fold (\<lambda>u. upd_first (\<lambda>r. ml_id r = mu_id u) (apply_update u)) us rows) = map ml_id rows
      \<and> (\<forall>r\<in>set (fold (\<lambda>u. upd_first (\<lambda>r. ml_id r = mu_id u) (apply_update u)) us rows). iso_text (ml_next r))"
    if "\<forall>r\<in>set rows. iso_text (ml_next r)" for rows
    using assms(2) that
  proof (induction us arbitrary: rows)
    case (Cons u us)
    let ?rows = "upd_first (\<lambda>r. ml_id r = mu_id u) (apply_update u) rows"
    have "map ml_id ?rows = map ml_id rows" by (rule map_upd_first) (simp add: apply_update_def)
    moreover have "iso_text (ml_next r)" if "r \<in> set (upd_first P (apply_update u) tab)" "\<forall>r\<in>set tab. iso_text (ml_next r)" for r P tab
      using that Cons.prems(1) by (induction tab) (auto simp: apply_update_def split: if_splits)
    ultimately show ?case using Cons.IH[of ?rows] Cons.prems by simp
  qed simp
  then show ?thesis unfolding applyOutboxUpdates_def
    by (intro keep_mails) (use assms(1) in \<open>auto simp: tables_ok_def\<close>)
qed

lemma keep_insertTicketType: "tables_ok s \<Longrightarrow> tt_id t \<notin> tt_id ` set (s_types s) \<Longrightarrow> tables_ok (insertTicketType t s)"
  by (auto simp: insertTicketType_def tables_ok_def)

lemma keep_updateTicketType:
  assumes "tables_ok s"
  shows "tables_ok (updateTicketType t s)"
proof -
  have "map tt_id (upd_first (\<lambda>u. tt_site u = tt_site t \<and> tt_id u = tt_id t) (\<lambda>_. t) (s_types s)) = map tt_id (s_types s)"
    by (rule map_upd_first) simp
  then show ?thesis using assms by (simp add: updateTicketType_def tables_ok_def)
qed

lemma keep_settings: "tables_ok s \<Longrightarrow> tables_ok (upsertSettings site patch who t s)"
  by (simp add: upsertSettings_def Let_def tables_ok_def)

lemma keep_settings_all:
  assumes "tables_ok s"
  shows "tables_ok (setTicketEnabled site v who t s)" "tables_ok (setTicketCta site v who t s)"
    "tables_ok (setTicketFields site fs who t s)" "tables_ok (setTicketRelease site v w who t s)" "tables_ok (setJobState k x s)"
  using assms by (simp_all add: setTicketEnabled_def setTicketCta_def setTicketFields_def setTicketRelease_def keep_settings split: option.splits)
    (simp add: setJobState_def tables_ok_def)

lemmas keeps = keep_setOrderSession keep_setOrderPaymentIntent keep_markOrderPreview keep_setOrderPaymentMethod keep_markOrderExpired
  keep_expireSessionless keep_markOrderRefunded keep_markOrderNeedsReview keep_markOrderPaid keep_approveOrder keep_insertCoupon
  keep_setCouponActive keep_insertOrder keep_issueFulfilment keep_claimOutbox keep_applyOutboxUpdates keep_insertTicketType
  keep_updateTicketType keep_settings_all

lemma tables_stay_ok: "tables_ok s \<Longrightarrow> admissible c s \<Longrightarrow> tables_ok (snd (mem_exec c s))"
  by (cases c) (simp_all add: admissible_def keeps)

definition d1_raw :: "d1_db \<Rightarrow> bool" where
  "d1_raw db =
     (distinct (map ds_site (d_settings db)) \<and> (\<forall>r\<in>set (d_settings db). ds_enabled r \<in> {0, 1} \<and> ds_cta_enabled r \<in> {0, 1})
      \<and> di_order ` set (d_items db) \<subseteq> do_id ` set (d_orders db) \<and> distinct (map fst (d_jobs db))
      \<and> (\<forall>r\<in>set (d_orders db). do_preview r \<in> {None, Some 0, Some 1}))"

lemma d1_ok_split: "d1_ok db \<longleftrightarrow> d1_raw db \<and> tables_ok (repo_of db)"
  unfolding d1_ok_def d1_raw_def by blast

lemma raw_other [simp]:
  "d1_raw (db\<lparr>d_types := ts\<rparr>) = d1_raw db" "d1_raw (db\<lparr>d_coupons := cs\<rparr>) = d1_raw db"
  "d1_raw (db\<lparr>d_tickets := ks\<rparr>) = d1_raw db" "d1_raw (db\<lparr>d_outbox := ms\<rparr>) = d1_raw db"
  by (simp_all add: d1_raw_def)

lemma raw_orders:
  assumes "d1_raw db" "\<And>r. do_id (f r) = do_id r" "\<And>r. do_preview (f r) \<in> {do_preview r, Some 1}"
  shows "d1_raw (snd (update_orders P f db))"
proof -
  have "do_id ` (\<lambda>r. if P r then f r else r) ` set (d_orders db) = do_id ` set (d_orders db)"
    unfolding image_image by (rule image_cong) (simp_all add: assms(2))
  moreover have "\<forall>r\<in>(\<lambda>r. if P r then f r else r) ` set (d_orders db). do_preview r \<in> {None, Some 0, Some 1}"
  proof
    fix q assume "q \<in> (\<lambda>r. if P r then f r else r) ` set (d_orders db)"
    then obtain r where "r \<in> set (d_orders db)" "q = f r \<or> q = r" by auto
    moreover from this have "do_preview r \<in> {None, Some 0, Some 1}" using assms(1) by (simp add: d1_raw_def)
    ultimately show "do_preview q \<in> {None, Some 0, Some 1}" using assms(3)[of r] by auto
  qed
  ultimately show ?thesis using assms(1) by (simp add: d1_raw_def update_orders_def update_where_def)
qed

lemma raw_settings:
  assumes "d1_raw db" "\<And>r. ds_site (column r) = ds_site r"
    and "\<And>r. ds_enabled r \<in> {0, 1} \<and> ds_cta_enabled r \<in> {0, 1} \<Longrightarrow> ds_enabled (column r) \<in> {0, 1} \<and> ds_cta_enabled (column r) \<in> {0, 1}"
  shows "d1_raw (upsertSetting site differs column who stamp db)"
proof -
  let ?stamp = "\<lambda>r. (column r)\<lparr>ds_updated_by := Some who, ds_updated_at := stamp\<rparr>"
  have flags: "ds_enabled (?stamp r) \<in> {0, 1} \<and> ds_cta_enabled (?stamp r) \<in> {0, 1}" if "ds_enabled r \<in> {0, 1} \<and> ds_cta_enabled r \<in> {0, 1}" for r
    using assms(3)[OF that] by simp
  have sites: "map ds_site (map (\<lambda>r. if P r then ?stamp r else r) rows) = map ds_site rows" for P rows
    by (simp add: assms(2))
  show ?thesis
  proof (cases "\<exists>r\<in>set (d_settings db). ds_site r = site")
    case True
    let ?rows = "map (\<lambda>r. if ds_site r = site \<and> differs r then ?stamp r else r) (d_settings db)"
    have "ds_enabled (if P then ?stamp r else r) \<in> {0, 1} \<and> ds_cta_enabled (if P then ?stamp r else r) \<in> {0, 1}"
      if "r \<in> set (d_settings db)" for r P
    proof -
      have old: "ds_enabled r \<in> {0, 1} \<and> ds_cta_enabled r \<in> {0, 1}" using assms(1) that unfolding d1_raw_def by blast
      show ?thesis using flags[OF old] old by (cases P) simp_all
    qed
    then have "\<forall>r\<in>set ?rows. ds_enabled r \<in> {0, 1} \<and> ds_cta_enabled r \<in> {0, 1}"
      unfolding set_map by blast
    moreover have "distinct (map ds_site ?rows)" unfolding sites using assms(1) by (simp add: d1_raw_def)
    ultimately have "d1_raw (db\<lparr>d_settings := ?rows\<rparr>)" using assms(1) by (simp add: d1_raw_def del: map_map)
    then show ?thesis using True by (simp add: upsertSetting_def update_where_def)
  next
    case False
    then show ?thesis
      using assms(1) assms(2) flags[of "\<lparr>ds_site = site, ds_enabled = 0, ds_cta_enabled = 0, ds_fields = JArr [], ds_updated_by = None, ds_updated_at = []\<rparr>"]
      by (auto simp: upsertSetting_def Let_def d1_raw_def)
  qed
qed

lemma raw_jobs:
  assumes "d1_raw db"
  shows "d1_raw (d1_setJobState k v db)"
proof -
  have "map fst (map (\<lambda>r. if fst r = k then (k, v) else r) js) = map fst js" for js :: "(string \<times> string) list" by (induction js) auto
  then show ?thesis using assms by (auto simp: d1_setJobState_def update_where_def d1_raw_def simp del: map_map)
qed

lemma raw_with_order: "d1_raw db \<Longrightarrow> d1_raw (with_order x db)"
  by (auto simp: d1_raw_def with_order_def insert_order_row_def)

lemma guarded_fold_raw:
  assumes "\<And>t d. d1_raw d \<Longrightarrow> d1_raw (f t d)" "d1_raw d"
  shows "d1_raw (fold (\<lambda>t db. if P db then f t db else db) xs d)"
  using assms(2) by (induction xs arbitrary: d) (simp_all add: assms(1))

lemma raw_fulfilment: "d1_raw db \<Longrightarrow> d1_raw (d1_issueFulfilment i ts ms db)"
  unfolding d1_issueFulfilment_def Let_def by (intro guarded_fold_raw) simp_all

lemmas order_writes = d1_markOrderPreview_def d1_setOrderPaymentMethod_def d1_setOrderPaymentIntent_def

lemma raw_order_writes:
  assumes "d1_raw db"
  shows "d1_raw (d1_markOrderPreview i db)" "d1_raw (d1_setOrderPaymentMethod i m db)" "d1_raw (d1_setOrderPaymentIntent i n db)"
    "d1_raw (snd (d1_markOrderExpired i db))" "d1_raw (snd (d1_markOrderNeedsReview i r k db))" "d1_raw (snd (d1_approveOrder i who t k db))"
    "d1_raw (snd (d1_expireSessionlessPending site t db))" "d1_raw (snd (d1_markOrderRefunded i t db))"
  using assms
  by (auto simp: order_writes d1_markOrderExpired_def d1_markOrderNeedsReview_def d1_approveOrder_def d1_expireSessionlessPending_def
      d1_markOrderRefunded_def case_prod_beta intro!: raw_orders)

lemma raw_sessions:
  assumes "d1_raw db"
  shows "d1_setOrderSession i n db = Some db' \<Longrightarrow> d1_raw db'" "d1_markOrderPaid i p db = Some (a, db') \<Longrightarrow> d1_raw db'"
  using assms
  by (auto simp: d1_setOrderSession_def d1_markOrderPaid_def Let_def case_prod_beta intro!: raw_orders split: if_splits)

lemma raw_stays:
  assumes "d1_ok db" "admissible c (repo_of db)" "d1_exec c db = Some (a, db')"
  shows "d1_raw db'"
proof -
  have raw: "d1_raw db" using assms(1) by (simp add: d1_ok_split)
  show ?thesis
  proof (cases c)
    case (Insert_order x caps since)
    then have "fresh_order x (repo_of db)" using assms(2) by (simp add: admissible_def settled_order_ok_def)
    then show ?thesis using Insert_order assms(3) raw raw_with_order
      by (auto simp: insertOrderIfAvailable_rows[OF assms(1)] Let_def split: if_splits)
  next
    case (Set_session i n)
    then show ?thesis using assms(3) raw_sessions(1)[OF raw] by auto
  next
    case (Mark_paid i p)
    then show ?thesis using assms(3) raw_sessions(2)[OF raw] by (auto simp: apfst_def map_prod_def split: prod.splits)
  next
    case (Claim cl)
    then show ?thesis using assms(3) raw by (auto simp: d1_claimOutbox_def Let_def split: if_splits)
  qed (use assms(3) raw raw_order_writes[OF raw] raw_fulfilment[OF raw] raw_jobs[OF raw] in
      \<open>auto simp: d1_setTicketEnabled_def d1_setTicketCta_def d1_setTicketFields_def d1_setTicketRelease_def
        d1_insertTicketType_def d1_updateTicketType_def d1_insertCoupon_def d1_setCouponActive_def d1_applyOutboxUpdates_def
        update_where_def Let_def sql_bool_def prod_eq_iff intro!: raw_settings split: if_splits\<close>)
qed

interpretation d1: machine_refinement d1_ok repo_of d1_exec mem_exec admissible
proof
  show "d1_ok d \<Longrightarrow> admissible c (repo_of d) \<Longrightarrow> map_option (apsnd repo_of) (d1_exec c d) = Some (mem_exec c (repo_of d))" for d c
    by (rule d1_step)
next
  fix d c a d'
  assume ok: "d1_ok d" "admissible c (repo_of d)" and result: "d1_exec c d = Some (a, d')"
  have "mem_exec c (repo_of d) = (a, repo_of d')" using d1_step[OF ok] result by simp
  then have "tables_ok (repo_of d')" using tables_stay_ok[of "repo_of d" c] ok by (simp add: d1_ok_split)
  then show "d1_ok d'" using raw_stays[OF ok result] by (simp add: d1_ok_split)
qed

section \<open>Same answers\<close>

definition empty_store :: store where
  "empty_store = \<lparr>s_settings = Map.empty, s_types = [], s_orders = [], s_coupons = [], s_tickets = [], s_mails = [], s_jobs = Map.empty\<rparr>"

definition empty_db :: d1_db where
  "empty_db = \<lparr>d_settings = [], d_types = [], d_orders = [], d_items = [], d_coupons = [], d_tickets = [], d_outbox = [], d_jobs = []\<rparr>"







section \<open>The order of claimed mails\<close>

text \<open>
  Both repositories claim the same mails, in a different order: \<open>claimOutbox\<close> of \<open>d1-repo.ts\<close> sorts the rows
  after the lease has replaced their due times, so that rows of one kind come by id and not by due time.
\<close>

definition due_mail :: "string \<Rightarrow> string \<Rightarrow> mail_row" where
  "due_mail i t = \<lparr>ml_id = i, ml_order = i, ml_kind = Buyer_confirmation, ml_status = M_pending, ml_attempts = 0,
     ml_next = t, ml_error = None, ml_sentAt = None, ml_createdAt = t\<rparr>"

definition claim_two :: mail_claim where
  "claim_two = \<lparr>cl_now = ''3'', cl_leaseUntil = ''4'', cl_kinds = [Buyer_confirmation], cl_limit = 2, cl_order = None\<rparr>"

lemma claim_order_differs:
  "map ml_id (fst (d1_claimOutbox claim_two (empty_db\<lparr>d_outbox := [due_mail ''b'' ''1'', due_mail ''a'' ''2'']\<rparr>))) = [''a'', ''b'']"
  "map ml_id (fst (claimOutbox claim_two (empty_store\<lparr>s_mails := [due_mail ''b'' ''1'', due_mail ''a'' ''2'']\<rparr>))) = [''b'', ''a'']"
  by (simp_all add: d1_claimOutbox_def claimOutbox_def claim_two_def due_mail_def empty_db_def empty_store_def claimable_def
      mail_key_def kind_string_def sort_key_def update_where_def)

end
