(* ===== verification/Rbac_Policy.thy ===== *)
theory Rbac_Policy
  imports Dub_Prelude
begin

text \<open>
  The access policy that every service and every screen shares: \<open>packages/types/src/identity.ts\<close>
  (the permission catalog), \<open>app-registry.ts\<close> (the apps and the keys that govern them) and
  \<open>policy.ts\<close> (levels, decisions and the rows of the role editor). Display texts (names,
  descriptions, labels) are left out. A JavaScript \<open>Set\<close> is a list without repetitions in
  insertion order, so that \<open>[...set].sort()\<close> is \<open>sort\<close>.
\<close>

section \<open>The catalog and the apps\<close>

type_synonym permission = string

record catalog_entry =
  pe_key :: permission
  pe_domain :: string
  pe_dangerous :: bool

definition PERMISSION_CATALOG :: "catalog_entry list" where
  "PERMISSION_CATALOG =
    [catalog_entry.make ''identity:read'' ''identity'' False,
     catalog_entry.make ''identity:admin'' ''identity'' True,
     catalog_entry.make ''event:read'' ''event'' False,
     catalog_entry.make ''event:write'' ''event'' False,
     catalog_entry.make ''event:admin'' ''event'' True,
     catalog_entry.make ''task:read'' ''task'' False,
     catalog_entry.make ''task:write'' ''task'' False,
     catalog_entry.make ''task:delete'' ''task'' False,
     catalog_entry.make ''file:read'' ''file'' False,
     catalog_entry.make ''file:write'' ''file'' False,
     catalog_entry.make ''file:admin'' ''file'' True,
     catalog_entry.make ''notif:send'' ''notif'' False,
     catalog_entry.make ''notif:admin'' ''notif'' False,
     catalog_entry.make ''notif:inbox:self'' ''notif'' False,
     catalog_entry.make ''notif:prefs:self'' ''notif'' False,
     catalog_entry.make ''notif:broadcast_publish'' ''notif'' False,
     catalog_entry.make ''notif:receive_admin'' ''notif'' False,
     catalog_entry.make ''notif:receive_all'' ''notif'' False,
     catalog_entry.make ''mail:send'' ''mail'' True,
     catalog_entry.make ''mail:read'' ''mail'' False,
     catalog_entry.make ''mail:read_all'' ''mail'' True,
     catalog_entry.make ''mail:read_role_shared'' ''mail'' True,
     catalog_entry.make ''mail:admin'' ''mail'' True,
     catalog_entry.make ''chat:create'' ''chat'' False,
     catalog_entry.make ''chat:moderate'' ''chat'' True,
     catalog_entry.make ''chat:delete_channel'' ''chat'' True,
     catalog_entry.make ''chat:slack_import'' ''chat'' True,
     catalog_entry.make ''chat:emoji_import'' ''chat'' True,
     catalog_entry.make ''chat:manage_sections'' ''chat'' False,
     catalog_entry.make ''chat:change_visibility'' ''chat'' True,
     catalog_entry.make ''usage:view'' ''usage'' False,
     catalog_entry.make ''infra:read'' ''infra'' False,
     catalog_entry.make ''infra:deploy'' ''infra'' True,
     catalog_entry.make ''infra:dns'' ''infra'' True,
     catalog_entry.make ''infra:admin'' ''infra'' True,
     catalog_entry.make ''audit:read'' ''audit'' False,
     catalog_entry.make ''github:read'' ''github'' False,
     catalog_entry.make ''github:write'' ''github'' False,
     catalog_entry.make ''github:sync'' ''github'' False,
     catalog_entry.make ''github:admin'' ''github'' True,
     catalog_entry.make ''drive:read'' ''drive'' False,
     catalog_entry.make ''drive:write'' ''drive'' False,
     catalog_entry.make ''drive:settings_view'' ''drive'' False,
     catalog_entry.make ''drive:settings_edit'' ''drive'' True,
     catalog_entry.make ''calendar:schedule_edit'' ''calendar'' False,
     catalog_entry.make ''calendar:meetings_view'' ''calendar'' False,
     catalog_entry.make ''calendar:meetings_edit'' ''calendar'' True,
     catalog_entry.make ''webhook:read'' ''webhook'' False,
     catalog_entry.make ''app:events:view'' ''app'' False,
     catalog_entry.make ''app:events:edit'' ''app'' False,
     catalog_entry.make ''app:tasks:view'' ''app'' False,
     catalog_entry.make ''app:tasks:edit'' ''app'' False,
     catalog_entry.make ''app:gantt:view'' ''app'' False,
     catalog_entry.make ''app:gantt:edit'' ''app'' False,
     catalog_entry.make ''app:calendar:view'' ''app'' False,
     catalog_entry.make ''app:calendar:edit'' ''app'' False,
     catalog_entry.make ''app:notifications:view'' ''app'' False,
     catalog_entry.make ''app:notifications:edit'' ''app'' False,
     catalog_entry.make ''app:chat:view'' ''app'' False,
     catalog_entry.make ''app:chat:edit'' ''app'' False,
     catalog_entry.make ''app:mail:view'' ''app'' False,
     catalog_entry.make ''app:mail:edit'' ''app'' False,
     catalog_entry.make ''app:usage:view'' ''app'' False,
     catalog_entry.make ''app:usage:edit'' ''app'' False,
     catalog_entry.make ''app:members:view'' ''app'' False,
     catalog_entry.make ''app:members:edit'' ''app'' False,
     catalog_entry.make ''app:participation:view'' ''app'' False,
     catalog_entry.make ''app:participation:edit'' ''app'' False,
     catalog_entry.make ''app:driveshare:view'' ''app'' False,
     catalog_entry.make ''app:driveshare:edit'' ''app'' False,
     catalog_entry.make ''app:admin:view'' ''app'' False,
     catalog_entry.make ''app:admin:edit'' ''app'' False,
     catalog_entry.make ''lp:publish'' ''lp'' True,
     catalog_entry.make ''app:lp:view'' ''app'' False,
     catalog_entry.make ''app:lp:edit'' ''app'' False,
     catalog_entry.make ''app:commander:view'' ''app'' True,
     catalog_entry.make ''app:commander:edit'' ''app'' True,
     catalog_entry.make ''hr:read'' ''hr'' False,
     catalog_entry.make ''hr:write'' ''hr'' False,
     catalog_entry.make ''hr:admin'' ''hr'' True,
     catalog_entry.make ''app:hr:view'' ''app'' False,
     catalog_entry.make ''app:hr:edit'' ''app'' False,
     catalog_entry.make ''sponsor:read'' ''sponsor'' False,
     catalog_entry.make ''sponsor:write'' ''sponsor'' False,
     catalog_entry.make ''sponsor:admin'' ''sponsor'' True,
     catalog_entry.make ''app:sponsor:view'' ''app'' False,
     catalog_entry.make ''app:sponsor:edit'' ''app'' False,
     catalog_entry.make ''members:roster_view'' ''members'' False,
     catalog_entry.make ''members:roster_edit'' ''members'' False,
     catalog_entry.make ''members:mail_view'' ''members'' False,
     catalog_entry.make ''members:mail_edit'' ''members'' False,
     catalog_entry.make ''goals:read'' ''goals'' False,
     catalog_entry.make ''app:goals:view'' ''app'' False,
     catalog_entry.make ''app:goals:edit'' ''app'' False,
     catalog_entry.make ''identity:impersonate'' ''impersonation'' True]"

definition isPermissionKey :: "string \<Rightarrow> bool" where
  "isPermissionKey key = (key \<in> pe_key ` set PERMISSION_CATALOG)"

record app_entry =
  app_id :: string
  app_navPath :: string
  app_domain :: string
  app_permissions :: "permission list"
  access_view :: permission
  access_edit :: permission
  app_openToAll :: bool
  app_detail :: "permission list"

definition APP_MANIFEST :: "app_entry list" where
  "APP_MANIFEST =
    [app_entry.make ''events'' ''/events'' ''event'' [''event:read'']
       ''app:events:view'' ''app:events:edit'' False
       [''event:read'', ''event:write'', ''event:admin''],
     app_entry.make ''tasks'' ''/me/tasks'' ''task'' [''task:read'']
       ''app:tasks:view'' ''app:tasks:edit'' False
       [''task:read'', ''task:write'', ''task:delete''],
     app_entry.make ''gantt'' ''/gantt'' ''task'' [''task:read'']
       ''app:gantt:view'' ''app:gantt:edit'' False
       [],
     app_entry.make ''calendar'' ''/calendar'' ''task'' [''task:read'']
       ''app:calendar:view'' ''app:calendar:edit'' False
       [''calendar:schedule_edit'', ''calendar:meetings_view'', ''calendar:meetings_edit''],
     app_entry.make ''notifications'' ''/notifications'' ''notif'' [''notif:inbox:self'', ''notif:prefs:self'']
       ''app:notifications:view'' ''app:notifications:edit'' False
       [''notif:receive_all'', ''notif:receive_admin'', ''notif:broadcast_publish'', ''notif:admin''],
     app_entry.make ''chat'' ''/chat'' ''chat'' [''chat:create'']
       ''app:chat:view'' ''app:chat:edit'' False
       [''chat:create'', ''chat:moderate'', ''chat:delete_channel'', ''chat:slack_import'', ''chat:emoji_import'', ''chat:manage_sections'', ''chat:change_visibility''],
     app_entry.make ''mail'' ''/mail'' ''mail'' [''mail:read'']
       ''app:mail:view'' ''app:mail:edit'' False
       [''mail:read'', ''mail:send'', ''mail:read_all'', ''mail:read_role_shared'', ''mail:admin''],
     app_entry.make ''usage'' ''/usage'' ''usage'' [''usage:view'']
       ''app:usage:view'' ''app:usage:edit'' True
       [''usage:view''],
     app_entry.make ''members'' ''/members'' ''identity'' [''identity:read'']
       ''app:members:view'' ''app:members:edit'' False
       [''identity:read'', ''identity:admin''],
     app_entry.make ''participation'' ''/participation'' ''identity'' [''identity:read'']
       ''app:participation:view'' ''app:participation:edit'' True
       [],
     app_entry.make ''driveshare'' ''/driveshare'' ''drive'' [''drive:read'']
       ''app:driveshare:view'' ''app:driveshare:edit'' True
       [''drive:read'', ''drive:write'', ''drive:settings_view'', ''drive:settings_edit'', ''file:read'', ''file:write'', ''file:admin''],
     app_entry.make ''lp'' ''/lp'' ''infra'' [''infra:read'']
       ''app:lp:view'' ''app:lp:edit'' False
       [''lp:publish''],
     app_entry.make ''admin'' ''/admin/roles'' ''identity'' [''identity:admin'']
       ''app:admin:view'' ''app:admin:edit'' False
       [],
     app_entry.make ''commander'' ''/commander'' ''identity'' [''identity:admin'']
       ''app:commander:view'' ''app:commander:edit'' False
       [],
     app_entry.make ''hr'' ''/hr'' ''hr'' [''hr:read'']
       ''app:hr:view'' ''app:hr:edit'' False
       [''hr:read'', ''hr:write'', ''hr:admin''],
     app_entry.make ''sponsor'' ''/sponsor'' ''sponsor'' [''sponsor:read'']
       ''app:sponsor:view'' ''app:sponsor:edit'' False
       [''sponsor:read'', ''sponsor:write'', ''sponsor:admin''],
     app_entry.make ''goals'' ''/goals'' ''goals'' [''goals:read'']
       ''app:goals:view'' ''app:goals:edit'' False
       [''goals:read'']]"

definition getApp :: "string \<Rightarrow> app_entry option" where
  "getApp i = find (\<lambda>a. app_id a = i) APP_MANIFEST"

definition isCanonicalAppId :: "string \<Rightarrow> bool" where
  "isCanonicalAppId i = (\<exists>a\<in>set APP_MANIFEST. app_id a = i)"

definition manifestPermissionKeys :: "permission list" where
  "manifestPermissionKeys = uniq (concat (map app_permissions APP_MANIFEST))"

definition appAccessKeys :: "string \<Rightarrow> (permission \<times> permission) option" where
  "appAccessKeys i = map_option (\<lambda>a. (access_view a, access_edit a)) (getApp i)"

definition allAppAccessKeys :: "permission list" where
  "allAppAccessKeys = concat (map (\<lambda>a. [access_view a, access_edit a]) APP_MANIFEST)"

definition appViewKey :: "string \<Rightarrow> permission option" where
  "appViewKey i = map_option access_view (getApp i)"

definition appEditKey :: "string \<Rightarrow> permission option" where
  "appEditKey i = map_option access_edit (getApp i)"

definition appDomainKeys :: "string \<Rightarrow> permission list" where
  "appDomainKeys i = (case getApp i of Some a \<Rightarrow> app_permissions a | None \<Rightarrow> [])"

text \<open>\<open>set.add(k)\<close> and \<open>set.delete(k)\<close>.\<close>

definition set_add :: "'a \<Rightarrow> 'a list \<Rightarrow> 'a list" where
  "set_add k s = (if k \<in> set s then s else s @ [k])"

definition set_delete :: "'a \<Rightarrow> 'a list \<Rightarrow> 'a list" where
  "set_delete k s = filter (\<lambda>x. x \<noteq> k) s"

lemma set_set_add [simp]: "set (set_add k s) = insert k (set s)"
  by (auto simp: set_add_def)

lemma distinct_set_add [simp]: "distinct (set_add k s) = distinct s"
  by (auto simp: set_add_def)

lemma set_set_delete [simp]: "set (set_delete k s) = set s - {k}"
  by (auto simp: set_delete_def)

lemma distinct_set_delete [simp]: "distinct s \<Longrightarrow> distinct (set_delete k s)"
  by (simp add: set_delete_def)

lemma set_fold_add [simp]: "set (fold set_add ks s) = set s \<union> set ks"
  by (induction ks arbitrary: s) auto

lemma distinct_fold_add [simp]: "distinct (fold set_add ks s) = distinct s"
  by (induction ks arbitrary: s) auto

definition withRequiredAppDomainKeys :: "permission list \<Rightarrow> permission list" where
  "withRequiredAppDomainKeys perms =
     sort (fold
       (\<lambda>a s. let hasEdit = access_edit a \<in> set s; hasView = access_view a \<in> set s in
              if \<not> hasEdit \<and> \<not> hasView then s
              else fold set_add (app_permissions a) (if hasEdit then set_add (access_view a) s else s))
       APP_MANIFEST (uniq perms))"

section \<open>Levels\<close>

datatype app_level = L_none | L_view | L_edit

fun level_text :: "app_level \<Rightarrow> string" where
  "level_text L_none = ''none''"
| "level_text L_view = ''view''"
| "level_text L_edit = ''edit''"

definition APP_ACCESS_LEVELS :: "app_level list" where
  "APP_ACCESS_LEVELS = [L_none, L_view, L_edit]"

fun levelRank :: "app_level \<Rightarrow> nat" where
  "levelRank L_none = 0"
| "levelRank L_view = 1"
| "levelRank L_edit = 2"

definition levelAtLeast :: "app_level \<Rightarrow> app_level \<Rightarrow> bool" where
  "levelAtLeast actual required = (levelRank actual \<ge> levelRank required)"

text \<open>\<open>value in LEVEL_RANK\<close> also finds the properties every object inherits.\<close>

definition object_prototype :: "string list" where
  "object_prototype =
     [''constructor'', ''__defineGetter__'', ''__defineSetter__'', ''hasOwnProperty'', ''__lookupGetter__'',
      ''__lookupSetter__'', ''isPrototypeOf'', ''propertyIsEnumerable'', ''toString'', ''valueOf'',
      ''__proto__'', ''toLocaleString'']"

definition isAppAccessLevel :: "js \<Rightarrow> bool" where
  "isAppAccessLevel v =
     (case v of JStr s \<Rightarrow> s \<in> set (map level_text APP_ACCESS_LEVELS @ object_prototype) | _ \<Rightarrow> False)"

definition upper_char :: "char \<Rightarrow> char" where
  \<comment> \<open>HTTP methods are ASCII\<close>
  "upper_char c = (if char_between (CHR ''a'') (CHR ''z'') c then char_of (of_char c - 32 :: nat) else c)"

definition toUpperCase :: "string \<Rightarrow> string" where
  "toUpperCase s = map upper_char s"

definition levelForMethod :: "string \<Rightarrow> app_level" where
  "levelForMethod meth =
     (let m = toUpperCase meth in
      if m = ''GET'' \<or> m = ''HEAD'' \<or> m = ''OPTIONS'' then L_view else L_edit)"

definition keysForAppLevel :: "string \<Rightarrow> app_level \<Rightarrow> permission list" where
  "keysForAppLevel i level =
     (case getApp i of
        None \<Rightarrow> []
      | Some a \<Rightarrow> (case level of L_edit \<Rightarrow> [access_view a, access_edit a] | L_view \<Rightarrow> [access_view a] | L_none \<Rightarrow> []))"

definition appAccessLevelOf :: "permission list \<Rightarrow> string \<Rightarrow> app_level" where
  "appAccessLevelOf granted i =
     (case getApp i of
        None \<Rightarrow> L_none
      | Some a \<Rightarrow> if access_edit a \<in> set granted then L_edit
                  else if access_view a \<in> set granted then L_view else L_none)"

definition setAppAccessLevel :: "permission list \<Rightarrow> string \<Rightarrow> app_level \<Rightarrow> permission list" where
  "setAppAccessLevel granted i level =
     (case getApp i of
        None \<Rightarrow> sort granted
      | Some a \<Rightarrow> sort (fold set_add (keysForAppLevel i level)
                     (set_delete (access_edit a) (set_delete (access_view a) (uniq granted)))))"

definition IMPLIED_DETAIL_KEYS :: "(permission \<times> permission) list" where
  "IMPLIED_DETAIL_KEYS =
     [(''drive:settings_edit'', ''drive:settings_view''),
      (''calendar:meetings_edit'', ''calendar:meetings_view''),
      (''members:mail_edit'', ''members:mail_view''),
      (''members:mail_edit'', ''members:roster_edit''),
      (''members:mail_view'', ''members:roster_view''),
      (''members:roster_edit'', ''members:roster_view'')]"

definition add_implied :: "permission \<times> permission \<Rightarrow> permission list \<Rightarrow> permission list" where
  "add_implied p s = (if fst p \<in> set s then set_add (snd p) s else s)"

definition normalizeAppAccessKeys :: "permission list \<Rightarrow> permission list" where
  "normalizeAppAccessKeys granted =
     sort (fold add_implied IMPLIED_DETAIL_KEYS
       (fold (\<lambda>a s. if access_edit a \<in> set s then set_add (access_view a) s else s) APP_MANIFEST (uniq granted)))"

definition appAccessMap :: "permission list \<Rightarrow> (string \<times> app_level) list" where
  "appAccessMap granted = map (\<lambda>a. (app_id a, appAccessLevelOf (uniq granted) (app_id a))) APP_MANIFEST"

section \<open>The scope inside the members app\<close>

datatype members_scope = M_org_chart | M_roster | M_all
datatype scope_mode = V_view | V_edit

definition MEMBERS_SCOPES :: "members_scope list" where
  "MEMBERS_SCOPES = [M_org_chart, M_roster, M_all]"

fun scope_index :: "members_scope \<Rightarrow> nat" where
  \<comment> \<open>\<open>MEMBERS_SCOPES.indexOf(scope)\<close>\<close>
  "scope_index M_org_chart = 0"
| "scope_index M_roster = 1"
| "scope_index M_all = 2"

fun scope_roster_key :: "scope_mode \<Rightarrow> permission" where
  "scope_roster_key V_view = ''members:roster_view''"
| "scope_roster_key V_edit = ''members:roster_edit''"

fun scope_mail_key :: "scope_mode \<Rightarrow> permission" where
  "scope_mail_key V_view = ''members:mail_view''"
| "scope_mail_key V_edit = ''members:mail_edit''"

definition membersScopeOf :: "permission list \<Rightarrow> scope_mode \<Rightarrow> members_scope" where
  "membersScopeOf granted mode =
     (if scope_mail_key mode \<in> set granted then M_all
      else if scope_roster_key mode \<in> set granted then M_roster else M_org_chart)"

definition put_scope :: "scope_mode \<Rightarrow> nat \<Rightarrow> permission list \<Rightarrow> permission list" where
  \<comment> \<open>the body of the loop over the two modes\<close>
  "put_scope m n s =
     (let s = set_delete (scope_mail_key m) (set_delete (scope_roster_key m) s);
          s = (if 1 \<le> n then set_add (scope_roster_key m) s else s)
      in if 2 \<le> n then set_add (scope_mail_key m) s else s)"

definition setMembersScope :: "permission list \<Rightarrow> scope_mode \<Rightarrow> members_scope \<Rightarrow> permission list" where
  "setMembersScope granted mode scope =
     (let rank = scope_index scope;
          cur_view = scope_index (membersScopeOf granted V_view);
          cur_edit = scope_index (membersScopeOf granted V_edit);
          (next_view, next_edit) =
            (case mode of V_edit \<Rightarrow> (max cur_view rank, rank) | V_view \<Rightarrow> (rank, min cur_edit rank))
      in sort (put_scope V_edit next_edit (put_scope V_view next_view (uniq granted))))"

section \<open>Capabilities and decisions\<close>

record app_capability =
  cap_app :: string
  cap_level :: app_level
  cap_enabled :: bool
  cap_canView :: bool
  cap_canEdit :: bool
  cap_readOnly :: bool

definition appCapability :: "permission list \<Rightarrow> string \<Rightarrow> app_capability" where
  "appCapability granted i =
     (let level = appAccessLevelOf granted i;
          canView = levelAtLeast level L_view;
          canEdit = (level = L_edit)
      in \<lparr>cap_app = i, cap_level = level, cap_enabled = (level \<noteq> L_none), cap_canView = canView,
          cap_canEdit = canEdit, cap_readOnly = (canView \<and> \<not> canEdit)\<rparr>)"

definition appCapabilities :: "permission list \<Rightarrow> (string \<times> app_capability) list" where
  "appCapabilities granted = map (\<lambda>a. (app_id a, appCapability (uniq granted) (app_id a))) APP_MANIFEST"

datatype deny_reason = R_unknown_app | R_app_disabled | R_read_only | R_missing_permission

record policy_requirement =
  rq_app :: string
  rq_level :: app_level
  rq_permission :: "permission option"

record policy_decision =
  de_allowed :: bool
  de_requiredKeys :: "permission list"
  de_missing :: "permission list"
  de_reason :: "deny_reason option"
  de_level :: app_level

definition requiredKeysFor :: "policy_requirement \<Rightarrow> permission list" where
  "requiredKeysFor req =
     (let keys = keysForAppLevel (rq_app req) (rq_level req) in
      case rq_permission req of
        Some p \<Rightarrow> if p \<noteq> [] \<and> p \<notin> set keys then keys @ [p] else keys
      | None \<Rightarrow> keys)"

definition decide :: "permission list \<Rightarrow> policy_requirement \<Rightarrow> policy_decision" where
  "decide granted req =
     (let level = appAccessLevelOf granted (rq_app req);
          required = requiredKeysFor req;
          missing = filter (\<lambda>k. k \<notin> set granted) required;
          refuse = (\<lambda>m r. \<lparr>de_allowed = False, de_requiredKeys = required, de_missing = m,
                            de_reason = Some r, de_level = level\<rparr>)
      in if getApp (rq_app req) = None then refuse missing R_unknown_app
         else if \<not> levelAtLeast level (rq_level req)
         then refuse missing (if level = L_none then R_app_disabled else R_read_only)
         else (case rq_permission req of
                 Some p \<Rightarrow> if p \<notin> set granted then refuse [p] R_missing_permission
                           else \<lparr>de_allowed = True, de_requiredKeys = required, de_missing = [],
                                 de_reason = None, de_level = level\<rparr>
               | None \<Rightarrow> \<lparr>de_allowed = True, de_requiredKeys = required, de_missing = [],
                          de_reason = None, de_level = level\<rparr>))"

section \<open>The rows of the role editor\<close>

definition catalogEntry :: "string \<Rightarrow> catalog_entry option" where
  "catalogEntry key = find (\<lambda>e. pe_key e = key) PERMISSION_CATALOG"

definition entriesOf :: "permission list \<Rightarrow> catalog_entry list" where
  "entriesOf keys = List.map_filter catalogEntry keys"

definition appAccessCatalogKeys :: "permission list" where
  "appAccessCatalogKeys = map pe_key (filter (\<lambda>e. pe_domain e = ''app'') PERMISSION_CATALOG)"

definition appDetailPermissions :: "string \<Rightarrow> catalog_entry list" where
  "appDetailPermissions i = entriesOf (case getApp i of Some a \<Rightarrow> app_detail a | None \<Rightarrow> [])"

definition claimedDetailKeys :: "permission list" where
  "claimedDetailKeys = uniq (concat (map app_detail APP_MANIFEST))"

definition HIDDEN_PERMISSION_KEYS :: "permission list" where
  "HIDDEN_PERMISSION_KEYS =
     [''notif:inbox:self'', ''notif:prefs:self'', ''notif:send''] @
     concat (map (\<lambda>m. [scope_roster_key m, scope_mail_key m]) [V_view, V_edit])"

definition otherPermissions :: "catalog_entry list" where
  "otherPermissions =
     filter (\<lambda>e. pe_key e \<notin> set (claimedDetailKeys @ appAccessCatalogKeys @ HIDDEN_PERMISSION_KEYS))
       PERMISSION_CATALOG"

fun push_domain :: "catalog_entry \<Rightarrow> (string \<times> catalog_entry list) list \<Rightarrow> (string \<times> catalog_entry list) list" where
  \<comment> \<open>the bucket of the domain, made when it is first seen; buckets stand in the order of \<open>order\<close>\<close>
  "push_domain e [] = [(pe_domain e, [e])]"
| "push_domain e (b # bs) = (if fst b = pe_domain e then (fst b, snd b @ [e]) # bs else b # push_domain e bs)"

definition otherPermissionGroups :: "(string \<times> catalog_entry list) list" where
  "otherPermissionGroups = fold push_domain otherPermissions []"

record policy_row =
  row_app :: app_entry
  row_level :: app_level
  row_granted :: nat
  row_total :: nat
  row_openToAll :: bool

definition appPolicyRows :: "permission list \<Rightarrow> policy_row list" where
  "appPolicyRows granted =
     map (\<lambda>a. \<lparr>row_app = a, row_level = appAccessLevelOf granted (app_id a),
               row_granted = length (filter (\<lambda>k. k \<in> set granted) (app_detail a)),
               row_total = length (app_detail a), row_openToAll = app_openToAll a\<rparr>) APP_MANIFEST"

definition appPolicySummary :: "permission list \<Rightarrow> nat \<times> nat" where
  "appPolicySummary granted =
     (let rows = appPolicyRows granted in (length (filter (\<lambda>r. row_level r \<noteq> L_none) rows), length rows))"

section \<open>Facts of the manifest\<close>

lemma access_keys_distinct: "distinct allAppAccessKeys"
  by code_simp

lemma app_ids_distinct: "distinct (map app_id APP_MANIFEST)"
  by code_simp

lemma catalog_keys_distinct: "distinct (map pe_key PERMISSION_CATALOG)"
  by code_simp

lemma manifest_in_catalog:
  "list_all (\<lambda>k. isPermissionKey k) (concat (map (\<lambda>a. access_view a # access_edit a # app_permissions a @ app_detail a) APP_MANIFEST))"
  by code_simp

lemma access_pair_injective:
  assumes "a \<in> set APP_MANIFEST" "b \<in> set APP_MANIFEST"
  shows "access_view a \<noteq> access_edit b" "access_view a = access_view b \<longleftrightarrow> a = b" "access_edit a = access_edit b \<longleftrightarrow> a = b"
proof -
  have pairs: "distinct (concat (map (\<lambda>a. [v a, e a]) xs)) \<Longrightarrow> a \<in> set xs \<Longrightarrow> b \<in> set xs \<Longrightarrow>
      v a \<noteq> e b \<and> (v a = v b \<longleftrightarrow> a = b) \<and> (e a = e b \<longleftrightarrow> a = b)"
    for v e :: "app_entry \<Rightarrow> permission" and xs
    by (induction xs) auto
  show "access_view a \<noteq> access_edit b" "access_view a = access_view b \<longleftrightarrow> a = b" "access_edit a = access_edit b \<longleftrightarrow> a = b"
    using pairs[OF access_keys_distinct[unfolded allAppAccessKeys_def] assms] by auto
qed

lemma getApp_Some: "getApp i = Some a \<longleftrightarrow> a \<in> set APP_MANIFEST \<and> app_id a = i"
  using find_distinct_key[OF app_ids_distinct] by (auto simp: getApp_def dest: find_Some_in)

lemma getApp_None: "getApp i = None \<longleftrightarrow> \<not> isCanonicalAppId i"
  by (auto simp: getApp_def isCanonicalAppId_def find_None_iff)

section \<open>Normalising a role\<close>

text \<open>What a role must satisfy: a key that builds on another is never held without it.\<close>

definition implied_pairs :: "(permission \<times> permission) list" where
  "implied_pairs = map (\<lambda>a. (access_edit a, access_view a)) APP_MANIFEST @ IMPLIED_DETAIL_KEYS"

definition policy_closed :: "permission set \<Rightarrow> bool" where
  "policy_closed h = (\<forall>(e, v)\<in>set implied_pairs. e \<in> h \<longrightarrow> v \<in> h)"

lemma set_add_implied: "set (add_implied p s) = (if fst p \<in> set s then insert (snd p) (set s) else set s)"
  by (simp add: add_implied_def)

lemma distinct_fold_implied: "distinct (fold add_implied ps s) = distinct s"
  by (induction ps arbitrary: s) (auto simp: add_implied_def)

lemma fold_implied_grows: "set s \<subseteq> set (fold add_implied ps s)"
proof (induction ps arbitrary: s)
  case (Cons p ps)
  have "set s \<subseteq> set (add_implied p s)" by (auto simp: set_add_implied)
  with Cons[of "add_implied p s"] show ?case by auto
qed simp

lemma fold_implied_least:
  "set s \<subseteq> h \<Longrightarrow> (\<forall>(e, v)\<in>set ps. e \<in> h \<longrightarrow> v \<in> h) \<Longrightarrow> set (fold add_implied ps s) \<subseteq> h"
proof (induction ps arbitrary: s)
  case (Cons p ps)
  have "set (add_implied p s) \<subseteq> h" using Cons.prems by (cases p) (auto simp: set_add_implied)
  then show ?case using Cons.IH Cons.prems by simp
qed simp

lemma fold_implied_untouched: "k \<notin> snd ` set ps \<Longrightarrow> k \<in> set (fold add_implied ps s) \<longleftrightarrow> k \<in> set s"
  by (induction ps arbitrary: s) (auto simp: set_add_implied)

text \<open>One pass is enough when no pair adds a key that an earlier pair starts from.\<close>

lemma fold_implied_closed:
  assumes "sorted_wrt (\<lambda>p q. snd q \<noteq> fst p) ps"
  shows "\<forall>(e, v)\<in>set ps. e \<in> set (fold add_implied ps s) \<longrightarrow> v \<in> set (fold add_implied ps s)"
  using assms
proof (induction ps arbitrary: s)
  case (Cons p ps)
  have "fst p \<notin> snd ` set ps" using Cons.prems by (auto dest: sym)
  then have "fst p \<in> set (fold add_implied ps (add_implied p s)) \<longleftrightarrow> fst p \<in> set (add_implied p s)"
    by (rule fold_implied_untouched)
  then have "fst p \<in> set (fold add_implied ps (add_implied p s)) \<longrightarrow> snd p \<in> set (fold add_implied ps (add_implied p s))"
    using fold_implied_grows[of "add_implied p s" ps] by (auto simp: set_add_implied split: if_splits)
  with Cons.IH[of "add_implied p s"] Cons.prems show ?case by (cases p) auto
qed simp

lemma implied_pairs_ordered: "sorted_wrt (\<lambda>p q. snd q \<noteq> fst p) implied_pairs"
  by code_simp

lemma normalize_pairs: "normalizeAppAccessKeys g = sort (fold add_implied implied_pairs (uniq g))"
proof -
  have eq: "(\<lambda>a s. if access_edit a \<in> set s then set_add (access_view a) s else s)
      = (\<lambda>a. add_implied (access_edit a, access_view a))"
    by (intro ext) (simp add: add_implied_def)
  show ?thesis unfolding normalizeAppAccessKeys_def eq by (simp add: implied_pairs_def fold_map comp_def)
qed

lemma normalize_closed: "policy_closed (set (normalizeAppAccessKeys g))"
  using fold_implied_closed[OF implied_pairs_ordered] by (simp add: normalize_pairs policy_closed_def)

lemma normalize_least: "set (normalizeAppAccessKeys g) = \<Inter>{h. set g \<subseteq> h \<and> policy_closed h}"
proof
  show "set (normalizeAppAccessKeys g) \<subseteq> \<Inter>{h. set g \<subseteq> h \<and> policy_closed h}"
    using fold_implied_least[of "uniq g"] by (auto simp: normalize_pairs policy_closed_def)
  have "set g \<subseteq> set (normalizeAppAccessKeys g)"
    using fold_implied_grows[of "uniq g"] by (simp add: normalize_pairs)
  then show "\<Inter>{h. set g \<subseteq> h \<and> policy_closed h} \<subseteq> set (normalizeAppAccessKeys g)"
    using normalize_closed by blast
qed

lemma sorted_normalize [simp]: "sorted (normalizeAppAccessKeys g)" "distinct (normalizeAppAccessKeys g)"
  by (simp_all add: normalize_pairs distinct_fold_implied)

lemma edit_not_implied: "a \<in> set APP_MANIFEST \<Longrightarrow> access_edit a \<notin> snd ` set implied_pairs"
proof -
  have "list_all (\<lambda>a. access_edit a \<notin> set (map snd implied_pairs)) APP_MANIFEST" by code_simp
  then show "a \<in> set APP_MANIFEST \<Longrightarrow> access_edit a \<notin> snd ` set implied_pairs" by (auto simp: list_all_iff)
qed

lemma view_implied_by_edit: "a \<in> set APP_MANIFEST \<Longrightarrow> (e, access_view a) \<in> set implied_pairs \<Longrightarrow> e = access_edit a"
proof -
  have "list_all (\<lambda>a. list_all (\<lambda>p. snd p \<noteq> access_view a \<or> fst p = access_edit a) implied_pairs) APP_MANIFEST"
    by code_simp
  then show "a \<in> set APP_MANIFEST \<Longrightarrow> (e, access_view a) \<in> set implied_pairs \<Longrightarrow> e = access_edit a"
    by (force simp: list_all_iff)
qed

lemma fold_implied_reason:
  "k \<in> set (fold add_implied ps s) \<Longrightarrow> k \<in> set s \<or> (\<exists>e. (e, k) \<in> set ps \<and> e \<in> set (fold add_implied ps s))"
proof (induction ps arbitrary: s)
  case (Cons p ps)
  have grows: "set (add_implied p s) \<subseteq> set (fold add_implied ps (add_implied p s))" by (rule fold_implied_grows)
  from Cons.IH[of "add_implied p s"] Cons.prems
  consider "k \<in> set (add_implied p s)" | e where "(e, k) \<in> set ps" "e \<in> set (fold add_implied ps (add_implied p s))"
    by auto
  then show ?case
  proof cases
    case 1
    then show ?thesis using grows by (cases p) (auto simp: set_add_implied split: if_splits)
  qed auto
qed simp

lemma normalize_keeps_levels: "appAccessLevelOf (normalizeAppAccessKeys g) i = appAccessLevelOf g i"
proof (cases "getApp i")
  case (Some a)
  then have a: "a \<in> set APP_MANIFEST" by (simp add: getApp_Some)
  have e: "access_edit a \<in> set (normalizeAppAccessKeys g) \<longleftrightarrow> access_edit a \<in> set g"
    using fold_implied_untouched[OF edit_not_implied[OF a]] by (simp add: normalize_pairs)
  have v: "access_view a \<in> set (normalizeAppAccessKeys g) \<longleftrightarrow> access_view a \<in> set g \<or> access_edit a \<in> set g"
  proof -
    have pair: "(access_edit a, access_view a) \<in> set implied_pairs" using a by (auto simp: implied_pairs_def)
    have "access_view a \<in> set g \<Longrightarrow> access_view a \<in> set (normalizeAppAccessKeys g)"
      using fold_implied_grows[of "uniq g" implied_pairs] by (auto simp: normalize_pairs)
    moreover have "access_view a \<in> set (normalizeAppAccessKeys g) \<Longrightarrow> access_view a \<in> set g \<or> access_edit a \<in> set g"
      using fold_implied_reason[of "access_view a" implied_pairs "uniq g"] view_implied_by_edit[OF a] e
      by (fastforce simp: normalize_pairs)
    moreover have "access_edit a \<in> set g \<Longrightarrow> access_view a \<in> set (normalizeAppAccessKeys g)"
      using normalize_closed[of g] pair e by (auto simp: policy_closed_def)
    ultimately show ?thesis by blast
  qed
  show ?thesis using Some e v by (simp add: appAccessLevelOf_def)
qed (simp add: appAccessLevelOf_def)

text \<open>
  C28. What identity-roster stores for a role is the least key set that contains the requested one and
  is closed under "a key never without the key it builds on": sorted, without repetitions, unchanged by
  a second pass, and no app's level is raised or lowered by it.
\<close>

theorem stored_role_is_closed:
  "sorted (normalizeAppAccessKeys g) \<and> distinct (normalizeAppAccessKeys g)
   \<and> set (normalizeAppAccessKeys g) = \<Inter>{h. set g \<subseteq> h \<and> policy_closed h}
   \<and> normalizeAppAccessKeys (normalizeAppAccessKeys g) = normalizeAppAccessKeys g
   \<and> appAccessLevelOf (normalizeAppAccessKeys g) i = appAccessLevelOf g i"
proof -
  have "set (normalizeAppAccessKeys (normalizeAppAccessKeys g)) = set (normalizeAppAccessKeys g)"
    unfolding normalize_least[of "normalizeAppAccessKeys g"] using normalize_closed[of g] by blast
  then have "normalizeAppAccessKeys (normalizeAppAccessKeys g) = normalizeAppAccessKeys g"
    by (intro sorted_distinct_set_unique) simp_all
  then show ?thesis by (simp add: normalize_least normalize_keeps_levels)
qed

section \<open>Setting a level and a scope\<close>

lemma set_setAppAccessLevel:
  "getApp i = Some a \<Longrightarrow> set (setAppAccessLevel g i l)
     = set g - {access_view a, access_edit a} \<union> set (keysForAppLevel i l)"
  by (auto simp: setAppAccessLevel_def)

lemma keysForAppLevel_set: "getApp i = Some a \<Longrightarrow> set (keysForAppLevel i l) \<subseteq> {access_view a, access_edit a}"
  by (auto simp: keysForAppLevel_def split: app_level.splits)

text \<open>
  The level an administrator sets for an app is the level read back, every other app keeps its
  level, and no key outside the per-app pairs is added or dropped; an unknown app changes nothing.
\<close>

theorem level_set_is_level_read:
  "appAccessLevelOf (setAppAccessLevel g i l) j = (if i = j \<and> isCanonicalAppId i then l else appAccessLevelOf g j)
   \<and> set (setAppAccessLevel g i l) - set allAppAccessKeys = set g - set allAppAccessKeys"
proof (cases "getApp i")
  case None
  then show ?thesis using getApp_None[of i] by (auto simp: setAppAccessLevel_def appAccessLevelOf_def split: option.split)
next
  case (Some a)
  then have a: "a \<in> set APP_MANIFEST" "app_id a = i" by (simp_all add: getApp_Some)
  have canon: "isCanonicalAppId i" using Some getApp_None[of i] by auto
  have keys: "{access_view a, access_edit a} \<subseteq> set allAppAccessKeys" using a by (auto simp: allAppAccessKeys_def)
  have rest: "set (setAppAccessLevel g i l) - set allAppAccessKeys = set g - set allAppAccessKeys"
    using set_setAppAccessLevel[OF Some] keysForAppLevel_set[OF Some, of l] keys by auto
  have level: "appAccessLevelOf (setAppAccessLevel g i l) j = (if i = j then l else appAccessLevelOf g j)"
  proof (cases "getApp j")
    case (Some b)
    then have b: "b \<in> set APP_MANIFEST" "app_id b = j" by (simp_all add: getApp_Some)
    note pair = access_pair_injective[OF a(1) b(1)] access_pair_injective[OF b(1) a(1)]
    show ?thesis
    proof (cases "i = j")
      case True
      with \<open>getApp i = Some a\<close> Some have "a = b" by simp
      with pair show ?thesis using \<open>getApp i = Some a\<close> True Some
        by (cases l) (simp_all add: appAccessLevelOf_def set_setAppAccessLevel keysForAppLevel_def)
    next
      case False
      with a b have "a \<noteq> b" by auto
      with pair show ?thesis using \<open>getApp i = Some a\<close> False Some
        by (cases l) (simp_all add: appAccessLevelOf_def set_setAppAccessLevel keysForAppLevel_def)
    qed
  next
    case None
    with \<open>getApp i = Some a\<close> show ?thesis by (auto simp: appAccessLevelOf_def)
  qed
  show ?thesis using level rest canon by simp
qed

definition scope_keys :: "permission list" where
  "scope_keys = [''members:roster_view'', ''members:mail_view'', ''members:roster_edit'', ''members:mail_edit'']"

lemma set_put_scope:
  "set (put_scope m n s) = set s - {scope_roster_key m, scope_mail_key m}
     \<union> (if 1 \<le> n then {scope_roster_key m} else {}) \<union> (if 2 \<le> n then {scope_mail_key m} else {})"
  by (auto simp: put_scope_def)

lemma scope_after_put:
  "membersScopeOf (put_scope V_edit ne (put_scope V_view nv s)) V_view
     = (if 2 \<le> nv then M_all else if 1 \<le> nv then M_roster else M_org_chart)"
  "membersScopeOf (put_scope V_edit ne (put_scope V_view nv s)) V_edit
     = (if 2 \<le> ne then M_all else if 1 \<le> ne then M_roster else M_org_chart)"
  by (simp_all add: membersScopeOf_def set_put_scope)

lemma scope_of_sort [simp]: "membersScopeOf (sort g) m = membersScopeOf g m"
  by (simp add: membersScopeOf_def)

lemma setMembersScope_eq:
  "\<exists>nv ne. setMembersScope g m sc = sort (put_scope V_edit ne (put_scope V_view nv (uniq g)))
     \<and> ne \<le> nv \<and> (m = V_edit \<longrightarrow> ne = scope_index sc) \<and> (m = V_view \<longrightarrow> nv = scope_index sc)"
  by (cases m) (simp_all add: setMembersScope_def Let_def, metis min.cobounded2, metis max.cobounded2)

text \<open>
  The scope set for viewing or editing the members app is the scope read back, the editing scope
  never exceeds the viewing scope afterwards, and every other key of the role stays as it was.
\<close>

theorem scope_set_is_scope_read:
  "membersScopeOf (setMembersScope g m sc) m = sc
   \<and> scope_index (membersScopeOf (setMembersScope g m sc) V_edit)
       \<le> scope_index (membersScopeOf (setMembersScope g m sc) V_view)
   \<and> set (setMembersScope g m sc) - set scope_keys = set g - set scope_keys"
proof -
  obtain nv ne where eq: "setMembersScope g m sc = sort (put_scope V_edit ne (put_scope V_view nv (uniq g)))"
    and le: "ne \<le> nv" and n: "m = V_edit \<longrightarrow> ne = scope_index sc" "m = V_view \<longrightarrow> nv = scope_index sc"
    using setMembersScope_eq by blast
  have "set (setMembersScope g m sc) - set scope_keys = set g - set scope_keys"
    unfolding eq by (auto simp: set_put_scope scope_keys_def split: if_splits)
  moreover have "membersScopeOf (setMembersScope g m sc) m = sc"
    unfolding eq using n by (cases m; cases sc) (simp_all add: scope_after_put)
  moreover have "scope_index (membersScopeOf (setMembersScope g m sc) V_edit)
       \<le> scope_index (membersScopeOf (setMembersScope g m sc) V_view)"
    unfolding eq using le by (simp add: scope_after_put)
  ultimately show ?thesis by simp
qed

section \<open>Decisions\<close>

lemma level_at_least:
  "levelAtLeast (appAccessLevelOf g i) l \<longleftrightarrow>
     (case l of L_none \<Rightarrow> True
      | L_view \<Rightarrow> (\<exists>a. getApp i = Some a \<and> (access_edit a \<in> set g \<or> access_view a \<in> set g))
      | L_edit \<Rightarrow> (\<exists>a. getApp i = Some a \<and> access_edit a \<in> set g))"
  by (cases l; cases "getApp i") (auto simp: levelAtLeast_def appAccessLevelOf_def)

lemma decide_allowed:
  "de_allowed (decide g r) \<longleftrightarrow> isCanonicalAppId (rq_app r) \<and> levelAtLeast (appAccessLevelOf g (rq_app r)) (rq_level r)
     \<and> (case rq_permission r of Some p \<Rightarrow> p \<in> set g | None \<Rightarrow> True)"
  by (auto simp: decide_def Let_def getApp_None split: option.splits)

lemma closed_edit_view:
  "policy_closed (set g) \<Longrightarrow> a \<in> set APP_MANIFEST \<Longrightarrow> access_edit a \<in> set g \<Longrightarrow> access_view a \<in> set g"
  by (auto simp: policy_closed_def implied_pairs_def)

lemma level_keys_held:
  assumes "policy_closed (set g)" "isCanonicalAppId i"
  shows "levelAtLeast (appAccessLevelOf g i) l \<longleftrightarrow> set (keysForAppLevel i l) \<subseteq> set g"
proof -
  obtain a where a: "getApp i = Some a" using assms(2) getApp_None[of i] by auto
  then have "a \<in> set APP_MANIFEST" by (simp add: getApp_Some)
  then show ?thesis using a closed_edit_view[OF assms(1)]
    by (cases l) (auto simp: level_at_least keysForAppLevel_def)
qed

lemma set_requiredKeysFor:
  "set (requiredKeysFor r) = set (keysForAppLevel (rq_app r) (rq_level r))
     \<union> (case rq_permission r of Some p \<Rightarrow> if p = [] then {} else {p} | None \<Rightarrow> {})"
  by (auto simp: requiredKeysFor_def Let_def split: option.splits)

lemma decide_required_keys:
  assumes "policy_closed (set g)" "rq_permission r \<noteq> Some []"
  shows "de_allowed (decide g r) \<longleftrightarrow> isCanonicalAppId (rq_app r) \<and> set (requiredKeysFor r) \<subseteq> set g"
  using level_keys_held[OF assms(1)] assms(2)
  by (auto simp: decide_allowed set_requiredKeysFor split: option.splits)

section \<open>Two surprises\<close>

text \<open>
  The domain key of the role administration app is identity:admin, so making its per-app key effective
  hands out the administration of identity itself.
\<close>

lemma view_key_brings_admin: "''identity:admin'' \<in> set (withRequiredAppDomainKeys [''app:admin:view''])"
  by code_simp

lemma inherited_name_is_a_level: "isAppAccessLevel (JStr ''constructor'')"
  by code_simp

end
