(* ===== verification/Policy_Gate.thy ===== *)
theory Policy_Gate
  imports Rbac_Policy Dub_Errors
begin

text \<open>
  \<open>packages/policy-gate/src\<close>: the rules a policy table is written in (\<open>rule.ts\<close>), the identity
  of a route (\<open>routes.ts\<close>), the comparison of a table with a router (\<open>coverage.ts\<close>) and the
  middleware that decides every request (\<open>gate.ts\<close>), with the tables of lp-tickets and
  identity-roster. A request is what the gate reads of it: the routes Hono matched, the two trusted
  headers, and whatever a custom actor resolver inspects. The actor resolver and the granter are
  arguments that pass a state on and may throw; \<open>next()\<close> is \<open>Inr\<close> with the user id that was
  published for the handler.
\<close>

section \<open>Rules\<close>

datatype route_rule =
    RR_public
  | RR_authenticated
  | RR_internal
  | RR_keys "permission list"
  | RR_internal_keys "permission list"


fun isInternalWithKeys :: "route_rule \<Rightarrow> bool" where
  "isInternalWithKeys (RR_internal_keys _) = True"
| "isInternalWithKeys _ = False"

fun requiredKeysOf :: "route_rule \<Rightarrow> permission list option" where
  "requiredKeysOf (RR_keys ks) = Some ks"
| "requiredKeysOf (RR_internal_keys ks) = Some ks"
| "requiredKeysOf _ = None"

definition missingKeys :: "route_rule \<Rightarrow> permission list \<Rightarrow> permission list" where
  "missingKeys rule granted =
     (case requiredKeysOf rule of None \<Rightarrow> [] | Some required \<Rightarrow> filter (\<lambda>k. k \<notin> set granted) required)"

definition allows :: "route_rule \<Rightarrow> permission list \<Rightarrow> bool" where
  "allows rule granted =
     (if rule = RR_internal \<or> isInternalWithKeys rule then False else length (missingKeys rule granted) = 0)"

definition appLevel :: "string \<Rightarrow> app_level \<Rightarrow> permission list \<Rightarrow> thrown + permission list" where
  "appLevel app level alsoRequires =
     (if getApp app = None
      then Inl (TError (''policy-gate: unknown app id \"'' @ app @ ''\" (not in APP_MANIFEST)''))
      else (case uniq (keysForAppLevel app level @ alsoRequires) of
              [] \<Rightarrow> Inl (TError (''policy-gate: app \"'' @ app @ ''\" resolved to no keys''))
            | first # rest \<Rightarrow> Inr (first # rest)))"

section \<open>Routes\<close>

record registered_route =
  rt_method :: string
  rt_path :: string

definition routeKey :: "string \<Rightarrow> string \<Rightarrow> string" where
  "routeKey meth path = toUpperCase meth @ '' '' @ path"

definition ends_with :: "string \<Rightarrow> string \<Rightarrow> bool" where
  "ends_with suf s = starts_with (rev suf) (rev s)"

definition isMiddlewareMount :: "registered_route \<Rightarrow> bool" where
  "isMiddlewareMount r =
     (if toUpperCase (rt_method r) \<noteq> ''ALL'' then False
      else rt_path r = ''*'' \<or> ends_with ''/*'' (rt_path r))"


definition matchedRouteKey :: "registered_route list \<Rightarrow> string option" where
  \<comment> \<open>the loop runs from the last matched route to the first\<close>
  "matchedRouteKey matched =
     map_option (\<lambda>r. routeKey (rt_method r) (rt_path r)) (find (\<lambda>r. \<not> isMiddlewareMount r) (rev matched))"

section \<open>Tables and their coverage\<close>

type_synonym policy_table = "(string \<times> route_rule) list"




section \<open>The gate\<close>

record gate_request =
  gq_matched :: "registered_route list"
  gq_user :: "string option"      \<comment> \<open>\<open>x-dub-user-id\<close>\<close>
  gq_internal :: "string option"  \<comment> \<open>\<open>x-dub-internal\<close>\<close>

type_synonym 'w granter = "string \<Rightarrow> string \<Rightarrow> permission list \<Rightarrow> 'w \<Rightarrow> (thrown + permission list) \<times> 'w"
type_synonym 'w resolver = "gate_request \<Rightarrow> 'w \<Rightarrow> (thrown + string option) \<times> 'w"

record 'w gate_options =
  go_service :: string
  go_table :: policy_table
  go_granted :: "'w granter"
  go_orgId :: "string option"
  go_actor :: "'w resolver option"

definition DUB_DEFAULT_ORG_ID :: string where
  "DUB_DEFAULT_ORG_ID = ''org_devhub''"

definition resolveActor :: "'w gate_options \<Rightarrow> 'w resolver" where
  "resolveActor opts = (case go_actor opts of Some r \<Rightarrow> r | None \<Rightarrow> (\<lambda>c w. (Inr (gq_user c), w)))"

definition noActor :: "'w gate_options \<Rightarrow> string" where
  "noActor opts = (if go_actor opts \<noteq> None then ''no authenticated actor'' else ''x-dub-user-id absent'')"

definition no_policy_rule :: "'w gate_options \<Rightarrow> string \<Rightarrow> thrown" where
  "no_policy_rule opts key =
     TDub (forbidden (go_service opts @ '': no policy rule for '' @ key)
             (JObj [(''reason'', JStr ''no_policy_rule''), (''route'', JStr key)]))"

definition internal_only :: "'w gate_options \<Rightarrow> string \<Rightarrow> thrown" where
  "internal_only opts key =
     TDub (forbidden (go_service opts @ '': '' @ key @ '' is internal-only'')
             (JObj [(''reason'', JStr ''internal_only''), (''route'', JStr key)]))"

definition missing_permission :: "string \<Rightarrow> permission list \<Rightarrow> permission list \<Rightarrow> thrown" where
  "missing_permission key required missing =
     TDub (forbidden (''permission denied: '' @ join_with '', '' missing)
             (JObj [(''reason'', JStr ''missing_permission''), (''route'', JStr key),
                    (''required'', JArr (map JStr required)), (''missing'', JArr (map JStr missing))]))"

definition with_actor :: "'w gate_options \<Rightarrow> gate_request \<Rightarrow> 'w
    \<Rightarrow> (string \<Rightarrow> 'w \<Rightarrow> (thrown + string option) \<times> 'w) \<Rightarrow> (thrown + string option) \<times> 'w" where
  \<comment> \<open>\<open>const actor = await resolveActor(c); if (!actor) throw errors.unauthenticated(noActor)\<close>\<close>
  "with_actor opts c w k =
     (case resolveActor opts c w of
        (Inl e, w) \<Rightarrow> (Inl e, w)
      | (Inr None, w) \<Rightarrow> (Inl (TDub (unauthenticated (noActor opts))), w)
      | (Inr (Some actor), w) \<Rightarrow>
          if actor = [] then (Inl (TDub (unauthenticated (noActor opts))), w) else k actor w)"

definition check_keys :: "'w gate_options \<Rightarrow> string \<Rightarrow> permission list \<Rightarrow> gate_request \<Rightarrow> 'w
    \<Rightarrow> (thrown + string option) \<times> 'w" where
  "check_keys opts key required c w =
     with_actor opts c w (\<lambda>userId w.
       case go_granted opts userId (case go_orgId opts of Some i \<Rightarrow> i | None \<Rightarrow> DUB_DEFAULT_ORG_ID) required w of
         (Inl e, w) \<Rightarrow> (Inl e, w)
       | (Inr held, w) \<Rightarrow>
           (let missing = missingKeys (RR_keys required) held in
            if length missing > 0 then (Inl (missing_permission key required missing), w)
            else (Inr (Some userId), w)))"

definition policyGate :: "'w gate_options \<Rightarrow> gate_request \<Rightarrow> 'w \<Rightarrow> (thrown + string option) \<times> 'w" where
  "policyGate opts c w =
     (case matchedRouteKey (gq_matched c) of
        None \<Rightarrow> (Inr None, w)
      | Some key \<Rightarrow>
          (case map_of (go_table opts) key of
             None \<Rightarrow> (Inl (no_policy_rule opts key), w)
           | Some RR_public \<Rightarrow> (Inr None, w)
           | Some RR_authenticated \<Rightarrow> with_actor opts c w (\<lambda>actor w. (Inr (Some actor), w))
           | Some RR_internal \<Rightarrow>
               if gq_internal c = None then (Inl (internal_only opts key), w)
               else (Inr (case gq_user c of Some u \<Rightarrow> if u = [] then None else Some u | None \<Rightarrow> None), w)
           | Some (RR_internal_keys required) \<Rightarrow>
               if gq_internal c = None then (Inl (internal_only opts key), w)
               else check_keys opts key required c w
           | Some (RR_keys required) \<Rightarrow> check_keys opts key required c w))"

section \<open>Two services\<close>

text \<open>
  \<open>appLevel\<close> runs when the module is loaded: a table whose app id is unknown throws there. The
  values below are those of the load that succeeds.
\<close>

definition lp_VIEW :: "permission list" where
  "lp_VIEW = projr (appLevel ''lp'' L_view [])"

definition lp_EDIT :: "permission list" where
  "lp_EDIT = projr (appLevel ''lp'' L_edit [])"

definition lp_PUBLISH :: "permission list" where
  "lp_PUBLISH = projr (appLevel ''lp'' L_edit [''lp:publish''])"

definition ADMIN_EDIT :: "permission list" where
  "ADMIN_EDIT = projr (appLevel ''admin'' L_edit [''identity:admin''])"

definition MAIL_ROSTER_EDIT :: "permission list" where
  "MAIL_ROSTER_EDIT = projr (appLevel ''admin'' L_edit [''identity:admin'', ''app:members:edit'', ''members:mail_edit''])"

definition ROSTER_READ :: "permission list" where
  "ROSTER_READ = [''identity:read'']"



definition identity_policy :: policy_table where
  "identity_policy =
    [(''GET /health'', RR_public),
     (''GET /identity/orgs'', RR_keys ROSTER_READ),
     (''GET /identity/users'', RR_keys ROSTER_READ),
     (''GET /identity/users/:id'', RR_authenticated),
     (''GET /identity/roles'', RR_keys ROSTER_READ),
     (''GET /identity/users/:id/roles'', RR_keys ROSTER_READ),
     (''GET /identity/permissions/catalog'', RR_keys ROSTER_READ),
     (''POST /identity/users/invite'', RR_keys MAIL_ROSTER_EDIT),
     (''POST /identity/users/sync-email-routing/preview'', RR_keys MAIL_ROSTER_EDIT),
     (''POST /identity/users/sync-email-routing'', RR_keys MAIL_ROSTER_EDIT),
     (''PATCH /identity/users/:id'', RR_keys MAIL_ROSTER_EDIT),
     (''POST /identity/users/:id/offboard'', RR_keys MAIL_ROSTER_EDIT),
     (''POST /identity/roles'', RR_keys ADMIN_EDIT),
     (''PATCH /identity/roles/:id'', RR_keys ADMIN_EDIT),
     (''DELETE /identity/roles/:id'', RR_keys ADMIN_EDIT),
     (''POST /identity/users/:id/roles'', RR_keys ADMIN_EDIT),
     (''DELETE /identity/users/:id/roles/:assignmentId'', RR_keys ADMIN_EDIT),
     (''POST /users/provision'', RR_internal),
     (''POST /internal/users/:id/activate'', RR_internal),
     (''GET /users/:id'', RR_internal),
     (''POST /internal/users/:id/profile'', RR_internal),
     (''GET /internal/users'', RR_internal),
     (''GET /internal/permission-holders'', RR_internal),
     (''POST /internal/users/lookup'', RR_internal),
     (''POST /internal/users/avatars'', RR_internal),
     (''POST /authz/check'', RR_internal),
     (''GET /internal/users/:id/permissions'', RR_internal),
     (''GET /internal/users/:id/mail-visible-users'', RR_internal),
     (''PUT /internal/managed-roles'', RR_internal),
     (''PUT /internal/users/:id/managed-roles'', RR_internal),
     (''POST /internal/webauthn/challenges'', RR_internal),
     (''POST /internal/webauthn/challenges/take'', RR_internal),
     (''GET /internal/webauthn/users/:id/credentials'', RR_internal),
     (''GET /internal/webauthn/credentials/:credentialId'', RR_internal),
     (''POST /internal/webauthn/users/:id/credentials'', RR_internal),
     (''POST /internal/webauthn/credentials/:credentialId/use'', RR_internal),
     (''PATCH /internal/webauthn/users/:id/credentials/:credentialId'', RR_internal),
     (''DELETE /internal/webauthn/users/:id/credentials/:credentialId'', RR_internal)]"


lemma level_keys:
  "appLevel ''lp'' L_view [] = Inr [''app:lp:view'']"
  "appLevel ''lp'' L_edit [] = Inr [''app:lp:view'', ''app:lp:edit'']"
  "appLevel ''lp'' L_edit [''lp:publish''] = Inr [''app:lp:view'', ''app:lp:edit'', ''lp:publish'']"
  "appLevel ''admin'' L_edit [''identity:admin''] = Inr [''app:admin:view'', ''app:admin:edit'', ''identity:admin'']"
  "appLevel ''admin'' L_edit [''identity:admin'', ''app:members:edit'', ''members:mail_edit'']
     = Inr [''app:admin:view'', ''app:admin:edit'', ''identity:admin'', ''app:members:edit'', ''members:mail_edit'']"
  by code_simp+

lemmas level_values = lp_VIEW_def lp_EDIT_def lp_PUBLISH_def ADMIN_EDIT_def MAIL_ROSTER_EDIT_def ROSTER_READ_def

section \<open>What the gate lets through\<close>

definition needs_marker :: "route_rule \<Rightarrow> bool" where
  "needs_marker rule = (rule = RR_internal \<or> isInternalWithKeys rule)"

definition needs_actor :: "route_rule \<Rightarrow> bool" where
  "needs_actor rule = (rule = RR_authenticated \<or> requiredKeysOf rule \<noteq> None)"

definition passed :: "(thrown + string option) \<times> 'w \<Rightarrow> bool" where
  "passed r = (case fst r of Inr _ \<Rightarrow> True | Inl _ \<Rightarrow> False)"

definition go_org :: "'w gate_options \<Rightarrow> string" where
  "go_org opts = (case go_orgId opts of Some i \<Rightarrow> i | None \<Rightarrow> DUB_DEFAULT_ORG_ID)"

lemma passed_simps [simp]: "passed (Inl e, w) = False" "passed (Inr u, w) = True"
  by (simp_all add: passed_def)

lemma passed_with_actor:
  "passed (with_actor opts c w k) \<longleftrightarrow>
     (\<exists>a w'. resolveActor opts c w = (Inr (Some a), w') \<and> a \<noteq> [] \<and> passed (k a w'))"
  by (auto simp: with_actor_def split: prod.splits sum.splits option.splits if_splits)

lemma missing_none: "missingKeys (RR_keys ks) held = [] \<longleftrightarrow> set ks \<subseteq> set held"
  by (auto simp: missingKeys_def filter_empty_conv)

lemma passed_check_keys:
  "passed (check_keys opts key ks c w) \<longleftrightarrow>
     (\<exists>a w' held w''. resolveActor opts c w = (Inr (Some a), w') \<and> a \<noteq> []
        \<and> go_granted opts a (go_org opts) ks w' = (Inr held, w'') \<and> set ks \<subseteq> set held)"
proof -
  have inner: "passed (case g of
         (Inl e, w) \<Rightarrow> (Inl e, w)
       | (Inr held, w) \<Rightarrow>
           (let missing = missingKeys (RR_keys ks) held in
            if length missing > 0 then (Inl (missing_permission key ks missing), w) else (Inr (Some u), w)))
     \<longleftrightarrow> (\<exists>held w''. g = (Inr held, w'') \<and> set ks \<subseteq> set held)" for g :: "(thrown + permission list) \<times> 'w" and u
    by (cases g; cases "fst g") (auto simp: Let_def missing_none)
  show ?thesis unfolding check_keys_def passed_with_actor go_org_def[symmetric] inner by blast
qed

lemma passed_policyGate:
  assumes "matchedRouteKey (gq_matched c) = Some key"
  shows "passed (policyGate opts c w) \<longleftrightarrow>
     (\<exists>rule. map_of (go_table opts) key = Some rule
        \<and> (\<not> needs_marker rule \<or> gq_internal c \<noteq> None)
        \<and> (\<not> needs_actor rule \<or> (\<exists>a w'. resolveActor opts c w = (Inr (Some a), w') \<and> a \<noteq> []))
        \<and> (case requiredKeysOf rule of None \<Rightarrow> True
           | Some ks \<Rightarrow> (\<exists>a w' held w''. resolveActor opts c w = (Inr (Some a), w')
               \<and> go_granted opts a (go_org opts) ks w' = (Inr held, w'') \<and> set ks \<subseteq> set held)))"
proof (cases "map_of (go_table opts) key")
  case None
  then show ?thesis using assms by (simp add: policyGate_def)
next
  case (Some rule)
  then show ?thesis using assms
    by (cases rule) (auto simp: policyGate_def passed_with_actor passed_check_keys needs_marker_def needs_actor_def)
qed

text \<open>
  C29. The gate decides by two independent questions. A request goes through exactly when no endpoint
  matched, or the table lists the matched endpoint and: the rule's door is open to it (an internal rule
  needs the service-to-service marker, whatever keys are held), a rule that needs an actor finds a
  non-empty one, and every key the rule names is in the granter's answer for that actor and the gate's
  organisation. An endpoint the table does not list is refused.
\<close>

theorem gate_decision:
  "passed (policyGate opts c w) \<longleftrightarrow>
     (case matchedRouteKey (gq_matched c) of
        None \<Rightarrow> True
      | Some key \<Rightarrow>
          (case map_of (go_table opts) key of
             None \<Rightarrow> False
           | Some rule \<Rightarrow>
               (if needs_marker rule then gq_internal c \<noteq> None else True)
             \<and> (if needs_actor rule then \<exists>a w'. resolveActor opts c w = (Inr (Some a), w') \<and> a \<noteq> [] else True)
             \<and> (case requiredKeysOf rule of
                  None \<Rightarrow> True
                | Some ks \<Rightarrow> \<exists>a w' held w''. resolveActor opts c w = (Inr (Some a), w')
                    \<and> go_granted opts a (go_org opts) ks w' = (Inr held, w'') \<and> set ks \<subseteq> set held)))"
proof (cases "matchedRouteKey (gq_matched c)")
  case None
  then show ?thesis by (simp add: policyGate_def)
next
  case (Some key)
  show ?thesis unfolding passed_policyGate[OF Some] Some
    by (cases "map_of (go_table opts) key") auto
qed

text \<open>The request a signed-in user sends through the gateway, and a role's keys as a granter.\<close>

definition user_request :: "registered_route list \<Rightarrow> string \<Rightarrow> gate_request" where
  "user_request matched u = \<lparr>gq_matched = matched, gq_user = Some u, gq_internal = None\<rparr>"

definition role_granter :: "permission list \<Rightarrow> 'w granter" where
  "role_granter granted u org ks w = (Inr (filter (\<lambda>k. k \<in> set granted) ks), w)"

text \<open>
  The predicate the role-by-endpoint tests use is the gate: a signed-in user whose role holds
  \<open>granted\<close> reaches a listed endpoint exactly when \<open>allows\<close> says so of its rule, and an unlisted one
  never.
\<close>

theorem allows_is_the_gate:
  "passed (policyGate \<lparr>go_service = svc, go_table = table, go_granted = role_granter granted,
             go_orgId = org, go_actor = None\<rparr> (user_request matched (ch # u)) w)
   = (case matchedRouteKey matched of
        None \<Rightarrow> True
      | Some key \<Rightarrow> (case map_of table key of Some rule \<Rightarrow> allows rule granted | None \<Rightarrow> False))"
proof (cases "matchedRouteKey matched")
  case None
  then show ?thesis by (simp add: policyGate_def user_request_def)
next
  case (Some key)
  show ?thesis
  proof (cases "map_of table key")
    case None
    then show ?thesis using Some by (simp add: policyGate_def user_request_def)
  next
    case (Some rule)
    then show ?thesis using \<open>matchedRouteKey matched = Some key\<close>
      by (cases rule)
        (auto simp: passed_policyGate[where key = key] user_request_def allows_def missingKeys_def
          needs_marker_def needs_actor_def resolveActor_def role_granter_def go_org_def filter_empty_conv)
  qed
qed

section \<open>Coverage\<close>







section \<open>Who can change the roster\<close>

definition writes_roster :: "string \<Rightarrow> bool" where
  \<comment> \<open>an endpoint outside \<open>/internal\<close> that is not a read\<close>
  "writes_roster key = (key \<in> fst ` set identity_policy \<and> \<not> starts_with ''GET'' key)"

lemma roster_write_rules:
  "list_all (\<lambda>(key, rule). starts_with ''GET'' key \<or> needs_marker rule
     \<or> (case requiredKeysOf rule of None \<Rightarrow> False
        | Some ks \<Rightarrow> set [''identity:admin'', ''app:admin:view'', ''app:admin:edit''] \<subseteq> set ks)) identity_policy"
  by code_simp

text \<open>
  C31. Assigning a role is how every permission of the system is granted. A request without the
  service-to-service marker that gets through identity-roster's gate to an endpoint that is not a read
  is made by an actor for whom the granter answered with identity:admin and with both levels of the
  role administration app.
\<close>

theorem roster_writes_need_an_administrator:
  assumes "go_table opts = identity_policy" "gq_internal c = None"
    and "matchedRouteKey (gq_matched c) = Some key" "writes_roster key"
    and "passed (policyGate opts c w)"
  shows "\<exists>a w' ks held w''. resolveActor opts c w = (Inr (Some a), w')
           \<and> go_granted opts a (go_org opts) ks w' = (Inr held, w'')
           \<and> set [''identity:admin'', ''app:admin:view'', ''app:admin:edit''] \<subseteq> set held"
proof -
  from assms(5) obtain rule where rule: "map_of identity_policy key = Some rule" "\<not> needs_marker rule"
    and held: "case requiredKeysOf rule of None \<Rightarrow> True
           | Some ks \<Rightarrow> (\<exists>a w' held w''. resolveActor opts c w = (Inr (Some a), w')
               \<and> go_granted opts a (go_org opts) ks w' = (Inr held, w'') \<and> set ks \<subseteq> set held)"
    unfolding passed_policyGate[OF assms(3)] assms(1) using assms(2) by auto
  have "(key, rule) \<in> set identity_policy" using rule(1) by (rule map_of_SomeD)
  with roster_write_rules
  have "starts_with ''GET'' key \<or> needs_marker rule \<or> (case requiredKeysOf rule of None \<Rightarrow> False
      | Some ks \<Rightarrow> set [''identity:admin'', ''app:admin:view'', ''app:admin:edit''] \<subseteq> set ks)"
    unfolding list_all_iff by fast
  with rule(2) assms(4)
  have demand: "case requiredKeysOf rule of None \<Rightarrow> False
      | Some ks \<Rightarrow> set [''identity:admin'', ''app:admin:view'', ''app:admin:edit''] \<subseteq> set ks"
    by (simp add: writes_roster_def)
  then obtain ks where ks: "requiredKeysOf rule = Some ks" by (cases "requiredKeysOf rule") simp_all
  from demand have sub: "set [''identity:admin'', ''app:admin:view'', ''app:admin:edit''] \<subseteq> set ks"
    unfolding ks option.case .
  from held obtain a w' h w'' where "resolveActor opts c w = (Inr (Some a), w')"
    "go_granted opts a (go_org opts) ks w' = (Inr h, w'')" "set ks \<subseteq> set h"
    unfolding ks option.case by blast
  with sub show ?thesis by (blast intro: subset_trans)
qed

definition demo_gate :: "unit gate_options" where
  "demo_gate = \<lparr>go_service = ''identity-roster'', go_table = identity_policy,
                go_granted = role_granter (map pe_key PERMISSION_CATALOG), go_orgId = None, go_actor = None\<rparr>"

definition demo_write :: gate_request where
  "demo_write = user_request [\<lparr>rt_method = ''POST'', rt_path = ''/identity/users/:id/roles''\<rparr>] ''u1''"

theorem roster_writes_need_an_administrator_witness:
  "\<exists>a w' ks held w''. resolveActor demo_gate demo_write () = (Inr (Some a), w')
     \<and> go_granted demo_gate a (go_org demo_gate) ks w' = (Inr held, w'')
     \<and> set [''identity:admin'', ''app:admin:view'', ''app:admin:edit''] \<subseteq> set held"
proof -
  have "go_table demo_gate = identity_policy" "gq_internal demo_write = None"
    by (simp_all add: demo_gate_def demo_write_def user_request_def)
  moreover have "matchedRouteKey (gq_matched demo_write) = Some ''POST /identity/users/:id/roles''"
    "writes_roster ''POST /identity/users/:id/roles''" "passed (policyGate demo_gate demo_write ())"
    by code_simp+
  ultimately show ?thesis by (rule roster_writes_need_an_administrator)
qed

end
