(* ===== verification/Identity_Store.thy ===== *)
theory Identity_Store
  imports Rbac_Policy Dub_Errors
begin

text \<open>
  \<open>services/identity-roster/src/repo/types.ts\<close> and \<open>mem-repo.ts\<close>: the rows of the roster and the
  repository's operations. Every \<open>Map\<close> of the repository is the list of its rows in insertion order,
  keyed by id; a copy made on the way out is the row itself.
\<close>

section \<open>Rows\<close>

record org_row =
  og_id :: string
  og_name :: string
  og_createdAt :: string

datatype user_status = S_active | S_invited | S_disabled | S_rejected
datatype user_source = U_manual | U_email_routing
datatype assignment_source = A_manual | A_auto

record user_row =
  us_id :: string
  us_org :: string
  us_email :: string
  us_displayName :: string
  us_furigana :: "string option"
  us_githubLogin :: "string option"
  us_avatarUrl :: "string option"
  us_status :: user_status
  us_source :: user_source
  us_createdAt :: string
  us_updatedAt :: string

record role_row =
  rl_id :: string
  rl_org :: string
  rl_name :: string
  rl_isSystem :: bool
  rl_permissions :: "permission list"
  rl_createdAt :: string
  rl_updatedAt :: string

record assignment_row =
  as_id :: string
  as_user :: string
  as_role :: string
  as_org :: string
  as_resourceType :: "string option"
  as_resourceId :: "string option"
  as_grantedBy :: string
  as_grantedAt :: string
  as_source :: "assignment_source option"

record identity_store =
  st_orgs :: "org_row list"
  st_users :: "user_row list"
  st_roles :: "role_row list"
  st_assignments :: "assignment_row list"
  st_visibility :: "(string \<times> string list) list"

definition org_wide :: "assignment_row \<Rightarrow> bool" where
  "org_wide a = (as_resourceType a = None \<and> as_resourceId a = None)"

definition is_auto :: "assignment_row \<Rightarrow> bool" where
  \<comment> \<open>\<open>(a.source ?? "manual") === AUTO_SOURCE\<close>\<close>
  "is_auto a = (as_source a = Some A_auto)"

section \<open>Maps and pages\<close>

fun map_set :: "('r \<Rightarrow> string) \<Rightarrow> 'r \<Rightarrow> 'r list \<Rightarrow> 'r list" where
  \<comment> \<open>\<open>map.set(row.id, row)\<close>: a known key keeps its place\<close>
  "map_set k r [] = [r]"
| "map_set k r (x # xs) = (if k x = k r then r # xs else x # map_set k r xs)"

definition map_get :: "('r \<Rightarrow> string) \<Rightarrow> string \<Rightarrow> 'r list \<Rightarrow> 'r option" where
  "map_get k i xs = find (\<lambda>x. k x = i) xs"

definition map_delete :: "('r \<Rightarrow> string) \<Rightarrow> string \<Rightarrow> 'r list \<Rightarrow> 'r list" where
  "map_delete k i xs = filter (\<lambda>x. k x \<noteq> i) xs"

definition lower_unit :: "char \<Rightarrow> char" where
  "lower_unit c = (let n = of_char c :: nat in
     if 65 \<le> n \<and> n \<le> 90 \<or> 192 \<le> n \<and> n \<le> 222 \<and> n \<noteq> 215 then char_of (n + 32) else c)"

definition toLowerCase :: "string \<Rightarrow> string" where
  "toLowerCase s = map lower_unit s"

fun includes_text :: "string \<Rightarrow> string \<Rightarrow> bool" where
  \<comment> \<open>\<open>s.includes(needle)\<close>\<close>
  "includes_text needle [] = (needle = [])"
| "includes_text needle (c # s) = (starts_with needle (c # s) \<or> includes_text needle s)"

fun find_index :: "('a \<Rightarrow> bool) \<Rightarrow> 'a list \<Rightarrow> nat option" where
  "find_index P [] = None"
| "find_index P (x # xs) = (if P x then Some 0 else map_option Suc (find_index P xs))"

definition pageSlice :: "('r \<Rightarrow> string) \<Rightarrow> 'r list \<Rightarrow> nat \<Rightarrow> string option \<Rightarrow> 'r list \<times> string option" where
  "pageSlice k rows limit cursor =
     (let sorted = sort_key k rows;
          from = (case cursor of
                    Some c \<Rightarrow> if c = [] then 0
                              else (case find_index (\<lambda>r. k r > c) sorted of Some n \<Rightarrow> n | None \<Rightarrow> length sorted)
                  | None \<Rightarrow> 0);
          items = take limit (drop from sorted)
      in (items, if from + limit < length sorted \<and> length items > 0 then Some (k (last items)) else None))"

section \<open>Organisations and users\<close>

definition r_getOrg :: "string \<Rightarrow> identity_store \<Rightarrow> org_row option" where
  "r_getOrg i s = map_get og_id i (st_orgs s)"

definition r_createOrg :: "org_row \<Rightarrow> identity_store \<Rightarrow> identity_store" where
  "r_createOrg r s = s\<lparr>st_orgs := map_set og_id r (st_orgs s)\<rparr>"

definition r_listOrgs :: "nat \<Rightarrow> string option \<Rightarrow> identity_store \<Rightarrow> org_row list \<times> string option" where
  "r_listOrgs limit cursor s = pageSlice og_id (st_orgs s) limit cursor"

definition r_getUser :: "string \<Rightarrow> identity_store \<Rightarrow> user_row option" where
  "r_getUser i s = map_get us_id i (st_users s)"

definition r_getUserByEmail :: "string \<Rightarrow> string \<Rightarrow> identity_store \<Rightarrow> user_row option" where
  "r_getUserByEmail org email s =
     find (\<lambda>u. us_org u = org \<and> toLowerCase (us_email u) = toLowerCase email) (st_users s)"

definition r_getUsersByEmails :: "string \<Rightarrow> string list \<Rightarrow> identity_store \<Rightarrow> user_row list" where
  "r_getUsersByEmails org emails s =
     (let wanted = map toLowerCase emails in
      filter (\<lambda>u. us_org u = org \<and> toLowerCase (us_email u) \<in> set wanted) (st_users s))"

record users_filter =
  uf_org :: string
  uf_ids :: "string list"           \<comment> \<open>empty when absent\<close>
  uf_status :: "user_status option"
  uf_role :: "string option"
  uf_q :: "string option"
  uf_limit :: nat
  uf_cursor :: "string option"

definition text_option :: "string option \<Rightarrow> string option" where
  \<comment> \<open>an optional string in a condition: absent and empty are both false\<close>
  "text_option x = (case x of Some (c # cs) \<Rightarrow> Some (c # cs) | _ \<Rightarrow> None)"

definition r_listUsers :: "users_filter \<Rightarrow> identity_store \<Rightarrow> user_row list \<times> string option" where
  "r_listUsers f s =
     (let rows = filter (\<lambda>u. us_org u = uf_org f) (st_users s);
          rows = (if uf_ids f \<noteq> [] then filter (\<lambda>u. us_id u \<in> set (uf_ids f)) rows else rows);
          rows = (case uf_status f of Some st \<Rightarrow> filter (\<lambda>u. us_status u = st) rows | None \<Rightarrow> rows);
          rows = (case text_option (uf_role f) of
                    Some rid \<Rightarrow>
                      (let holders = map as_user (filter (\<lambda>a. as_org a = uf_org f \<and> as_role a = rid) (st_assignments s))
                       in filter (\<lambda>u. us_id u \<in> set holders) rows)
                  | None \<Rightarrow> rows);
          rows = (case text_option (uf_q f) of
                    Some q \<Rightarrow>
                      (let needle = toLowerCase q in
                       filter (\<lambda>u. includes_text needle (toLowerCase (us_displayName u))
                         \<or> includes_text needle (toLowerCase (case us_furigana u of Some k \<Rightarrow> k | None \<Rightarrow> []))
                         \<or> includes_text needle (toLowerCase (us_email u))) rows)
                  | None \<Rightarrow> rows)
      in pageSlice us_id rows (uf_limit f) (uf_cursor f))"

definition r_createUser :: "user_row \<Rightarrow> identity_store \<Rightarrow> identity_store" where
  "r_createUser r s = s\<lparr>st_users := map_set us_id r (st_users s)\<rparr>"

record user_patch =
  up_displayName :: "string option"
  up_furigana :: "string option option"
  up_githubLogin :: "string option option"
  up_status :: "user_status option"
  up_source :: "user_source option"
  up_avatarUrl :: "string option option"

definition no_patch :: user_patch where
  "no_patch = \<lparr>up_displayName = None, up_furigana = None, up_githubLogin = None, up_status = None,
               up_source = None, up_avatarUrl = None\<rparr>"

definition or_else :: "'a option \<Rightarrow> 'a \<Rightarrow> 'a" where
  "or_else x d = (case x of Some v \<Rightarrow> v | None \<Rightarrow> d)"

definition patch_user :: "user_patch \<Rightarrow> string \<Rightarrow> user_row \<Rightarrow> user_row" where
  \<comment> \<open>\<open>{ ...u, ...patch, updatedAt }\<close>\<close>
  "patch_user p t u =
     u\<lparr>us_displayName := or_else (up_displayName p) (us_displayName u),
       us_furigana := or_else (up_furigana p) (us_furigana u),
       us_githubLogin := or_else (up_githubLogin p) (us_githubLogin u),
       us_status := or_else (up_status p) (us_status u),
       us_source := or_else (up_source p) (us_source u),
       us_avatarUrl := or_else (up_avatarUrl p) (us_avatarUrl u),
       us_updatedAt := t\<rparr>"

definition r_updateUser :: "string \<Rightarrow> user_patch \<Rightarrow> string \<Rightarrow> identity_store \<Rightarrow> identity_store" where
  "r_updateUser i p t s =
     (case r_getUser i s of
        None \<Rightarrow> s
      | Some u \<Rightarrow> s\<lparr>st_users := map_set us_id (patch_user p t u) (st_users s)\<rparr>)"

definition r_activateIfInvited :: "string \<Rightarrow> string \<Rightarrow> identity_store \<Rightarrow> bool \<times> identity_store" where
  "r_activateIfInvited i t s =
     (case r_getUser i s of
        None \<Rightarrow> (False, s)
      | Some u \<Rightarrow>
          if us_status u \<noteq> S_invited then (False, s)
          else (True, s\<lparr>st_users := map_set us_id (u\<lparr>us_status := S_active, us_updatedAt := t\<rparr>) (st_users s)\<rparr>))"

definition r_listUsersBySource :: "string \<Rightarrow> user_source \<Rightarrow> identity_store \<Rightarrow> user_row list" where
  "r_listUsersBySource org src s = filter (\<lambda>u. us_org u = org \<and> us_source u = src) (st_users s)"

section \<open>Roles\<close>

definition r_getRole :: "string \<Rightarrow> identity_store \<Rightarrow> role_row option" where
  "r_getRole i s = map_get rl_id i (st_roles s)"

definition r_getRoleByName :: "string \<Rightarrow> string \<Rightarrow> identity_store \<Rightarrow> role_row option" where
  "r_getRoleByName org name s = find (\<lambda>r. rl_org r = org \<and> rl_name r = name) (st_roles s)"

definition r_listRoles :: "string \<Rightarrow> nat \<Rightarrow> string option \<Rightarrow> identity_store \<Rightarrow> role_row list \<times> string option" where
  "r_listRoles org limit cursor s = pageSlice rl_id (filter (\<lambda>r. rl_org r = org) (st_roles s)) limit cursor"

definition r_createRole :: "role_row \<Rightarrow> string list \<Rightarrow> identity_store \<Rightarrow> identity_store" where
  "r_createRole r visible s =
     (let s = s\<lparr>st_roles := map_set rl_id r (st_roles s)\<rparr> in
      if length visible > 0 then s\<lparr>st_visibility := map_set fst (rl_id r, uniq visible) (st_visibility s)\<rparr> else s)"

definition r_updateRolePermissions :: "string \<Rightarrow> string option \<Rightarrow> permission list option \<Rightarrow> string
    \<Rightarrow> string list option \<Rightarrow> identity_store \<Rightarrow> identity_store" where
  "r_updateRolePermissions i name permissions t visible s =
     (case r_getRole i s of
        None \<Rightarrow> s
      | Some r \<Rightarrow>
          (let s = (case visible of
                      Some v \<Rightarrow> s\<lparr>st_visibility := map_set fst (i, uniq v) (st_visibility s)\<rparr>
                    | None \<Rightarrow> s)
           in s\<lparr>st_roles := map_set rl_id
                  (r\<lparr>rl_name := or_else name (rl_name r),
                     rl_permissions := or_else permissions (rl_permissions r), rl_updatedAt := t\<rparr>) (st_roles s)\<rparr>))"

definition r_deleteRole :: "string \<Rightarrow> identity_store \<Rightarrow> identity_store" where
  "r_deleteRole i s =
     s\<lparr>st_roles := map_delete rl_id i (st_roles s),
       st_assignments := filter (\<lambda>a. as_role a \<noteq> i) (st_assignments s),
       st_visibility := map (\<lambda>(r, ts). (r, filter (\<lambda>t. t \<noteq> i) ts)) (map_delete fst i (st_visibility s))\<rparr>"

fun push_holder :: "assignment_row \<Rightarrow> (string \<times> string list) list \<Rightarrow> (string \<times> string list) list" where
  "push_holder a [] = [(as_role a, [as_user a])]"
| "push_holder a (b # bs) =
     (if fst b = as_role a then (fst b, set_add (as_user a) (snd b)) # bs else b # push_holder a bs)"

definition r_roleMemberCounts :: "string \<Rightarrow> identity_store \<Rightarrow> (string \<times> nat) list" where
  "r_roleMemberCounts org s =
     map (\<lambda>(r, us). (r, length us))
       (fold (\<lambda>a m. if as_org a \<noteq> org then m else push_holder a m) (st_assignments s) [])"

section \<open>Assignments\<close>

definition r_listAssignmentsByUser :: "string \<Rightarrow> string \<Rightarrow> identity_store \<Rightarrow> assignment_row list" where
  "r_listAssignmentsByUser u org s = filter (\<lambda>a. as_user a = u \<and> as_org a = org) (st_assignments s)"

definition r_findAssignment :: "string \<Rightarrow> string \<Rightarrow> string \<Rightarrow> string option \<Rightarrow> string option
    \<Rightarrow> identity_store \<Rightarrow> assignment_row option" where
  "r_findAssignment u rid org rtype rres s =
     find (\<lambda>a. as_user a = u \<and> as_role a = rid \<and> as_org a = org
             \<and> or_else (as_resourceType a) [] = or_else rtype [] \<and> or_else (as_resourceId a) [] = or_else rres [])
       (st_assignments s)"

definition r_createAssignment :: "assignment_row \<Rightarrow> identity_store \<Rightarrow> identity_store" where
  "r_createAssignment r s = s\<lparr>st_assignments := map_set as_id r (st_assignments s)\<rparr>"

definition r_getAssignment :: "string \<Rightarrow> identity_store \<Rightarrow> assignment_row option" where
  "r_getAssignment i s = map_get as_id i (st_assignments s)"

definition r_deleteAssignment :: "string \<Rightarrow> identity_store \<Rightarrow> identity_store" where
  "r_deleteAssignment i s = s\<lparr>st_assignments := map_delete as_id i (st_assignments s)\<rparr>"

definition r_listAssignmentsByRole :: "string \<Rightarrow> identity_store \<Rightarrow> assignment_row list" where
  "r_listAssignmentsByRole rid s = filter (\<lambda>a. as_role a = rid) (st_assignments s)"

definition r_setAssignmentSource :: "string \<Rightarrow> assignment_source \<Rightarrow> identity_store \<Rightarrow> identity_store" where
  "r_setAssignmentSource i src s =
     (case r_getAssignment i s of
        Some a \<Rightarrow> s\<lparr>st_assignments := map_set as_id (a\<lparr>as_source := Some src\<rparr>) (st_assignments s)\<rparr>
      | None \<Rightarrow> s)"

section \<open>Who holds what\<close>

definition is_active :: "string \<Rightarrow> identity_store \<Rightarrow> bool" where
  "is_active i s = (case r_getUser i s of Some u \<Rightarrow> us_status u = S_active | None \<Rightarrow> False)"

definition r_usersWithOrgWidePermission :: "string \<Rightarrow> permission \<Rightarrow> identity_store \<Rightarrow> string list" where
  "r_usersWithOrgWidePermission org p s =
     (let roleIds = map rl_id (filter (\<lambda>r. rl_org r = org \<and> p \<in> set (rl_permissions r)) (st_roles s)) in
      fold (\<lambda>a users.
          if as_org a \<noteq> org then users
          else if \<not> org_wide a then users
          else if as_role a \<notin> set roleIds then users
          else (case r_getUser (as_user a) s of
                  Some u \<Rightarrow> if us_status u = S_active then set_add (us_id u) users else users
                | None \<Rightarrow> users)) (st_assignments s) [])"

definition r_orgWideRolePeers :: "string \<Rightarrow> string \<Rightarrow> permission \<Rightarrow> identity_store \<Rightarrow> string list" where
  "r_orgWideRolePeers org i p s =
     (let wide = (\<lambda>a. as_org a = org \<and> org_wide a);
          shared = fold (\<lambda>a ids.
              if as_user a \<noteq> i \<or> \<not> wide a then ids
              else (case r_getRole (as_role a) s of
                      Some r \<Rightarrow> if p \<in> set (rl_permissions r) then set_add (as_role a) ids else ids
                    | None \<Rightarrow> ids)) (st_assignments s) []
      in fold (\<lambda>a peers.
              if as_user a = i \<or> \<not> wide a \<or> as_role a \<notin> set shared then peers
              else if is_active (as_user a) s then set_add (as_user a) peers else peers) (st_assignments s) [])"

definition r_mailVisibilityByOrg :: "string \<Rightarrow> identity_store \<Rightarrow> (string \<times> string list) list" where
  "r_mailVisibilityByOrg org s =
     map (\<lambda>(rid, targets). (rid, sort targets))
       (filter (\<lambda>(rid, targets). (case r_getRole rid s of Some r \<Rightarrow> rl_org r = org | None \<Rightarrow> False) \<and> length targets > 0)
         (st_visibility s))"

definition r_orgWideMailVisibleUsers :: "string \<Rightarrow> string \<Rightarrow> identity_store \<Rightarrow> string list" where
  "r_orgWideMailVisibleUsers org i s =
     (let wide = (\<lambda>a. as_org a = org \<and> org_wide a);
          targets = fold (\<lambda>a ts.
              if as_user a \<noteq> i \<or> \<not> wide a then ts
              else fold set_add (or_else (map_of (st_visibility s) (as_role a)) []) ts) (st_assignments s) []
      in fold (\<lambda>a users.
              if as_user a = i \<or> \<not> wide a \<or> as_role a \<notin> set targets then users
              else if is_active (as_user a) s then set_add (as_user a) users else users) (st_assignments s) [])"

section \<open>The laws of the store\<close>

lemma map_get_set: "map_get k i (map_set k r xs) = (if i = k r then Some r else map_get k i xs)"
  by (induction xs) (auto simp: map_get_def)

lemma map_get_delete: "map_get k i (map_delete k j xs) = (if i = j then None else map_get k i xs)"
  by (induction xs) (auto simp: map_get_def map_delete_def)

lemma map_get_Some: "map_get k i xs = Some r \<Longrightarrow> r \<in> set xs \<and> k r = i"
  unfolding map_get_def by (drule find_Some_in) simp

lemma map_get_in: "distinct (map k xs) \<Longrightarrow> r \<in> set xs \<Longrightarrow> map_get k (k r) xs = Some r"
  unfolding map_get_def by (rule find_distinct_key)

lemma keys_map_set: "map k (map_set k r xs) = (if k r \<in> k ` set xs then map k xs else map k xs @ [k r])"
  by (induction xs) auto

lemma distinct_map_set [simp]: "distinct (map k xs) \<Longrightarrow> distinct (map k (map_set k r xs))"
  unfolding keys_map_set by auto

lemma distinct_map_delete [simp]: "distinct (map k xs) \<Longrightarrow> distinct (map k (map_delete k i xs))"
  by (simp add: map_delete_def distinct_map_filter)

lemma set_map_set: "distinct (map k xs) \<Longrightarrow> set (map_set k r xs) = insert r {x \<in> set xs. k x \<noteq> k r}"
proof (induction xs)
  case (Cons x xs)
  show ?case
  proof (cases "k x = k r")
    case True
    have "k r \<notin> k ` set xs" using Cons.prems True by simp
    then have "k y \<noteq> k r" if "y \<in> set xs" for y using that by (metis image_eqI)
    then have "{y \<in> set xs. k y \<noteq> k r} = set xs" by blast
    with True show ?thesis by auto
  next
    case False
    with Cons show ?thesis by auto
  qed
qed simp

lemma set_map_delete [simp]: "set (map_delete k i xs) = {x \<in> set xs. k x \<noteq> i}"
  by (auto simp: map_delete_def)

end
