(* ===== verification/Authz_Granter.thy ===== *)
theory Authz_Granter
  imports Policy_Gate Identity_Store
begin

text \<open>
  Who decides, and how long a decision is believed: the evaluator of identity-roster
  (\<open>services/identity-roster/src/authz.ts\<close>, \<open>service.ts\<close> and \<open>in-process-granter.ts\<close>), the decision
  cache (\<open>packages/policy-gate/src/authz-cache.ts\<close>) and the granter that asks identity for what the
  cache does not know (\<open>authz.ts\<close>). The granter is cut at its awaits: reading the cache, taking the
  answer to one batch, and the final filter are the segments between which other requests that share
  the cache may run. Times are milliseconds; a time to live is any number.
\<close>

section \<open>The evaluator\<close>

record eval_context =
  ec_user :: "user_row option"
  ec_org :: string
  ec_roleById :: "(string \<times> role_row) list"
  ec_assignments :: "assignment_row list"

definition loadEvalContext :: "string \<Rightarrow> string \<Rightarrow> identity_store \<Rightarrow> eval_context" where
  "loadEvalContext userId orgId s =
     (let user = r_getUser userId s;
          assignments = (if user \<noteq> None then r_listAssignmentsByUser userId orgId s else []);
          roleById = fold (\<lambda>a m. if as_role a \<in> fst ` set m then m
              else (case r_getRole (as_role a) s of Some r \<Rightarrow> m @ [(rl_id r, r)] | None \<Rightarrow> m)) assignments []
      in \<lparr>ec_user = user, ec_org = orgId, ec_roleById = roleById, ec_assignments = assignments\<rparr>)"

record authz_query =
  aq_permission :: string
  aq_resourceType :: "string option"
  aq_resourceId :: "string option"

definition org_wide_query :: "string \<Rightarrow> authz_query" where
  "org_wide_query p = \<lparr>aq_permission = p, aq_resourceType = None, aq_resourceId = None\<rparr>"

fun some_assignment_grants :: "eval_context \<Rightarrow> authz_query \<Rightarrow> assignment_row list \<Rightarrow> bool" where
  \<comment> \<open>the loop over the assignments, with its \<open>continue\<close>s and early returns\<close>
  "some_assignment_grants ctx q [] = False"
| "some_assignment_grants ctx q (a # as) =
     (if as_org a \<noteq> ec_org ctx then some_assignment_grants ctx q as
      else (case map_of (ec_roleById ctx) (as_role a) of
              None \<Rightarrow> some_assignment_grants ctx q as
            | Some r \<Rightarrow>
                if aq_permission q \<notin> set (rl_permissions r) then some_assignment_grants ctx q as
                else if org_wide a then True
                else if as_resourceType a = aq_resourceType q \<and> as_resourceId a = aq_resourceId q then True
                else some_assignment_grants ctx q as))"

definition evaluate :: "eval_context \<Rightarrow> authz_query \<Rightarrow> bool" where
  "evaluate ctx q =
     (case ec_user ctx of
        None \<Rightarrow> False
      | Some u \<Rightarrow>
          if us_status u \<noteq> S_active \<or> us_org u \<noteq> ec_org ctx then False
          else if \<not> isPermissionKey (aq_permission q) then False
          else some_assignment_grants ctx q (ec_assignments ctx))"

definition effectiveOrgWidePermissions :: "eval_context \<Rightarrow> permission list" where
  "effectiveOrgWidePermissions ctx =
     (case ec_user ctx of
        None \<Rightarrow> []
      | Some u \<Rightarrow>
          if us_status u \<noteq> S_active \<or> us_org u \<noteq> ec_org ctx then []
          else fold (\<lambda>a ps.
                 if as_org a \<noteq> ec_org ctx then ps
                 else if \<not> org_wide a then ps
                 else (case map_of (ec_roleById ctx) (as_role a) of
                         None \<Rightarrow> ps
                       | Some r \<Rightarrow> fold set_add (rl_permissions r) ps)) (ec_assignments ctx) [])"

record authz_decision =
  ad_allowed :: bool
  ad_evaluatedAt :: string
  ad_ttlSeconds :: rat

definition AUTHZ_TTL_SECONDS :: rat where
  "AUTHZ_TTL_SECONDS = 60"

definition MAX_BATCH_CHECKS :: nat where
  "MAX_BATCH_CHECKS = 20"

definition authzCheck :: "string \<Rightarrow> string \<Rightarrow> string \<Rightarrow> authz_query list \<Rightarrow> identity_store
    \<Rightarrow> dub_error + authz_decision list" where
  "authzCheck evaluatedAt subject orgId checks s =
     (if length checks < 1 \<or> length checks > MAX_BATCH_CHECKS
      then Inl (validationFailed [(''checks'', if length checks > MAX_BATCH_CHECKS then ''too_long'' else ''required'')])
      else (let ctx = loadEvalContext subject orgId s in
            Inr (map (\<lambda>q. \<lparr>ad_allowed = evaluate ctx q, ad_evaluatedAt = evaluatedAt,
                            ad_ttlSeconds = AUTHZ_TTL_SECONDS\<rparr>) checks)))"

definition can :: "string \<Rightarrow> string \<Rightarrow> authz_query \<Rightarrow> identity_store \<Rightarrow> bool" where
  "can userId orgId q s = evaluate (loadEvalContext userId orgId s) q"

definition effectivePermissions :: "string \<Rightarrow> string \<Rightarrow> identity_store \<Rightarrow> permission list" where
  "effectivePermissions userId orgId s = effectiveOrgWidePermissions (loadEvalContext userId orgId s)"

definition createInProcessGranter :: "identity_store granter" where
  "createInProcessGranter userId orgId keys s =
     (if length keys = 0 then (Inr [], s)
      else (let held = effectivePermissions userId orgId s in (Inr (filter (\<lambda>k. k \<in> set held) keys), s)))"

section \<open>The cache\<close>

definition DANGEROUS_PERMISSION_KEYS :: "permission list" where
  "DANGEROUS_PERMISSION_KEYS = map pe_key (filter pe_dangerous PERMISSION_CATALOG)"

definition isDangerousPermission :: "string \<Rightarrow> bool" where
  "isDangerousPermission key = (key \<in> set DANGEROUS_PERMISSION_KEYS)"

record cache_options =
  co_maxEntries :: int
  co_maxTtlSeconds :: rat

definition default_cache :: cache_options where
  "default_cache = \<lparr>co_maxEntries = 1000, co_maxTtlSeconds = 300\<rparr>"

record cache_entry =
  ce_key :: string
  ce_allowed :: bool
  ce_expiresAt :: rat
  ce_user :: string

definition NUL :: char where
  "NUL = char_of (0 :: nat)"

definition cacheKey :: "string \<Rightarrow> string \<Rightarrow> string \<Rightarrow> string" where
  "cacheKey userId orgId permission = userId @ [NUL] @ orgId @ [NUL] @ permission"

definition cache_get :: "cache_options \<Rightarrow> ms \<Rightarrow> string \<Rightarrow> string \<Rightarrow> string \<Rightarrow> cache_entry list
    \<Rightarrow> bool option \<times> cache_entry list" where
  "cache_get opts now userId orgId permission entries =
     (if co_maxEntries opts \<le> 0 \<or> isDangerousPermission permission then (None, entries)
      else (let key = cacheKey userId orgId permission in
            case map_get ce_key key entries of
              None \<Rightarrow> (None, entries)
            | Some hit \<Rightarrow>
                if ce_expiresAt hit \<le> of_int now then (None, map_delete ce_key key entries)
                else (Some (ce_allowed hit), map_delete ce_key key entries @ [hit])))"

fun evict_oldest :: "int \<Rightarrow> cache_entry list \<Rightarrow> cache_entry list" where
  \<comment> \<open>\<open>while (entries.size >= maxEntries)\<close>: the first entry is the least recently used\<close>
  "evict_oldest maxEntries [] = []"
| "evict_oldest maxEntries (e # es) =
     (if int (length (e # es)) \<ge> maxEntries then evict_oldest maxEntries es else e # es)"

definition cache_set :: "cache_options \<Rightarrow> ms \<Rightarrow> string \<Rightarrow> string \<Rightarrow> string \<Rightarrow> bool \<Rightarrow> rat
    \<Rightarrow> cache_entry list \<Rightarrow> cache_entry list" where
  "cache_set opts now userId orgId permission allowed ttlSeconds entries =
     (if co_maxEntries opts \<le> 0 \<or> isDangerousPermission permission then entries
      else if ttlSeconds \<le> 0 then entries
      else (let ttl = min ttlSeconds (co_maxTtlSeconds opts);
                key = cacheKey userId orgId permission
            in evict_oldest (co_maxEntries opts) (map_delete ce_key key entries)
                 @ [\<lparr>ce_key = key, ce_allowed = allowed, ce_expiresAt = of_int now + ttl * 1000, ce_user = userId\<rparr>]))"

definition cache_invalidate :: "string option \<Rightarrow> cache_entry list \<Rightarrow> cache_entry list" where
  "cache_invalidate userId entries =
     (case userId of None \<Rightarrow> [] | Some u \<Rightarrow> filter (\<lambda>e. ce_user e \<noteq> u) entries)"

section \<open>The granter, cut at its awaits\<close>

record grant_job =
  gj_user :: string
  gj_org :: string
  gj_keys :: "permission list"
  gj_allowed :: "bool option list"  \<comment> \<open>\<open>allowed\<close>, by position\<close>
  gj_missing :: "nat list"          \<comment> \<open>the part of \<open>missIdx\<close> not yet asked\<close>

fun read_cache :: "cache_options \<Rightarrow> ms \<Rightarrow> string \<Rightarrow> string \<Rightarrow> permission list \<Rightarrow> cache_entry list
    \<Rightarrow> bool option list \<times> cache_entry list" where
  "read_cache opts now u org [] es = ([], es)"
| "read_cache opts now u org (k # ks) es =
     (let (hit, es) = (if isDangerousPermission k then (None, es) else cache_get opts now u org k es);
          (hits, es) = read_cache opts now u org ks es
      in (hit # hits, es))"

definition start_grant :: "cache_options \<Rightarrow> ms \<Rightarrow> string \<Rightarrow> string \<Rightarrow> permission list \<Rightarrow> cache_entry list
    \<Rightarrow> grant_job \<times> cache_entry list" where
  "start_grant opts now u org keys es =
     (let (hits, es) = read_cache opts now u org keys es
      in (\<lparr>gj_user = u, gj_org = org, gj_keys = keys, gj_allowed = hits,
           gj_missing = filter (\<lambda>i. hits ! i = None) [0..<length keys]\<rparr>, es))"

definition next_batch :: "grant_job \<Rightarrow> nat list" where
  "next_batch j = take MAX_BATCH_CHECKS (gj_missing j)"

definition batch_checks :: "grant_job \<Rightarrow> permission list" where
  "batch_checks j = map (\<lambda>i. gj_keys j ! i) (next_batch j)"

fun record_decisions :: "cache_options \<Rightarrow> ms \<Rightarrow> grant_job \<Rightarrow> nat list \<Rightarrow> authz_decision list
    \<Rightarrow> bool option list \<Rightarrow> cache_entry list \<Rightarrow> bool option list \<times> cache_entry list" where
  \<comment> \<open>an absent decision is not held and is not cached\<close>
  "record_decisions opts now j (i # is) (d # ds) allowed es =
     record_decisions opts now j is ds (allowed[i := Some (ad_allowed d)])
       (cache_set opts now (gj_user j) (gj_org j) (gj_keys j ! i) (ad_allowed d) (ad_ttlSeconds d) es)"
| "record_decisions opts now j is ds allowed es = (allowed, es)"

definition take_answer :: "cache_options \<Rightarrow> ms \<Rightarrow> authz_decision list \<Rightarrow> grant_job \<Rightarrow> cache_entry list
    \<Rightarrow> grant_job \<times> cache_entry list" where
  "take_answer opts now decisions j es =
     (let (allowed, es) = record_decisions opts now j (next_batch j) decisions (gj_allowed j) es
      in (j\<lparr>gj_allowed := allowed, gj_missing := drop MAX_BATCH_CHECKS (gj_missing j)\<rparr>, es))"

definition finish_grant :: "grant_job \<Rightarrow> permission list" where
  "finish_grant j = map fst (filter (\<lambda>(k, a). a = Some True) (zip (gj_keys j) (gj_allowed j)))"

lemma missing_take_answer: "gj_missing (fst (take_answer opts now ds j es)) = drop MAX_BATCH_CHECKS (gj_missing j)"
  by (simp add: take_answer_def split: prod.split)

text \<open>The whole call, when nothing else runs in between. \<open>post\<close> is the call to \<open>/authz/check\<close>.\<close>

function ask_missing :: "cache_options \<Rightarrow> ms
    \<Rightarrow> (string \<Rightarrow> string \<Rightarrow> permission list \<Rightarrow> 'w \<Rightarrow> (thrown + authz_decision list) \<times> 'w)
    \<Rightarrow> grant_job \<Rightarrow> cache_entry list \<times> 'w \<Rightarrow> (thrown + permission list) \<times> (cache_entry list \<times> 'w)" where
  "ask_missing opts now post j (es, w) =
     (if gj_missing j = [] then (Inr (finish_grant j), (es, w))
      else (case post (gj_user j) (gj_org j) (batch_checks j) w of
              (Inl e, w) \<Rightarrow> (Inl e, (es, w))
            | (Inr decisions, w) \<Rightarrow>
                (let r = take_answer opts now decisions j es in ask_missing opts now post (fst r) (snd r, w))))"
  by pat_completeness auto
termination
  by (relation "measure (\<lambda>(opts, now, post, j, es, w). length (gj_missing j))")
    (simp_all add: missing_take_answer MAX_BATCH_CHECKS_def)

definition createAuthzGranter :: "cache_options \<Rightarrow> ms
    \<Rightarrow> (string \<Rightarrow> string \<Rightarrow> permission list \<Rightarrow> 'w \<Rightarrow> (thrown + authz_decision list) \<times> 'w)
    \<Rightarrow> (cache_entry list \<times> 'w) granter" where
  "createAuthzGranter opts now post userId orgId keys s =
     (if length keys = 0 then (Inr [], s)
      else (let (j, es) = start_grant opts now userId orgId keys (fst s)
            in ask_missing opts now post j (es, snd s)))"

section \<open>Requests that share a cache\<close>

text \<open>
  One isolate serves many requests with one cache. A step starts a call, takes identity's answer to the
  next batch of some call, or invalidates. \<open>answer\<close> is what identity would say at a moment; a call
  whose post fails has no further step.
\<close>

datatype cache_event =
    E_start ms string string "permission list"
  | E_answer ms nat
  | E_invalidate ms "string option"

fun event_time :: "cache_event \<Rightarrow> ms" where
  "event_time (E_start t u org ks) = t"
| "event_time (E_answer t n) = t"
| "event_time (E_invalidate t u) = t"

record shared_cache =
  sc_entries :: "cache_entry list"
  sc_jobs :: "(ms \<times> grant_job) list"  \<comment> \<open>the calls, each with the moment it started\<close>

type_synonym identity_answers = "ms \<Rightarrow> string \<Rightarrow> string \<Rightarrow> permission list \<Rightarrow> authz_decision list"

fun cache_step :: "cache_options \<Rightarrow> identity_answers \<Rightarrow> cache_event \<Rightarrow> shared_cache \<Rightarrow> shared_cache" where
  "cache_step opts answer (E_start t u org ks) s =
     (let (j, es) = start_grant opts t u org ks (sc_entries s)
      in s\<lparr>sc_entries := es, sc_jobs := sc_jobs s @ [(t, j)]\<rparr>)"
| "cache_step opts answer (E_answer t n) s =
     (if n < length (sc_jobs s)
      then (let (t0, j) = sc_jobs s ! n;
                (j', es) = take_answer opts t (answer t (gj_user j) (gj_org j) (batch_checks j)) j (sc_entries s)
            in s\<lparr>sc_entries := es, sc_jobs := (sc_jobs s)[n := (t0, j')]\<rparr>)
      else s)"
| "cache_step opts answer (E_invalidate t u) s = s\<lparr>sc_entries := cache_invalidate u (sc_entries s)\<rparr>"

definition empty_cache :: shared_cache where
  "empty_cache = \<lparr>sc_entries = [], sc_jobs = []\<rparr>"

text \<open>Moments never go back, and the ids are header values, which hold no NUL.\<close>

fun clean_event :: "cache_event \<Rightarrow> bool" where
  "clean_event (E_start t u org ks) = (NUL \<notin> set u \<and> NUL \<notin> set org)"
| "clean_event _ = True"

inductive cache_run :: "cache_options \<Rightarrow> identity_answers \<Rightarrow> ms \<Rightarrow> shared_cache \<Rightarrow> bool" for opts answer where
  cold: "cache_run opts answer t empty_cache"
| next_event: "cache_run opts answer t s \<Longrightarrow> t \<le> event_time e \<Longrightarrow> clean_event e
    \<Longrightarrow> cache_run opts answer (event_time e) (cache_step opts answer e s)"














lemma evict_length: "0 < m \<Longrightarrow> int (length (evict_oldest m es)) < m"
  by (induction es) auto



lemma cache_get_length: "length (snd (cache_get opts now u org p es)) \<le> length es"
proof (cases "map_get ce_key (cacheKey u org p) es")
  case (Some e)
  from map_get_Some[OF this] have "e \<in> set es" "ce_key e = cacheKey u org p" by auto
  then have "length (map_delete ce_key (cacheKey u org p) es) < length es"
    unfolding map_delete_def by (intro length_filter_less[of e]) auto
  with Some show ?thesis by (simp add: cache_get_def Let_def)
qed (simp add: cache_get_def Let_def)


lemma cache_set_length:
  assumes "int (length es) \<le> max 0 (co_maxEntries opts)"
  shows "int (length (cache_set opts now u org p a ttl es)) \<le> max 0 (co_maxEntries opts)"
  using assms evict_length[of "co_maxEntries opts" "map_delete ce_key (cacheKey u org p) es"]
  by (auto simp: cache_set_def Let_def)

section \<open>What a cached decision is worth\<close>







lemma cache_step_size:
  assumes "int (length (sc_entries s)) \<le> max 0 (co_maxEntries opts)"
  shows "int (length (sc_entries (cache_step opts answer e s))) \<le> max 0 (co_maxEntries opts)"
proof (cases e)
  case (E_start t u org ks)
  have "length (snd (read_cache opts t u org ks es)) \<le> length es" for es
  proof (induction ks arbitrary: es)
    case (Cons k ks)
    from Cons[of "snd (cache_get opts t u org k es)"] Cons[of es] cache_get_length[of opts t u org k es]
    show ?case by (auto simp: Let_def split: prod.splits)
  qed simp
  from this[of "sc_entries s"] assms E_start show ?thesis by (auto simp: start_grant_def split: prod.splits)
next
  case (E_answer t n)
  have "int (length (snd (record_decisions opts t j is ds al es))) \<le> max 0 (co_maxEntries opts)"
    if "int (length es) \<le> max 0 (co_maxEntries opts)" for j "is" ds al es
    using that by (induction opts t j "is" ds al es rule: record_decisions.induct) (auto intro!: cache_set_length)
  from this[OF assms] show ?thesis using E_answer assms
    by (auto simp: take_answer_def split: prod.splits) (metis snd_conv)+
next
  case (E_invalidate t u)
  have "length (cache_invalidate u (sc_entries s)) \<le> length (sc_entries s)"
    by (simp add: cache_invalidate_def split: option.split)
  with assms E_invalidate show ?thesis by simp
qed

section \<open>Who holds a key\<close>

definition holds_key :: "identity_store \<Rightarrow> string \<Rightarrow> string \<Rightarrow> permission \<Rightarrow> bool" where
  "holds_key s u org p =
     ((\<exists>x. r_getUser u s = Some x \<and> us_status x = S_active \<and> us_org x = org)
      \<and> (\<exists>a\<in>set (st_assignments s). as_user a = u \<and> as_org a = org \<and> org_wide a
           \<and> (\<exists>r. r_getRole (as_role a) s = Some r \<and> p \<in> set (rl_permissions r))))"

lemma r_getRole_id: "r_getRole i s = Some r \<Longrightarrow> rl_id r = i"
  unfolding r_getRole_def by (drule map_get_Some) simp

lemma role_map:
  "map_of (fold (\<lambda>a m. if as_role a \<in> fst ` set m then m
      else (case r_getRole (as_role a) s of Some r \<Rightarrow> m @ [(rl_id r, r)] | None \<Rightarrow> m)) as m) rid
   = (case map_of m rid of Some r \<Rightarrow> Some r | None \<Rightarrow> if rid \<in> as_role ` set as then r_getRole rid s else None)"
proof (induction "as" arbitrary: m)
  case Nil
  then show ?case by (simp split: option.split)
next
  case (Cons a as)
  show ?case
  proof (cases "as_role a \<in> fst ` set m")
    case True
    then have "map_of m (as_role a) \<noteq> None" by (simp add: map_of_eq_None_iff)
    with True Cons show ?thesis by (auto split: option.splits)
  next
    case False
    then show ?thesis using Cons
      by (cases "r_getRole (as_role a) s") (auto simp: map_add_def dest: r_getRole_id split: option.splits)
  qed
qed

lemma loaded_role:
  "rid \<in> as_role ` set (ec_assignments (loadEvalContext u org s))
     \<Longrightarrow> map_of (ec_roleById (loadEvalContext u org s)) rid = r_getRole rid s"
  by (simp add: loadEvalContext_def Let_def role_map)

lemma grants_iff:
  "some_assignment_grants ctx (org_wide_query p) as \<longleftrightarrow>
     (\<exists>a\<in>set as. as_org a = ec_org ctx \<and> org_wide a
        \<and> (\<exists>r. map_of (ec_roleById ctx) (as_role a) = Some r \<and> p \<in> set (rl_permissions r)))"
  by (induction "as") (auto simp: org_wide_query_def org_wide_def split: option.splits)

lemma evaluate_iff:
  "evaluate (loadEvalContext u org s) (org_wide_query p) \<longleftrightarrow> isPermissionKey p \<and> holds_key s u org p"
proof (cases "r_getUser u s")
  case None
  then show ?thesis by (simp add: evaluate_def loadEvalContext_def Let_def holds_key_def)
next
  case (Some x)
  have ctx: "ec_user (loadEvalContext u org s) = Some x" "ec_org (loadEvalContext u org s) = org"
    "ec_assignments (loadEvalContext u org s) = r_listAssignmentsByUser u org s"
    using Some by (simp_all add: loadEvalContext_def Let_def)
  have "some_assignment_grants (loadEvalContext u org s) (org_wide_query p) (r_listAssignmentsByUser u org s)
      \<longleftrightarrow> (\<exists>a\<in>set (r_listAssignmentsByUser u org s). org_wide a
             \<and> (\<exists>r. r_getRole (as_role a) s = Some r \<and> p \<in> set (rl_permissions r)))"
    unfolding grants_iff ctx using loaded_role[of _ u org s, unfolded ctx(3)]
    by (auto simp: r_listAssignmentsByUser_def)
  then show ?thesis
    by (auto simp: evaluate_def ctx Some holds_key_def org_wide_query_def[of p, symmetric] r_listAssignmentsByUser_def)
       (auto simp: org_wide_query_def)
qed

lemma effective_loop:
  "set (fold (\<lambda>a ps.
         if as_org a \<noteq> ec_org ctx then ps
         else if \<not> org_wide a then ps
         else (case map_of (ec_roleById ctx) (as_role a) of
                 None \<Rightarrow> ps
               | Some r \<Rightarrow> fold set_add (rl_permissions r) ps)) as ps)
   = set ps \<union> {p. \<exists>a\<in>set as. as_org a = ec_org ctx \<and> org_wide a
        \<and> (\<exists>r. map_of (ec_roleById ctx) (as_role a) = Some r \<and> p \<in> set (rl_permissions r))}"
  by (induction "as" arbitrary: ps) (auto split: option.splits)

lemma effective_iff: "p \<in> set (effectivePermissions u org s) \<longleftrightarrow> holds_key s u org p"
proof (cases "r_getUser u s")
  case None
  then show ?thesis
    by (simp add: effectivePermissions_def effectiveOrgWidePermissions_def loadEvalContext_def Let_def holds_key_def)
next
  case (Some x)
  have ctx: "ec_user (loadEvalContext u org s) = Some x" "ec_org (loadEvalContext u org s) = org"
    "ec_assignments (loadEvalContext u org s) = r_listAssignmentsByUser u org s"
    using Some by (simp_all add: loadEvalContext_def Let_def)
  show ?thesis using Some effective_loop[of "loadEvalContext u org s" "r_listAssignmentsByUser u org s" "[]"]
      loaded_role[of _ u org s, unfolded ctx(3)]
    by (auto simp: effectivePermissions_def effectiveOrgWidePermissions_def ctx holds_key_def r_listAssignmentsByUser_def)
qed

text \<open>
  identity-roster's own gate and \<open>/authz/check\<close> never disagree: for keys of the catalog the
  in-process granter answers with exactly the keys, in the caller's order, that one evaluation each
  would allow.
\<close>

theorem in_process_granter_is_authz_check:
  assumes "list_all isPermissionKey keys"
  shows "createInProcessGranter u org keys s
     = (Inr (filter (\<lambda>k. evaluate (loadEvalContext u org s) (org_wide_query k)) keys), s)"
proof -
  have "filter (\<lambda>k. k \<in> set (effectivePermissions u org s)) keys
      = filter (\<lambda>k. evaluate (loadEvalContext u org s) (org_wide_query k)) keys"
    using assms by (intro filter_cong) (auto simp: evaluate_iff effective_iff list_all_iff)
  then show ?thesis by (cases keys) (simp_all add: createInProcessGranter_def)
qed

definition demo_roster :: identity_store where
  "demo_roster =
     \<lparr>st_orgs = [\<lparr>og_id = ''o'', og_name = ''Dub'', og_createdAt = ''''\<rparr>],
      st_users = [\<lparr>us_id = ''u'', us_org = ''o'', us_email = ''u@x.jp'', us_displayName = ''U'', us_furigana = None,
                   us_githubLogin = None, us_avatarUrl = None, us_status = S_active, us_source = U_manual,
                   us_createdAt = '''', us_updatedAt = ''''\<rparr>],
      st_roles = [\<lparr>rl_id = ''r'', rl_org = ''o'', rl_name = ''admin'', rl_isSystem = True,
                   rl_permissions = [''identity:admin'', ''task:read''], rl_createdAt = '''', rl_updatedAt = ''''\<rparr>],
      st_assignments = [\<lparr>as_id = ''a'', as_user = ''u'', as_role = ''r'', as_org = ''o'', as_resourceType = None,
                   as_resourceId = None, as_grantedBy = ''u'', as_grantedAt = '''', as_source = None\<rparr>],
      st_visibility = []\<rparr>"

theorem in_process_granter_is_authz_check_witness:
  "createInProcessGranter ''u'' ''o'' [''task:write'', ''task:read''] demo_roster
     = (Inr (filter (\<lambda>k. evaluate (loadEvalContext ''u'' ''o'' demo_roster) (org_wide_query k)) [''task:write'', ''task:read'']),
        demo_roster)"
proof -
  have "list_all isPermissionKey [''task:write'', ''task:read'']" by code_simp
  then show ?thesis by (rule in_process_granter_is_authz_check)
qed

section \<open>How stale an accepted key can be\<close>

text \<open>Identity's answers over time, from the roster it holds at each moment.\<close>

definition roster_answers :: "(ms \<Rightarrow> string) \<Rightarrow> (ms \<Rightarrow> identity_store) \<Rightarrow> identity_answers" where
  "roster_answers stamp roster t u org ps =
     (case authzCheck (stamp t) u org (map org_wide_query ps) (roster t) of Inr ds \<Rightarrow> ds | Inl _ \<Rightarrow> [])"



definition demo_shared :: "shared_cache" where
  "demo_shared = fold (cache_step default_cache (roster_answers (\<lambda>_. '''') (\<lambda>_. demo_roster)))
     [E_start 0 ''u'' ''o'' [''task:read''], E_answer 5 0, E_start 59000 ''u'' ''o'' [''task:read'']] empty_cache"

lemma demo_shared_reachable: "cache_run default_cache (roster_answers (\<lambda>_. '''') (\<lambda>_. demo_roster)) 59000 demo_shared"
proof -
  let ?A = "roster_answers (\<lambda>_. '''') (\<lambda>_. demo_roster)"
  note step = cache_run.next_event[of default_cache ?A]
  have clean: "clean_event (E_start t ''u'' ''o'' ks)" for t ks by (simp add: NUL_def char_of_def)
  from step[OF cache_run.cold[of _ _ 0], of "E_start 0 ''u'' ''o'' [''task:read'']"] clean
  have "cache_run default_cache ?A 0 (cache_step default_cache ?A (E_start 0 ''u'' ''o'' [''task:read'']) empty_cache)"
    by simp
  from step[OF step[OF this, of "E_answer 5 0"], of "E_start 59000 ''u'' ''o'' [''task:read'']"] clean
  show ?thesis by (simp add: demo_shared_def)
qed


text \<open>
  The cache never holds more entries than it may, and disabling it keeps it empty, in every run.
\<close>

theorem cache_stays_bounded:
  assumes "cache_run opts answer now s"
  shows "int (length (sc_entries s)) \<le> max 0 (co_maxEntries opts)"
  using assms by (induction rule: cache_run.induct) (auto simp: empty_cache_def intro: cache_step_size)

theorem cache_stays_bounded_witness: "int (length (sc_entries demo_shared)) \<le> max 0 (co_maxEntries default_cache)"
  by (rule cache_stays_bounded[OF demo_shared_reachable])

section \<open>The granter port\<close>

text \<open>
  What the gate relies on: a granter answers with keys it was asked about. Then a request that passes a
  key check was answered with exactly the keys of its rule.
\<close>

locale permission_granter =
  fixes granted :: "'w granter"
  assumes only_asked: "granted u org ks w = (Inr held, w') \<Longrightarrow> set held \<subseteq> set ks"
begin

lemma admitted_with_every_key:
  assumes "go_granted opts = granted" "passed (check_keys opts key ks c w)"
  shows "\<exists>a w1 held w2. resolveActor opts c w = (Inr (Some a), w1) \<and> a \<noteq> []
           \<and> granted a (go_org opts) ks w1 = (Inr held, w2) \<and> set held = set ks"
  using assms(2) unfolding passed_check_keys assms(1) by (meson only_asked subset_antisym)

end

interpretation in_process: permission_granter createInProcessGranter
  by unfold_locales (auto simp: createInProcessGranter_def Let_def split: if_splits)

interpretation role: permission_granter "role_granter granted" for granted
  by unfold_locales (auto simp: role_granter_def)

lemma keys_take_answer: "gj_keys (fst (take_answer opts now ds j es)) = gj_keys j"
  by (simp add: take_answer_def split: prod.split)

lemma finish_asked: "set (finish_grant j) \<subseteq> set (gj_keys j)"
proof
  fix k
  assume "k \<in> set (finish_grant j)"
  then have "(k, Some True) \<in> set (zip (gj_keys j) (gj_allowed j))" by (auto simp: finish_grant_def)
  then show "k \<in> set (gj_keys j)" by (rule set_zip_leftD)
qed

lemma ask_missing_asked:
  "fst (ask_missing opts now post j s) = Inr held \<Longrightarrow> set held \<subseteq> set (gj_keys j)"
proof (induction opts now post j s rule: ask_missing.induct)
  case (1 opts now post j es w)
  show ?case
  proof (cases "gj_missing j = []")
    case True
    with "1.prems" show ?thesis using finish_asked[of j] by simp
  next
    case False
    obtain r w' where post: "post (gj_user j) (gj_org j) (batch_checks j) w = (r, w')" by fastforce
    show ?thesis
    proof (cases r)
      case (Inl e)
      with False post "1.prems" show ?thesis by simp
    next
      case (Inr ds)
      with False post "1.prems" have "fst (ask_missing opts now post (fst (take_answer opts now ds j es))
          (snd (take_answer opts now ds j es), w')) = Inr held"
        by (simp add: Let_def)
      from "1.IH"[OF False post[symmetric] Inr refl this] show ?thesis by (simp add: keys_take_answer)
    qed
  qed
qed

interpretation wire: permission_granter "createAuthzGranter opts now post" for opts now post
proof
  fix u org ks w held w'
  assume a: "createAuthzGranter opts now post u org ks w = (Inr held, w')"
  show "set held \<subseteq> set ks"
  proof (cases "ks = []")
    case True
    with a show ?thesis by (simp add: createAuthzGranter_def)
  next
    case False
    obtain j es where j: "start_grant opts now u org ks (fst w) = (j, es)" by fastforce
    then have "gj_keys j = ks" by (auto simp: start_grant_def split: prod.splits)
    with a False j ask_missing_asked[of opts now post j "(es, snd w)" held] show ?thesis
      by (simp add: createAuthzGranter_def)
  qed
qed

end
