(* ===== verification/Identity_Service.thy ===== *)
theory Identity_Service
  imports Authz_Granter
begin

text \<open>
  \<open>services/identity-roster/src/service.ts\<close>: the operations on the roster. An operation takes the
  environment of the call and the store, and returns what it returned or threw together with the store
  it left. The best-effort audit never throws (\<open>deps.ts\<close>) and is left out; the write-ahead audit and
  the session revoker may throw, and then nothing after them happens. A typed request field that may be
  absent is an option, a field of type \<open>unknown\<close> a JavaScript value; Japanese texts are in English.
\<close>

record identity_env =
  ev_now :: string
  ev_newId :: "string \<Rightarrow> nat \<Rightarrow> string"   \<comment> \<open>the n-th id of the call with this prefix\<close>
  ev_actorId :: "string option"
  ev_logSync :: "thrown option"       \<comment> \<open>what the write-ahead audit throws, if it fails\<close>
  ev_revoke :: "thrown option"        \<comment> \<open>what the session revoker throws, if it fails\<close>

type_synonym 'a result = "(thrown + 'a) \<times> identity_store"

definition fails :: "dub_error \<Rightarrow> identity_store \<Rightarrow> 'a result" where
  "fails e s = (Inl (TDub e), s)"

definition returns :: "'a \<Rightarrow> identity_store \<Rightarrow> 'a result" where
  "returns a s = (Inr a, s)"

definition after :: "thrown option \<Rightarrow> 'a result \<Rightarrow> identity_store \<Rightarrow> 'a result" where
  \<comment> \<open>\<open>await effect(); ...\<close>: nothing follows an effect that throws\<close>
  "after effect rest s = (case effect of Some e \<Rightarrow> (Inl e, s) | None \<Rightarrow> rest)"

definition invalid :: "string \<Rightarrow> string \<Rightarrow> dub_error" where
  "invalid field reason = validationFailed [(field, reason)]"

definition code_details :: "string \<Rightarrow> js" where
  "code_details c = JObj [(''code'', JStr c)]"

definition ADMIN :: permission where "ADMIN = ''identity:admin''"
definition MANAGED_ROLE_ID_PREFIX :: string where "MANAGED_ROLE_ID_PREFIX = ''role_auto_''"
definition MAX_MANAGED_ROLES :: nat where "MAX_MANAGED_ROLES = 200"
definition MAX_IDS :: nat where "MAX_IDS = 50"
definition DEFAULT_LIMIT :: nat where "DEFAULT_LIMIT = 50"
definition MAX_LIMIT :: nat where "MAX_LIMIT = 200"
definition MAX_DISPLAY_NAME_LEN :: nat where "MAX_DISPLAY_NAME_LEN = 80"
definition MAX_AVATAR_URL_LEN :: nat where "MAX_AVATAR_URL_LEN = 700000"

section \<open>Validation\<close>

definition clampLimit :: "rat option \<Rightarrow> nat" where
  "clampLimit limit =
     (case limit of None \<Rightarrow> DEFAULT_LIMIT | Some r \<Rightarrow> nat (max 1 (min (int MAX_LIMIT) \<lfloor>r\<rfloor>)))"

definition is_email :: "string \<Rightarrow> bool" where
  \<comment> \<open>\<open>/^[^@\s]+@[^@\s]+\.[^@\s]+$/\<close>\<close>
  "is_email v =
     (case split_on (CHR ''@'') v of
        [a, b] \<Rightarrow> a \<noteq> [] \<and> list_all (\<lambda>c. \<not> is_space c) v \<and> CHR ''.'' \<in> set (butlast (tl b))
      | _ \<Rightarrow> False)"

definition requireEmail :: "string option \<Rightarrow> dub_error + string" where
  "requireEmail email =
     (let v = trim (or_else email []) in
      if v = [] \<or> \<not> is_email v then Inl (invalid ''email'' ''invalid'') else Inr (toLowerCase v))"

definition requireNonEmpty :: "string option \<Rightarrow> string \<Rightarrow> dub_error + string" where
  "requireNonEmpty v field =
     (let t = trim (or_else v []) in if t = [] then Inl (invalid field ''required'') else Inr t)"

definition bad_keys :: "js list \<Rightarrow> (nat \<times> js) list" where
  "bad_keys ks = filter (\<lambda>(i, k). case k of JStr p \<Rightarrow> \<not> isPermissionKey p | _ \<Rightarrow> True) (enumerate 0 ks)"

definition assertPermissionKeys :: "js \<Rightarrow> dub_error + permission list" where
  "assertPermissionKeys keys =
     (case keys of
        JArr ks \<Rightarrow>
          (let bad = bad_keys ks in
           if length bad > 0
           then Inl (DubError ''VALIDATION_FAILED'' ''unknown permission key(s)''
                  (no_options\<lparr>opt_details := JArr (map (\<lambda>(i, k). js_field_error
                     (''permissions['' @ nat_string i @ '']'', ''not_in_catalog'')) bad)\<rparr>))
           else Inr (List.map_filter js_str ks))
      | _ \<Rightarrow> Inl (invalid ''permissions'' ''invalid''))"

definition normalizePerms :: "permission list \<Rightarrow> permission list" where
  "normalizePerms keys = normalizeAppAccessKeys (uniq keys)"

section \<open>Reads\<close>

record user_view =
  uv_user :: user_row
  uv_roleIds :: "string list"

definition orgWideRoleIds :: "assignment_row list \<Rightarrow> string list" where
  "orgWideRoleIds as = uniq (map as_role (filter org_wide as))"

definition toIdentityUser :: "user_row \<Rightarrow> assignment_row list \<Rightarrow> user_view" where
  "toIdentityUser u as = \<lparr>uv_user = u, uv_roleIds = orgWideRoleIds as\<rparr>"

definition user_view_of :: "string \<Rightarrow> string \<Rightarrow> identity_store \<Rightarrow> user_view" where
  \<comment> \<open>the row just written, read back with its assignments\<close>
  "user_view_of userId orgId s = toIdentityUser (the (r_getUser userId s)) (r_listAssignmentsByUser userId orgId s)"

definition listOrgs :: "rat option \<Rightarrow> string option \<Rightarrow> identity_store \<Rightarrow> org_row list \<times> string option" where
  "listOrgs limit cursor s = r_listOrgs (clampLimit limit) cursor s"

record list_users_opts =
  lu_ids :: "string list option"
  lu_status :: "user_status option"
  lu_roleId :: "string option"
  lu_q :: "string option"
  lu_limit :: "rat option"
  lu_cursor :: "string option"

definition listUsers :: "string \<Rightarrow> list_users_opts \<Rightarrow> identity_store \<Rightarrow> dub_error + (user_view list \<times> string option)" where
  "listUsers orgId opts s =
     (let ids = or_else (lu_ids opts) [] in
      if length ids > MAX_IDS then Inl (invalid ''ids'' ''too_long'')
      else if length ids > 0 \<and> (lu_status opts \<noteq> None \<or> text_option (lu_cursor opts) \<noteq> None
                \<or> text_option (lu_roleId opts) \<noteq> None \<or> text_option (lu_q opts) \<noteq> None)
      then Inl (invalid ''ids'' ''exclusive'')
      else (let (rows, next) = r_listUsers \<lparr>uf_org = orgId, uf_ids = ids, uf_status = lu_status opts,
                   uf_role = lu_roleId opts, uf_q = lu_q opts, uf_limit = clampLimit (lu_limit opts),
                   uf_cursor = lu_cursor opts\<rparr> s
            in Inr (map (\<lambda>u. toIdentityUser u (r_listAssignmentsByUser (us_id u) orgId s)) rows, next)))"

definition found_user :: "string \<Rightarrow> string \<Rightarrow> identity_store \<Rightarrow> dub_error + user_row" where
  \<comment> \<open>\<open>if (!user || user.orgId !== orgId) throw errors.notFound("user", userId)\<close>\<close>
  "found_user userId orgId s =
     (case r_getUser userId s of
        Some u \<Rightarrow> if us_org u = orgId then Inr u else Inl (notFound ''user'' (Some userId))
      | None \<Rightarrow> Inl (notFound ''user'' (Some userId)))"

definition getUserDetail :: "string \<Rightarrow> string \<Rightarrow> identity_store \<Rightarrow> dub_error + (user_view \<times> permission list)" where
  "getUserDetail userId orgId s =
     try_bind (found_user userId orgId s) (\<lambda>u.
       let ctx = loadEvalContext userId orgId s in
       Inr (toIdentityUser u (ec_assignments ctx), effectiveOrgWidePermissions ctx))"

definition getUser :: "string \<Rightarrow> string \<Rightarrow> identity_store \<Rightarrow> dub_error + user_view" where
  "getUser userId orgId s =
     try_bind (found_user userId orgId s) (\<lambda>u. Inr (toIdentityUser u (r_listAssignmentsByUser userId orgId s)))"

definition lookupByEmail :: "string \<Rightarrow> string option \<Rightarrow> identity_store \<Rightarrow> user_view option" where
  "lookupByEmail orgId email s =
     (let normalized = toLowerCase (trim (or_else email [])) in
      if normalized = [] then None
      else map_option (\<lambda>u. toIdentityUser u (r_listAssignmentsByUser (us_id u) orgId s))
             (r_getUserByEmail orgId normalized s))"

definition avatarsByEmail :: "string \<Rightarrow> js \<Rightarrow> identity_store \<Rightarrow> dub_error + (string \<times> string) list" where
  "avatarsByEmail orgId emails s =
     (case emails of
        JArr es \<Rightarrow>
          (let wanted = uniq (filter (\<lambda>e. e \<noteq> []) (map (\<lambda>e. toLowerCase (trim e)) (List.map_filter js_str es))) in
           if length wanted > MAX_IDS then Inl (invalid ''emails'' ''too_long'')
           else Inr (fold (\<lambda>u m. case (us_status u, text_option (us_avatarUrl u)) of
                         (S_active, Some a) \<Rightarrow> map_set fst (toLowerCase (us_email u), a) m
                       | _ \<Rightarrow> m) (r_getUsersByEmails orgId wanted s) []))
      | _ \<Rightarrow> Inl (invalid ''emails'' ''required''))"

fun role_pages :: "nat \<Rightarrow> string \<Rightarrow> string option \<Rightarrow> identity_store \<Rightarrow> role_row list" where
  \<comment> \<open>the loop over pages of 100 roles, with the number of pages it may still read\<close>
  "role_pages 0 orgId cursor s = []"
| "role_pages (Suc n) orgId cursor s =
     (let (rows, next) = r_listRoles orgId 100 cursor s
      in rows @ (case text_option next of Some c \<Rightarrow> role_pages n orgId (Some c) s | None \<Rightarrow> []))"

definition permissionHolders :: "string \<Rightarrow> permission \<Rightarrow> identity_store
    \<Rightarrow> dub_error + ((string \<times> string \<times> nat) list \<times> string list)" where
  "permissionHolders orgId p s =
     (if \<not> isPermissionKey p then Inl (invalid ''key'' ''not_in_catalog'')
      else (let counts = r_roleMemberCounts orgId s
            in Inr (map (\<lambda>r. (rl_id r, rl_name r, or_else (map_of counts (rl_id r)) 0))
                      (filter (\<lambda>r. p \<in> set (rl_permissions r)) (role_pages 50 orgId None s)),
                    sort (uniq (r_usersWithOrgWidePermission orgId p s)))))"

definition rolePeers :: "string \<Rightarrow> string \<Rightarrow> permission \<Rightarrow> identity_store \<Rightarrow> dub_error + string list" where
  "rolePeers userId orgId p s =
     (if \<not> isPermissionKey p then Inl (invalid ''permission'' ''not_in_catalog'')
      else if \<not> is_active userId s then Inr []
      else Inr (sort (r_orgWideRolePeers orgId userId p s)))"

definition mailVisibleUsers :: "string \<Rightarrow> string \<Rightarrow> identity_store \<Rightarrow> dub_error + string list" where
  "mailVisibleUsers userId orgId s =
     (if \<not> is_active userId s then Inr []
      else try_bind (rolePeers userId orgId ''mail:read_role_shared'' s) (\<lambda>peers.
             Inr (sort (uniq (peers @ r_orgWideMailVisibleUsers orgId userId s)))))"

section \<open>Users\<close>

record invite_request =
  iv_email :: "string option"
  iv_displayName :: "string option"
  iv_furigana :: "string option"
  iv_roleIds :: "string list"

definition mail_name :: "string \<Rightarrow> string" where
  \<comment> \<open>\<open>email.split("@")[0]\<close>\<close>
  "mail_name email = hd (split_on (CHR ''@'') email)"

definition nonblank :: "string option \<Rightarrow> string option" where
  \<comment> \<open>\<open>x?.trim() ? x.trim() : null\<close>\<close>
  "nonblank x = (case x of Some v \<Rightarrow> if trim v = [] then None else Some (trim v) | None \<Rightarrow> None)"

definition org_wide_grant :: "identity_env \<Rightarrow> nat \<Rightarrow> string \<Rightarrow> string \<Rightarrow> string \<Rightarrow> string
    \<Rightarrow> assignment_source option \<Rightarrow> assignment_row" where
  "org_wide_grant env n userId roleId orgId grantedBy src =
     \<lparr>as_id = ev_newId env ''ra'' n, as_user = userId, as_role = roleId, as_org = orgId, as_resourceType = None,
      as_resourceId = None, as_grantedBy = grantedBy, as_grantedAt = ev_now env, as_source = src\<rparr>"

definition unknown_role :: "string \<Rightarrow> identity_store \<Rightarrow> string \<Rightarrow> bool" where
  "unknown_role orgId s rid = (case r_getRole rid s of Some r \<Rightarrow> rl_org r \<noteq> orgId | None \<Rightarrow> True)"

definition invite :: "identity_env \<Rightarrow> string \<Rightarrow> invite_request \<Rightarrow> identity_store \<Rightarrow> user_view result" where
  "invite env orgId req s =
     (case requireEmail (iv_email req) of
        Inl e \<Rightarrow> fails e s
      | Inr email \<Rightarrow>
          if r_getOrg orgId s = None then fails (notFound ''org'' (Some orgId)) s
          else if r_getUserByEmail orgId email s \<noteq> None
          then fails (conflict (''email already on roster: '' @ email) (code_details ''EMAIL_EXISTS'')) s
          else if \<exists>rid\<in>set (iv_roleIds req). unknown_role orgId s rid
          then fails (invalid ''roleIds'' ''unknown_role'') s
          else (let user = \<lparr>us_id = ev_newId env ''user'' 0, us_org = orgId, us_email = email,
                      us_displayName = or_else (iv_displayName req) (mail_name email),
                      us_furigana = nonblank (iv_furigana req), us_githubLogin = None, us_avatarUrl = None,
                      us_status = S_invited, us_source = U_manual, us_createdAt = ev_now env,
                      us_updatedAt = ev_now env\<rparr>;
                    s = r_createUser user s;
                    s = fold (\<lambda>(n, rid). r_createAssignment (org_wide_grant env n (us_id user) rid orgId
                              (or_else (ev_actorId env) (us_id user)) None)) (enumerate 0 (iv_roleIds req)) s
                in returns (toIdentityUser user (r_listAssignmentsByUser (us_id user) orgId s)) s))"

datatype provision_outcome = P_existing user_view | P_provisioned user_view | P_rejected

definition provision :: "identity_env \<Rightarrow> string \<Rightarrow> string option \<Rightarrow> string option \<Rightarrow> string option
    \<Rightarrow> identity_store \<Rightarrow> provision_outcome result" where
  "provision env orgId reqEmail reqDisplayName reqGithubLogin s =
     (case requireEmail reqEmail of
        Inl e \<Rightarrow> fails e s
      | Inr email \<Rightarrow>
          (case r_getUserByEmail orgId email s of
             None \<Rightarrow> returns P_rejected s
           | Some existing \<Rightarrow>
               (case us_status existing of
                  S_active \<Rightarrow> returns (P_existing (toIdentityUser existing (r_listAssignmentsByUser (us_id existing) orgId s))) s
                | S_rejected \<Rightarrow> fails (conflict ''user is rejected; cannot provision'' (code_details ''USER_NOT_INVITED'')) s
                | S_disabled \<Rightarrow> fails (conflict ''user is disabled; cannot provision'' (code_details ''USER_NOT_INVITED'')) s
                | S_invited \<Rightarrow>
                    after (ev_logSync env)
                      (let s = r_updateUser (us_id existing)
                             (no_patch\<lparr>up_status := Some S_active,
                               up_displayName := Some (or_else (text_option reqDisplayName) (us_displayName existing)),
                               up_githubLogin := map_option Some (text_option reqGithubLogin)\<rparr>) (ev_now env) s
                       in returns (P_provisioned (user_view_of (us_id existing) orgId s)) s) s)))"

definition is_trigger :: "string \<Rightarrow> bool" where
  \<comment> \<open>\<open>/^[a-z][a-z0-9._-]{0,63}$/\<close>\<close>
  "is_trigger t =
     (case t of [] \<Rightarrow> False
      | c # cs \<Rightarrow> char_between (CHR ''a'') (CHR ''z'') c \<and> length cs \<le> 63
          \<and> list_all (\<lambda>x. char_between (CHR ''a'') (CHR ''z'') x \<or> char_between (CHR ''0'') (CHR ''9'') x
                        \<or> x = CHR ''.'' \<or> x = CHR ''_'' \<or> x = CHR ''-'') cs)"

record activation =
  ac_dryRun :: bool
  ac_activated :: bool
  ac_previousStatus :: user_status
  ac_status :: user_status

definition activateInvited :: "identity_env \<Rightarrow> string \<Rightarrow> string \<Rightarrow> js \<Rightarrow> identity_store \<Rightarrow> activation result" where
  "activateInvited env userId orgId req s =
     (let trigger = trim (or_else (js_str (js_get req ''trigger'')) []);
          dryRun = (js_get req ''dryRun'' = JBool True)
      in if \<not> is_trigger trigger then fails (invalid ''trigger'' ''invalid'') s
         else (case found_user userId orgId s of
                 Inl e \<Rightarrow> fails e s
               | Inr user \<Rightarrow>
                   if us_status user \<noteq> S_invited
                   then returns \<lparr>ac_dryRun = dryRun, ac_activated = False, ac_previousStatus = us_status user,
                                 ac_status = us_status user\<rparr> s
                   else if dryRun
                   then returns \<lparr>ac_dryRun = dryRun, ac_activated = True, ac_previousStatus = S_invited,
                                 ac_status = S_invited\<rparr> s
                   else after (ev_logSync env)
                     (let (activated, s) = r_activateIfInvited userId (ev_now env) s
                      in returns \<lparr>ac_dryRun = dryRun, ac_activated = activated, ac_previousStatus = S_invited,
                                  ac_status = us_status (the (r_getUser userId s))\<rparr> s) s))"

record update_user_request =
  uu_displayName :: "string option"
  uu_furigana :: "string option option"
  uu_githubLogin :: "string option option"
  uu_status :: "user_status option"

definition last_admin :: "string \<Rightarrow> string \<Rightarrow> identity_store \<Rightarrow> bool" where
  \<comment> \<open>\<open>admins.length === 1 && admins[0] === userId\<close>\<close>
  "last_admin userId orgId s = (r_usersWithOrgWidePermission orgId ADMIN s = [userId])"

definition updateUser :: "identity_env \<Rightarrow> string \<Rightarrow> string \<Rightarrow> update_user_request \<Rightarrow> identity_store \<Rightarrow> user_view result" where
  "updateUser env userId orgId req s =
     (case found_user userId orgId s of
        Inl e \<Rightarrow> fails e s
      | Inr user \<Rightarrow>
          (let disabling = (uu_status req \<noteq> None \<and> uu_status req \<noteq> Some S_active \<and> us_status user = S_active) in
           if disabling \<and> last_admin userId orgId s
           then fails (conflict ''cannot disable the last identity:admin holder'' (code_details ''LAST_ADMIN'')) s
           else after (if disabling then ev_revoke env else None)
             (let s = r_updateUser userId
                    (no_patch\<lparr>up_displayName := uu_displayName req,
                      up_furigana := map_option nonblank (uu_furigana req),
                      up_githubLogin := uu_githubLogin req, up_status := uu_status req\<rparr>) (ev_now env) s
              in returns (user_view_of userId orgId s) s) s))"

definition updateOwnProfile :: "identity_env \<Rightarrow> string \<Rightarrow> string \<Rightarrow> js \<Rightarrow> identity_store \<Rightarrow> user_view result" where
  "updateOwnProfile env userId orgId req s =
     (case found_user userId orgId s of
        Inl e \<Rightarrow> fails e s
      | Inr user \<Rightarrow>
          (let dn = js_get req ''displayName''; av = js_get req ''avatarUrl'';
               checked = try_bind
                 (if dn = Undef then Inr None
                  else (case js_str dn of
                          None \<Rightarrow> Inl (invalid ''displayName'' ''invalid'')
                        | Some t \<Rightarrow>
                            if trim t = [] then Inl (invalid ''displayName'' ''required'')
                            else if length (trim t) > MAX_DISPLAY_NAME_LEN then Inl (invalid ''displayName'' ''too_long'')
                            else Inr (Some (trim t))))
                 (\<lambda>name. try_bind
                   (if av = Undef then Inr None
                    else if av = Null then Inr (Some None)
                    else (case js_str av of
                            None \<Rightarrow> Inl (invalid ''avatarUrl'' ''invalid'')
                          | Some t \<Rightarrow> if length t > MAX_AVATAR_URL_LEN then Inl (invalid ''avatarUrl'' ''too_long'')
                                      else Inr (Some (Some t))))
                   (\<lambda>avatar. Inr (name, avatar)))
           in case checked of
                Inl e \<Rightarrow> fails e s
              | Inr (name, avatar) \<Rightarrow>
                  (let s = (if name \<noteq> None \<or> avatar \<noteq> None
                            then r_updateUser userId (no_patch\<lparr>up_displayName := name, up_avatarUrl := avatar\<rparr>) (ev_now env) s
                            else s)
                   in returns (user_view_of userId orgId s) s)))"

datatype step_status = T_done | T_skipped

record offboard_result =
  of_user :: user_view
  of_revoked :: nat
  of_alreadyDisabled :: bool
  of_steps :: "(string \<times> step_status) list"

definition offboardUser :: "identity_env \<Rightarrow> string \<Rightarrow> string \<Rightarrow> identity_store \<Rightarrow> offboard_result result" where
  "offboardUser env userId orgId s =
     (case found_user userId orgId s of
        Inl e \<Rightarrow> fails e s
      | Inr user \<Rightarrow>
          if last_admin userId orgId s
          then fails (conflict ''cannot offboard the last identity:admin holder'' (code_details ''LAST_ADMIN'')) s
          else (let alreadyDisabled = (us_status user \<noteq> S_active) in
            after (if alreadyDisabled then None else ev_revoke env)
              (let assignments = r_listAssignmentsByUser userId orgId s;
                   s = fold (\<lambda>a. r_deleteAssignment (as_id a)) assignments s;
                   s = (if alreadyDisabled then s
                        else r_updateUser userId (no_patch\<lparr>up_status := Some S_disabled\<rparr>) (ev_now env) s)
               in returns \<lparr>of_user = user_view_of userId orgId s, of_revoked = length assignments,
                    of_alreadyDisabled = alreadyDisabled,
                    of_steps = [(''revoke-sessions'', if alreadyDisabled then T_skipped else T_done),
                                (''revoke-roles'', if length assignments > 0 then T_done else T_skipped),
                                (''disable-account'', if alreadyDisabled then T_skipped else T_done)]\<rparr> s) s))"

section \<open>Email Routing\<close>

type_synonym routing_address = "string option \<times> js"  \<comment> \<open>\<open>address\<close> and \<open>enabled\<close>\<close>

definition add_address :: "routing_address \<Rightarrow> (string \<times> bool) list \<Rightarrow> dub_error + (string \<times> bool) list" where
  \<comment> \<open>the loop body of \<open>normalizeRoutingAddresses\<close>\<close>
  "add_address a out =
     try_bind (requireEmail (fst a)) (\<lambda>email.
       if email \<in> fst ` set out then Inr out else Inr (out @ [(email, snd a \<noteq> JBool False)]))"

definition normalizeRoutingAddresses :: "routing_address list option \<Rightarrow> dub_error + (string \<times> bool) list" where
  "normalizeRoutingAddresses addresses =
     (case addresses of None \<Rightarrow> Inl (invalid ''addresses'' ''required'') | Some as \<Rightarrow> fold_try add_address as [])"

record sync_result =
  sy_added :: nat
  sy_updated :: nat
  sy_deactivated :: nat
  sy_total :: nat

record sync_preview =
  sp_toAdd :: "(string \<times> bool) list"
  sp_toReactivate :: "string list"   \<comment> \<open>user ids\<close>
  sp_toRelink :: "string list"
  sp_toDeactivate :: "string list"
  sp_adminKept :: "string list"
  sp_projected :: sync_result

definition reactivates :: "bool \<Rightarrow> user_row \<Rightarrow> bool" where
  "reactivates enabled u = (enabled \<and> us_status u = S_disabled \<and> us_source u = U_email_routing)"

definition vanished :: "string list \<Rightarrow> user_row \<Rightarrow> bool" where
  \<comment> \<open>an owned row that is neither listed any more nor already disabled\<close>
  "vanished seen u = (toLowerCase (us_email u) \<notin> set seen \<and> us_status u \<noteq> S_disabled)"

definition previewEmailRouting :: "string \<Rightarrow> routing_address list option \<Rightarrow> identity_store \<Rightarrow> dub_error + sync_preview" where
  "previewEmailRouting orgId addresses s =
     (if r_getOrg orgId s = None then Inl (notFound ''org'' (Some orgId))
      else try_bind (normalizeRoutingAddresses addresses) (\<lambda>normalized.
        let seen = map (\<lambda>n. toLowerCase (fst n)) normalized;
            toAdd = filter (\<lambda>n. r_getUserByEmail orgId (fst n) s = None) normalized;
            known = List.map_filter (\<lambda>n. map_option (\<lambda>u. (snd n, u)) (r_getUserByEmail orgId (fst n) s)) normalized;
            admins = r_usersWithOrgWidePermission orgId ADMIN s;
            gone = filter (vanished seen) (r_listUsersBySource orgId U_email_routing s);
            toDeactivate = filter (\<lambda>u. us_id u \<notin> set admins) gone
        in Inr \<lparr>sp_toAdd = toAdd,
             sp_toReactivate = map (\<lambda>(e, u). us_id u) (filter (\<lambda>(e, u). reactivates e u) known),
             sp_toRelink = map (\<lambda>(e, u). us_id u) (filter (\<lambda>(e, u). \<not> reactivates e u \<and> us_source u \<noteq> U_email_routing) known),
             sp_toDeactivate = map us_id toDeactivate,
             sp_adminKept = map us_id (filter (\<lambda>u. us_id u \<in> set admins) gone),
             sp_projected = \<lparr>sy_added = length toAdd, sy_updated = length known,
                             sy_deactivated = length toDeactivate, sy_total = length normalized\<rparr>\<rparr>))"

definition sync_address :: "identity_env \<Rightarrow> string \<Rightarrow> nat \<times> string \<times> bool
    \<Rightarrow> identity_store \<times> nat \<times> nat \<Rightarrow> identity_store \<times> nat \<times> nat" where
  \<comment> \<open>the body of the upsert loop, with the counters \<open>added\<close> and \<open>updated\<close>\<close>
  "sync_address env orgId a st =
     (case a of (n, email, enabled) \<Rightarrow> case st of (s, added, updated) \<Rightarrow>
        (case r_getUserByEmail orgId email s of
           None \<Rightarrow>
             (r_createUser \<lparr>us_id = ev_newId env ''user'' n, us_org = orgId, us_email = email,
                us_displayName = mail_name email, us_furigana = None, us_githubLogin = None, us_avatarUrl = None,
                us_status = (if enabled then S_active else S_disabled), us_source = U_email_routing,
                us_createdAt = ev_now env, us_updatedAt = ev_now env\<rparr> s, added + 1, updated)
         | Some existing \<Rightarrow>
             (r_updateUser (us_id existing)
                (no_patch\<lparr>up_source := Some U_email_routing,
                  up_status := (if reactivates enabled existing then Some S_active else None)\<rparr>) (ev_now env) s,
              added, updated + 1)))"

definition syncEmailRouting :: "identity_env \<Rightarrow> string \<Rightarrow> routing_address list option \<Rightarrow> identity_store \<Rightarrow> sync_result result" where
  "syncEmailRouting env orgId addresses s =
     (if r_getOrg orgId s = None then fails (notFound ''org'' (Some orgId)) s
      else case normalizeRoutingAddresses addresses of
        Inl e \<Rightarrow> fails e s
      | Inr normalized \<Rightarrow>
          (let (s, added, updated) = fold (sync_address env orgId) (enumerate 0 normalized) (s, 0, 0);
               seen = map fst normalized;
               admins = r_usersWithOrgWidePermission orgId ADMIN s;
               gone = filter (\<lambda>u. vanished seen u \<and> us_id u \<notin> set admins) (r_listUsersBySource orgId U_email_routing s);
               s = fold (\<lambda>u. r_updateUser (us_id u) (no_patch\<lparr>up_status := Some S_disabled\<rparr>) (ev_now env)) gone s
           in returns \<lparr>sy_added = added, sy_updated = updated, sy_deactivated = length gone, sy_total = length normalized\<rparr> s))"

section \<open>Roles\<close>

record role_view =
  rv_role :: role_row
  rv_mailVisible :: "string list"

definition mailVisibleRoleIdsOf :: "role_row \<Rightarrow> identity_store \<Rightarrow> string list" where
  "mailVisibleRoleIdsOf r s = or_else (map_of (r_mailVisibilityByOrg (rl_org r) s) (rl_id r)) []"

definition normalizeMailVisibleRoleIds :: "string \<Rightarrow> string \<Rightarrow> js \<Rightarrow> identity_store \<Rightarrow> dub_error + string list" where
  "normalizeMailVisibleRoleIds orgId roleId ids s =
     (case ids of
        JArr xs \<Rightarrow>
          if \<exists>x\<in>set xs. js_str x = None then Inl (invalid ''mailVisibleRoleIds'' ''invalid'')
          else (let unique = sort (uniq (List.map_filter js_str xs)) in
                fold_try (\<lambda>i out.
                    if i = roleId then Inl (invalid ''mailVisibleRoleIds'' ''self'')
                    else if unknown_role orgId s i then Inl (invalid ''mailVisibleRoleIds'' ''unknown_role'')
                    else Inr (out @ [i])) unique [])
      | _ \<Rightarrow> Inl (invalid ''mailVisibleRoleIds'' ''invalid''))"

definition listRoles :: "string \<Rightarrow> rat option \<Rightarrow> string option \<Rightarrow> identity_store \<Rightarrow> (role_view \<times> nat) list \<times> string option" where
  "listRoles orgId limit cursor s =
     (let (rows, next) = r_listRoles orgId (clampLimit limit) cursor s
      in (map (\<lambda>r. (\<lparr>rv_role = r, rv_mailVisible = or_else (map_of (r_mailVisibilityByOrg orgId s) (rl_id r)) []\<rparr>,
                    or_else (map_of (r_roleMemberCounts orgId s) (rl_id r)) 0)) rows, next))"

record role_request =
  rq_name :: "string option"
  rq_permissions :: js
  rq_mailVisible :: js

definition optional_visible :: "string \<Rightarrow> string \<Rightarrow> js \<Rightarrow> identity_store \<Rightarrow> dub_error + string list option" where
  \<comment> \<open>\<open>req.mailVisibleRoleIds !== undefined ? await this.normalizeMailVisibleRoleIds(...) : undefined\<close>\<close>
  "optional_visible orgId roleId ids s =
     (if ids = Undef then Inr None else try_bind (normalizeMailVisibleRoleIds orgId roleId ids s) (\<lambda>v. Inr (Some v)))"

definition createRole :: "identity_env \<Rightarrow> string \<Rightarrow> role_request \<Rightarrow> identity_store \<Rightarrow> role_view result" where
  "createRole env orgId req s =
     (case try_bind (requireNonEmpty (rq_name req) ''name'') (\<lambda>name.
             try_bind (assertPermissionKeys (rq_permissions req)) (\<lambda>permissions.
             if r_getOrg orgId s = None then Inl (notFound ''org'' (Some orgId))
             else if r_getRoleByName orgId name s \<noteq> None
             then Inl (conflict (''role name exists: '' @ name) (code_details ''ROLE_NAME_EXISTS''))
             else (let role = \<lparr>rl_id = ev_newId env ''role'' 0, rl_org = orgId, rl_name = name, rl_isSystem = False,
                       rl_permissions = normalizePerms permissions, rl_createdAt = ev_now env, rl_updatedAt = ev_now env\<rparr>
                   in try_bind (optional_visible orgId (rl_id role) (rq_mailVisible req) s)
                        (\<lambda>visible. Inr (role, or_else visible [])))))
      of Inl e \<Rightarrow> fails e s
       | Inr (role, visible) \<Rightarrow> returns \<lparr>rv_role = role, rv_mailVisible = visible\<rparr> (r_createRole role visible s))"

definition found_role :: "string \<Rightarrow> string \<Rightarrow> identity_store \<Rightarrow> dub_error + role_row" where
  \<comment> \<open>\<open>if (!role || role.orgId !== orgId) throw errors.notFound("role", roleId)\<close>\<close>
  "found_role roleId orgId s =
     (case r_getRole roleId s of
        Some r \<Rightarrow> if rl_org r = orgId then Inr r else Inl (notFound ''role'' (Some roleId))
      | None \<Rightarrow> Inl (notFound ''role'' (Some roleId)))"

definition checked_role_update :: "string \<Rightarrow> string \<Rightarrow> role_request \<Rightarrow> identity_store
    \<Rightarrow> dub_error + (permission list option \<times> string list option)" where
  \<comment> \<open>the checks of \<open>updateRole\<close>, in their order\<close>
  "checked_role_update roleId orgId req s =
     try_bind (found_role roleId orgId s) (\<lambda>role.
     try_bind (if rq_permissions req = Undef then Inr None
               else try_bind (assertPermissionKeys (rq_permissions req)) (\<lambda>ps. Inr (Some ps))) (\<lambda>permissions.
     if (case permissions of Some ps \<Rightarrow> rl_isSystem role \<and> rl_name role = ''admin'' \<and> ADMIN \<notin> set ps | None \<Rightarrow> False)
     then Inl (conflict ''cannot remove identity:admin from the admin role'' (code_details ''LAST_ADMIN''))
     else if (case rq_name req of
                Some name \<Rightarrow> name \<noteq> rl_name role \<and> r_getRoleByName orgId name s \<noteq> None | None \<Rightarrow> False)
     then Inl (conflict (''role name exists: '' @ the (rq_name req)) (code_details ''ROLE_NAME_EXISTS''))
     else try_bind (optional_visible orgId roleId (rq_mailVisible req) s) (\<lambda>visible. Inr (permissions, visible))))"

definition updateRole :: "identity_env \<Rightarrow> string \<Rightarrow> string \<Rightarrow> role_request \<Rightarrow> identity_store \<Rightarrow> role_view result" where
  "updateRole env roleId orgId req s =
     (case checked_role_update roleId orgId req s of
        Inl e \<Rightarrow> fails e s
      | Inr (permissions, visible) \<Rightarrow>
          (let s = r_updateRolePermissions roleId (rq_name req) (map_option normalizePerms permissions) (ev_now env) visible s;
               updated = the (r_getRole roleId s)
           in returns \<lparr>rv_role = updated, rv_mailVisible = mailVisibleRoleIdsOf updated s\<rparr> s))"

definition countOrgWideAdminGrants :: "string \<Rightarrow> string \<Rightarrow> identity_store \<Rightarrow> nat" where
  "countOrgWideAdminGrants userId orgId s =
     length (filter (\<lambda>a. org_wide a \<and> (case r_getRole (as_role a) s of
                              Some r \<Rightarrow> ADMIN \<in> set (rl_permissions r) | None \<Rightarrow> False))
       (r_listAssignmentsByUser userId orgId s))"

definition adminSurvivesRoleDelete :: "string \<Rightarrow> string \<Rightarrow> identity_store \<Rightarrow> bool" where
  "adminSurvivesRoleDelete roleId orgId s =
     (let holders = map as_user (filter org_wide (r_listAssignmentsByRole roleId s)) in
      \<exists>u\<in>set (r_usersWithOrgWidePermission orgId ADMIN s).
        countOrgWideAdminGrants u orgId s > (if u \<in> set holders then 1 else 0))"

definition deleteRole :: "string \<Rightarrow> string \<Rightarrow> identity_store \<Rightarrow> unit result" where
  "deleteRole roleId orgId s =
     (case found_role roleId orgId s of
        Inl e \<Rightarrow> fails e s
      | Inr role \<Rightarrow>
          if rl_isSystem role then fails (conflict ''system roles are not deletable'' (code_details ''SYSTEM_ROLE'')) s
          else if ADMIN \<in> set (rl_permissions role) \<and> \<not> adminSurvivesRoleDelete roleId orgId s
          then fails (conflict ''deleting this role would leave no administrator'' (code_details ''LAST_ADMIN'')) s
          else returns () (r_deleteRole roleId s))"

section \<open>Assignments\<close>

record assignment_view =
  av_row :: assignment_row
  av_roleName :: string

definition listUserRoles :: "string \<Rightarrow> string \<Rightarrow> identity_store \<Rightarrow> dub_error + assignment_view list" where
  "listUserRoles userId orgId s =
     try_bind (found_user userId orgId s) (\<lambda>_.
       Inr (map (\<lambda>a. \<lparr>av_row = a, av_roleName = (case r_getRole (as_role a) s of
                         Some r \<Rightarrow> rl_name r | None \<Rightarrow> as_role a)\<rparr>) (r_listAssignmentsByUser userId orgId s)))"

record assign_request =
  aq_roleId :: string
  aq_type :: "string option"
  aq_res :: "string option"

definition assignRole :: "identity_env \<Rightarrow> string \<Rightarrow> string \<Rightarrow> assign_request \<Rightarrow> identity_store \<Rightarrow> assignment_view result" where
  "assignRole env userId orgId req s =
     (case try_bind (found_user userId orgId s) (\<lambda>_. found_role (aq_roleId req) orgId s) of
        Inl e \<Rightarrow> fails e s
      | Inr role \<Rightarrow>
          if (aq_type req = None) \<noteq> (aq_res req = None) then fails (invalid ''resourceId'' ''scope_incomplete'') s
          else (case r_findAssignment userId (aq_roleId req) orgId (aq_type req) (aq_res req) s of
                  Some existing \<Rightarrow>
                    if is_auto existing
                    then after (ev_logSync env)
                      (returns \<lparr>av_row = existing\<lparr>as_source := Some A_manual\<rparr>, av_roleName = rl_name role\<rparr>
                         (r_setAssignmentSource (as_id existing) A_manual s)) s
                    else fails (conflict ''assignment already exists'' (code_details ''ASSIGNMENT_EXISTS'')) s
                | None \<Rightarrow>
                    (let a = \<lparr>as_id = ev_newId env ''ra'' 0, as_user = userId, as_role = aq_roleId req, as_org = orgId,
                          as_resourceType = aq_type req, as_resourceId = aq_res req,
                          as_grantedBy = or_else (ev_actorId env) userId, as_grantedAt = ev_now env, as_source = None\<rparr>
                     in after (ev_logSync env)
                          (returns \<lparr>av_row = a, av_roleName = rl_name role\<rparr> (r_createAssignment a s)) s)))"

definition revokeRole :: "identity_env \<Rightarrow> string \<Rightarrow> string \<Rightarrow> string \<Rightarrow> identity_store \<Rightarrow> unit result" where
  "revokeRole env userId assignmentId orgId s =
     (case r_getAssignment assignmentId s of
        None \<Rightarrow> fails (notFound ''assignment'' (Some assignmentId)) s
      | Some a \<Rightarrow>
          if as_user a \<noteq> userId \<or> as_org a \<noteq> orgId then fails (notFound ''assignment'' (Some assignmentId)) s
          else (let grantsAdmin = (case r_getRole (as_role a) s of
                       Some r \<Rightarrow> ADMIN \<in> set (rl_permissions r) \<and> org_wide a | None \<Rightarrow> False) in
                if grantsAdmin \<and> last_admin userId orgId s \<and> countOrgWideAdminGrants userId orgId s = 1
                then fails (conflict ''cannot revoke the last identity:admin grant in the org'' (code_details ''LAST_ADMIN'')) s
                else after (ev_logSync env) (returns () (r_deleteAssignment assignmentId s)) s))"

section \<open>Managed roles\<close>

definition parse_managed_role :: "js \<Rightarrow> (string \<times> string) list \<Rightarrow> dub_error + (string \<times> string) list" where
  \<comment> \<open>the loop body of \<open>parseManagedRoles\<close>: a later name for the same id wins\<close>
  "parse_managed_role r byId =
     (let i = or_else (js_str (js_get r ''id'')) []; name = trim (or_else (js_str (js_get r ''name'')) []) in
      if \<not> starts_with MANAGED_ROLE_ID_PREFIX i \<or> length i > 200 \<or> name = [] \<or> length name > 200
      then Inl (invalid ''roles'' ''invalid'') else Inr (map_set fst (i, name) byId))"

definition parseManagedRoles :: "js \<Rightarrow> dub_error + (string \<times> string) list" where
  "parseManagedRoles raw =
     (case raw of
        JArr rs \<Rightarrow> if length rs > MAX_MANAGED_ROLES then Inl (invalid ''roles'' ''invalid'')
                  else fold_try parse_managed_role rs []
      | _ \<Rightarrow> Inl (invalid ''roles'' ''invalid''))"

definition auto_name :: "string \<Rightarrow> string" where
  "auto_name name = name @ ''(auto)''"

definition managedRoleName :: "string \<Rightarrow> string \<times> string \<Rightarrow> identity_store \<Rightarrow> string" where
  "managedRoleName orgId spec s =
     (case r_getRoleByName orgId (snd spec) s of
        None \<Rightarrow> snd spec
      | Some clash \<Rightarrow> if rl_id clash = fst spec then snd spec else auto_name (snd spec))"

fun ensureManagedRoles :: "identity_env \<Rightarrow> string \<Rightarrow> (string \<times> string) list \<Rightarrow> bool \<Rightarrow> identity_store
    \<Rightarrow> (string list \<times> string list) result" where
  \<comment> \<open>created and renamed ids; what earlier rounds wrote stays when a later one throws\<close>
  "ensureManagedRoles env orgId [] dryRun s = returns ([], []) s"
| "ensureManagedRoles env orgId (spec # specs) dryRun s =
     (let cur = r_getRole (fst spec) s; name = managedRoleName orgId spec s in
      case cur of
        None \<Rightarrow>
          (let s = (if dryRun then s else r_createRole \<lparr>rl_id = fst spec, rl_org = orgId, rl_name = name,
                      rl_isSystem = False, rl_permissions = [], rl_createdAt = ev_now env, rl_updatedAt = ev_now env\<rparr> [] s)
           in case ensureManagedRoles env orgId specs dryRun s of
                (Inl e, s) \<Rightarrow> (Inl e, s)
              | (Inr (created, renamed), s) \<Rightarrow> (Inr (fst spec # created, renamed), s))
      | Some r \<Rightarrow>
          if rl_org r \<noteq> orgId then fails (conflict (''role '' @ fst spec @ '' belongs to another org'') Undef) s
          else if rl_name r \<noteq> name \<and> rl_name r \<noteq> auto_name (snd spec)
          then (let s = (if dryRun then s
                         else r_updateRolePermissions (fst spec) (Some name) None (ev_now env) None s)
                in case ensureManagedRoles env orgId specs dryRun s of
                     (Inl e, s) \<Rightarrow> (Inl e, s)
                   | (Inr (created, renamed), s) \<Rightarrow> (Inr (created, fst spec # renamed), s))
          else ensureManagedRoles env orgId specs dryRun s)"

fun all_pages :: "nat \<Rightarrow> string \<Rightarrow> string option \<Rightarrow> identity_store \<Rightarrow> role_row list option" where
  \<comment> \<open>the \<open>do ... while (cursor)\<close> of \<open>allRoles\<close>; the number bounds the pages, \<open>None\<close> if it was too small\<close>
  "all_pages 0 orgId cursor s = None"
| "all_pages (Suc n) orgId cursor s =
     (let (rows, next) = r_listRoles orgId MAX_LIMIT cursor s in
      case text_option next of
        None \<Rightarrow> Some rows
      | Some c \<Rightarrow> map_option (\<lambda>rest. rows @ rest) (all_pages n orgId (Some c) s))"

definition allRoles :: "string \<Rightarrow> identity_store \<Rightarrow> role_row list" where
  "allRoles orgId s = the (all_pages (Suc (length (st_roles s))) orgId None s)"

definition removable_role :: "role_row \<Rightarrow> identity_store \<Rightarrow> bool" where
  "removable_role r s =
     (let as = r_listAssignmentsByRole (rl_id r) s in length as = length (filter is_auto as) \<and> rl_permissions r = [])"

definition prune_managed_role :: "string list \<Rightarrow> bool \<Rightarrow> role_row
    \<Rightarrow> identity_store \<times> string list \<times> string list \<Rightarrow> identity_store \<times> string list \<times> string list" where
  \<comment> \<open>the loop body of \<open>syncManagedRoleCatalog\<close>, with \<open>deleted\<close> and \<open>kept\<close>\<close>
  "prune_managed_role wanted dryRun r st =
     (case st of (s, deleted, kept) \<Rightarrow>
        if \<not> starts_with MANAGED_ROLE_ID_PREFIX (rl_id r) \<or> rl_id r \<in> set wanted then (s, deleted, kept)
        else (let auto = filter is_auto (r_listAssignmentsByRole (rl_id r) s);
                  removable = removable_role r s;
                  deleted = (if removable then deleted @ [rl_id r] else deleted);
                  kept = (if removable then kept else kept @ [rl_id r])
              in if dryRun then (s, deleted, kept)
                 else (let s = fold (\<lambda>a. r_deleteAssignment (as_id a)) auto s in
                       (if removable then r_deleteRole (rl_id r) s else s, deleted, kept))))"

record catalog_sync =
  cs_dryRun :: bool
  cs_created :: "string list"
  cs_renamed :: "string list"
  cs_deleted :: "string list"
  cs_kept :: "string list"

definition syncManagedRoleCatalog :: "identity_env \<Rightarrow> string \<Rightarrow> js \<Rightarrow> identity_store \<Rightarrow> catalog_sync result" where
  "syncManagedRoleCatalog env orgId req s =
     (case parseManagedRoles (js_get req ''roles'') of
        Inl e \<Rightarrow> fails e s
      | Inr specs \<Rightarrow>
          (let dryRun = (js_get req ''dryRun'' = JBool True) in
           case ensureManagedRoles env orgId specs dryRun s of
             (Inl e, s) \<Rightarrow> (Inl e, s)
           | (Inr (created, renamed), s) \<Rightarrow>
               (let (s', deleted, kept) = fold (prune_managed_role (map fst specs) dryRun) (allRoles orgId s) (s, [], [])
                in returns \<lparr>cs_dryRun = dryRun, cs_created = created, cs_renamed = renamed,
                            cs_deleted = deleted, cs_kept = kept\<rparr> s')))"

record user_sync =
  ys_dryRun :: bool
  ys_added :: "string list"
  ys_removed :: "string list"
  ys_manual :: "string list"

definition syncUserManagedRoles :: "identity_env \<Rightarrow> string \<Rightarrow> string \<Rightarrow> js \<Rightarrow> identity_store \<Rightarrow> user_sync result" where
  "syncUserManagedRoles env userId orgId req s =
     (case try_bind (found_user userId orgId s) (\<lambda>_. parseManagedRoles (js_get req ''roles'')) of
        Inl e \<Rightarrow> fails e s
      | Inr specs \<Rightarrow>
          (let dryRun = (js_get req ''dryRun'' = JBool True) in
           case ensureManagedRoles env orgId specs dryRun s of
             (Inl e, s) \<Rightarrow> (Inl e, s)
           | (Inr _, s) \<Rightarrow>
               (let orgWide = filter org_wide (r_listAssignmentsByUser userId orgId s);
                    wanted = map fst specs;
                    have = (\<lambda>i. find (\<lambda>a. as_role a = i) orgWide);
                    added = filter (\<lambda>i. have i = None) wanted;
                    manual = filter (\<lambda>i. case have i of Some a \<Rightarrow> \<not> is_auto a | None \<Rightarrow> False) wanted;
                    stale = filter (\<lambda>a. is_auto a \<and> as_role a \<notin> set wanted) orgWide;
                    out = \<lparr>ys_dryRun = dryRun, ys_added = added, ys_removed = map as_role stale, ys_manual = manual\<rparr>
                in if dryRun \<or> added = [] \<and> stale = [] then returns out s
                   else (let actor = (case ev_actorId env of
                                Some i \<Rightarrow> if i \<noteq> [] \<and> r_getUser i s \<noteq> None then i else userId | None \<Rightarrow> userId);
                             s = fold (\<lambda>(n, rid). r_createAssignment (org_wide_grant env n userId rid orgId actor (Some A_auto)))
                                   (enumerate 0 added) s;
                             s = fold (\<lambda>a. r_deleteAssignment (as_id a)) stale s
                         in returns out s))))"

end
