(* ===== verification/Identity_Admins.thy ===== *)
theory Identity_Admins
  imports Identity_Service
begin

text \<open>
  The promise behind every LAST_ADMIN refusal of identity-roster: an organisation that has an active
  administrator keeps one. First what each operation of the store does to users, roles and
  assignments, then the invariant of the store, then the calls of the service one by one.
\<close>

named_theorems store_simps \<open>what the store's operations do to what can be read back\<close>

section \<open>Administrators\<close>

definition admin_grant :: "string \<Rightarrow> identity_store \<Rightarrow> assignment_row \<Rightarrow> bool" where
  "admin_grant org s a =
     (a \<in> set (st_assignments s) \<and> as_org a = org \<and> org_wide a \<and> is_active (as_user a) s
      \<and> (\<exists>r. r_getRole (as_role a) s = Some r \<and> rl_org r = org \<and> ADMIN \<in> set (rl_permissions r)))"

definition has_admin :: "string \<Rightarrow> identity_store \<Rightarrow> bool" where
  "has_admin org s = (\<exists>a. admin_grant org s a)"

definition store_ok :: "identity_store \<Rightarrow> bool" where
  "store_ok s =
     (distinct (map us_id (st_users s)) \<and> distinct (map rl_id (st_roles s)) \<and> distinct (map as_id (st_assignments s))
      \<and> (\<forall>a\<in>set (st_assignments s). \<forall>b\<in>set (st_assignments s).
            as_user a = as_user b \<and> as_role a = as_role b \<and> as_org a = as_org b \<and> org_wide a \<and> org_wide b \<longrightarrow> a = b)
      \<and> (\<forall>a\<in>set (st_assignments s). \<exists>r. r_getRole (as_role a) s = Some r \<and> rl_org r = as_org a)
      \<and> (\<forall>a\<in>set (st_assignments s). is_auto a \<longrightarrow> starts_with MANAGED_ROLE_ID_PREFIX (as_role a)))"

lemma getRole_iff: "store_ok s \<Longrightarrow> r_getRole i s = Some r \<longleftrightarrow> r \<in> set (st_roles s) \<and> rl_id r = i"
  unfolding store_ok_def r_getRole_def using map_get_in[of rl_id "st_roles s"] map_get_Some[of rl_id i "st_roles s"] by blast

lemma active_holders:
  "set (fold (\<lambda>a users. if P a then (if is_active (as_user a) s then set_add (as_user a) users else users) else users) as us)
     = set us \<union> {as_user a |a. a \<in> set as \<and> P a \<and> is_active (as_user a) s}"
  by (induction "as" arbitrary: us) auto

lemma distinct_active_holders:
  "distinct us \<Longrightarrow> distinct (fold (\<lambda>a users. if P a then (if is_active (as_user a) s then set_add (as_user a) users else users) else users) as us)"
  by (induction "as" arbitrary: us) auto

lemma usersWithOrgWidePermission_eq:
  "r_usersWithOrgWidePermission org p s =
     fold (\<lambda>a users. if as_org a = org \<and> org_wide a
              \<and> (\<exists>r\<in>set (st_roles s). rl_id r = as_role a \<and> rl_org r = org \<and> p \<in> set (rl_permissions r))
            then (if is_active (as_user a) s then set_add (as_user a) users else users) else users)
       (st_assignments s) []"
proof -
  have same: "(case r_getUser (as_user a) s of
                  Some u \<Rightarrow> if us_status u = S_active then set_add (us_id u) users else users
                | None \<Rightarrow> users) = (if is_active (as_user a) s then set_add (as_user a) users else users)" for a users
    by (auto simp: is_active_def r_getUser_def dest!: map_get_Some split: option.split)
  have role: "as_role a \<in> set (map rl_id (filter (\<lambda>r. rl_org r = org \<and> p \<in> set (rl_permissions r)) (st_roles s)))
      \<longleftrightarrow> (\<exists>r\<in>set (st_roles s). rl_id r = as_role a \<and> rl_org r = org \<and> p \<in> set (rl_permissions r))" for a
    by (simp add: image_iff) metis
  show ?thesis unfolding r_usersWithOrgWidePermission_def Let_def same role
    by (intro fold_cong) (auto intro!: ext)
qed

lemma admins_iff:
  assumes "store_ok s"
  shows "u \<in> set (r_usersWithOrgWidePermission org ADMIN s) \<longleftrightarrow> (\<exists>a. admin_grant org s a \<and> as_user a = u)"
  unfolding usersWithOrgWidePermission_eq active_holders admin_grant_def getRole_iff[OF assms] by auto

lemma distinct_admins: "distinct (r_usersWithOrgWidePermission org p s)"
  unfolding usersWithOrgWidePermission_eq by (intro distinct_active_holders) simp

lemma admin_besides:
  assumes "store_ok s" "has_admin org s" "\<not> last_admin u org s"
  shows "\<exists>a. admin_grant org s a \<and> as_user a \<noteq> u"
proof (rule ccontr)
  assume "\<not> ?thesis"
  then have "x = u" if "x \<in> set (r_usersWithOrgWidePermission org ADMIN s)" for x
    using that admins_iff[OF assms(1), of x org] by blast
  then have "set (r_usersWithOrgWidePermission org ADMIN s) \<subseteq> {u}" by blast
  moreover from assms(2) obtain a where "admin_grant org s a" by (auto simp: has_admin_def)
  then have "as_user a \<in> set (r_usersWithOrgWidePermission org ADMIN s)"
    using admins_iff[OF assms(1), of "as_user a" org] by blast
  then have "r_usersWithOrgWidePermission org ADMIN s \<noteq> []" by auto
  ultimately have "r_usersWithOrgWidePermission org ADMIN s = [u]"
    using distinct_admins[of org ADMIN s]
    by (cases "r_usersWithOrgWidePermission org ADMIN s"; cases "tl (r_usersWithOrgWidePermission org ADMIN s)") auto
  with assms(3) show False by (simp add: last_admin_def)
qed

text \<open>A grant survives when its row, its user and its role do.\<close>

lemma grant_kept:
  assumes "admin_grant org s a" "a \<in> set (st_assignments s')"
    and "is_active (as_user a) s \<Longrightarrow> is_active (as_user a) s'"
    and "\<And>r. r_getRole (as_role a) s = Some r \<Longrightarrow> ADMIN \<in> set (rl_permissions r)
        \<Longrightarrow> \<exists>r'. r_getRole (as_role a) s' = Some r' \<and> rl_org r' = rl_org r \<and> ADMIN \<in> set (rl_permissions r')"
  shows "admin_grant org s' a"
  using assms unfolding admin_grant_def by metis

section \<open>The store\<close>

lemma getUser_after [store_simps]:
  "r_getUser i (r_createUser u s) = (if i = us_id u then Some u else r_getUser i s)"
  "r_getUser i (r_updateUser j p t s) = (if i = j then map_option (patch_user p t) (r_getUser i s) else r_getUser i s)"
  "r_getUser i (r_createRole r v s) = r_getUser i s"
  "r_getUser i (r_updateRolePermissions j n ps t vo s) = r_getUser i s"
  "r_getUser i (r_deleteRole j s) = r_getUser i s"
  "r_getUser i (r_createAssignment a s) = r_getUser i s"
  "r_getUser i (r_deleteAssignment j s) = r_getUser i s"
  "r_getUser i (r_setAssignmentSource j src s) = r_getUser i s"
proof -
  have id: "r_getUser j s = Some u \<Longrightarrow> us_id u = j" for j u by (auto simp: r_getUser_def dest: map_get_Some)
  show "r_getUser i (r_updateUser j p t s) = (if i = j then map_option (patch_user p t) (r_getUser i s) else r_getUser i s)"
  proof (cases "r_getUser j s")
    case (Some u)
    from id[OF this] have "us_id (patch_user p t u) = j" by (simp add: patch_user_def)
    with Some show ?thesis by (auto simp: r_updateUser_def r_getUser_def map_get_set)
  qed (auto simp: r_updateUser_def)
qed (auto simp: r_getUser_def r_createUser_def r_createRole_def r_updateRolePermissions_def r_deleteRole_def
    r_createAssignment_def r_deleteAssignment_def r_setAssignmentSource_def map_get_set Let_def split: option.splits)

lemma getRole_after [store_simps]:
  "r_getRole i (r_createUser u s) = r_getRole i s"
  "r_getRole i (r_updateUser j p t s) = r_getRole i s"
  "r_getRole i (r_createRole r v s) = (if i = rl_id r then Some r else r_getRole i s)"
  "r_getRole i (r_updateRolePermissions j n ps t vo s) =
     (if i = j then map_option (\<lambda>r. r\<lparr>rl_name := or_else n (rl_name r),
                rl_permissions := or_else ps (rl_permissions r), rl_updatedAt := t\<rparr>) (r_getRole i s)
      else r_getRole i s)"
  "r_getRole i (r_deleteRole j s) = (if i = j then None else r_getRole i s)"
  "r_getRole i (r_createAssignment a s) = r_getRole i s"
  "r_getRole i (r_deleteAssignment j s) = r_getRole i s"
  "r_getRole i (r_setAssignmentSource j src s) = r_getRole i s"
proof -
  show "r_getRole i (r_updateRolePermissions j n ps t vo s) =
     (if i = j then map_option (\<lambda>r. r\<lparr>rl_name := or_else n (rl_name r),
                rl_permissions := or_else ps (rl_permissions r), rl_updatedAt := t\<rparr>) (r_getRole i s)
      else r_getRole i s)"
  proof (cases "r_getRole j s")
    case (Some r)
    from r_getRole_id[OF this] Some show ?thesis
      by (cases vo) (auto simp: r_updateRolePermissions_def r_getRole_def map_get_set Let_def)
  qed (auto simp: r_updateRolePermissions_def)
qed (auto simp: r_getRole_def r_createUser_def r_updateUser_def r_createRole_def r_deleteRole_def
    r_createAssignment_def r_deleteAssignment_def r_setAssignmentSource_def map_get_set map_get_delete Let_def
    split: option.splits)

lemma assignments_after [store_simps]:
  "st_assignments (r_createUser u s) = st_assignments s"
  "st_assignments (r_updateUser j p t s) = st_assignments s"
  "st_assignments (r_createRole r v s) = st_assignments s"
  "st_assignments (r_updateRolePermissions j n ps t vo s) = st_assignments s"
  "st_assignments (r_deleteRole j s) = filter (\<lambda>a. as_role a \<noteq> j) (st_assignments s)"
  "st_assignments (r_createAssignment a s) = map_set as_id a (st_assignments s)"
  "st_assignments (r_deleteAssignment j s) = map_delete as_id j (st_assignments s)"
  by (auto simp: r_createUser_def r_updateUser_def r_createRole_def r_updateRolePermissions_def r_deleteRole_def
      r_createAssignment_def r_deleteAssignment_def Let_def split: option.split)

lemma rows_after [store_simps]:
  "distinct (map us_id (st_users s)) \<Longrightarrow> distinct (map us_id (st_users (r_createUser u s)))"
  "distinct (map us_id (st_users s)) \<Longrightarrow> distinct (map us_id (st_users (r_updateUser j p t s)))"
  "st_users (r_createRole r v s) = st_users s" "st_users (r_updateRolePermissions j n ps t vo s) = st_users s"
  "st_users (r_deleteRole j s) = st_users s" "st_users (r_createAssignment a s) = st_users s"
  "st_users (r_deleteAssignment j s) = st_users s" "st_users (r_setAssignmentSource j src s) = st_users s"
  "st_roles (r_createUser u s) = st_roles s" "st_roles (r_updateUser j p t s) = st_roles s"
  "distinct (map rl_id (st_roles s)) \<Longrightarrow> distinct (map rl_id (st_roles (r_createRole r v s)))"
  "distinct (map rl_id (st_roles s)) \<Longrightarrow> distinct (map rl_id (st_roles (r_updateRolePermissions j n ps t vo s)))"
  "distinct (map rl_id (st_roles s)) \<Longrightarrow> distinct (map rl_id (st_roles (r_deleteRole j s)))"
  "st_roles (r_createAssignment a s) = st_roles s" "st_roles (r_deleteAssignment j s) = st_roles s"
  "st_roles (r_setAssignmentSource j src s) = st_roles s"
  by (auto simp: r_createUser_def r_updateUser_def r_createRole_def r_updateRolePermissions_def r_deleteRole_def
      r_createAssignment_def r_deleteAssignment_def r_setAssignmentSource_def Let_def split: option.split)

section \<open>The invariant of the store, operation by operation\<close>

lemma store_okD:
  assumes "store_ok s"
  shows "distinct (map us_id (st_users s))" "distinct (map rl_id (st_roles s))" "distinct (map as_id (st_assignments s))"
    and "\<And>a b. a \<in> set (st_assignments s) \<Longrightarrow> b \<in> set (st_assignments s) \<Longrightarrow> as_user a = as_user b
           \<Longrightarrow> as_role a = as_role b \<Longrightarrow> as_org a = as_org b \<Longrightarrow> org_wide a \<Longrightarrow> org_wide b \<Longrightarrow> a = b"
    and "\<And>a. a \<in> set (st_assignments s) \<Longrightarrow> \<exists>r. r_getRole (as_role a) s = Some r \<and> rl_org r = as_org a"
    and "\<And>a. a \<in> set (st_assignments s) \<Longrightarrow> is_auto a \<Longrightarrow> starts_with MANAGED_ROLE_ID_PREFIX (as_role a)"
  using assms unfolding store_ok_def by blast+

lemma store_ok_fewer:
  assumes "store_ok s" "set (st_assignments s') \<subseteq> set (st_assignments s)" "distinct (map as_id (st_assignments s'))"
    and "distinct (map us_id (st_users s'))" "distinct (map rl_id (st_roles s'))"
    and "\<And>a r. a \<in> set (st_assignments s') \<Longrightarrow> r_getRole (as_role a) s = Some r
           \<Longrightarrow> \<exists>r'. r_getRole (as_role a) s' = Some r' \<and> rl_org r' = rl_org r"
  shows "store_ok s'"
  unfolding store_ok_def
proof (intro conjI ballI impI)
  fix a
  assume a: "a \<in> set (st_assignments s')"
  with assms(2) have in_s: "a \<in> set (st_assignments s)" by blast
  show "\<exists>r. r_getRole (as_role a) s' = Some r \<and> rl_org r = as_org a"
    using store_okD(5)[OF assms(1) in_s] assms(6)[OF a] by metis
  show "starts_with MANAGED_ROLE_ID_PREFIX (as_role a)" if "is_auto a"
    using store_okD(6)[OF assms(1) in_s that] .
  fix b
  assume "b \<in> set (st_assignments s')"
    "as_user a = as_user b \<and> as_role a = as_role b \<and> as_org a = as_org b \<and> org_wide a \<and> org_wide b"
  with assms(2) in_s show "a = b" using store_okD(4)[OF assms(1), of a b] by blast
qed (fact assms)+

definition safe_step :: "string \<Rightarrow> identity_store \<Rightarrow> identity_store \<Rightarrow> bool" where
  \<comment> \<open>a well-formed store with an administrator stays one\<close>
  "safe_step org s s' = (store_ok s \<longrightarrow> store_ok s' \<and> (has_admin org s \<longrightarrow> has_admin org s'))"

lemma safe_refl [simp]: "safe_step org s s"
  by (simp add: safe_step_def)

lemma safe_trans: "safe_step org s s1 \<Longrightarrow> safe_step org s1 s2 \<Longrightarrow> safe_step org s s2"
  by (simp add: safe_step_def)

lemma safe_by_grants:
  assumes "store_ok s \<Longrightarrow> store_ok s'" "\<And>a. store_ok s \<Longrightarrow> admin_grant org s a \<Longrightarrow> admin_grant org s' a"
  shows "safe_step org s s'"
  using assms unfolding safe_step_def has_admin_def by blast

lemma safe_createUser:
  assumes "r_getUser (us_id u) s = None"
  shows "safe_step org s (r_createUser u s)"
proof (rule safe_by_grants)
  assume ok: "store_ok s"
  show "store_ok (r_createUser u s)"
    by (rule store_ok_fewer[OF ok]) (use store_okD[OF ok] in \<open>auto simp: store_simps\<close>)
next
  fix a
  assume "admin_grant org s a"
  then show "admin_grant org (r_createUser u s) a"
    by (rule grant_kept) (use \<open>admin_grant org s a\<close> assms in \<open>auto simp: store_simps is_active_def admin_grant_def split: option.splits\<close>)
qed

lemma safe_updateUser:
  assumes "\<And>x. r_getUser j s = Some x \<Longrightarrow> us_status x = S_active \<Longrightarrow> up_status p = None \<or> up_status p = Some S_active"
  shows "safe_step org s (r_updateUser j p t s)"
proof (rule safe_by_grants)
  assume ok: "store_ok s"
  show "store_ok (r_updateUser j p t s)"
    by (rule store_ok_fewer[OF ok]) (use store_okD[OF ok] in \<open>auto simp: store_simps\<close>)
next
  fix a
  assume "admin_grant org s a"
  then show "admin_grant org (r_updateUser j p t s) a"
    by (rule grant_kept)
      (use \<open>admin_grant org s a\<close> assms in \<open>auto simp: store_simps is_active_def admin_grant_def patch_user_def or_else_def split: option.splits\<close>)
qed

lemma safe_createRole:
  assumes "r_getRole (rl_id r) s = None"
  shows "safe_step org s (r_createRole r v s)"
proof (rule safe_by_grants)
  assume ok: "store_ok s"
  show "store_ok (r_createRole r v s)"
    by (rule store_ok_fewer[OF ok]) (use store_okD[OF ok] assms in \<open>auto simp: store_simps\<close>)
next
  fix a
  assume "admin_grant org s a"
  then show "admin_grant org (r_createRole r v s) a"
    by (rule grant_kept) (use \<open>admin_grant org s a\<close> assms in \<open>auto simp: store_simps is_active_def admin_grant_def\<close>)
qed

lemma store_ok_updateRole: "store_ok s \<Longrightarrow> store_ok (r_updateRolePermissions j n ps t vo s)"
  by (rule store_ok_fewer) (use store_okD in \<open>auto simp: store_simps\<close>)

lemma safe_updateRole:
  assumes "\<And>r. r_getRole j s = Some r \<Longrightarrow> ADMIN \<in> set (rl_permissions r) \<Longrightarrow> ADMIN \<in> set (or_else ps (rl_permissions r))"
  shows "safe_step org s (r_updateRolePermissions j n ps t vo s)"
proof (rule safe_by_grants)
  fix a
  assume "admin_grant org s a"
  then show "admin_grant org (r_updateRolePermissions j n ps t vo s) a"
    by (rule grant_kept) (use \<open>admin_grant org s a\<close> assms in \<open>auto simp: store_simps is_active_def admin_grant_def\<close>)
qed (rule store_ok_updateRole)

lemma store_ok_deleteRole: "store_ok s \<Longrightarrow> store_ok (r_deleteRole j s)"
  by (rule store_ok_fewer) (use store_okD in \<open>auto simp: store_simps distinct_map_filter\<close>)

lemma store_ok_deleteAssignment: "store_ok s \<Longrightarrow> store_ok (r_deleteAssignment j s)"
  by (rule store_ok_fewer) (use store_okD in \<open>auto simp: store_simps\<close>)

lemma grant_deleteAssignment:
  "admin_grant org s a \<Longrightarrow> as_id a \<noteq> j \<Longrightarrow> admin_grant org (r_deleteAssignment j s) a"
  by (rule grant_kept) (auto simp: store_simps is_active_def admin_grant_def)

lemma grant_deleteRole:
  "admin_grant org s a \<Longrightarrow> as_role a \<noteq> j \<Longrightarrow> admin_grant org (r_deleteRole j s) a"
  by (rule grant_kept) (auto simp: store_simps is_active_def admin_grant_def)

lemma safe_createAssignment:
  assumes "r_getAssignment (as_id a) s = None" "\<exists>r. r_getRole (as_role a) s = Some r \<and> rl_org r = as_org a"
    and "is_auto a \<Longrightarrow> starts_with MANAGED_ROLE_ID_PREFIX (as_role a)"
    and "\<And>b. b \<in> set (st_assignments s) \<Longrightarrow> as_user b = as_user a \<Longrightarrow> as_role b = as_role a \<Longrightarrow> as_org b = as_org a
           \<Longrightarrow> org_wide b \<Longrightarrow> \<not> org_wide a"
  shows "safe_step org s (r_createAssignment a s)"
proof (rule safe_by_grants)
  assume ok: "store_ok s"
  have new: "set (st_assignments (r_createAssignment a s)) = insert a (set (st_assignments s))"
  proof -
    have "as_id b \<noteq> as_id a" if "b \<in> set (st_assignments s)" for b
      using that assms(1) map_get_in[OF store_okD(3)[OF ok] that] by (auto simp: r_getAssignment_def)
    then show ?thesis unfolding assignments_after set_map_set[OF store_okD(3)[OF ok]] by blast
  qed
  show "store_ok (r_createAssignment a s)"
    unfolding store_ok_def new using store_okD[OF ok] assms(2,3,4)
    by (auto simp: store_simps) metis+
next
  fix b
  assume ok: "store_ok s" and b: "admin_grant org s b"
  have "b \<in> set (st_assignments (r_createAssignment a s))"
    using b assms(1) map_get_in[OF store_okD(3)[OF ok], of b]
    by (auto simp: store_simps set_map_set[OF store_okD(3)[OF ok]] admin_grant_def r_getAssignment_def)
  then show "admin_grant org (r_createAssignment a s) b"
    by (rule grant_kept[OF b]) (use b in \<open>auto simp: store_simps is_active_def admin_grant_def\<close>)
qed

section \<open>Users\<close>

definition fresh_ids :: "identity_env \<Rightarrow> identity_store \<Rightarrow> bool" where
  \<comment> \<open>\<open>newId\<close> makes ids that are in use nowhere\<close>
  "fresh_ids env s =
     ((\<forall>p n m. ev_newId env p n = ev_newId env p m \<longrightarrow> n = m)
      \<and> (\<forall>n. r_getUser (ev_newId env ''user'' n) s = None \<and> r_getRole (ev_newId env ''role'' n) s = None
           \<and> r_getAssignment (ev_newId env ''ra'' n) s = None
           \<and> (\<forall>a\<in>set (st_assignments s). as_user a \<noteq> ev_newId env ''user'' n)))"

lemma fresh_idsD:
  assumes "fresh_ids env s"
  shows "ev_newId env p n = ev_newId env p m \<Longrightarrow> n = m" "r_getUser (ev_newId env ''user'' n) s = None"
    "r_getRole (ev_newId env ''role'' n) s = None" "r_getAssignment (ev_newId env ''ra'' n) s = None"
    "a \<in> set (st_assignments s) \<Longrightarrow> as_user a \<noteq> ev_newId env ''user'' n"
  using assms unfolding fresh_ids_def by blast+

lemma safe_grants:
  assumes "distinct (map as_id as)" "distinct (map as_role as)"
    and "\<And>a. a \<in> set as \<Longrightarrow> r_getAssignment (as_id a) s = None"
    and "\<And>a. a \<in> set as \<Longrightarrow> \<exists>r. r_getRole (as_role a) s = Some r \<and> rl_org r = as_org a"
    and "\<And>a. a \<in> set as \<Longrightarrow> is_auto a \<Longrightarrow> starts_with MANAGED_ROLE_ID_PREFIX (as_role a)"
    and "\<And>a b. a \<in> set as \<Longrightarrow> b \<in> set (st_assignments s) \<Longrightarrow> as_user b = as_user a \<Longrightarrow> as_role b = as_role a
           \<Longrightarrow> as_org b = as_org a \<Longrightarrow> org_wide b \<Longrightarrow> \<not> org_wide a"
  shows "safe_step org s (fold r_createAssignment as s)"
  using assms
proof (induction "as" arbitrary: s)
  case (Cons a as)
  have first: "safe_step org s (r_createAssignment a s)"
    by (rule safe_createAssignment) (use Cons.prems in auto)
  have get: "r_getAssignment i (r_createAssignment a s) = (if i = as_id a then Some a else r_getAssignment i s)" for i
    by (simp add: r_getAssignment_def r_createAssignment_def map_get_set)
  have mem: "b \<in> set (st_assignments (r_createAssignment a s)) \<Longrightarrow> b = a \<or> b \<in> set (st_assignments s)" for b
  proof -
    have "b \<in> set (map_set as_id a xs) \<Longrightarrow> b = a \<or> b \<in> set xs" for xs
      by (induction xs) (auto split: if_splits)
    then show "b \<in> set (st_assignments (r_createAssignment a s)) \<Longrightarrow> b = a \<or> b \<in> set (st_assignments s)"
      by (simp add: store_simps)
  qed
  have "safe_step org (r_createAssignment a s) (fold r_createAssignment as (r_createAssignment a s))"
  proof (rule Cons.IH)
    show "distinct (map as_id as)" "distinct (map as_role as)" using Cons.prems(1,2) by auto
    show "r_getAssignment (as_id x) (r_createAssignment a s) = None" if "x \<in> set as" for x
    proof -
      have "as_id a \<notin> as_id ` set as" using Cons.prems(1) by simp
      then have "as_id x \<noteq> as_id a" using that by (metis imageI)
      with that Cons.prems(3)[of x] show ?thesis by (simp add: get)
    qed
    show "\<exists>r. r_getRole (as_role x) (r_createAssignment a s) = Some r \<and> rl_org r = as_org x" if "x \<in> set as" for x
      using that Cons.prems(4) by (simp add: store_simps)
    show "starts_with MANAGED_ROLE_ID_PREFIX (as_role x)" if "x \<in> set as" "is_auto x" for x
      using that Cons.prems(5) by simp
    show "\<not> org_wide x" if "x \<in> set as" "b \<in> set (st_assignments (r_createAssignment a s))" "as_user b = as_user x"
      "as_role b = as_role x" "as_org b = as_org x" "org_wide b" for x b
    proof -
      have "as_role x \<noteq> as_role a" using Cons.prems(2) that(1) by (auto simp: image_iff)
      with mem[OF that(2)] that(4) have "b \<in> set (st_assignments s)" by auto
      with Cons.prems(6)[of x b] that show ?thesis by simp
    qed
  qed
  with first show ?case by (auto intro: safe_trans)
qed simp

definition kept :: "string \<Rightarrow> identity_store \<Rightarrow> 'a result \<Rightarrow> bool" where
  \<comment> \<open>whatever the call returned or threw\<close>
  "kept org s r = safe_step org s (snd r)"

lemma kept_simps [simp]:
  "kept org s (fails e s)" "kept org s (returns a s') = safe_step org s s'"
  "kept org s (after eff rest s) = (case eff of Some _ \<Rightarrow> True | None \<Rightarrow> kept org s rest)"
  by (simp_all add: kept_def fails_def returns_def after_def split: option.split)

lemma found_user_Inr: "found_user i org s = Inr u \<longleftrightarrow> r_getUser i s = Some u \<and> us_org u = org"
  by (auto simp: found_user_def split: option.splits)

lemma found_role_Inr: "found_role i org s = Inr r \<longleftrightarrow> r_getRole i s = Some r \<and> rl_org r = org"
  by (auto simp: found_role_def split: option.splits)

lemma enumerate_grants:
  "fold (\<lambda>(n, rid). r_createAssignment (org_wide_grant env n u rid org by src)) (enumerate 0 rids) s
     = fold r_createAssignment (map (\<lambda>(n, rid). org_wide_grant env n u rid org by src) (enumerate 0 rids)) s"
  by (simp add: fold_map comp_def case_prod_unfold)

lemma grant_lists:
  "map as_role (map (\<lambda>(n, rid). org_wide_grant env n u rid org by src) (enumerate k rids)) = rids"
  "map as_id (map (\<lambda>(n, rid). org_wide_grant env n u rid org by src) (enumerate k rids))
     = map (ev_newId env ''ra'') [k..<k + length rids]"
proof -
  show "map as_role (map (\<lambda>(n, rid). org_wide_grant env n u rid org by src) (enumerate k rids)) = rids"
    by (induction rids arbitrary: k) (auto simp: org_wide_grant_def)
  show "map as_id (map (\<lambda>(n, rid). org_wide_grant env n u rid org by src) (enumerate k rids))
     = map (ev_newId env ''ra'') [k..<k + length rids]"
  proof (induction rids arbitrary: k)
    case (Cons rid rids)
    from Cons[of "Suc k"] show ?case by (simp add: org_wide_grant_def upt_conv_Cons del: upt_Suc)
  qed simp
qed

lemma distinct_new_ids: "fresh_ids env s \<Longrightarrow> distinct (map (ev_newId env p) ns) = distinct ns"
  by (simp add: distinct_map inj_on_def) (metis fresh_idsD(1))

lemma safe_new_grants:
  assumes fresh: "fresh_ids env s0" and same: "st_assignments s = st_assignments s0"
    and rids: "distinct rids" "\<And>rid. rid \<in> set rids \<Longrightarrow> \<exists>r. r_getRole rid s = Some r \<and> rl_org r = org"
    and auto: "src = Some A_auto \<Longrightarrow> \<forall>rid\<in>set rids. starts_with MANAGED_ROLE_ID_PREFIX rid"
    and new: "\<And>b. b \<in> set (st_assignments s) \<Longrightarrow> as_user b = u \<Longrightarrow> as_org b = org \<Longrightarrow> as_role b \<in> set rids \<Longrightarrow> \<not> org_wide b"
  shows "safe_step org s (fold (\<lambda>(n, rid). r_createAssignment (org_wide_grant env n u rid org by src)) (enumerate 0 rids) s)"
proof -
  let ?as = "map (\<lambda>(n, rid). org_wide_grant env n u rid org by src) (enumerate 0 rids)"
  have row: "as_user a = u" "as_org a = org" "org_wide a" "as_source a = src" "as_role a \<in> set rids" "\<exists>n. as_id a = ev_newId env ''ra'' n"
    if "a \<in> set ?as" for a
    using that by (auto simp: org_wide_grant_def org_wide_def in_set_enumerate_eq)
  show ?thesis unfolding enumerate_grants
  proof (rule safe_grants)
    show "distinct (map as_id ?as)" unfolding grant_lists distinct_new_ids[OF fresh] by simp
    show "distinct (map as_role ?as)" unfolding grant_lists by (rule rids)
    fix a
    assume a: "a \<in> set ?as"
    show "r_getAssignment (as_id a) s = None"
      using row(6)[OF a] fresh_idsD(4)[OF fresh] by (auto simp: r_getAssignment_def same)
    show "\<exists>r. r_getRole (as_role a) s = Some r \<and> rl_org r = as_org a" using rids(2)[OF row(5)[OF a]] row(2)[OF a] by simp
    show "starts_with MANAGED_ROLE_ID_PREFIX (as_role a)" if "is_auto a"
      using that auto row(4,5)[OF a] by (simp add: is_auto_def)
    fix b
    assume "b \<in> set (st_assignments s)" "as_user b = as_user a" "as_role b = as_role a" "as_org b = as_org a" "org_wide b"
    with new[of b] row(1,2,5)[OF a] show "\<not> org_wide a" by simp
  qed
qed

lemma kept_invite:
  assumes "fresh_ids env s" "distinct (iv_roleIds req)"
  shows "kept org s (invite env org req s)"
proof -
  let ?new = "ev_newId env ''user'' 0"
  have grants: "safe_step org s (fold (\<lambda>(n, rid). r_createAssignment (org_wide_grant env n ?new rid org g None))
        (enumerate 0 (iv_roleIds req)) (r_createUser u s))"
    if "us_id u = ?new" "\<not> (\<exists>rid\<in>set (iv_roleIds req). unknown_role org s rid)" for u g
  proof (rule safe_trans[OF safe_createUser[of u s]])
    show "r_getUser (us_id u) s = None" using that(1) fresh_idsD(2)[OF assms(1)] by simp
    show "safe_step org (r_createUser u s) (fold (\<lambda>(n, rid). r_createAssignment (org_wide_grant env n ?new rid org g None))
        (enumerate 0 (iv_roleIds req)) (r_createUser u s))"
      by (rule safe_new_grants[OF assms(1)])
        (use that(2) assms fresh_idsD(5)[OF assms(1)] in \<open>auto simp: store_simps unknown_role_def split: option.splits\<close>)
  qed
  show ?thesis
    by (auto simp: invite_def Let_def grants split: sum.split)
qed

lemma kept_provision: "kept org s (provision env org email name login s)"
  by (auto simp: provision_def Let_def intro!: safe_updateUser split: sum.split option.split user_status.split)

lemma activate_is_update:
  "snd (r_activateIfInvited i t s) =
     (if map_option us_status (r_getUser i s) = Some S_invited
      then r_updateUser i (no_patch\<lparr>up_status := Some S_active\<rparr>) t s else s)"
proof -
  have "patch_user (no_patch\<lparr>up_status := Some S_active\<rparr>) t u = u\<lparr>us_status := S_active, us_updatedAt := t\<rparr>" for u
    by (cases u) (simp add: patch_user_def no_patch_def or_else_def)
  then show ?thesis by (auto simp: r_activateIfInvited_def r_updateUser_def split: option.split)
qed

lemma kept_activateInvited: "kept org s (activateInvited env userId org req s)"
proof -
  have "safe_step org s (snd (r_activateIfInvited userId t s))" for t
    unfolding activate_is_update by (auto intro!: safe_updateUser)
  then show ?thesis
    unfolding activateInvited_def Let_def case_prod_beta by (auto split: sum.split option.split)
qed

lemma kept_updateOwnProfile: "kept org s (updateOwnProfile env userId org req s)"
proof -
  have profile: "safe_step org s (r_updateUser userId (no_patch\<lparr>up_displayName := n, up_avatarUrl := v\<rparr>) t s)" for n v t
    by (rule safe_updateUser) (simp add: no_patch_def)
  have rest: "kept org s (case checked of Inl e \<Rightarrow> fails e s
      | Inr (name, avatar) \<Rightarrow> returns (view name avatar)
          (if name \<noteq> None \<or> avatar \<noteq> None
           then r_updateUser userId (no_patch\<lparr>up_displayName := name, up_avatarUrl := avatar\<rparr>) t s else s))"
    for checked :: "dub_error + string option \<times> string option option"
      and view :: "string option \<Rightarrow> string option option \<Rightarrow> user_view" and t
    by (cases checked) (auto simp: profile)
  show ?thesis
    unfolding updateOwnProfile_def Let_def
    by (cases "found_user userId org s") (simp_all only: sum.case kept_simps rest)
qed

text \<open>Whatever happens to one user's grants, an administrator remains if that user is not the last one.\<close>

lemma safe_other_user:
  assumes "\<not> last_admin u org s" "store_ok s \<Longrightarrow> store_ok s'"
    and "\<And>a. store_ok s \<Longrightarrow> admin_grant org s a \<Longrightarrow> as_user a \<noteq> u \<Longrightarrow> admin_grant org s' a"
  shows "safe_step org s s'"
  unfolding safe_step_def using assms(2,3) admin_besides[OF _ _ assms(1)] unfolding has_admin_def by blast

lemma store_ok_updateUser: "store_ok s \<Longrightarrow> store_ok (r_updateUser j p t s)"
  by (rule store_ok_fewer) (use store_okD in \<open>auto simp: store_simps\<close>)

lemma grant_updateUser: "admin_grant org s a \<Longrightarrow> as_user a \<noteq> j \<Longrightarrow> admin_grant org (r_updateUser j p t s) a"
  by (rule grant_kept) (auto simp: store_simps is_active_def admin_grant_def)

lemma kept_updateUser: "kept org s (updateUser env userId org req s)"
proof (cases "found_user userId org s")
  case (Inr user)
  then have u: "r_getUser userId s = Some user" by (simp add: found_user_Inr)
  have other: "safe_step org s (r_updateUser userId p t s)" if "\<not> last_admin userId org s" for p t
    by (rule safe_other_user[OF that]) (auto intro: store_ok_updateUser grant_updateUser)
  have harmless: "safe_step org s (r_updateUser userId p t s)"
    if "us_status user = S_active \<Longrightarrow> up_status p = None \<or> up_status p = Some S_active" for p t
    using that u by (intro safe_updateUser) auto
  show ?thesis using Inr
    by (auto simp: updateUser_def Let_def other intro!: harmless split: option.split)
qed (simp add: updateUser_def)

lemma grants_fold_delete:
  "admin_grant org s b \<Longrightarrow> as_id b \<notin> as_id ` set as \<Longrightarrow> admin_grant org (fold (\<lambda>a. r_deleteAssignment (as_id a)) as s) b"
  by (induction "as" arbitrary: s) (auto intro: grant_deleteAssignment)

lemma store_ok_fold_delete: "store_ok s \<Longrightarrow> store_ok (fold (\<lambda>a. r_deleteAssignment (as_id a)) as s)"
  by (induction "as" arbitrary: s) (auto intro: store_ok_deleteAssignment)

lemma safe_fold_delete:
  assumes "\<And>a b. a \<in> set as \<Longrightarrow> admin_grant org s b \<Longrightarrow> as_id b \<noteq> as_id a"
  shows "safe_step org s (fold (\<lambda>a. r_deleteAssignment (as_id a)) as s)"
  by (rule safe_by_grants[OF store_ok_fold_delete]) (use assms in \<open>auto intro!: grants_fold_delete\<close>)

lemma same_assignment:
  "store_ok s \<Longrightarrow> a \<in> set (st_assignments s) \<Longrightarrow> b \<in> set (st_assignments s) \<Longrightarrow> as_id a = as_id b \<Longrightarrow> a = b"
  using store_okD(3)[of s] by (auto simp: distinct_map inj_on_def)

lemma kept_offboardUser: "kept org s (offboardUser env userId org s)"
proof -
  let ?as = "r_listAssignmentsByUser userId org s"
  let ?s = "fold (\<lambda>a. r_deleteAssignment (as_id a)) ?as s"
  have keep: "admin_grant org ?s b" if "store_ok s" "admin_grant org s b" "as_user b \<noteq> userId" for b
  proof (rule grants_fold_delete[OF that(2)])
    have "as_id b \<noteq> as_id a" if "a \<in> set ?as" for a
      using that same_assignment[OF \<open>store_ok s\<close>, of b a] \<open>admin_grant org s b\<close> \<open>as_user b \<noteq> userId\<close>
      by (auto simp: r_listAssignmentsByUser_def admin_grant_def)
    then show "as_id b \<notin> as_id ` set ?as" by blast
  qed
  have "safe_step org s ?s" "safe_step org s (r_updateUser userId p t ?s)" if "\<not> last_admin userId org s" for p t
    using that keep
    by (auto intro!: safe_other_user store_ok_updateUser store_ok_fold_delete grant_updateUser)
  then show ?thesis by (auto simp: offboardUser_def Let_def split: sum.split option.split)
qed

section \<open>Email Routing\<close>

text \<open>The upsert loop only adds users and never takes a status away; then only users that are no
  administrators are disabled.\<close>

lemma getUserByEmail_in: "r_getUserByEmail org e s = Some u \<Longrightarrow> u \<in> set (st_users s)"
  unfolding r_getUserByEmail_def by (drule find_Some_in) simp

lemma safe_sync_addresses:
  assumes "\<And>n m. ev_newId env ''user'' n = ev_newId env ''user'' m \<Longrightarrow> n = m"
    and "\<And>n. k \<le> n \<Longrightarrow> r_getUser (ev_newId env ''user'' n) s = None" and "store_ok s"
  shows "safe_step org s (fst (fold (sync_address env org) (enumerate k as) (s, i, j)))"
  using assms
proof (induction "as" arbitrary: k s i j)
  case (Cons a as)
  obtain email enabled where a: "a = (email, enabled)" by (cases a)
  define u where "u = \<lparr>us_id = ev_newId env ''user'' k, us_org = org, us_email = email,
      us_displayName = mail_name email, us_furigana = None, us_githubLogin = None, us_avatarUrl = None,
      us_status = (if enabled then S_active else S_disabled), us_source = U_email_routing,
      us_createdAt = ev_now env, us_updatedAt = ev_now env\<rparr>"
  obtain s1 i1 j1 where step: "sync_address env org (k, a) (s, i, j) = (s1, i1, j1)"
    by (metis prod_cases3)
  have "safe_step org s s1 \<and> (\<forall>n\<ge>Suc k. r_getUser (ev_newId env ''user'' n) s1 = None)"
  proof (cases "r_getUserByEmail org email s")
    case None
    with step have s1: "s1 = r_createUser u s" by (simp add: sync_address_def a u_def)
    have id: "us_id u = ev_newId env ''user'' k" by (simp add: u_def)
    have "safe_step org s s1" unfolding s1
      by (rule safe_createUser) (simp add: id Cons.prems(2))
    moreover have "r_getUser (ev_newId env ''user'' n) s1 = None" if "Suc k \<le> n" for n
      using that Cons.prems(1)[of n k] Cons.prems(2)[of n] by (auto simp: s1 store_simps id)
    ultimately show ?thesis by blast
  next
    case (Some old)
    define p where "p = no_patch\<lparr>up_source := Some U_email_routing,
        up_status := (if reactivates enabled old then Some S_active else None)\<rparr>"
    from step Some have s1: "s1 = r_updateUser (us_id old) p (ev_now env) s" by (simp add: sync_address_def a p_def)
    have "safe_step org s s1" unfolding s1 by (rule safe_updateUser) (simp add: p_def no_patch_def)
    moreover have "r_getUser (ev_newId env ''user'' n) s1 = None" if "Suc k \<le> n" for n
      using that Cons.prems(2)[of n] by (auto simp: s1 store_simps)
    ultimately show ?thesis by blast
  qed
  then have first: "safe_step org s s1" and fresh: "\<And>n. Suc k \<le> n \<Longrightarrow> r_getUser (ev_newId env ''user'' n) s1 = None"
    by auto
  from first Cons.prems(3) have "store_ok s1" by (simp add: safe_step_def)
  from safe_trans[OF first Cons.IH[of "Suc k" s1 i1 j1, OF Cons.prems(1) fresh this]] step
  show ?case by simp
qed simp

lemma safe_disable_fold:
  assumes "\<And>u b. u \<in> set us \<Longrightarrow> store_ok s \<Longrightarrow> admin_grant org s b \<Longrightarrow> as_user b \<noteq> us_id u"
  shows "safe_step org s (fold (\<lambda>u. r_updateUser (us_id u) p t) us s)"
proof (rule safe_by_grants)
  show "store_ok s \<Longrightarrow> store_ok (fold (\<lambda>u. r_updateUser (us_id u) p t) us s)"
    by (induction us arbitrary: s) (auto intro: store_ok_updateUser)
  fix b
  assume ok: "store_ok s" and b: "admin_grant org s b"
  have "as_user b \<notin> us_id ` set us" using assms[OF _ ok b] by blast
  with b show "admin_grant org (fold (\<lambda>u. r_updateUser (us_id u) p t) us s) b"
    by (induction us arbitrary: s) (auto intro: grant_updateUser)
qed

lemma safe_disable_others:
  assumes "\<And>u. u \<in> set us \<Longrightarrow> us_id u \<notin> set (r_usersWithOrgWidePermission org ADMIN s)"
  shows "safe_step org s (fold (\<lambda>u. r_updateUser (us_id u) p t) us s)"
proof (rule safe_disable_fold)
  fix u b
  assume "u \<in> set us" "store_ok s" "admin_grant org s b"
  with assms[of u] admins_iff[of s "us_id u" org] show "as_user b \<noteq> us_id u" by blast
qed

lemma kept_syncEmailRouting:
  assumes "fresh_ids env s" "store_ok s"
  shows "kept org s (syncEmailRouting env org addresses s)"
proof (cases "r_getOrg org s = None")
  case False
  show ?thesis
  proof (cases "normalizeRoutingAddresses addresses")
    case (Inr as)
    obtain s1 i j where loop: "fold (sync_address env org) (enumerate 0 as) (s, 0, 0) = (s1, i, j)"
      by (metis prod_cases3)
    have "safe_step org s (fst (fold (sync_address env org) (enumerate 0 as) (s, 0, 0)))"
      by (rule safe_sync_addresses) (use assms fresh_idsD(1)[OF assms(1)] fresh_idsD(2)[OF assms(1)] in auto)
    then have "safe_step org s s1" by (simp add: loop)
    then have "safe_step org s (fold (\<lambda>u. r_updateUser (us_id u) p t)
        (filter (\<lambda>u. P u \<and> us_id u \<notin> set (r_usersWithOrgWidePermission org ADMIN s1)) us) s1)" for p t P us
      by (rule safe_trans) (rule safe_disable_others, simp)
    with False Inr show ?thesis by (auto simp: syncEmailRouting_def loop Let_def)
  qed (use False in \<open>simp add: syncEmailRouting_def\<close>)
qed (simp add: syncEmailRouting_def)

section \<open>Roles\<close>

lemma kept_createRole:
  assumes "fresh_ids env s"
  shows "kept org s (createRole env org req s)"
proof -
  have "safe_step org s (r_createRole r v s)" if "rl_id r = ev_newId env ''role'' 0" for r v
    by (rule safe_createRole) (simp add: that fresh_idsD(3)[OF assms])
  then show ?thesis
    by (auto simp: createRole_def Let_def try_bind_def split: sum.splits if_splits)
qed

definition spares_admin :: "string \<Rightarrow> role_request \<Rightarrow> identity_store \<Rightarrow> bool" where
  \<comment> \<open>the update does not take \<open>identity:admin\<close> from a role that carries it, or the role is one the
      service guards, the system role named admin\<close>
  "spares_admin roleId req s =
     (rq_permissions req = Undef
      \<or> (case assertPermissionKeys (rq_permissions req) of Inr ps \<Rightarrow> ADMIN \<in> set ps | Inl _ \<Rightarrow> True)
      \<or> (case r_getRole roleId s of
           Some r \<Rightarrow> ADMIN \<notin> set (rl_permissions r) \<or> rl_isSystem r \<and> rl_name r = ''admin'' | None \<Rightarrow> True))"

lemma ADMIN_normalized: "ADMIN \<in> set ps \<Longrightarrow> ADMIN \<in> set (normalizePerms ps)"
  unfolding normalizePerms_def normalize_least by auto

lemma checked_role_updateD:
  assumes "checked_role_update roleId org req s = Inr (permissions, visible)"
  obtains r where "r_getRole roleId s = Some r"
    and "permissions = None \<and> rq_permissions req = Undef
       \<or> (\<exists>ps. permissions = Some ps \<and> rq_permissions req \<noteq> Undef \<and> assertPermissionKeys (rq_permissions req) = Inr ps
            \<and> (rl_isSystem r \<and> rl_name r = ''admin'' \<longrightarrow> ADMIN \<in> set ps))"
  using assms unfolding checked_role_update_def try_bind_Inr
  by (auto simp: found_role_Inr try_bind_Inr split: if_splits option.splits)

lemma kept_updateRole:
  assumes "spares_admin roleId req s"
  shows "kept org s (updateRole env roleId org req s)"
proof (cases "checked_role_update roleId org req s")
  case (Inr pv)
  obtain permissions visible where pv: "pv = (permissions, visible)" by (cases pv)
  from checked_role_updateD[OF Inr[unfolded pv]] obtain r where r: "r_getRole roleId s = Some r"
    and ps: "permissions = None \<and> rq_permissions req = Undef
       \<or> (\<exists>ps. permissions = Some ps \<and> rq_permissions req \<noteq> Undef \<and> assertPermissionKeys (rq_permissions req) = Inr ps
            \<and> (rl_isSystem r \<and> rl_name r = ''admin'' \<longrightarrow> ADMIN \<in> set ps))" by blast
  have "safe_step org s (r_updateRolePermissions roleId n (map_option normalizePerms permissions) t visible s)" for n t
  proof (rule safe_updateRole)
    fix r'
    assume "r_getRole roleId s = Some r'" and "ADMIN \<in> set (rl_permissions r')"
    with r ps assms show "ADMIN \<in> set (or_else (map_option normalizePerms permissions) (rl_permissions r'))"
      by (auto simp: spares_admin_def or_else_def intro: ADMIN_normalized)
  qed
  with Inr pv show ?thesis by (simp add: updateRole_def Let_def)
qed (simp add: updateRole_def)

text \<open>The administrator's grants of one user, as the service counts them.\<close>

definition admin_grants_of :: "string \<Rightarrow> string \<Rightarrow> identity_store \<Rightarrow> assignment_row list" where
  "admin_grants_of u org s =
     filter (\<lambda>a. org_wide a \<and> (case r_getRole (as_role a) s of
                  Some r \<Rightarrow> ADMIN \<in> set (rl_permissions r) | None \<Rightarrow> False)) (r_listAssignmentsByUser u org s)"

lemma count_is_length: "countOrgWideAdminGrants u org s = length (admin_grants_of u org s)"
  by (simp add: countOrgWideAdminGrants_def admin_grants_of_def)

lemma admin_grants_of_iff:
  assumes "store_ok s" "is_active u s"
  shows "a \<in> set (admin_grants_of u org s) \<longleftrightarrow> admin_grant org s a \<and> as_user a = u"
  using assms(2) store_okD(5)[OF assms(1), of a]
  by (auto simp: admin_grants_of_def admin_grant_def r_listAssignmentsByUser_def split: option.splits)

lemma two_grants:
  assumes ok: "store_ok s" and active: "is_active u s" and two: "1 < countOrgWideAdminGrants u org s"
  obtains a b where "admin_grant org s a" "admin_grant org s b" "as_role a \<noteq> as_role b" "as_id a \<noteq> as_id b"
proof -
  have "distinct (admin_grants_of u org s)"
    unfolding admin_grants_of_def r_listAssignmentsByUser_def
    by (intro distinct_filter) (use store_okD(3)[OF ok] in \<open>simp add: distinct_map\<close>)
  with two obtain a b xs where ab: "admin_grants_of u org s = a # b # xs" "a \<noteq> b"
    unfolding count_is_length by (cases "admin_grants_of u org s"; cases "tl (admin_grants_of u org s)") auto
  then have in_grants: "a \<in> set (admin_grants_of u org s)" "b \<in> set (admin_grants_of u org s)" by simp_all
  note grants = in_grants[unfolded admin_grants_of_iff[OF ok active]]
  then have rows: "a \<in> set (st_assignments s)" "b \<in> set (st_assignments s)" "as_user a = as_user b" "as_org a = as_org b"
    "org_wide a" "org_wide b" by (simp_all add: admin_grant_def)
  have "as_role a \<noteq> as_role b" using store_okD(4)[OF ok rows(1-3) _ rows(4-6)] ab(2) by blast
  moreover have "as_id a \<noteq> as_id b" using same_assignment[OF ok rows(1,2)] ab(2) by blast
  ultimately show thesis using that grants by blast
qed

lemma active_admin: "u \<in> set (r_usersWithOrgWidePermission org ADMIN s) \<Longrightarrow> store_ok s \<Longrightarrow> is_active u s"
  using admins_iff[of s u org] by (auto simp: admin_grant_def)

lemma admin_survives:
  assumes "store_ok s" "adminSurvivesRoleDelete roleId org s"
  shows "\<exists>a. admin_grant org s a \<and> as_role a \<noteq> roleId"
proof -
  let ?holders = "map as_user (filter org_wide (r_listAssignmentsByRole roleId s))"
  from assms(2) obtain u where u: "u \<in> set (r_usersWithOrgWidePermission org ADMIN s)"
    and count: "(if u \<in> set ?holders then 1 else 0) < countOrgWideAdminGrants u org s"
    unfolding adminSurvivesRoleDelete_def Let_def by blast
  show ?thesis
  proof (cases "u \<in> set ?holders")
    case True
    with count have "1 < countOrgWideAdminGrants u org s" by simp
    then show ?thesis using two_grants[OF assms(1) active_admin[OF u assms(1)]] by metis
  next
    case False
    from u obtain a where a: "admin_grant org s a" "as_user a = u" using admins_iff[OF assms(1), of u org] by blast
    with False have "as_role a \<noteq> roleId"
      by (auto simp: r_listAssignmentsByRole_def admin_grant_def)
    with a show ?thesis by blast
  qed
qed

lemma safe_deleteRole:
  assumes "store_ok s \<Longrightarrow> has_admin org s \<Longrightarrow> \<exists>a. admin_grant org s a \<and> as_role a \<noteq> roleId"
  shows "safe_step org s (r_deleteRole roleId s)"
  using assms unfolding safe_step_def has_admin_def by (blast intro: store_ok_deleteRole grant_deleteRole)

lemma kept_deleteRole: "kept org s (deleteRole roleId org s)"
proof (cases "found_role roleId org s")
  case (Inr r)
  then have r: "r_getRole roleId s = Some r" by (simp add: found_role_Inr)
  have spared: "safe_step org s (r_deleteRole roleId s)" if "ADMIN \<notin> set (rl_permissions r)"
  proof (rule safe_deleteRole)
    assume "has_admin org s"
    then obtain a where "admin_grant org s a" by (auto simp: has_admin_def)
    with that r show "\<exists>a. admin_grant org s a \<and> as_role a \<noteq> roleId" by (auto simp: admin_grant_def)
  qed
  have survives: "safe_step org s (r_deleteRole roleId s)" if "adminSurvivesRoleDelete roleId org s"
    by (rule safe_deleteRole) (rule admin_survives[OF _ that])
  show ?thesis using Inr spared survives by (auto simp: deleteRole_def)
qed (simp add: deleteRole_def)

section \<open>Assignments\<close>

lemma setSource_rows:
  assumes "store_ok s" "r_getAssignment j s = Some x"
  shows "set (st_assignments (r_setAssignmentSource j src s))
      = insert (x\<lparr>as_source := Some src\<rparr>) {y \<in> set (st_assignments s). as_id y \<noteq> j}"
    and "x \<in> set (st_assignments s)" "as_id x = j"
    and "distinct (map as_id (st_assignments (r_setAssignmentSource j src s)))"
proof -
  from assms(2) show "x \<in> set (st_assignments s)" and j: "as_id x = j"
    by (auto simp: r_getAssignment_def dest: map_get_Some)
  show "set (st_assignments (r_setAssignmentSource j src s))
      = insert (x\<lparr>as_source := Some src\<rparr>) {y \<in> set (st_assignments s). as_id y \<noteq> j}"
    using assms j by (simp add: r_setAssignmentSource_def set_map_set[OF store_okD(3)])
  show "distinct (map as_id (st_assignments (r_setAssignmentSource j src s)))"
    using assms store_okD(3)[OF assms(1)] by (simp add: r_setAssignmentSource_def)
qed

lemma manual_kept:
  assumes ok: "store_ok s" and x: "r_getAssignment j s = Some x"
  shows "safe_step org s (r_setAssignmentSource j A_manual s)"
  unfolding safe_step_def
proof (intro impI conjI)
  let ?x = "x\<lparr>as_source := Some A_manual\<rparr>" and ?s = "r_setAssignmentSource j A_manual s"
  note rows = setSource_rows[OF ok x]
  define old where "old = (\<lambda>a. if a = ?x then x else a)"
  have same: "as_user a = as_user (old a)" "as_role a = as_role (old a)" "as_org a = as_org (old a)"
    "org_wide a = org_wide (old a)" "as_id a = as_id (old a)" for a
    by (auto simp: old_def org_wide_def)
  have old_in: "old a \<in> set (st_assignments s)" if "a \<in> set (st_assignments ?s)" for a
    using that rows(1,2) by (auto simp: old_def)
  show "store_ok ?s"
    unfolding store_ok_def
  proof (intro conjI ballI impI)
    show "distinct (map us_id (st_users ?s))" "distinct (map rl_id (st_roles ?s))"
      using store_okD(1,2)[OF ok] by (simp_all add: store_simps)
    show "distinct (map as_id (st_assignments ?s))" by (rule rows(4))
    fix a
    assume a: "a \<in> set (st_assignments ?s)"
    show "\<exists>r. r_getRole (as_role a) ?s = Some r \<and> rl_org r = as_org a"
      unfolding same[of a] store_simps by (rule store_okD(5)[OF ok old_in[OF a]])
    show "starts_with MANAGED_ROLE_ID_PREFIX (as_role a)" if "is_auto a"
    proof -
      from that rows(1) a have "a \<in> set (st_assignments s)" by (auto simp: is_auto_def)
      from store_okD(6)[OF ok this that] show ?thesis .
    qed
    fix b
    assume b: "b \<in> set (st_assignments ?s)"
      and key: "as_user a = as_user b \<and> as_role a = as_role b \<and> as_org a = as_org b \<and> org_wide a \<and> org_wide b"
    have "old a = old b"
      by (rule store_okD(4)[OF ok old_in[OF a] old_in[OF b]]) (use key same in metis)+
    then have "as_id a = as_id b" using same(5) by metis
    with rows(4) a b show "a = b" by (auto simp: distinct_map inj_on_def)
  qed
  assume "has_admin org s"
  then obtain b where b: "admin_grant org s b" by (auto simp: has_admin_def)
  define c where "c = (if as_id b = j then ?x else b)"
  have "b = x" if "as_id b = j"
    using that b same_assignment[OF ok _ rows(2), of b] rows(3) by (auto simp: admin_grant_def)
  then have "as_user c = as_user b" "as_role c = as_role b" "as_org c = as_org b" "org_wide c = org_wide b"
    by (auto simp: c_def org_wide_def)
  moreover have "c \<in> set (st_assignments ?s)" using b unfolding rows(1) c_def by (auto simp: admin_grant_def)
  ultimately have "admin_grant org ?s c"
    using b by (simp add: admin_grant_def store_simps is_active_def)
  then show "has_admin org ?s" by (auto simp: has_admin_def)
qed

lemma findAssignmentD:
  "r_findAssignment u rid org rt rs s = Some a \<Longrightarrow> a \<in> set (st_assignments s)"
  unfolding r_findAssignment_def by (drule find_Some_in) simp

lemma kept_assignRole:
  assumes fresh: "fresh_ids env s" and ok: "store_ok s"
  shows "kept org s (assignRole env userId org req s)"
proof (cases "try_bind (found_user userId org s) (\<lambda>_. found_role (aq_roleId req) org s)")
  case (Inr role)
  then have role: "r_getRole (aq_roleId req) s = Some role" "rl_org role = org"
    by (auto simp: try_bind_Inr found_role_Inr)
  show ?thesis
  proof (cases "r_findAssignment userId (aq_roleId req) org (aq_type req) (aq_res req) s")
    case (Some a)
    have "r_getAssignment (as_id a) s = Some a"
      unfolding r_getAssignment_def by (rule map_get_in[OF store_okD(3)[OF ok] findAssignmentD[OF Some]])
    with Some Inr show ?thesis
      by (auto simp: assignRole_def manual_kept[OF ok] split: option.split)
  next
    case None
    let ?a = "\<lparr>as_id = ev_newId env ''ra'' 0, as_user = userId, as_role = aq_roleId req, as_org = org,
        as_resourceType = aq_type req, as_resourceId = aq_res req,
        as_grantedBy = or_else (ev_actorId env) userId, as_grantedAt = ev_now env, as_source = None\<rparr>"
    have "safe_step org s (r_createAssignment ?a s)"
    proof (rule safe_createAssignment)
      fix b
      assume "b \<in> set (st_assignments s)" "as_user b = as_user ?a" "as_role b = as_role ?a" "as_org b = as_org ?a" "org_wide b"
      with None show "\<not> org_wide ?a"
        unfolding r_findAssignment_def find_None_iff org_wide_def by (metis assignment_row.select_convs(2-6))
    qed (use role fresh_idsD(4)[OF fresh] in \<open>auto simp: is_auto_def\<close>)
    with None Inr show ?thesis by (auto simp: assignRole_def Let_def split: option.split)
  qed
qed (simp add: assignRole_def)

lemma kept_revokeRole: "kept org s (revokeRole env userId i org s)"
proof (cases "r_getAssignment i s")
  case (Some a)
  have row: "a \<in> set (st_assignments s)" "as_id a = i" using Some by (auto simp: r_getAssignment_def dest: map_get_Some)
  let ?grantsAdmin = "case r_getRole (as_role a) s of Some r \<Rightarrow> ADMIN \<in> set (rl_permissions r) \<and> org_wide a | None \<Rightarrow> False"
  have safe: "safe_step org s (r_deleteAssignment i s)"
    if mine: "as_user a = userId" and not_last: "\<not> (?grantsAdmin \<and> last_admin userId org s \<and> countOrgWideAdminGrants userId org s = 1)"
    unfolding safe_step_def
  proof (intro impI conjI)
    assume ok: "store_ok s"
    then show "store_ok (r_deleteAssignment i s)" by (rule store_ok_deleteAssignment)
    assume some: "has_admin org s"
    have "\<exists>b. admin_grant org s b \<and> as_id b \<noteq> i"
    proof (cases "?grantsAdmin")
      case False
      from some obtain b where b: "admin_grant org s b" by (auto simp: has_admin_def)
      with False have "b \<noteq> a" by (auto simp: admin_grant_def)
      with b row same_assignment[OF ok, of b a] show ?thesis by (auto simp: admin_grant_def)
    next
      case True
      show ?thesis
      proof (cases "last_admin userId org s")
        case False
        from admin_besides[OF ok some False] obtain b where "admin_grant org s b" "as_user b \<noteq> userId" by blast
        with mine row same_assignment[OF ok, of b a] show ?thesis by (auto simp: admin_grant_def)
      next
        case last: True
        then have u: "userId \<in> set (r_usersWithOrgWidePermission org ADMIN s)" by (simp add: last_admin_def)
        note active = active_admin[OF u ok]
        from u obtain b where "admin_grant org s b" "as_user b = userId" using admins_iff[OF ok] by blast
        with admin_grants_of_iff[OF ok active] have "admin_grants_of userId org s \<noteq> []" by force
        then have "countOrgWideAdminGrants userId org s \<noteq> 0" by (simp add: count_is_length)
        with not_last True last have "1 < countOrgWideAdminGrants userId org s" by auto
        then show ?thesis using two_grants[OF ok active] by metis
      qed
    qed
    then show "has_admin org (r_deleteAssignment i s)"
      unfolding has_admin_def by (blast intro: grant_deleteAssignment)
  qed
  with Some show ?thesis by (auto simp: revokeRole_def Let_def split: option.split)
qed (simp add: revokeRole_def)

section \<open>Managed roles\<close>

definition plain_managed :: "identity_store \<Rightarrow> bool" where
  \<comment> \<open>no managed role carries \<open>identity:admin\<close>\<close>
  "plain_managed s =
     (\<forall>r\<in>set (st_roles s). starts_with MANAGED_ROLE_ID_PREFIX (rl_id r) \<longrightarrow> ADMIN \<notin> set (rl_permissions r))"

lemma plain_grant:
  "plain_managed s \<Longrightarrow> store_ok s \<Longrightarrow> admin_grant org s b \<Longrightarrow> \<not> starts_with MANAGED_ROLE_ID_PREFIX (as_role b)"
  by (auto simp: plain_managed_def admin_grant_def getRole_iff)

lemma plain_by_lookup:
  assumes "store_ok s"
  shows "plain_managed s \<longleftrightarrow> (\<forall>i r. r_getRole i s = Some r \<longrightarrow> starts_with MANAGED_ROLE_ID_PREFIX i
           \<longrightarrow> ADMIN \<notin> set (rl_permissions r))"
  unfolding plain_managed_def getRole_iff[OF assms] by blast

definition managed_step :: "string \<Rightarrow> identity_store \<Rightarrow> identity_store \<Rightarrow> bool" where
  \<comment> \<open>what a round of a managed sync keeps: the store well-formed, managed roles plain, an administrator\<close>
  "managed_step org s s' = (store_ok s \<longrightarrow> plain_managed s \<longrightarrow>
     store_ok s' \<and> plain_managed s' \<and> (has_admin org s \<longrightarrow> has_admin org s'))"

lemma managed_refl [simp]: "managed_step org s s"
  by (simp add: managed_step_def)

lemma managed_trans: "managed_step org s s1 \<Longrightarrow> managed_step org s1 s2 \<Longrightarrow> managed_step org s s2"
  by (simp add: managed_step_def)

lemma managed_createRole:
  assumes "r_getRole (rl_id r) s = None" "rl_permissions r = []"
  shows "managed_step org s (r_createRole r v s)"
  unfolding managed_step_def
proof (intro impI)
  assume ok: "store_ok s" and plain: "plain_managed s"
  from safe_createRole[OF assms(1), of org v] ok
  have safe: "store_ok (r_createRole r v s)" "has_admin org s \<longrightarrow> has_admin org (r_createRole r v s)"
    by (simp_all add: safe_step_def)
  have "plain_managed (r_createRole r v s)"
    using plain unfolding plain_by_lookup[OF safe(1)] plain_by_lookup[OF ok] by (auto simp: store_simps assms(2))
  with safe show "store_ok (r_createRole r v s) \<and> plain_managed (r_createRole r v s)
      \<and> (has_admin org s \<longrightarrow> has_admin org (r_createRole r v s))" by blast
qed

lemma managed_renameRole: "managed_step org s (r_updateRolePermissions i n None t vo s)" (is "managed_step org s ?s")
  unfolding managed_step_def
proof (intro impI)
  assume ok: "store_ok s" and plain: "plain_managed s"
  have "safe_step org s ?s" by (rule safe_updateRole) (simp add: or_else_def)
  with ok have safe: "store_ok ?s" "has_admin org s \<longrightarrow> has_admin org ?s" by (simp_all add: safe_step_def)
  have "plain_managed ?s"
    using plain unfolding plain_by_lookup[OF safe(1)] plain_by_lookup[OF ok] by (auto simp: store_simps or_else_def)
  with safe show "store_ok ?s \<and> plain_managed ?s \<and> (has_admin org s \<longrightarrow> has_admin org ?s)" by blast
qed

lemma or_else_simps [simp]: "or_else None d = d" "or_else (Some v) d = v"
  by (simp_all add: or_else_def)

text \<open>The round that creates and renames: assignments and users are untouched, and unless it is a dry
  run every requested role then exists in the organisation.\<close>

lemma ensureManagedRoles_kept:
  "managed_step org s (snd (ensureManagedRoles env org specs dry s))
   \<and> st_assignments (snd (ensureManagedRoles env org specs dry s)) = st_assignments s
   \<and> st_users (snd (ensureManagedRoles env org specs dry s)) = st_users s
   \<and> (\<forall>i r. r_getRole i s = Some r
        \<longrightarrow> (\<exists>r'. r_getRole i (snd (ensureManagedRoles env org specs dry s)) = Some r' \<and> rl_org r' = rl_org r))"
proof (induction specs arbitrary: s)
  case (Cons spec specs)
  define s1 where "s1 = (case r_getRole (fst spec) s of
      None \<Rightarrow> if dry then s else r_createRole \<lparr>rl_id = fst spec, rl_org = org, rl_name = managedRoleName org spec s,
                rl_isSystem = False, rl_permissions = [], rl_createdAt = ev_now env, rl_updatedAt = ev_now env\<rparr> [] s
    | Some r \<Rightarrow> if rl_org r = org \<and> rl_name r \<noteq> managedRoleName org spec s \<and> rl_name r \<noteq> auto_name (snd spec) \<and> \<not> dry
                then r_updateRolePermissions (fst spec) (Some (managedRoleName org spec s)) None (ev_now env) None s else s)"
  have snd_eq: "snd (ensureManagedRoles env org (spec # specs) dry s) = (if
      (case r_getRole (fst spec) s of Some r \<Rightarrow> rl_org r \<noteq> org | None \<Rightarrow> False) then s
      else snd (ensureManagedRoles env org specs dry s1))"
    by (auto simp: Let_def fails_def s1_def split: option.split prod.split sum.split)
  have step: "managed_step org s s1"
    unfolding s1_def by (auto simp: managed_renameRole intro!: managed_createRole split: option.split)
  have same: "st_assignments s1 = st_assignments s" "st_users s1 = st_users s"
    unfolding s1_def by (auto simp: store_simps split: option.split)
  have roles: "r_getRole i s = Some r \<Longrightarrow> \<exists>r'. r_getRole i s1 = Some r' \<and> rl_org r' = rl_org r" for i r
    unfolding s1_def by (auto simp: store_simps split: option.split)
  from Cons[of s1] step same roles show ?case
    unfolding snd_eq by (auto intro: managed_trans) metis
qed (simp add: returns_def)

lemma ensureManagedRoles_roles:
  assumes "fst (ensureManagedRoles env org specs False s) = Inr out" "i \<in> fst ` set specs"
  shows "\<exists>r. r_getRole i (snd (ensureManagedRoles env org specs False s)) = Some r \<and> rl_org r = org"
  using assms
proof (induction specs arbitrary: s out)
  case (Cons spec specs)
  let ?e = "\<lambda>s. ensureManagedRoles env org specs False s"
  let ?new = "r_createRole \<lparr>rl_id = fst spec, rl_org = org, rl_name = managedRoleName org spec s,
                rl_isSystem = False, rl_permissions = [], rl_createdAt = ev_now env, rl_updatedAt = ev_now env\<rparr> [] s"
  let ?ren = "r_updateRolePermissions (fst spec) (Some (managedRoleName org spec s)) None (ev_now env) None s"
  obtain s1 out1 where s1: "snd (ensureManagedRoles env org (spec # specs) False s) = snd (?e s1)" "fst (?e s1) = Inr out1"
    "\<exists>r. r_getRole (fst spec) s1 = Some r \<and> rl_org r = org"
  proof (cases "r_getRole (fst spec) s")
    case None
    have "\<exists>o1. fst (?e ?new) = Inr o1"
      using Cons.prems(1) None by (auto simp: Let_def split: prod.splits sum.splits)
    moreover have "snd (ensureManagedRoles env org (spec # specs) False s) = snd (?e ?new)"
      using None by (auto simp: Let_def split: prod.split sum.split)
    moreover have "\<exists>r. r_getRole (fst spec) ?new = Some r \<and> rl_org r = org" by (simp add: store_simps)
    ultimately show thesis using that by blast
  next
    case (Some r)
    with Cons.prems(1) have org: "rl_org r = org" by (auto simp: fails_def Let_def split: if_splits)
    show thesis
    proof (cases "rl_name r \<noteq> managedRoleName org spec s \<and> rl_name r \<noteq> auto_name (snd spec)")
      case True
      have "\<exists>o1. fst (?e ?ren) = Inr o1"
        using Cons.prems(1) Some org True by (auto simp: Let_def split: prod.splits sum.splits)
      moreover have "snd (ensureManagedRoles env org (spec # specs) False s) = snd (?e ?ren)"
        using Some org True by (auto simp: Let_def split: prod.split sum.split)
      moreover have "\<exists>r. r_getRole (fst spec) ?ren = Some r \<and> rl_org r = org" using Some org by (simp add: store_simps)
      ultimately show thesis using that by blast
    next
      case False
      then have "ensureManagedRoles env org (spec # specs) False s = ?e s" using Some org by (auto simp: Let_def)
      with Some org Cons.prems(1) that show thesis by metis
    qed
  qed
  show ?case
  proof (cases "i = fst spec")
    case True
    with s1(3) obtain r where r: "r_getRole i s1 = Some r" "rl_org r = org" by blast
    have "\<exists>r'. r_getRole i (snd (?e s1)) = Some r' \<and> rl_org r' = rl_org r"
      using ensureManagedRoles_kept r(1) by blast
    with r(2) s1(1) show ?thesis by simp
  next
    case False
    with Cons.prems(2) have "i \<in> fst ` set specs" by auto
    from Cons.IH[OF s1(2) this] s1(1) show ?thesis by simp
  qed
qed simp

lemma managed_fewer:
  assumes "store_ok s \<Longrightarrow> plain_managed s \<Longrightarrow> safe_step org s s'"
    and "\<And>i r. r_getRole i s' = Some r \<Longrightarrow> r_getRole i s = Some r"
  shows "managed_step org s s'"
  unfolding managed_step_def
proof (intro impI)
  assume ok: "store_ok s" and plain: "plain_managed s"
  from assms(1)[OF ok plain] ok have safe: "store_ok s'" "has_admin org s \<longrightarrow> has_admin org s'" by (simp_all add: safe_step_def)
  have "plain_managed s'" using plain assms(2) unfolding plain_by_lookup[OF safe(1)] plain_by_lookup[OF ok] by blast
  with safe show "store_ok s' \<and> plain_managed s' \<and> (has_admin org s \<longrightarrow> has_admin org s')" by blast
qed

lemma getRole_fold_delete [store_simps]: "r_getRole i (fold (\<lambda>a. r_deleteAssignment (as_id a)) as s) = r_getRole i s"
  by (induction "as" arbitrary: s) (simp_all add: store_simps)

lemma managed_deleteAuto:
  assumes "\<And>a b. store_ok s \<Longrightarrow> a \<in> set as \<Longrightarrow> b \<in> set (st_assignments s) \<Longrightarrow> as_id b = as_id a
      \<Longrightarrow> starts_with MANAGED_ROLE_ID_PREFIX (as_role b)"
  shows "managed_step org s (fold (\<lambda>a. r_deleteAssignment (as_id a)) as s)"
proof (rule managed_fewer)
  assume ok: "store_ok s" and plain: "plain_managed s"
  show "safe_step org s (fold (\<lambda>a. r_deleteAssignment (as_id a)) as s)"
  proof (rule safe_fold_delete)
    fix a b
    assume a: "a \<in> set as" and b: "admin_grant org s b"
    show "as_id b \<noteq> as_id a" using plain_grant[OF plain ok b] assms[OF ok a, of b] b by (auto simp: admin_grant_def)
  qed
qed (simp add: store_simps)

lemma managed_deleteRole:
  assumes "starts_with MANAGED_ROLE_ID_PREFIX i"
  shows "managed_step org s (r_deleteRole i s)"
proof (rule managed_fewer)
  assume ok: "store_ok s" and plain: "plain_managed s"
  show "safe_step org s (r_deleteRole i s)"
  proof (rule safe_deleteRole)
    assume "has_admin org s"
    then obtain b where b: "admin_grant org s b" by (auto simp: has_admin_def)
    with plain_grant[OF plain ok b] assms show "\<exists>a. admin_grant org s a \<and> as_role a \<noteq> i" by blast
  qed
qed (auto simp: store_simps split: if_splits)

lemma managed_prune: "managed_step org s (fst (prune_managed_role wanted dry r (s, d, k)))"
proof (cases "starts_with MANAGED_ROLE_ID_PREFIX (rl_id r)")
  case True
  let ?s = "fold (\<lambda>a. r_deleteAssignment (as_id a)) (filter is_auto (r_listAssignmentsByRole (rl_id r) s)) s"
  have "managed_step org s ?s"
  proof (rule managed_deleteAuto)
    fix a b
    assume "store_ok s" "a \<in> set (filter is_auto (r_listAssignmentsByRole (rl_id r) s))"
      "b \<in> set (st_assignments s)" "as_id b = as_id a"
    with True same_assignment[of s b a] show "starts_with MANAGED_ROLE_ID_PREFIX (as_role b)"
      by (auto simp: r_listAssignmentsByRole_def)
  qed
  moreover have "managed_step org ?s (r_deleteRole (rl_id r) ?s)" by (rule managed_deleteRole[OF True])
  ultimately show ?thesis by (auto simp: prune_managed_role_def Let_def intro: managed_trans)
qed (simp add: prune_managed_role_def)

lemma managed_prune_all: "managed_step org s (fst (fold (prune_managed_role wanted dry) rs (s, d, k)))"
proof (induction rs arbitrary: s d k)
  case (Cons r rs)
  obtain s1 d1 k1 where one: "prune_managed_role wanted dry r (s, d, k) = (s1, d1, k1)" by (metis prod_cases3)
  with managed_prune[of org s wanted dry r d k] have "managed_step org s s1" by simp
  from managed_trans[OF this Cons] one show ?case by simp
qed simp

lemma kept_by_managed:
  assumes "store_ok s" "plain_managed s" "managed_step org s (snd r)"
  shows "kept org s r"
  using assms by (simp add: kept_def managed_step_def safe_step_def)

lemma kept_syncManagedRoleCatalog:
  assumes "store_ok s" "plain_managed s"
  shows "kept org s (syncManagedRoleCatalog env org req s)"
proof (cases "parseManagedRoles (js_get req ''roles'')")
  case (Inr specs)
  obtain r1 s1 where ensured: "ensureManagedRoles env org specs (js_get req ''dryRun'' = JBool True) s = (r1, s1)"
    by (metis prod.exhaust)
  from ensureManagedRoles_kept[of org s env specs "js_get req ''dryRun'' = JBool True"]
  have step: "managed_step org s s1" unfolding ensured by simp
  have "managed_step org s (fst (fold (prune_managed_role wanted dry) rs (s1, [], [])))" for wanted dry rs
    by (rule managed_trans[OF step managed_prune_all])
  with step Inr show ?thesis
    by (auto simp: syncManagedRoleCatalog_def ensured Let_def case_prod_beta returns_def
        intro!: kept_by_managed[OF assms] split: sum.split)
qed (simp add: syncManagedRoleCatalog_def)

lemma assignments_fold_create:
  "b \<in> set (st_assignments (fold r_createAssignment as s)) \<Longrightarrow> b \<in> set as \<or> b \<in> set (st_assignments s)"
proof (induction "as" arbitrary: s)
  case (Cons a as)
  have "b \<in> set (map_set as_id a xs) \<Longrightarrow> b = a \<or> b \<in> set xs" for xs
    by (induction xs) (auto split: if_splits)
  with Cons.IH[of "r_createAssignment a s"] Cons.prems show ?case by (auto simp: store_simps)
qed simp

lemma getRole_fold_create [store_simps]: "r_getRole i (fold r_createAssignment as s) = r_getRole i s"
  by (induction "as" arbitrary: s) (simp_all add: store_simps)

lemma distinct_parsed: "parseManagedRoles raw = Inr specs \<Longrightarrow> distinct (map fst specs)"
proof -
  have "fold_try parse_managed_role rs acc = Inr out \<Longrightarrow> distinct (map fst acc) \<Longrightarrow> distinct (map fst out)" for rs acc out
    by (induction rs arbitrary: acc) (auto simp: try_bind_Inr parse_managed_role_def Let_def split: if_splits)
  from this[of _ "[]"] show "parseManagedRoles raw = Inr specs \<Longrightarrow> distinct (map fst specs)"
    by (auto simp: parseManagedRoles_def split: js.splits if_splits)
qed

lemma parsed_managed: "parseManagedRoles raw = Inr specs \<Longrightarrow> i \<in> fst ` set specs \<Longrightarrow> starts_with MANAGED_ROLE_ID_PREFIX i"
proof -
  have mem: "x \<in> set (map_set fst (j, n) acc) \<Longrightarrow> fst x = j \<or> x \<in> set acc" for x j acc and n :: string
    by (induction acc) (auto split: if_splits)
  have "fold_try parse_managed_role rs acc = Inr out \<Longrightarrow> \<forall>x\<in>set acc. starts_with MANAGED_ROLE_ID_PREFIX (fst x)
      \<Longrightarrow> \<forall>x\<in>set out. starts_with MANAGED_ROLE_ID_PREFIX (fst x)" for rs acc out
  proof (induction rs arbitrary: acc)
    case (Cons r rs)
    from Cons.prems(1) obtain acc1 where one: "parse_managed_role r acc = Inr acc1" and rest: "fold_try parse_managed_role rs acc1 = Inr out"
      by (auto simp: try_bind_Inr)
    have "\<forall>x\<in>set acc1. starts_with MANAGED_ROLE_ID_PREFIX (fst x)"
      using one Cons.prems(2) by (auto simp: parse_managed_role_def Let_def split: if_splits dest!: mem)
    from Cons.IH[OF rest this] show ?case .
  qed simp
  from this[of _ "[]"] show "parseManagedRoles raw = Inr specs \<Longrightarrow> i \<in> fst ` set specs \<Longrightarrow> starts_with MANAGED_ROLE_ID_PREFIX i"
    by (auto simp: parseManagedRoles_def split: js.splits if_splits)
qed

lemma kept_syncUserManagedRoles:
  assumes fresh: "fresh_ids env s" and ok: "store_ok s" and plain: "plain_managed s"
  shows "kept org s (syncUserManagedRoles env userId org req s)"
proof (cases "try_bind (found_user userId org s) (\<lambda>_. parseManagedRoles (js_get req ''roles''))")
  case (Inr specs)
  then have parsed: "parseManagedRoles (js_get req ''roles'') = Inr specs" by (auto simp: try_bind_Inr)
  let ?dry = "js_get req ''dryRun'' = JBool True"
  obtain r1 s1 where ensured: "ensureManagedRoles env org specs ?dry s = (r1, s1)" by (metis prod.exhaust)
  from ensureManagedRoles_kept[of org s env specs ?dry]
  have step: "managed_step org s s1" and same: "st_assignments s1 = st_assignments s" unfolding ensured by simp_all
  let ?wide = "filter org_wide (r_listAssignmentsByUser userId org s1)"
  let ?added = "filter (\<lambda>i. find (\<lambda>a. as_role a = i) ?wide = None) (map fst specs)"
  let ?stale = "filter (\<lambda>a. is_auto a \<and> as_role a \<notin> set (map fst specs)) ?wide"
  define s2 where "s2 actor = fold (\<lambda>(n, rid). r_createAssignment (org_wide_grant env n userId rid org actor (Some A_auto)))
      (enumerate 0 ?added) s1" for actor
  have rounds: "managed_step org s (fold (\<lambda>a. r_deleteAssignment (as_id a)) ?stale (s2 actor))"
    if "r1 = Inr out" "\<not> ?dry" for out actor
  proof (rule managed_trans[OF step], rule managed_trans)
    have managed: "starts_with MANAGED_ROLE_ID_PREFIX rid" if "rid \<in> set ?added" for rid
      using that parsed_managed[OF parsed, of rid] by auto
    have "safe_step org s1 (s2 actor)"
      unfolding s2_def
    proof (rule safe_new_grants[OF fresh same])
      show "distinct ?added" using distinct_parsed[OF parsed] by simp
      show "\<exists>r. r_getRole rid s1 = Some r \<and> rl_org r = org" if "rid \<in> set ?added" for rid
        using ensureManagedRoles_roles[of env org specs s out rid] that ensured \<open>r1 = Inr out\<close> \<open>\<not> ?dry\<close> by auto
      show "\<forall>rid\<in>set ?added. starts_with MANAGED_ROLE_ID_PREFIX rid" using managed by blast
      fix b
      assume "b \<in> set (st_assignments s1)" "as_user b = userId" "as_org b = org" "as_role b \<in> set ?added"
      then show "\<not> org_wide b" by (auto simp: find_None_iff r_listAssignmentsByUser_def)
    qed
    then show "managed_step org s1 (s2 actor)"
      by (intro managed_fewer) (simp_all add: s2_def enumerate_grants store_simps)
    show "managed_step org (s2 actor) (fold (\<lambda>a. r_deleteAssignment (as_id a)) ?stale (s2 actor))"
    proof (rule managed_deleteAuto)
      fix a b
      assume a: "a \<in> set ?stale" and "b \<in> set (st_assignments (s2 actor))" and id: "as_id b = as_id a"
      let ?new = "map (\<lambda>(n, rid). org_wide_grant env n userId rid org actor (Some A_auto)) (enumerate 0 ?added)"
      have "b \<in> set (st_assignments (fold r_createAssignment ?new s1))"
        using \<open>b \<in> set (st_assignments (s2 actor))\<close> unfolding s2_def enumerate_grants .
      from assignments_fold_create[OF this] show "starts_with MANAGED_ROLE_ID_PREFIX (as_role b)"
      proof
        assume 1: "b \<in> set (st_assignments s1)"
        have "a \<in> set (st_assignments s)" using a same by (simp add: r_listAssignmentsByUser_def)
        with 1 same same_assignment[OF ok, of b a] id have "b = a" by simp
        with a store_okD(6)[OF ok \<open>a \<in> set (st_assignments s)\<close>] show ?thesis by simp
      next
        assume "b \<in> set ?new"
        then have "as_role b \<in> set (map as_role ?new)" unfolding set_map[of as_role] by (rule imageI)
        then show ?thesis unfolding grant_lists using managed by blast
      qed
    qed
  qed
  show ?thesis
  proof (rule kept_by_managed[OF ok plain], cases r1)
    case (Inl e)
    with step show "managed_step org s (snd (syncUserManagedRoles env userId org req s))"
      unfolding syncUserManagedRoles_def Inr sum.case ensured prod.case Let_def by simp
  next
    case r1: (Inr out)
    let ?actor = "case ev_actorId env of Some i \<Rightarrow> if i \<noteq> [] \<and> r_getUser i s1 \<noteq> None then i else userId | None \<Rightarrow> userId"
    have "snd (syncUserManagedRoles env userId org req s) = (if ?dry \<or> ?added = [] \<and> ?stale = [] then s1
        else fold (\<lambda>a. r_deleteAssignment (as_id a)) ?stale (s2 ?actor))"
      unfolding syncUserManagedRoles_def Inr sum.case ensured prod.case Let_def r1 returns_def s2_def if_distrib[of snd] snd_conv
      by (rule refl)
    moreover have "managed_step org s (fold (\<lambda>a. r_deleteAssignment (as_id a)) ?stale (s2 ?actor))" if "\<not> ?dry"
      by (rule rounds[OF r1 that])
    ultimately show "managed_step org s (snd (syncUserManagedRoles env userId org req s))"
      using step by presburger
  qed
qed (simp add: syncUserManagedRoles_def)

end
