(* ===== verification/Identity_Runs.thy ===== *)
theory Identity_Runs
  imports Identity_Admins
begin

text \<open>
  Runs of the roster's calls in one organisation. A call is admissible when the ids \<open>newId\<close> makes are
  unused and, for the three operations whose guards do not cover every case, when the case is one they
  cover; then every run keeps an administrator. What one uncovered case does is proved too.
\<close>

section \<open>Calls and runs\<close>

datatype roster_call =
    C_invite invite_request
  | C_provision "string option" "string option" "string option"
  | C_activateInvited string js
  | C_updateUser string update_user_request
  | C_updateOwnProfile string js
  | C_offboardUser string
  | C_syncEmailRouting "routing_address list option"
  | C_createRole role_request
  | C_updateRole string role_request
  | C_deleteRole string
  | C_assignRole string assign_request
  | C_revokeRole string string
  | C_syncManagedRoleCatalog js
  | C_syncUserManagedRoles string js

fun perform :: "identity_env \<Rightarrow> string \<Rightarrow> roster_call \<Rightarrow> identity_store \<Rightarrow> identity_store" where
  \<comment> \<open>the store a call leaves, whether it returned or threw\<close>
  "perform env org (C_invite req) s = snd (invite env org req s)"
| "perform env org (C_provision email name login) s = snd (provision env org email name login s)"
| "perform env org (C_activateInvited u req) s = snd (activateInvited env u org req s)"
| "perform env org (C_updateUser u req) s = snd (updateUser env u org req s)"
| "perform env org (C_updateOwnProfile u req) s = snd (updateOwnProfile env u org req s)"
| "perform env org (C_offboardUser u) s = snd (offboardUser env u org s)"
| "perform env org (C_syncEmailRouting addresses) s = snd (syncEmailRouting env org addresses s)"
| "perform env org (C_createRole req) s = snd (createRole env org req s)"
| "perform env org (C_updateRole i req) s = snd (updateRole env i org req s)"
| "perform env org (C_deleteRole i) s = snd (deleteRole i org s)"
| "perform env org (C_assignRole u req) s = snd (assignRole env u org req s)"
| "perform env org (C_revokeRole u i) s = snd (revokeRole env u i org s)"
| "perform env org (C_syncManagedRoleCatalog req) s = snd (syncManagedRoleCatalog env org req s)"
| "perform env org (C_syncUserManagedRoles u req) s = snd (syncUserManagedRoles env u org req s)"

fun covered :: "roster_call \<Rightarrow> identity_store \<Rightarrow> bool" where
  "covered (C_invite req) s = distinct (iv_roleIds req)"
| "covered (C_updateRole i req) s = spares_admin i req s"
| "covered (C_syncManagedRoleCatalog req) s = plain_managed s"
| "covered (C_syncUserManagedRoles u req) s = plain_managed s"
| "covered c s = True"

inductive roster_run :: "string \<Rightarrow> identity_store \<Rightarrow> identity_store \<Rightarrow> bool" for org s where
  start: "roster_run org s s"
| call: "roster_run org s s' \<Longrightarrow> fresh_ids env s' \<Longrightarrow> covered c s' \<Longrightarrow> roster_run org s (perform env org c s')"

lemma perform_safe:
  assumes "fresh_ids env s" "covered c s" "store_ok s"
  shows "safe_step org s (perform env org c s)"
  using assms
  by (cases c)
    (simp_all add: kept_invite kept_provision kept_activateInvited kept_updateUser kept_updateOwnProfile kept_offboardUser
      kept_syncEmailRouting kept_createRole kept_updateRole kept_deleteRole kept_assignRole kept_revokeRole
      kept_syncManagedRoleCatalog kept_syncUserManagedRoles flip: kept_def)

lemma has_admin_iff: "store_ok s \<Longrightarrow> has_admin org s \<longleftrightarrow> r_usersWithOrgWidePermission org ADMIN s \<noteq> []"
  unfolding has_admin_def using admins_iff[of s _ org] by (metis list.set_intros(1) list.exhaust list.set(1) empty_iff)

lemma run_safe: "roster_run org s s' \<Longrightarrow> safe_step org s s'"
proof (induction rule: roster_run.induct)
  case (call s' env c)
  show ?case
    unfolding safe_step_def
  proof (intro impI)
    assume ok: "store_ok s"
    with call.IH have "store_ok s'" by (simp add: safe_step_def)
    from perform_safe[OF call.hyps(2,3) this, of org] call.IH ok
    show "store_ok (perform env org c s') \<and> (has_admin org s \<longrightarrow> has_admin org (perform env org c s'))"
      by (simp add: safe_step_def)
  qed
qed simp

text \<open>
  C32. An organisation that has an administrator (an active member with \<open>identity:admin\<close> through an
  org-wide assignment) keeps one, and its roster stays well-formed, through every run of invitations,
  provisionings, activations, edits, offboardings, Email Routing syncs, role edits and deletions,
  grants, revocations and managed-role syncs. Excluded are the calls the guards do not cover: an
  invitation that names a role twice, an edit that takes \<open>identity:admin\<close> from a role other than the
  system role named admin, and a managed-role sync while a managed role carries \<open>identity:admin\<close>.
\<close>

theorem org_keeps_an_administrator:
  assumes "store_ok s" "r_usersWithOrgWidePermission org ADMIN s \<noteq> []" "roster_run org s s'"
  shows "store_ok s' \<and> r_usersWithOrgWidePermission org ADMIN s' \<noteq> []"
  using run_safe[OF assms(3)] assms(1,2) has_admin_iff[of s org] has_admin_iff[of s' org] by (auto simp: safe_step_def)

definition roster_demo_env :: identity_env where
  "roster_demo_env = \<lparr>ev_now = ''t'', ev_newId = (\<lambda>p n. p @ ''-'' @ replicate n (CHR ''i'')), ev_actorId = Some ''u'',
     ev_logSync = None, ev_revoke = None\<rparr>"

definition demo_assigned :: identity_store where
  \<comment> \<open>the administrator, granted the role a second time for one resource\<close>
  "demo_assigned = perform roster_demo_env ''o''
     (C_assignRole ''u'' \<lparr>aq_roleId = ''r'', aq_type = Some ''doc'', aq_res = Some ''d1''\<rparr>) demo_roster"

lemma roster_demo_ids: "ev_newId roster_demo_env p n = ev_newId roster_demo_env q m \<Longrightarrow> p = q \<Longrightarrow> n = m"
  by (simp add: roster_demo_env_def)

lemma roster_demo_fresh: "fresh_ids roster_demo_env demo_roster"
  using roster_demo_ids
  by (auto simp: fresh_ids_def demo_roster_def roster_demo_env_def r_getUser_def r_getRole_def r_getAssignment_def map_get_def)

lemma roster_demo_ok: "store_ok demo_roster"
  by (simp add: store_ok_def demo_roster_def r_getRole_def map_get_def is_auto_def)

theorem org_keeps_an_administrator_witness:
  "store_ok demo_assigned \<and> r_usersWithOrgWidePermission ''o'' ADMIN demo_assigned \<noteq> []"
proof (rule org_keeps_an_administrator[OF roster_demo_ok])
  show "r_usersWithOrgWidePermission ''o'' ADMIN demo_roster \<noteq> []" by code_simp
  show "roster_run ''o'' demo_roster demo_assigned"
    unfolding demo_assigned_def by (rule roster_run.call[OF roster_run.start roster_demo_fresh]) simp
qed

section \<open>What the guards miss\<close>

lemma no_holder:
  assumes "store_ok s" "\<And>b. \<not> admin_grant org s b"
  shows "r_usersWithOrgWidePermission org ADMIN s = []"
  using assms(2) has_admin_iff[OF assms(1), of org] by (auto simp: has_admin_def)

lemma grant_before:
  assumes "admin_grant org (r_updateRolePermissions i n ps t vo s) b" "as_role b \<noteq> i"
  shows "admin_grant org s b"
  using assms by (simp add: admin_grant_def store_simps is_active_def)

definition rename_request :: "string \<Rightarrow> role_request" where
  "rename_request name = \<lparr>rq_name = Some name, rq_permissions = Undef, rq_mailVisible = Undef\<rparr>"

definition strip_request :: role_request where
  "strip_request = \<lparr>rq_name = None, rq_permissions = JArr [], rq_mailVisible = Undef\<rparr>"

text \<open>
  C33. The self-lockout guard of \<open>updateRole\<close> asks for the name admin, and the name can be edited: when
  all administrators hold \<open>identity:admin\<close> through one role, renaming that role to a free name and then
  taking its permissions away are both accepted, even for the built-in admin role, and the organisation
  has no administrator left.
\<close>

theorem renamed_admin_role_is_unguarded:
  assumes "store_ok s" "r_getRole i s = Some r" "rl_org r = org"
    and "r_getRoleByName org name s = None" "name \<noteq> ''admin''"
    and "\<And>b. admin_grant org s b \<Longrightarrow> as_role b = i"
  shows "\<not> isl (fst (updateRole env i org (rename_request name) s))
       \<and> \<not> isl (fst (updateRole env i org strip_request (snd (updateRole env i org (rename_request name) s))))
       \<and> r_usersWithOrgWidePermission org ADMIN
           (snd (updateRole env i org strip_request (snd (updateRole env i org (rename_request name) s)))) = []"
proof -
  let ?s1 = "r_updateRolePermissions i (Some name) None (ev_now env) None s"
  let ?s2 = "r_updateRolePermissions i None (Some (normalizePerms [])) (ev_now env) None ?s1"
  have one: "\<not> isl (fst (updateRole env i org (rename_request name) s))" "snd (updateRole env i org (rename_request name) s) = ?s1"
    using assms(2-5)
    by (auto simp: updateRole_def checked_role_update_def found_role_def rename_request_def optional_visible_def returns_def Let_def)
  have r1: "r_getRole i ?s1 = Some (r\<lparr>rl_name := name, rl_updatedAt := ev_now env\<rparr>)"
    by (simp add: store_simps assms(2))
  have two: "\<not> isl (fst (updateRole env i org strip_request ?s1))" "snd (updateRole env i org strip_request ?s1) = ?s2"
    using r1 assms(3,5)
    by (auto simp: updateRole_def checked_role_update_def found_role_def strip_request_def optional_visible_def returns_def
        Let_def assertPermissionKeys_def bad_keys_def List.map_filter_simps)
  have plain: "ADMIN \<notin> set (normalizePerms [])" by code_simp
  have "\<not> admin_grant org ?s2 b" for b
  proof (cases "as_role b = i")
    case True
    then show ?thesis using plain by (auto simp: admin_grant_def store_simps assms(2))
  next
    case False
    with grant_before[of org i _ _ _ _ _ b] assms(6)[of b] show ?thesis by blast
  qed
  with no_holder[OF store_ok_updateRole[OF store_ok_updateRole[OF assms(1)]], of org] one two show ?thesis by simp
qed

theorem renamed_admin_role_is_unguarded_witness:
  "r_usersWithOrgWidePermission ''o'' ADMIN
     (snd (updateRole roster_demo_env ''r'' ''o'' strip_request
        (snd (updateRole roster_demo_env ''r'' ''o'' (rename_request ''owners'') demo_roster)))) = []"
proof -
  let ?r = "\<lparr>rl_id = ''r'', rl_org = ''o'', rl_name = ''admin'', rl_isSystem = True,
      rl_permissions = [''identity:admin'', ''task:read''], rl_createdAt = [], rl_updatedAt = []\<rparr>"
  have "r_getRole ''r'' demo_roster = Some ?r" by code_simp
  moreover have "r_getRoleByName ''o'' ''owners'' demo_roster = None" by code_simp
  moreover have "as_role b = ''r''" if "admin_grant ''o'' demo_roster b" for b
    using that by (simp add: admin_grant_def demo_roster_def)
  ultimately show ?thesis
    using renamed_admin_role_is_unguarded[OF roster_demo_ok, of "''r''" ?r "''o''" "''owners''" roster_demo_env] by simp
qed

section \<open>Reading every page\<close>

lemma strictly_sorted_keys:
  assumes "distinct (map k xs)"
  shows "sorted_wrt (<) (map k (sort_key k xs))"
proof -
  have "distinct (map k (sort_key k xs))" using assms by (metis distinct_map mset_sort mset_eq_setD mset_map mset_eq_imp_distinct_iff)
  then show ?thesis by (simp add: strict_sorted_iff)
qed

lemma find_next:
  fixes k :: "'a \<Rightarrow> 'k::linorder"
  assumes "sorted_wrt (<) (map k xs)" "0 < m" "m < length xs"
  shows "find_index (\<lambda>r. k r > k (xs ! (m - 1))) xs = Some m"
  using assms
proof (induction xs arbitrary: m)
  case (Cons x xs)
  show ?case
  proof (cases "m = 1")
    case True
    then show ?thesis using Cons.prems by (cases xs) auto
  next
    case False
    then have m: "0 < m - 1" "m - 1 < length xs" "xs ! (m - 1 - 1) \<in> set xs" using Cons.prems by auto
    then have "k x < k (xs ! (m - 1 - 1))" using Cons.prems(1) by simp
    then have before: "\<not> k x > k (xs ! (m - 1 - 1))" by (rule less_not_sym)
    have eq: "(x # xs) ! (m - 1) = xs ! (m - 1 - 1)" using m by (simp add: nth_Cons')
    have "find_index (\<lambda>r. k r > k (xs ! (m - 1 - 1))) xs = Some (m - 1)"
      by (rule Cons.IH[OF _ m(1,2)]) (use Cons.prems(1) in simp)
    with m(1) show ?thesis unfolding eq by (simp only: find_index.simps before if_False option.map) simp
  qed
qed simp

definition at_cursor :: "(role_row list) \<Rightarrow> nat \<Rightarrow> string option" where
  \<comment> \<open>the cursor after the first \<open>m\<close> roles\<close>
  "at_cursor xs m = (if m = 0 then None else Some (rl_id (xs ! (m - 1))))"

lemma one_page:
  fixes rows :: "role_row list" and L m :: nat
  defines "xs \<equiv> sort_key rl_id rows"
  assumes "distinct (map rl_id rows)" "[] \<notin> rl_id ` set rows" "m = 0 \<or> m < length xs" "0 < L"
  shows "pageSlice rl_id rows L (at_cursor xs m)
     = (take L (drop m xs), if m + L < length xs then at_cursor xs (m + L) else None)"
proof -
  have sorted: "sorted_wrt (<) (map rl_id xs)" unfolding xs_def by (rule strictly_sorted_keys[OF assms(2)])
  have in_rows: "xs ! j \<in> set rows" if "j < length xs" for j using nth_mem[OF that] by (simp add: xs_def)
  have last: "last (take L (drop m xs)) = xs ! (m + L - 1)" if "m + L < length xs"
  proof -
    have "last (take L (drop m xs)) = take L (drop m xs) ! (L - 1)"
      using that assms(5) by (subst last_conv_nth) auto
    also have "\<dots> = xs ! (m + (L - 1))" using that assms(5) by simp
    finally show ?thesis using assms(5) by simp
  qed
  have page: "pageSlice rl_id rows L (at_cursor xs m) = (let items = take L (drop m xs) in
      (items, if m + L < length xs \<and> length items > 0 then Some (rl_id (last items)) else None))"
  proof (cases "m = 0")
    case True
    then show ?thesis by (simp add: pageSlice_def at_cursor_def xs_def[symmetric])
  next
    case False
    with assms(4) have "rl_id (xs ! (m - 1)) \<noteq> []" using in_rows[of "m - 1"] assms(3) by force
    moreover have "find_index (\<lambda>r. rl_id r > rl_id (xs ! (m - 1))) xs = Some m"
      using False assms(4) by (intro find_next[OF sorted]) auto
    ultimately show ?thesis using False by (simp add: pageSlice_def at_cursor_def xs_def[symmetric])
  qed
  show ?thesis unfolding page Let_def using last assms(5) by (auto simp: at_cursor_def)
qed

lemma all_pages_from:
  fixes s :: identity_store and org :: string
  defines "rows \<equiv> filter (\<lambda>r. rl_org r = org) (st_roles s)"
  assumes "distinct (map rl_id rows)" "[] \<notin> rl_id ` set rows" "m = 0 \<or> m < length rows" "length rows - m < n"
  shows "all_pages n org (at_cursor (sort_key rl_id rows) m) s = Some (drop m (sort_key rl_id rows))"
  using assms(4,5)
proof (induction n arbitrary: m)
  case (Suc n)
  let ?xs = "sort_key rl_id rows"
  have len: "length ?xs = length rows" by simp
  have page: "r_listRoles org MAX_LIMIT (at_cursor ?xs m) s
      = (take MAX_LIMIT (drop m ?xs), if m + MAX_LIMIT < length ?xs then at_cursor ?xs (m + MAX_LIMIT) else None)"
    unfolding r_listRoles_def rows_def[symmetric]
    by (rule one_page[OF assms(2,3)]) (use Suc.prems in \<open>auto simp: MAX_LIMIT_def\<close>)
  show ?case
  proof (cases "m + MAX_LIMIT < length ?xs")
    case True
    have "?xs ! (m + MAX_LIMIT - 1) \<in> set ?xs" using True by (intro nth_mem) simp
    then have "rl_id (?xs ! (m + MAX_LIMIT - 1)) \<noteq> []" using assms(3) by force
    then have cursor: "text_option (at_cursor ?xs (m + MAX_LIMIT)) = at_cursor ?xs (m + MAX_LIMIT)"
      "at_cursor ?xs (m + MAX_LIMIT) \<noteq> None"
      by (auto simp: text_option_def at_cursor_def MAX_LIMIT_def split: list.split)
    have "all_pages n org (at_cursor ?xs (m + MAX_LIMIT)) s = Some (drop (m + MAX_LIMIT) ?xs)"
      by (rule Suc.IH) (use True Suc.prems in \<open>auto simp: MAX_LIMIT_def\<close>)
    moreover have "take MAX_LIMIT (drop m ?xs) @ drop (m + MAX_LIMIT) ?xs = drop m ?xs"
      by (metis add.commute append_take_drop_id drop_drop)
    ultimately show ?thesis using True page cursor by (auto split: option.splits)
  next
    case False
    then have "take MAX_LIMIT (drop m ?xs) = drop m ?xs" by simp
    with False page show ?thesis by (simp add: text_option_def)
  qed
qed simp

text \<open>
  The paging loop behind the managed-role catalogue ends, and it reads every role of the
  organisation exactly once, in the order of the ids, however many pages of 200 there are.
\<close>

theorem allRoles_reads_every_role:
  assumes "distinct (map rl_id (st_roles s))" "[] \<notin> rl_id ` set (st_roles s)"
  shows "all_pages (Suc (length (st_roles s))) org None s = Some (allRoles org s)
       \<and> allRoles org s = sort_key rl_id (filter (\<lambda>r. rl_org r = org) (st_roles s))"
proof -
  have "length (filter (\<lambda>r. rl_org r = org) (st_roles s)) - 0 < Suc (length (st_roles s))"
    by (simp add: le_imp_less_Suc)
  moreover have "distinct (map rl_id (filter (\<lambda>r. rl_org r = org) (st_roles s)))"
    "[] \<notin> rl_id ` set (filter (\<lambda>r. rl_org r = org) (st_roles s))"
    using assms by (auto simp: distinct_map_filter)
  ultimately have "all_pages (Suc (length (st_roles s))) org None s = Some (sort_key rl_id (filter (\<lambda>r. rl_org r = org) (st_roles s)))"
    using all_pages_from[of org s 0] by (simp only: at_cursor_def drop_0 simp_thms if_True)
  then show ?thesis unfolding allRoles_def by (simp only: option.sel simp_thms)
qed

theorem allRoles_reads_every_role_witness:
  "allRoles ''o'' demo_roster = sort_key rl_id (filter (\<lambda>r. rl_org r = ''o'') (st_roles demo_roster))"
proof -
  have "distinct (map rl_id (st_roles demo_roster))" "[] \<notin> rl_id ` set (st_roles demo_roster)"
    by (simp_all add: demo_roster_def)
  from allRoles_reads_every_role[OF this] show ?thesis by simp
qed

end
