(* ===== verification/Freeq_Liveness.thy ===== *)
theory Freeq_Liveness
  imports Freeq_Outbox
begin

text \<open>
  What the outbox owes its producers: drains that keep coming settle every message, whatever the
  transport does. The measure is the number of attempts the pending rows have left; a drain at which
  they are due uses up at least one.
\<close>

fun drain_all :: "('w \<Rightarrow> outbox_message \<Rightarrow> 'w \<times> string option) \<Rightarrow> drain_options \<Rightarrow> ms list \<Rightarrow> 'w \<Rightarrow> outbox \<Rightarrow> 'w \<times> outbox" where
  \<comment> \<open>a drain at each of the moments\<close>
  "drain_all deliver opts [] w db = (w, db)"
| "drain_all deliver opts (t # ts) w db =
     (case drain deliver opts t w db of (w', db', _) \<Rightarrow> drain_all deliver opts ts w' db')"

definition row_left :: "int \<Rightarrow> outbox_row \<Rightarrow> nat" where
  "row_left m r = (if ob_status r = Pending then nat (m - ob_attempts r) else 0)"

definition attempts_left :: "int \<Rightarrow> outbox \<Rightarrow> nat" where
  "attempts_left m db = sum_list (map (row_left m) db)"

definition due_by :: "ms \<Rightarrow> outbox_row \<Rightarrow> bool" where
  "due_by t r = (ob_status r \<noteq> Pending \<or> (\<exists>u. four_digit_year u \<and> u \<le> t \<and> ob_next_attempt_at r = iso_string u))"

definition max_delay :: "drain_options \<Rightarrow> int" where
  "max_delay opts = nullish_or (maxDelayMs opts) DEFAULT_MAX_MS"

definition sane_delays :: "drain_options \<Rightarrow> bool" where
  \<comment> \<open>positive delays, and a ceiling below the clamp of the exponent, as with the defaults\<close>
  "sane_delays opts = (0 < nullish_or (baseDelayMs opts) DEFAULT_BASE_MS \<and> 0 < max_delay opts
     \<and> max_delay opts \<le> nullish_or (baseDelayMs opts) DEFAULT_BASE_MS * 2 ^ 40)"

lemma due_by_mono: "due_by t r \<Longrightarrow> t \<le> t' \<Longrightarrow> due_by t' r"
  unfolding due_by_def by (meson order_trans)

lemma sane_backoff:
  assumes "sane_delays opts"
  obtains d where "backoffMs n opts = Some d" "0 < d" "d \<le> max_delay opts"
proof -
  from assms have "backoffMs n opts = Some (min (nullish_or (baseDelayMs opts) DEFAULT_BASE_MS * 2 ^ nat (max 1 n - 1)) (max_delay opts))"
    using backoffMs_value[of opts n] by (simp add: sane_delays_def max_delay_def)
  then show thesis using assms that by (simp add: sane_delays_def)
qed

lemma attempts_left_update:
  assumes "distinct db" "row \<in> set db"
  shows "attempts_left m (map (\<lambda>r. if r = row then r' else r) db) + row_left m row = attempts_left m db + row_left m r'"
  using assms
proof (induction db)
  case (Cons x db)
  show ?case
  proof (cases "x = row")
    case True
    then have "map (\<lambda>r. if r = row then r' else r) db = db" using Cons.prems(1) by (induction db) auto
    with True show ?thesis by (simp add: attempts_left_def)
  next
    case False
    with Cons show ?thesis by (simp add: attempts_left_def)
  qed
qed simp

lemma attempt_uses_one:
  assumes "sane_delays opts" "four_digit_year now" "four_digit_year (now + max_delay opts)"
    and "ob_status r = Pending" "row_ok (max_attempts opts) r"
  obtains r' where "attempted opts now r answer = Inr r'" "due_by (now + max_delay opts) r'"
    "row_left (max_attempts opts) r' < row_left (max_attempts opts) r"
proof -
  have left: "ob_attempts r < max_attempts opts" using assms(4,5) by (simp add: row_ok_def)
  obtain d where d: "backoffMs (ob_attempts r + 1) opts = Some d" "0 < d" "d \<le> max_delay opts"
    using sane_backoff[OF assms(1)] by blast
  then have "\<bar>now + d\<bar> \<le> MAX_TIME" "four_digit_year (now + d)"
    using assms(2,3) by (auto simp: four_digit_year_def MAX_TIME_def)
  then have iso: "date_iso (now + d) = Inr (iso_string (now + d))" "four_digit_year (now + d)"
    by (simp_all add: date_iso_def toISOString_def)
  show thesis
  proof (cases answer)
    case None
    then show thesis using left assms(4) by (intro that[of "r\<lparr>ob_status := Done, ob_attempts := ob_attempts r + 1, ob_last_error := None\<rparr>"])
      (auto simp: attempted_def due_by_def row_left_def)
  next
    case (Some e)
    show thesis
    proof (cases "ob_attempts r + 1 \<ge> max_attempts opts")
      case True
      then show thesis using Some left assms(4)
        by (intro that[of "r\<lparr>ob_status := Failed, ob_attempts := ob_attempts r + 1, ob_last_error := Some e\<rparr>"])
          (auto simp: attempted_def due_by_def row_left_def)
    next
      case False
      let ?r = "r\<lparr>ob_attempts := ob_attempts r + 1, ob_next_attempt_at := iso_string (now + d), ob_last_error := Some e\<rparr>"
      have "attempted opts now r answer = Inr ?r" using Some False d iso by (simp add: attempted_def)
      moreover have "due_by (now + max_delay opts) ?r" unfolding due_by_def using d(3) iso(2) by auto
      moreover have "row_left (max_attempts opts) ?r < row_left (max_attempts opts) r" using left assms(4) by (simp add: row_left_def)
      ultimately show thesis by (rule that)
    qed
  qed
qed

lemma drain_loop_progress:
  assumes "sane_delays opts" "four_digit_year now" "four_digit_year (now + max_delay opts)"
    and "outbox_inv (max_attempts opts) db" "distinct rows" "set rows \<subseteq> set db" "\<forall>r\<in>set rows. ob_status r = Pending"
  shows "\<exists>w' db' out'. drain_loop deliver opts now rows (w, db, out) = (w', db', Inr out')
    \<and> attempts_left (max_attempts opts) db' + length rows \<le> attempts_left (max_attempts opts) db
    \<and> (\<forall>r\<in>set db'. r \<in> set db \<or> due_by (now + max_delay opts) r)"
  using assms(4-7)
proof (induction rows arbitrary: w db out)
  case (Cons row rows)
  have row: "row \<in> set db" "ob_status row = Pending" "row_ok (max_attempts opts) row"
    using Cons.prems(1,3,4) by (auto simp: outbox_inv_def)
  have dist: "distinct (map ob_id db)" using Cons.prems(1) by (simp add: outbox_inv_def)
  obtain w1 answer where d: "deliver w (message_of row) = (w1, answer)" by fastforce
  obtain r' where r': "attempted opts now row answer = Inr r'" "due_by (now + max_delay opts) r'"
    "row_left (max_attempts opts) r' < row_left (max_attempts opts) row"
    using attempt_uses_one[OF assms(1-3) row(2,3)] by blast
  define db1 where "db1 = map (\<lambda>r. if r = row then r' else r) db"
  have step: "drain_row deliver opts now row (w, db, out) = (w1, db1, Inr (counted r' out))"
    using drain_row_eq[of db row deliver w w1 answer opts now out, OF dist row(1,2) d] r'(1) by (simp add: db1_def)
  note ok' = row_ok_attempted[OF row(3,2) r'(1)]
  have ids: "map ob_id db1 = map ob_id db" using attempted_Inr(1)[OF r'(1)] by (simp add: db1_def)
  have inv1: "outbox_inv (max_attempts opts) db1"
    unfolding outbox_inv_def ids using Cons.prems(1) ok'(1) by (auto simp: outbox_inv_def db1_def)
  have sub: "set rows \<subseteq> set db1" using Cons.prems(2,3) by (auto simp: db1_def)
  from Cons.IH[OF inv1 _ sub, of w1 "counted r' out"] Cons.prems(2,4)
  obtain w' db' out' where ih: "drain_loop deliver opts now rows (w1, db1, counted r' out) = (w', db', Inr out')"
    "attempts_left (max_attempts opts) db' + length rows \<le> attempts_left (max_attempts opts) db1"
    "\<forall>r\<in>set db'. r \<in> set db1 \<or> due_by (now + max_delay opts) r" by auto
  have "attempts_left (max_attempts opts) db1 < attempts_left (max_attempts opts) db"
    using attempts_left_update[of db row "max_attempts opts" r'] dist row(1) r'(3) by (simp add: db1_def distinct_map)
  moreover have "\<forall>r\<in>set db'. r \<in> set db \<or> due_by (now + max_delay opts) r"
    using ih(3) r'(2) by (auto simp: db1_def split: if_splits)
  ultimately show ?case using ih(1,2) step by (intro exI[of _ w'] exI[of _ db'] exI[of _ out']) auto
qed simp

lemma due_now:
  assumes "due_by t r" "ob_status r = Pending" "four_digit_year t"
  shows "ob_next_attempt_at r \<le> iso_string t"
proof -
  obtain u where "four_digit_year u" "u \<le> t" "ob_next_attempt_at r = iso_string u" using assms(1,2) by (auto simp: due_by_def)
  then show ?thesis using iso_string_mono[of u t] assms(3) by (cases "u = t") auto
qed

lemma drain_progress:
  assumes "sane_delays opts" "four_digit_year t" "four_digit_year (t + max_delay opts)"
    and "outbox_inv (max_attempts opts) db" "nullish_or (batchSize opts) DEFAULT_BATCH \<noteq> 0" "\<forall>r\<in>set db. due_by t r"
  shows "\<exists>w' db' out. drain deliver opts t w db = (w', db', Inr out)
    \<and> (attempts_left (max_attempts opts) db' < attempts_left (max_attempts opts) db \<or> (\<forall>r\<in>set db. ob_status r \<noteq> Pending) \<and> db' = db)
    \<and> (\<forall>r\<in>set db'. due_by (t + max_delay opts) r)"
proof -
  let ?rows = "due_rows (iso_string t) (nullish_or (batchSize opts) DEFAULT_BATCH) db"
  have iso: "date_iso t = Inr (iso_string t)"
    using assms(2) by (auto simp: date_iso_def toISOString_def four_digit_year_def MAX_TIME_def)
  have "distinct (map ob_id db)" using assms(4) by (simp add: outbox_inv_def)
  then have rows: "distinct ?rows" "set ?rows \<subseteq> set db" "\<forall>r\<in>set ?rows. ob_status r = Pending"
    using due_rows_facts(1)[of "iso_string t" "nullish_or (batchSize opts) DEFAULT_BATCH" db] due_rows_facts(2)[of db] by auto
  obtain w' db' out where loop: "drain_loop deliver opts t ?rows (w, db, \<lparr>claimed = length ?rows, delivered = 0, retried = 0, failed = 0\<rparr>)
      = (w', db', Inr out)"
    "attempts_left (max_attempts opts) db' + length ?rows \<le> attempts_left (max_attempts opts) db"
    "\<forall>r\<in>set db'. r \<in> set db \<or> due_by (t + max_delay opts) r"
    using drain_loop_progress[OF assms(1-4) rows, of deliver w "\<lparr>claimed = length ?rows, delivered = 0, retried = 0, failed = 0\<rparr>"]
    by blast
  have "\<forall>r\<in>set db'. due_by (t + max_delay opts) r"
    using loop(3) assms(1,6) due_by_mono[of t _ "t + max_delay opts"] by (auto simp: sane_delays_def)
  moreover have "attempts_left (max_attempts opts) db' < attempts_left (max_attempts opts) db
      \<or> (\<forall>r\<in>set db. ob_status r \<noteq> Pending) \<and> db' = db"
  proof (cases "?rows = []")
    case True
    with loop(1) have same: "db' = db" by simp
    have "\<not> (ob_status r = Pending)" if "r \<in> set db" for r
    proof
      assume "ob_status r = Pending"
      with that assms(6) due_now[of t r] assms(2)
      have "r \<in> set (filter (\<lambda>r. ob_status r = Pending \<and> ob_next_attempt_at r \<le> iso_string t) db)" by simp
      then have "filter (\<lambda>r. ob_status r = Pending \<and> ob_next_attempt_at r \<le> iso_string t) db \<noteq> []" by force
      then have "sort_key ob_next_attempt_at (filter (\<lambda>r. ob_status r = Pending \<and> ob_next_attempt_at r \<le> iso_string t) db) \<noteq> []"
        by (metis set_empty set_sort)
      with True assms(5) show False by (auto simp: due_rows_def sql_limit_def split: if_splits)
    qed
    with same show ?thesis by blast
  next
    case False
    then have "0 < length ?rows" by simp
    with loop(2) show ?thesis by linarith
  qed
  ultimately show ?thesis using loop(1) iso by (simp add: drain_def Let_def)
qed

lemma none_left:
  assumes "outbox_inv m db" "attempts_left m db = 0"
  shows "\<forall>r\<in>set db. ob_status r \<noteq> Pending"
proof
  fix r
  assume r: "r \<in> set db"
  with assms(2) have "row_left m r = 0" by (auto simp: attempts_left_def)
  moreover have "row_ok m r" using assms(1) r by (simp add: outbox_inv_def)
  ultimately show "ob_status r \<noteq> Pending" by (auto simp: row_left_def row_ok_def)
qed

text \<open>
  C27. Every message is settled: whatever the transport answers, drains at least one maximal delay
  apart, as many as the pending rows have attempts left, leave no row pending, and no row gets lost on
  the way. Every message has then been delivered, or has failed its last attempt.
\<close>

theorem every_message_is_settled:
  assumes "outbox_inv (max_attempts opts) db" "sane_delays opts" "nullish_or (batchSize opts) DEFAULT_BATCH \<noteq> 0"
    and "sorted_wrt (\<lambda>t t'. t + max_delay opts \<le> t') ts"
    and "\<forall>t\<in>set ts. four_digit_year t \<and> four_digit_year (t + max_delay opts)"
    and "ts \<noteq> [] \<longrightarrow> (\<forall>r\<in>set db. due_by (hd ts) r)"
    and "attempts_left (max_attempts opts) db \<le> length ts"
  shows "(\<forall>r\<in>set (snd (drain_all deliver opts ts w db)). ob_status r \<noteq> Pending)
       \<and> list_all2 row_next db (snd (drain_all deliver opts ts w db))"
  using assms(1,4-7)
proof (induction ts arbitrary: w db)
  case Nil
  have "list_all2 row_next db db" by (auto simp: row_next_def intro: list.rel_refl_strong)
  then show ?case using none_left[OF Nil.prems(1)] Nil.prems(5) by simp
next
  case (Cons t ts)
  have t: "four_digit_year t" "four_digit_year (t + max_delay opts)" using Cons.prems(3) by auto
  have due: "\<forall>r\<in>set db. due_by t r" using Cons.prems(4) by simp
  obtain w' db' out where step: "drain deliver opts t w db = (w', db', Inr out)"
    and less: "attempts_left (max_attempts opts) db' < attempts_left (max_attempts opts) db
      \<or> (\<forall>r\<in>set db. ob_status r \<noteq> Pending) \<and> db' = db"
    and due': "\<forall>r\<in>set db'. due_by (t + max_delay opts) r"
    using drain_progress[OF assms(2) t Cons.prems(1) assms(3) due, of deliver w] by blast
  note inv' = drain_inv[OF Cons.prems(1) step]
  have left: "attempts_left (max_attempts opts) db' \<le> length ts"
    using less
  proof
    assume settled: "(\<forall>r\<in>set db. ob_status r \<noteq> Pending) \<and> db' = db"
    then have "attempts_left (max_attempts opts) db' = 0" by (auto simp: attempts_left_def row_left_def)
    then show ?thesis by simp
  qed (use Cons.prems(5) in simp)
  have "\<forall>r\<in>set db'. due_by (hd ts) r" if "ts \<noteq> []"
  proof -
    have "t + max_delay opts \<le> hd ts" using Cons.prems(2) that by simp
    then show ?thesis using due' due_by_mono by blast
  qed
  then have ih: "(\<forall>r\<in>set (snd (drain_all deliver opts ts w' db')). ob_status r \<noteq> Pending)
      \<and> list_all2 row_next db' (snd (drain_all deliver opts ts w' db'))"
    using Cons.prems(2,3) left by (intro Cons.IH) (use inv' in auto)
  have "list_all2 row_next db (snd (drain_all deliver opts ts w' db'))"
    by (rule list_all2_trans[OF _ conjunct2[OF inv'] conjunct2[OF ih]]) (rule row_next_trans)
  with ih show ?case unfolding drain_all.simps step prod.case by blast
qed

theorem every_message_is_settled_witness:
  "list_all (\<lambda>r. ob_status r \<noteq> Pending)
     (snd (drain_all (\<lambda>w m. (w + 1, if w < 2 then Some ''down'' else None)) sample_options [0, 3600000, 7200000, 10800000] (0::nat)
       [sample_row ''a'', sample_row ''b'']))"
proof -
  let ?db = "[sample_row ''a'', sample_row ''b'']" and ?ts = "[0, 3600000, 7200000, 10800000] :: ms list"
  have epoch: "iso_string 0 = ''1970-01-01T00:00:00.000Z''" by code_simp
  have "outbox_inv (max_attempts sample_options) ?db" by (simp add: outbox_inv_def row_ok_def sample_row_def sample_options_def max_attempts_def nullish_or_def)
  moreover have "sane_delays sample_options"
    by (simp add: sane_delays_def max_delay_def sample_options_def nullish_or_def DEFAULT_BASE_MS_def DEFAULT_MAX_MS_def)
  moreover have "nullish_or (batchSize sample_options) DEFAULT_BATCH \<noteq> 0" by (simp add: sample_options_def nullish_or_def DEFAULT_BATCH_def)
  moreover have "sorted_wrt (\<lambda>t t'. t + max_delay sample_options \<le> t') ?ts"
    by (simp add: max_delay_def sample_options_def nullish_or_def DEFAULT_MAX_MS_def)
  moreover have "\<forall>t\<in>set ?ts. four_digit_year t \<and> four_digit_year (t + max_delay sample_options)"
    by (simp add: four_digit_year_def max_delay_def sample_options_def nullish_or_def DEFAULT_MAX_MS_def)
  moreover have "?ts \<noteq> [] \<longrightarrow> (\<forall>r\<in>set ?db. due_by (hd ?ts) r)"
    using epoch by (auto simp: due_by_def sample_row_def four_digit_year_def intro!: exI[of _ "0::int"])
  moreover have "attempts_left (max_attempts sample_options) ?db \<le> length ?ts"
    by (simp add: attempts_left_def row_left_def sample_row_def sample_options_def max_attempts_def nullish_or_def)
  ultimately show ?thesis unfolding list_all_iff by (rule every_message_is_settled[THEN conjunct1])
qed

end
