(* ===== verification/Ticket_Alarm.thy ===== *)
theory Ticket_Alarm
  imports Ticket_Safety
begin






definition alarm_pass :: "deps \<Rightarrow> (nat \<Rightarrow> ms) \<Rightarrow> bool \<Rightarrow> store \<Rightarrow> nat \<times> store" where
  \<comment> \<open>the mail backlog the pass reports, and the shop\<close>
  "alarm_pass d tick full s =
     (if full then (case reconcile d tick s of (rep, s') \<Rightarrow> (ds_mailBacklog (rs_delivery rep), s'))
      else (case drainMail d tick s of (rep, s') \<Rightarrow> (ds_mailBacklog rep, s')))"


lemma alarm_pass_step:
  "tick 0 = now \<Longrightarrow> shop_step (now, s) (now, snd (alarm_pass d tick full s))"
  using shop_step.reconcile[of tick now s d] shop_step.drainMail[of now s d tick]
  by (auto simp: alarm_pass_def case_prod_beta)

section \<open>Runs of the loop\<close>






section \<open>The rhythm\<close>








end
