(* ===== verification/Auth_Sessions.thy ===== *)
theory Auth_Sessions
  imports Js_Bytes "HOL-Library.AList"
begin

text \<open>
  \<open>services/auth-service/src/sessions.ts\<close> and \<open>crypto.ts\<close>: sessions over a key-value
  store, their rotation, revocation and impersonation. The store is the platform's: it serves an entry until
  the time to live of its last write is over; whether and how long it still does so afterwards is not said,
  and \<open>kv_serves\<close> is a parameter for it. A write with a time to live under a minute throws, which the floor
  of \<open>kvTtl\<close> avoids. A record is the value its JSON denotes. An operation takes the
  instant of the call and the random token it draws; reading and writing of a rotation are also available
  one by one, for calls that overlap.
\<close>

section \<open>Tokens\<close>

definition newSessionToken :: "bytes \<Rightarrow> string" where
  \<comment> \<open>of the 32 random bytes\<close>
  "newSessionToken bytes = base64url bytes"

definition looksLikeToken :: "string \<Rightarrow> bool" where
  "looksLikeToken token = (length token \<ge> 32 \<and> length token \<le> 512 \<and> list_all b64_alphabet token)"

section \<open>Records and the store\<close>

datatype auth_client = Web | Mobile
datatype verify_reason = R_malformed | R_expired | R_revoked

record stored_impersonation =
  im_actorId :: string
  im_actorToken :: string
  im_startedAt :: ms

record stored_session =
  ss_sessionId :: string
  ss_userId :: string
  ss_client :: auth_client
  ss_issuedAt :: ms
  ss_accessExpiresAt :: ms
  ss_absoluteExpiresAt :: ms
  ss_lastSeenAt :: "ms option"
  ss_rotatedTo :: "string option"
  ss_impersonation :: "stored_impersonation option"

record auth_kv =
  kv_sessions :: "(string \<times> stored_session \<times> ms) list"  \<comment> \<open>by token, with the end of the time to live\<close>
  kv_revoked :: "(string \<times> ms) list"                    \<comment> \<open>by user\<close>
  kv_serves :: "ms \<Rightarrow> ms \<Rightarrow> bool"                         \<comment> \<open>is an entry that may end at an instant still read?\<close>

record auth_config =
  cf_accessTtlSec :: int
  cf_absWebTtlSec :: int
  cf_absMobileTtlSec :: int
  cf_idleTtlSec :: int
  cf_refreshGraceSec :: int

definition DEFAULTS :: auth_config where
  \<comment> \<open>\<open>env.ts\<close>: an hour, 90 sliding days, 180 days, 30 idle days, a minute\<close>
  "DEFAULTS = \<lparr>cf_accessTtlSec = 3600, cf_absWebTtlSec = 90 * 24 * 60 * 60, cf_absMobileTtlSec = 180 * 24 * 60 * 60,
     cf_idleTtlSec = 30 * 24 * 60 * 60, cf_refreshGraceSec = 60\<rparr>"

definition KV_MIN_TTL :: int where "KV_MIN_TTL = 60"

definition kvTtl :: "rat \<Rightarrow> int" where
  "kvTtl seconds = max KV_MIN_TTL \<lceil>seconds\<rceil>"

definition platform_kv :: "auth_kv \<Rightarrow> bool" where
  \<comment> \<open>what the platform documents: an entry is there during its time to live\<close>
  "platform_kv kv = (\<forall>now expires. now < expires \<longrightarrow> kv_serves kv now expires)"

definition put_session :: "ms \<Rightarrow> string \<Rightarrow> stored_session \<Rightarrow> int \<Rightarrow> auth_kv \<Rightarrow> auth_kv" where
  "put_session now token s ttl kv = kv\<lparr>kv_sessions := AList.update token (s, now + ttl * 1000) (kv_sessions kv)\<rparr>"

definition delete_session :: "string \<Rightarrow> auth_kv \<Rightarrow> auth_kv" where
  "delete_session token kv = kv\<lparr>kv_sessions := AList.delete token (kv_sessions kv)\<rparr>"

definition read_session :: "ms \<Rightarrow> string \<Rightarrow> auth_kv \<Rightarrow> stored_session option" where
  "read_session now token kv =
     (case map_of (kv_sessions kv) token of
        Some (s, expires) \<Rightarrow> if kv_serves kv now expires then Some s else None
      | None \<Rightarrow> None)"

definition isUserRevoked :: "ms \<Rightarrow> string \<Rightarrow> auth_kv \<Rightarrow> bool" where
  "isUserRevoked now u kv = (case map_of (kv_revoked kv) u of Some expires \<Rightarrow> kv_serves kv now expires | None \<Rightarrow> False)"

record session_info =
  si_userId :: string
  si_client :: auth_client
  si_sessionExpiresAt :: ms

record impersonation_info =
  ii_actorId :: string
  ii_subjectId :: string
  ii_startedAt :: ms
  ii_expiresAt :: ms

definition toSessionInfo :: "stored_session \<Rightarrow> session_info" where
  "toSessionInfo s = \<lparr>si_userId = ss_userId s, si_client = ss_client s, si_sessionExpiresAt = ss_accessExpiresAt s\<rparr>"

definition toImpersonationInfo :: "stored_session \<Rightarrow> impersonation_info option" where
  "toImpersonationInfo s =
     map_option (\<lambda>im. \<lparr>ii_actorId = im_actorId im, ii_subjectId = ss_userId s, ii_startedAt = im_startedAt im,
                       ii_expiresAt = ss_absoluteExpiresAt s\<rparr>) (ss_impersonation s)"

definition lastSeenOf :: "stored_session \<Rightarrow> ms" where
  "lastSeenOf s = (case ss_lastSeenAt s of Some t \<Rightarrow> t | None \<Rightarrow> ss_issuedAt s)"

section \<open>Deadlines\<close>

definition absTtlSec :: "auth_config \<Rightarrow> auth_client \<Rightarrow> int" where
  "absTtlSec cfg client = (if client = Mobile then cf_absMobileTtlSec cfg else cf_absWebTtlSec cfg)"

definition isSliding :: "auth_client \<Rightarrow> bool" where
  "isSliding client = (client \<noteq> Mobile)"

definition idle_ttl :: "auth_config \<Rightarrow> auth_client \<Rightarrow> int" where
  "idle_ttl cfg client = (if client = Mobile then 0 else cf_idleTtlSec cfg)"

definition effectiveDeadline :: "auth_config \<Rightarrow> stored_session \<Rightarrow> ms" where
  "effectiveDeadline cfg s =
     (let idleSec = idle_ttl cfg (ss_client s) in
      if idleSec \<le> 0 then ss_absoluteExpiresAt s
      else min (ss_absoluteExpiresAt s) (lastSeenOf s + idleSec * 1000))"

definition remaining_ttl :: "auth_config \<Rightarrow> ms \<Rightarrow> stored_session \<Rightarrow> int" where
  \<comment> \<open>\<open>kvTtl((effectiveExpiresAt - now) / 1000)\<close>\<close>
  "remaining_ttl cfg now s = kvTtl (of_int (effectiveDeadline cfg s - now) / 1000)"

record created_session =
  cr_token :: string
  cr_session :: session_info
  cr_absoluteExpiresAt :: ms
  cr_effectiveExpiresAt :: ms

definition created :: "auth_config \<Rightarrow> string \<Rightarrow> stored_session \<Rightarrow> created_session" where
  "created cfg token s =
     \<lparr>cr_token = token, cr_session = toSessionInfo s, cr_absoluteExpiresAt = ss_absoluteExpiresAt s,
      cr_effectiveExpiresAt = effectiveDeadline cfg s\<rparr>"

section \<open>Creation and verification\<close>

definition createSession :: "auth_config \<Rightarrow> ms \<Rightarrow> string \<Rightarrow> string \<Rightarrow> string \<Rightarrow> auth_client \<Rightarrow> auth_kv
    \<Rightarrow> created_session \<times> auth_kv" where
  \<comment> \<open>with the two random draws of the call: the session id and the token\<close>
  "createSession cfg now newId token userId client kv =
     (let stored = \<lparr>ss_sessionId = newId, ss_userId = userId, ss_client = client, ss_issuedAt = now,
            ss_accessExpiresAt = now + cf_accessTtlSec cfg * 1000,
            ss_absoluteExpiresAt = now + absTtlSec cfg client * 1000, ss_lastSeenAt = Some now,
            ss_rotatedTo = None, ss_impersonation = None\<rparr>
      in (created cfg token stored, put_session now token stored (remaining_ttl cfg now stored) kv))"

record verify_response =
  vr_valid :: bool
  vr_userId :: "string option"
  vr_session :: "session_info option"
  vr_reason :: "verify_reason option"
  vr_impersonation :: "impersonation_info option"

definition invalid_session :: "verify_reason \<Rightarrow> verify_response" where
  "invalid_session reason = \<lparr>vr_valid = False, vr_userId = None, vr_session = None, vr_reason = Some reason, vr_impersonation = None\<rparr>"

definition verify :: "auth_config \<Rightarrow> ms \<Rightarrow> string \<Rightarrow> auth_kv \<Rightarrow> verify_response" where
  "verify cfg now token kv =
     (if token = [] \<or> \<not> looksLikeToken token then invalid_session R_malformed
      else (case read_session now token kv of
              None \<Rightarrow> invalid_session R_revoked
            | Some s \<Rightarrow>
                if ss_rotatedTo s \<noteq> None then invalid_session R_revoked
                else if isUserRevoked now (ss_userId s) kv then invalid_session R_revoked
                else if (case ss_impersonation s of Some im \<Rightarrow> isUserRevoked now (im_actorId im) kv | None \<Rightarrow> False)
                then invalid_session R_revoked
                else if now \<ge> effectiveDeadline cfg s then invalid_session R_revoked
                else if now \<ge> ss_accessExpiresAt s then invalid_session R_expired
                else \<lparr>vr_valid = True, vr_userId = Some (ss_userId s), vr_session = Some (toSessionInfo s),
                       vr_reason = None, vr_impersonation = toImpersonationInfo s\<rparr>))"

section \<open>Rotation\<close>

datatype refresh_plan = Refuse | Drop_idle | Successor string stored_session | Rotate

definition plan_refresh :: "auth_config \<Rightarrow> ms \<Rightarrow> stored_session \<Rightarrow> auth_kv \<Rightarrow> refresh_plan" where
  \<comment> \<open>what \<open>refresh\<close> decides from what it reads, for a record that is no impersonation\<close>
  "plan_refresh cfg now s kv =
     (if isUserRevoked now (ss_userId s) kv then Refuse
      else (case ss_rotatedTo s of
              Some next \<Rightarrow>
                (case read_session now next kv of
                   None \<Rightarrow> Refuse
                 | Some t \<Rightarrow> if now \<ge> effectiveDeadline cfg t \<or> ss_rotatedTo t \<noteq> None then Refuse else Successor next t)
            | None \<Rightarrow>
                if now \<ge> ss_absoluteExpiresAt s then Refuse
                else if idle_ttl cfg (ss_client s) > 0 \<and> now \<ge> lastSeenOf s + idle_ttl cfg (ss_client s) * 1000 then Drop_idle
                else Rotate))"

definition rotated :: "auth_config \<Rightarrow> ms \<Rightarrow> stored_session \<Rightarrow> stored_session" where
  "rotated cfg now s =
     s\<lparr>ss_accessExpiresAt := now + cf_accessTtlSec cfg * 1000, ss_lastSeenAt := Some now,
       ss_absoluteExpiresAt := (if isSliding (ss_client s) then now + absTtlSec cfg (ss_client s) * 1000
                                else ss_absoluteExpiresAt s)\<rparr>"

definition rotate_token :: "auth_config \<Rightarrow> ms \<Rightarrow> string \<Rightarrow> string \<Rightarrow> stored_session \<Rightarrow> auth_kv \<Rightarrow> created_session \<times> auth_kv" where
  \<comment> \<open>the two writes: the successor, and the grace record of the old token\<close>
  "rotate_token cfg now newToken token s kv =
     (let r = rotated cfg now s;
          ttl = remaining_ttl cfg now r;
          kv = put_session now newToken r ttl kv;
          grace = kvTtl (of_int (min (cf_refreshGraceSec cfg) ttl))
      in (created cfg newToken r, put_session now token (s\<lparr>ss_rotatedTo := Some newToken\<rparr>) grace kv))"

record refreshed_session = created_session +
  rf_ended :: "(impersonation_info \<times> bool) option"  \<comment> \<open>the impersonation that was ended, and whether it had expired\<close>

definition as_refreshed :: "created_session \<Rightarrow> refreshed_session" where
  "as_refreshed c = created_session.extend c \<lparr>rf_ended = None\<rparr>"

definition refresh_own :: "auth_config \<Rightarrow> ms \<Rightarrow> string \<Rightarrow> string \<Rightarrow> stored_session \<Rightarrow> auth_kv
    \<Rightarrow> (verify_reason + refreshed_session) \<times> auth_kv" where
  "refresh_own cfg now newToken token s kv =
     (case plan_refresh cfg now s kv of
        Refuse \<Rightarrow> (Inl R_revoked, kv)
      | Drop_idle \<Rightarrow> (Inl R_revoked, delete_session token kv)
      | Successor next t \<Rightarrow> (Inr (as_refreshed (created cfg next t)), kv)
      | Rotate \<Rightarrow> (case rotate_token cfg now newToken token s kv of (c, kv) \<Rightarrow> (Inr (as_refreshed c), kv)))"

function refresh :: "auth_config \<Rightarrow> ms \<Rightarrow> string \<Rightarrow> string \<Rightarrow> auth_kv \<Rightarrow> (verify_reason + refreshed_session) \<times> auth_kv" where
  \<comment> \<open>refreshing an impersonation ends it and refreshes the administrator's own session\<close>
  "refresh cfg now newToken token kv =
     (if token = [] \<or> \<not> looksLikeToken token then (Inl R_malformed, kv)
      else (case read_session now token kv of
              None \<Rightarrow> (Inl R_revoked, kv)
            | Some s \<Rightarrow>
                (case ss_impersonation s of
                   None \<Rightarrow> refresh_own cfg now newToken token s kv
                 | Some im \<Rightarrow>
                     (case refresh cfg now newToken (im_actorToken im) (delete_session token kv) of
                        (Inl e, kv) \<Rightarrow> (Inl e, kv)
                      | (Inr r, kv) \<Rightarrow>
                          (Inr (r\<lparr>rf_ended := Some (the (toImpersonationInfo s), now \<ge> ss_absoluteExpiresAt s)\<rparr>), kv)))))"
  by pat_completeness auto

lemma length_delete: "map_of xs k = Some v \<Longrightarrow> length (AList.delete k xs) < length xs"
  by (induction xs) (auto simp: AList.delete_eq le_imp_less_Suc split: if_splits)

lemma read_Some: "read_session now token kv = Some s \<Longrightarrow> \<exists>e. map_of (kv_sessions kv) token = Some (s, e)"
  by (auto simp: read_session_def split: option.splits if_splits)

termination refresh
  by (relation "measure (\<lambda>(cfg, now, newToken, token, kv). length (kv_sessions kv))")
    (auto simp: delete_session_def intro: length_delete dest!: read_Some)

declare refresh.simps [simp del]

section \<open>Logout, impersonation, revocation\<close>

definition logout :: "ms \<Rightarrow> string \<Rightarrow> auth_kv \<Rightarrow> auth_kv" where
  "logout now token kv =
     (if token = [] \<or> \<not> looksLikeToken token then kv
      else (let stored = read_session now token kv;
                kv = (case stored of
                        Some s \<Rightarrow> (case ss_impersonation s of Some im \<Rightarrow> delete_session (im_actorToken im) kv | None \<Rightarrow> kv)
                      | None \<Rightarrow> kv)
            in delete_session token kv))"

datatype impersonation_error = Actor_session_invalid | Nested

record started_impersonation = created_session +
  st_impersonation :: impersonation_info

definition startImpersonation :: "auth_config \<Rightarrow> ms \<Rightarrow> string \<Rightarrow> string \<Rightarrow> string \<Rightarrow> string \<Rightarrow> string \<Rightarrow> int \<Rightarrow> int \<Rightarrow> auth_kv
    \<Rightarrow> (impersonation_error + started_impersonation) \<times> auth_kv" where
  "startImpersonation cfg now newId token actorToken actorId subjectId ttlSec restoreGraceSec kv =
     (if actorToken = [] \<or> \<not> looksLikeToken actorToken then (Inl Actor_session_invalid, kv)
      else (case read_session now actorToken kv of
              None \<Rightarrow> (Inl Actor_session_invalid, kv)
            | Some a \<Rightarrow>
                if ss_rotatedTo a \<noteq> None \<or> ss_userId a \<noteq> actorId then (Inl Actor_session_invalid, kv)
                else if ss_impersonation a \<noteq> None then (Inl Nested, kv)
                else if \<not> vr_valid (verify cfg now actorToken kv) then (Inl Actor_session_invalid, kv)
                else (let expiresAt = now + ttlSec * 1000;
                          im = \<lparr>im_actorId = actorId, im_actorToken = actorToken, im_startedAt = now\<rparr>;
                          s = \<lparr>ss_sessionId = newId, ss_userId = subjectId, ss_client = Web, ss_issuedAt = now,
                               ss_accessExpiresAt = expiresAt, ss_absoluteExpiresAt = expiresAt,
                               ss_lastSeenAt = Some now, ss_rotatedTo = None, ss_impersonation = Some im\<rparr>
                      in (Inr (created_session.extend
                             \<lparr>cr_token = token, cr_session = toSessionInfo s, cr_absoluteExpiresAt = expiresAt,
                              cr_effectiveExpiresAt = expiresAt\<rparr>
                             \<lparr>st_impersonation = the (toImpersonationInfo s)\<rparr>),
                          put_session now token s (kvTtl (of_int (ttlSec + restoreGraceSec))) kv))))"

definition impersonationOf :: "ms \<Rightarrow> string \<Rightarrow> auth_kv \<Rightarrow> impersonation_info option" where
  "impersonationOf now token kv =
     (if token = [] \<or> \<not> looksLikeToken token then None
      else Option.bind (read_session now token kv) toImpersonationInfo)"

record stopped_impersonation =
  sp_impersonation :: impersonation_info
  sp_expired :: bool
  sp_restored :: "verify_reason + refreshed_session"

definition endImpersonation :: "auth_config \<Rightarrow> ms \<Rightarrow> string \<Rightarrow> string \<Rightarrow> stored_session \<Rightarrow> stored_impersonation \<Rightarrow> auth_kv
    \<Rightarrow> stopped_impersonation \<times> auth_kv" where
  "endImpersonation cfg now newToken token s im kv =
     (case refresh cfg now newToken (im_actorToken im) (delete_session token kv) of
        (restored, kv) \<Rightarrow>
          (\<lparr>sp_impersonation = the (toImpersonationInfo s), sp_expired = (now \<ge> ss_absoluteExpiresAt s),
            sp_restored = restored\<rparr>, kv))"

definition stopImpersonation :: "auth_config \<Rightarrow> ms \<Rightarrow> string \<Rightarrow> string \<Rightarrow> auth_kv \<Rightarrow> stopped_impersonation option \<times> auth_kv" where
  "stopImpersonation cfg now newToken token kv =
     (if token = [] \<or> \<not> looksLikeToken token then (None, kv)
      else (case read_session now token kv of
              None \<Rightarrow> (None, kv)
            | Some s \<Rightarrow>
                (case ss_impersonation s of
                   None \<Rightarrow> (None, kv)
                 | Some im \<Rightarrow> (case endImpersonation cfg now newToken token s im kv of (r, kv) \<Rightarrow> (Some r, kv)))))"

definition revokeUser :: "auth_config \<Rightarrow> ms \<Rightarrow> string \<Rightarrow> auth_kv \<Rightarrow> auth_kv" where
  "revokeUser cfg now u kv =
     kv\<lparr>kv_revoked := AList.update u (now + kvTtl (of_int (cf_absMobileTtlSec cfg)) * 1000) (kv_revoked kv)\<rparr>"

section \<open>What the store holds after a call\<close>

named_theorems kv_simps \<open>reading back what an operation wrote\<close>

lemma sessions_after [kv_simps]:
  "map_of (kv_sessions (put_session now token s ttl kv)) = (map_of (kv_sessions kv))(token \<mapsto> (s, now + ttl * 1000))"
  "map_of (kv_sessions (delete_session token kv)) = (map_of (kv_sessions kv))(token := None)"
  "kv_revoked (put_session now token s ttl kv) = kv_revoked kv"
  "kv_revoked (delete_session token kv) = kv_revoked kv"
  "kv_sessions (revokeUser cfg now u kv) = kv_sessions kv"
  "kv_serves (put_session now token s ttl kv) = kv_serves kv"
  "kv_serves (delete_session token kv) = kv_serves kv"
  "kv_serves (revokeUser cfg now u kv) = kv_serves kv"
  by (simp_all add: put_session_def delete_session_def revokeUser_def update_conv' delete_conv')

lemma kvTtl_bounds: "KV_MIN_TTL \<le> kvTtl x" "x \<le> of_int (kvTtl x)"
proof -
  show "KV_MIN_TTL \<le> kvTtl x" by (simp add: kvTtl_def)
  have "x \<le> of_int \<lceil>x\<rceil>" by (rule le_of_int_ceiling)
  also have "\<dots> \<le> of_int (kvTtl x)" by (simp add: kvTtl_def)
  finally show "x \<le> of_int (kvTtl x)" .
qed

lemma remaining_covers: "effectiveDeadline cfg s \<le> now + remaining_ttl cfg now s * 1000"
proof -
  have "(of_int (effectiveDeadline cfg s - now) / 1000 :: rat) \<le> of_int (remaining_ttl cfg now s)"
    unfolding remaining_ttl_def by (rule kvTtl_bounds)
  then have "(of_int (effectiveDeadline cfg s - now) :: rat) \<le> of_int (remaining_ttl cfg now s * 1000)" by simp
  then show ?thesis unfolding of_int_le_iff by simp
qed

lemma refresh_cases:
  obtains (same) e where "refresh cfg now new token kv = (Inl e, kv)"
  | (own) s where "looksLikeToken token" "read_session now token kv = Some s" "ss_impersonation s = None"
      "refresh cfg now new token kv = refresh_own cfg now new token s kv"
  | (impersonation) s im where "looksLikeToken token" "read_session now token kv = Some s" "ss_impersonation s = Some im"
      "snd (refresh cfg now new token kv) = snd (refresh cfg now new (im_actorToken im) (delete_session token kv))"
proof (cases "token = [] \<or> \<not> looksLikeToken token")
  case True
  with same show thesis by (simp add: refresh.simps)
next
  case False
  show thesis
  proof (cases "read_session now token kv")
    case None
    with False same show thesis by (simp add: refresh.simps)
  next
    case (Some s)
    show thesis
    proof (cases "ss_impersonation s")
      case None
      with False Some own show thesis by (simp add: refresh.simps)
    next
      case (Some im)
      with False \<open>read_session now token kv = Some s\<close> impersonation show thesis
        by (simp add: refresh.simps[of _ _ _ token] split: prod.split sum.split)
    qed
  qed
qed

end
