(* ===== verification/Auth_Runs.thy ===== *)
theory Auth_Runs
  imports Auth_Sessions
begin

text \<open>
  Runs of the session service: whatever is called in whatever order, with tokens that are drawn once.
  Every call is a sequence of moves on the records (a new record, a rotation, a deletion, a revocation),
  and the invariant of the store is proved over the moves.
\<close>

definition IMPERSONATION_MAX_TTL_SEC :: int where
  "IMPERSONATION_MAX_TTL_SEC = 4 * 60 * 60"

definition config_ok :: "auth_config \<Rightarrow> bool" where
  \<comment> \<open>positive times, as \<open>intVar\<close> reads them, and the mobile window the longest of all\<close>
  "config_ok cfg = (0 < cf_accessTtlSec cfg \<and> 0 < cf_absWebTtlSec cfg \<and> cf_absWebTtlSec cfg \<le> cf_absMobileTtlSec cfg
     \<and> IMPERSONATION_MAX_TTL_SEC \<le> cf_absMobileTtlSec cfg \<and> 0 < cf_idleTtlSec cfg \<and> 0 < cf_refreshGraceSec cfg)"

type_synonym auth_state = "ms \<times> auth_kv \<times> string set"  \<comment> \<open>with the texts drawn so far\<close>

definition drawn_new :: "string \<Rightarrow> string set \<Rightarrow> bool" where
  "drawn_new x used = (x \<notin> used \<and> looksLikeToken x)"

lemma drawn_token: "length bs = 32 \<Longrightarrow> (\<And>b. b \<in> set bs \<Longrightarrow> b < 256) \<Longrightarrow> looksLikeToken (newSessionToken bs)"
proof -
  assume len: "length bs = 32" and byte: "\<And>b. b \<in> set bs \<Longrightarrow> b < 256"
  have "list_all b64_alphabet (base64url bs)" by (rule base64url_chars[OF byte])
  moreover have "length (base64url bs) = 43"
  proof -
    have "length xs = 3 * k + 2 \<Longrightarrow> length (base64url xs) = 4 * k + 3" for xs :: bytes and k
    proof (induction xs arbitrary: k rule: base64url.induct)
      case (1 a b c r)
      then show ?case by (cases k) auto
    qed auto
    from this[of bs 10] len show ?thesis by simp
  qed
  ultimately show ?thesis by (simp add: looksLikeToken_def newSessionToken_def)
qed

inductive auth_step :: "auth_config \<Rightarrow> auth_state \<Rightarrow> auth_state \<Rightarrow> bool" for cfg where
  wait: "now \<le> t \<Longrightarrow> auth_step cfg (now, kv, U) (t, kv, U)"
| create: "drawn_new i U \<Longrightarrow> drawn_new token (insert i U) \<Longrightarrow>
    auth_step cfg (now, kv, U) (now, snd (createSession cfg now i token u c kv), insert token (insert i U))"
| refresh: "drawn_new new U \<Longrightarrow> auth_step cfg (now, kv, U) (now, snd (refresh cfg now new token kv), insert new U)"
| logout: "auth_step cfg (now, kv, U) (now, logout now token kv, U)"
| impersonate: "drawn_new i U \<Longrightarrow> drawn_new token (insert i U) \<Longrightarrow> 0 < ttl \<Longrightarrow> ttl \<le> IMPERSONATION_MAX_TTL_SEC \<Longrightarrow>
    auth_step cfg (now, kv, U)
      (now, snd (startImpersonation cfg now i token actorToken actor subject ttl graceSec kv), insert token (insert i U))"
| stop: "drawn_new new U \<Longrightarrow> auth_step cfg (now, kv, U) (now, snd (stopImpersonation cfg now new token kv), insert new U)"
| revoke: "auth_step cfg (now, kv, U) (now, revokeUser cfg now u kv, U)"

abbreviation auth_runs :: "auth_config \<Rightarrow> auth_state \<Rightarrow> auth_state \<Rightarrow> bool" where
  "auth_runs cfg \<equiv> (auth_step cfg)\<^sup>*\<^sup>*"

definition empty_kv :: "(ms \<Rightarrow> ms \<Rightarrow> bool) \<Rightarrow> auth_kv" where
  "empty_kv serves = \<lparr>kv_sessions = [], kv_revoked = [], kv_serves = serves\<rparr>"

section \<open>Moves\<close>

inductive session_move :: "auth_config \<Rightarrow> ms \<Rightarrow> auth_kv \<times> string set \<Rightarrow> auth_kv \<times> string set \<Rightarrow> bool" for cfg now where
  m_drawn: "U \<subseteq> U' \<Longrightarrow> session_move cfg now (kv, U) (kv, U')"
| m_create: "drawn_new i U \<Longrightarrow> drawn_new token (insert i U) \<Longrightarrow>
    session_move cfg now (kv, U) (snd (createSession cfg now i token u c kv), insert token (insert i U))"
| m_start: "drawn_new i U \<Longrightarrow> drawn_new token (insert i U) \<Longrightarrow> 0 < ttl \<Longrightarrow> ttl \<le> IMPERSONATION_MAX_TTL_SEC \<Longrightarrow>
    map_of (kv_sessions kv) actorToken = Some (a, e) \<Longrightarrow> ss_impersonation a = None \<Longrightarrow> ss_userId a = actor \<Longrightarrow>
    session_move cfg now (kv, U)
      (put_session now token \<lparr>ss_sessionId = i, ss_userId = subject, ss_client = Web, ss_issuedAt = now,
           ss_accessExpiresAt = now + ttl * 1000, ss_absoluteExpiresAt = now + ttl * 1000, ss_lastSeenAt = Some now,
           ss_rotatedTo = None,
           ss_impersonation = Some \<lparr>im_actorId = actor, im_actorToken = actorToken, im_startedAt = now\<rparr>\<rparr> life kv,
       insert token (insert i U))"
| m_rotate: "drawn_new new U \<Longrightarrow> read_session now token kv = Some s \<Longrightarrow> ss_impersonation s = None \<Longrightarrow>
    plan_refresh cfg now s kv = Rotate \<Longrightarrow>
    session_move cfg now (kv, U) (snd (rotate_token cfg now new token s kv), insert new U)"
| m_drop: "session_move cfg now (kv, U) (delete_session token kv, U)"
| m_revoke: "session_move cfg now (kv, U) (revokeUser cfg now u kv, U)"

abbreviation moves :: "auth_config \<Rightarrow> ms \<Rightarrow> auth_kv \<times> string set \<Rightarrow> auth_kv \<times> string set \<Rightarrow> bool" where
  "moves cfg now \<equiv> (session_move cfg now)\<^sup>*\<^sup>*"

lemma draw: "moves cfg now (kv, U) (kv, insert x U)"
  by (rule r_into_rtranclp) (rule session_move.m_drawn, auto)

lemma refresh_own_moves:
  assumes "drawn_new new U" "read_session now token kv = Some s" "ss_impersonation s = None"
  shows "moves cfg now (kv, U) (snd (refresh_own cfg now new token s kv), insert new U)"
proof (cases "plan_refresh cfg now s kv")
  case Rotate
  with assms have "session_move cfg now (kv, U) (snd (rotate_token cfg now new token s kv), insert new U)"
    by (intro session_move.m_rotate)
  with Rotate show ?thesis by (auto simp: refresh_own_def case_prod_beta)
next
  case Drop_idle
  have "moves cfg now (kv, U) (delete_session token kv, U)" by (rule r_into_rtranclp) (rule session_move.m_drop)
  from rtranclp_trans[OF this draw] Drop_idle show ?thesis by (simp add: refresh_own_def)
qed (use draw in \<open>auto simp: refresh_own_def\<close>)

lemma refresh_moves:
  "drawn_new new U \<Longrightarrow> moves cfg now (kv, U) (snd (refresh cfg now new token kv), insert new U)"
proof (induction cfg now new token kv rule: refresh.induct)
  case (1 cfg now new token kv)
  show ?case
  proof (cases rule: refresh_cases[of cfg now new token kv])
    case (same e)
    then show ?thesis by (simp add: draw)
  next
    case (own s)
    with refresh_own_moves[OF 1(2)] show ?thesis by simp
  next
    case (impersonation s im)
    have "moves cfg now (kv, U) (delete_session token kv, U)" by (rule r_into_rtranclp) (rule session_move.m_drop)
    also have "moves cfg now (delete_session token kv, U)
        (snd (refresh cfg now new (im_actorToken im) (delete_session token kv)), insert new U)"
      using impersonation by (intro "1.IH"[OF _ _ _ 1(2)]) (auto simp: looksLikeToken_def)
    finally show ?thesis using impersonation by simp
  qed
qed

lemma stop_moves:
  assumes "drawn_new new U"
  shows "moves cfg now (kv, U) (snd (stopImpersonation cfg now new token kv), insert new U)"
proof (cases "\<exists>s im. token \<noteq> [] \<and> looksLikeToken token \<and> read_session now token kv = Some s \<and> ss_impersonation s = Some im")
  case True
  then obtain s im where s: "token \<noteq> []" "looksLikeToken token" "read_session now token kv = Some s" "ss_impersonation s = Some im"
    by blast
  have "moves cfg now (kv, U) (delete_session token kv, U)" by (rule r_into_rtranclp) (rule session_move.m_drop)
  also have "moves cfg now (delete_session token kv, U)
      (snd (refresh cfg now new (im_actorToken im) (delete_session token kv)), insert new U)"
    by (rule refresh_moves[OF assms])
  finally show ?thesis using s by (simp add: stopImpersonation_def endImpersonation_def case_prod_beta)
next
  case False
  then have "snd (stopImpersonation cfg now new token kv) = kv"
    by (auto simp: stopImpersonation_def split: option.split)
  then show ?thesis by (simp add: draw)
qed

lemma logout_moves: "moves cfg now (kv, U) (logout now token kv, U)"
proof -
  note drop = r_into_rtranclp[of "session_move cfg now", OF session_move.m_drop]
  show ?thesis
    by (auto simp: logout_def Let_def intro: drop rtranclp_trans[OF drop drop] split: option.split)
qed

lemma start_moves:
  assumes "drawn_new i U" "drawn_new token (insert i U)" "0 < ttl" "ttl \<le> IMPERSONATION_MAX_TTL_SEC"
  shows "moves cfg now (kv, U) (snd (startImpersonation cfg now i token actorToken actor subject ttl grace kv), insert token (insert i U))"
proof (cases "fst (startImpersonation cfg now i token actorToken actor subject ttl grace kv)")
  case (Inl e)
  then have "snd (startImpersonation cfg now i token actorToken actor subject ttl grace kv) = kv"
    by (auto simp: startImpersonation_def Let_def split: if_splits option.splits)
  moreover have "moves cfg now (kv, U) (kv, insert token (insert i U))"
    by (rule r_into_rtranclp) (rule session_move.m_drawn, auto)
  ultimately show ?thesis by simp
next
  case (Inr r)
  then obtain a where a: "read_session now actorToken kv = Some a" "ss_impersonation a = None" "ss_userId a = actor"
    by (auto simp: startImpersonation_def Let_def split: if_splits option.splits)
  from read_Some[OF a(1)] obtain e where "map_of (kv_sessions kv) actorToken = Some (a, e)" by blast
  from session_move.m_start[where cfg = cfg and now = now, OF assms this a(2,3)] Inr a show ?thesis
    by (intro r_into_rtranclp) (auto simp: startImpersonation_def Let_def split: if_splits)
qed

lemma step_moves:
  "auth_step cfg (now, kv, U) (now', kv', U') \<Longrightarrow> now' = now \<or> kv' = kv \<and> U' = U \<and> now \<le> now'"
  by (cases rule: auth_step.cases) auto

lemma auth_step_moves:
  assumes "auth_step cfg (now, kv, U) (now', kv', U')"
  shows "moves cfg now (kv, U) (kv', U')"
  using assms
  by (cases rule: auth_step.cases)
    (auto intro: refresh_moves logout_moves start_moves stop_moves session_move.m_create session_move.m_revoke)

section \<open>The invariant of the store\<close>

type_synonym session_map = "string \<rightharpoonup> stored_session \<times> ms"

definition record_ok :: "auth_config \<Rightarrow> ms \<Rightarrow> string set \<Rightarrow> string \<Rightarrow> stored_session \<Rightarrow> bool" where
  "record_ok cfg now U token s =
     (token \<in> U \<and> ss_sessionId s \<in> U \<and> ss_issuedAt s \<le> now
      \<and> ss_absoluteExpiresAt s \<le> now + cf_absMobileTtlSec cfg * 1000
      \<and> (ss_client s = Mobile \<longrightarrow> ss_absoluteExpiresAt s = ss_issuedAt s + cf_absMobileTtlSec cfg * 1000)
      \<and> (\<forall>im. ss_impersonation s = Some im \<longrightarrow>
             ss_client s = Web \<and> ss_rotatedTo s = None \<and> im_actorToken im \<in> U \<and> im_startedAt im \<le> now
             \<and> ss_absoluteExpiresAt s \<le> im_startedAt im + IMPERSONATION_MAX_TTL_SEC * 1000)
      \<and> (\<forall>n. ss_rotatedTo s = Some n \<longrightarrow> n \<in> U))"

definition one_live :: "session_map \<Rightarrow> bool" where
  \<comment> \<open>of the records of one session, all but one are superseded\<close>
  "one_live M = (\<forall>t1 t2 s1 s2 e1 e2. M t1 = Some (s1, e1) \<longrightarrow> M t2 = Some (s2, e2) \<longrightarrow> ss_sessionId s1 = ss_sessionId s2
     \<longrightarrow> ss_rotatedTo s1 = None \<longrightarrow> ss_rotatedTo s2 = None \<longrightarrow> t1 = t2)"

definition links_ok :: "session_map \<Rightarrow> bool" where
  \<comment> \<open>an impersonation leads back to a session of its actor, a superseded record to one of the same session\<close>
  "links_ok M = (\<forall>t s e. M t = Some (s, e) \<longrightarrow>
     (\<forall>im a e'. ss_impersonation s = Some im \<longrightarrow> M (im_actorToken im) = Some (a, e') \<longrightarrow>
         ss_userId a = im_actorId im \<and> ss_impersonation a = None)
     \<and> (\<forall>n a e'. ss_rotatedTo s = Some n \<longrightarrow> M n = Some (a, e') \<longrightarrow>
         ss_userId a = ss_userId s \<and> ss_sessionId a = ss_sessionId s \<and> ss_impersonation a = None))"

definition kv_ok :: "auth_config \<Rightarrow> ms \<Rightarrow> string set \<Rightarrow> session_map \<Rightarrow> bool" where
  "kv_ok cfg now U M = ((\<forall>t s e. M t = Some (s, e) \<longrightarrow> record_ok cfg now U t s) \<and> one_live M \<and> links_ok M)"

lemma kv_okD:
  assumes "kv_ok cfg now U M" "M t = Some (s, e)"
  shows "record_ok cfg now U t s"
    "ss_impersonation s = Some im \<Longrightarrow> M (im_actorToken im) = Some (a, e') \<Longrightarrow> ss_userId a = im_actorId im \<and> ss_impersonation a = None"
    "ss_rotatedTo s = Some n \<Longrightarrow> M n = Some (a, e') \<Longrightarrow>
       ss_userId a = ss_userId s \<and> ss_sessionId a = ss_sessionId s \<and> ss_impersonation a = None"
    "ss_rotatedTo s = None \<Longrightarrow> M t2 = Some (a, e') \<Longrightarrow> ss_sessionId a = ss_sessionId s \<Longrightarrow> ss_rotatedTo a = None \<Longrightarrow> t2 = t"
  using assms unfolding kv_ok_def one_live_def links_ok_def by blast+

lemma record_ok_mono: "record_ok cfg now U t s \<Longrightarrow> now \<le> now' \<Longrightarrow> U \<subseteq> U' \<Longrightarrow> record_ok cfg now' U' t s"
  by (auto simp: record_ok_def)

lemma kv_ok_mono: "kv_ok cfg now U M \<Longrightarrow> now \<le> now' \<Longrightarrow> U \<subseteq> U' \<Longrightarrow> kv_ok cfg now' U' M"
  unfolding kv_ok_def by (blast intro: record_ok_mono)

lemma kv_ok_sub:
  assumes ok: "kv_ok cfg now U M" and sub: "\<And>k v. M' k = Some v \<Longrightarrow> M k = Some v"
  shows "kv_ok cfg now U M'"
  unfolding kv_ok_def one_live_def links_ok_def
proof (intro conjI allI impI)
  show "record_ok cfg now U t s" if "M' t = Some (s, e)" for t s e using kv_okD(1)[OF ok sub[OF that]] .
  show "t1 = t2"
    if "M' t1 = Some (s1, e1)" "M' t2 = Some (s2, e2)" "ss_sessionId s1 = ss_sessionId s2" "ss_rotatedTo s1 = None" "ss_rotatedTo s2 = None"
    for t1 t2 s1 s2 e1 e2
    using kv_okD(4)[OF ok sub[OF that(2)] that(5) sub[OF that(1)] that(3,4)] .
  fix t s e
  assume m: "M' t = Some (s, e)"
  show "ss_userId a = im_actorId im" "ss_impersonation a = None"
    if "ss_impersonation s = Some im" "M' (im_actorToken im) = Some (a, e')" for im a e'
    using kv_okD(2)[OF ok sub[OF m] that(1) sub[OF that(2)]] by simp_all
  show "ss_userId a = ss_userId s" "ss_sessionId a = ss_sessionId s" "ss_impersonation a = None"
    if "ss_rotatedTo s = Some n" "M' n = Some (a, e')" for n a e'
    using kv_okD(3)[OF ok sub[OF m] that(1) sub[OF that(2)]] by simp_all
qed

lemma kv_ok_drop: "kv_ok cfg now U M \<Longrightarrow> kv_ok cfg now U (M(t := None))"
  by (erule kv_ok_sub) (auto split: if_splits)

lemma kv_ok_fresh:
  assumes ok: "kv_ok cfg now U M" and t: "t \<notin> U" "U \<subseteq> U'" and rec: "record_ok cfg now U' t s" "ss_rotatedTo s = None" "ss_sessionId s \<notin> U"
    and link: "\<And>im a e'. ss_impersonation s = Some im \<Longrightarrow> im_actorToken im \<noteq> t \<and>
       (M (im_actorToken im) = Some (a, e') \<longrightarrow> ss_userId a = im_actorId im \<and> ss_impersonation a = None)"
  shows "kv_ok cfg now U' (M(t \<mapsto> (s, e)))"
proof -
  have old: "record_ok cfg now U t' s'" if "M t' = Some (s', e')" for t' s' e' using kv_okD(1)[OF ok that] .
  have ne: "t' \<noteq> t" "ss_sessionId s' \<noteq> ss_sessionId s" "ss_rotatedTo s' \<noteq> Some t"
    "ss_impersonation s' = Some im \<Longrightarrow> im_actorToken im \<noteq> t" if "M t' = Some (s', e')" for t' s' e' im
    using old[OF that] t rec(3) by (auto simp: record_ok_def)
  have "one_live (M(t \<mapsto> (s, e)))"
    unfolding one_live_def
  proof (intro allI impI)
    fix t1 t2 s1 s2 e1 e2
    assume "(M(t \<mapsto> (s, e))) t1 = Some (s1, e1)" "(M(t \<mapsto> (s, e))) t2 = Some (s2, e2)"
      "ss_sessionId s1 = ss_sessionId s2" "ss_rotatedTo s1 = None" "ss_rotatedTo s2 = None"
    then show "t1 = t2"
      using ne(2)[of t1 s1 e1] ne(2)[of t2 s2 e2] kv_okD(4)[OF ok, of t2 s2 e2 t1 s1 e1] by (auto split: if_splits)
  qed
  moreover have "links_ok (M(t \<mapsto> (s, e)))"
    unfolding links_ok_def
  proof (intro allI impI conjI)
    fix t' s' e' im a ea
    assume m: "(M(t \<mapsto> (s, e))) t' = Some (s', e')" "ss_impersonation s' = Some im" "(M(t \<mapsto> (s, e))) (im_actorToken im) = Some (a, ea)"
    show "ss_userId a = im_actorId im" "ss_impersonation a = None"
      using m link ne(4)[of t' s' e' im] kv_okD(2)[OF ok, of t' s' e' im a ea] by (auto split: if_splits)
  next
    fix t' s' e' n a ea
    assume m: "(M(t \<mapsto> (s, e))) t' = Some (s', e')" "ss_rotatedTo s' = Some n" "(M(t \<mapsto> (s, e))) n = Some (a, ea)"
    then show "ss_userId a = ss_userId s'" "ss_sessionId a = ss_sessionId s'" "ss_impersonation a = None"
      using rec(2) ne(3)[of t' s' e'] kv_okD(3)[OF ok, of t' s' e' n a ea] by (auto split: if_splits)
  qed
  moreover have "record_ok cfg now U' t' s'" if "(M(t \<mapsto> (s, e))) t' = Some (s', e')" for t' s' e'
    using that rec(1) record_ok_mono[OF old order_refl t(2)] by (auto split: if_splits)
  ultimately show ?thesis unfolding kv_ok_def by blast
qed

lemma kv_ok_rotate:
  assumes ok: "kv_ok cfg now U M" and t: "M t = Some (s, e)" and new: "new \<notin> U"
    and s: "ss_rotatedTo s = None" "ss_impersonation s = None"
    and r: "record_ok cfg now (insert new U) new r" "ss_userId r = ss_userId s" "ss_sessionId r = ss_sessionId s"
      "ss_impersonation r = None" "ss_rotatedTo r = None"
  shows "kv_ok cfg now (insert new U) (M(new \<mapsto> (r, e1), t \<mapsto> (s\<lparr>ss_rotatedTo := Some new\<rparr>, e2)))"
proof -
  let ?M = "M(new \<mapsto> (r, e1), t \<mapsto> (s\<lparr>ss_rotatedTo := Some new\<rparr>, e2))"
  have old: "record_ok cfg now U t' s'" if "M t' = Some (s', e')" for t' s' e' using kv_okD(1)[OF ok that] .
  have tnew: "t \<noteq> new" using old[OF t] new by (auto simp: record_ok_def)
  have ne: "ss_rotatedTo s' \<noteq> Some new" "ss_impersonation s' = Some im \<Longrightarrow> im_actorToken im \<noteq> new"
    if "M t' = Some (s', e')" for t' s' e' im
    using old[OF that] new by (auto simp: record_ok_def)
  have one: "one_live ?M"
    unfolding one_live_def
  proof (intro allI impI)
    fix t1 t2 s1 s2 e1' e2'
    assume m: "?M t1 = Some (s1, e1')" "?M t2 = Some (s2, e2')" "ss_sessionId s1 = ss_sessionId s2"
      "ss_rotatedTo s1 = None" "ss_rotatedTo s2 = None"
    have live: "k = new \<and> v = r \<or> k \<noteq> t \<and> M k = Some (v, x) \<and> ss_sessionId v \<noteq> ss_sessionId s"
      if "?M k = Some (v, x)" "ss_rotatedTo v = None" for k v x
    proof (cases "k = new \<or> k = t")
      case True
      then show ?thesis using that tnew by auto
    next
      case False
      with that(1) have "M k = Some (v, x)" by simp
      with False kv_okD(4)[OF ok t s(1) this _ that(2)] show ?thesis by blast
    qed
    show "t1 = t2"
      using live[OF m(1,4)] live[OF m(2,5)] m(3-5) r(3) kv_okD(4)[OF ok _ m(5), of t2 e2' t1 s1 e1'] by metis
  qed
  have was: "\<exists>v0 x0. M k = Some (v0, x0) \<and> ss_userId v = ss_userId v0 \<and> ss_sessionId v = ss_sessionId v0
      \<and> ss_impersonation v = ss_impersonation v0" if "?M k = Some (v, x)" "k \<noteq> new" for k v x
    using that t by (cases "k = t") auto
  have links: "links_ok ?M"
    unfolding links_ok_def
  proof (intro allI impI conjI)
    fix t' s' e' im a ea
    assume m: "?M t' = Some (s', e')" "ss_impersonation s' = Some im" "?M (im_actorToken im) = Some (a, ea)"
    have t': "M t' = Some (s', e')" using m(1,2) s(2) r(4) by (auto split: if_splits)
    from was[OF m(3) ne(2)[OF t' m(2)]] kv_okD(2)[OF ok t' m(2)]
    show "ss_userId a = im_actorId im" "ss_impersonation a = None" by auto
  next
    fix t' s' e' n a ea
    assume m: "?M t' = Some (s', e')" "ss_rotatedTo s' = Some n" "?M n = Some (a, ea)"
    have "ss_userId a = ss_userId s' \<and> ss_sessionId a = ss_sessionId s' \<and> ss_impersonation a = None"
    proof (cases "t' = t")
      case True
      with m tnew r(2-4) show ?thesis by auto
    next
      case False
      with m(1,2) r(5) have t': "M t' = Some (s', e')" by (auto split: if_splits)
      with m(2) ne(1) have "n \<noteq> new" by auto
      from was[OF m(3) this] kv_okD(3)[OF ok t' m(2)] show ?thesis by auto
    qed
    then show "ss_userId a = ss_userId s'" "ss_sessionId a = ss_sessionId s'" "ss_impersonation a = None" by simp_all
  qed
  have "record_ok cfg now (insert new U) t' s'" if m: "?M t' = Some (s', e')" for t' s' e'
  proof -
    note up = record_ok_mono[OF _ order_refl subset_insertI]
    have "record_ok cfg now (insert new U) t (s\<lparr>ss_rotatedTo := Some new\<rparr>)"
      using up[OF old[OF t], of new] s(2) by (simp add: record_ok_def)
    then show ?thesis using m r(1) up[OF old[of t' s' e']] by (simp split: if_splits)
  qed
  with one links show ?thesis unfolding kv_ok_def by blast
qed

abbreviation kept :: "auth_kv \<Rightarrow> session_map" where
  "kept kv \<equiv> map_of (kv_sessions kv)"

lemma session_move_ok:
  assumes "session_move cfg now (kv, U) (kv', U')" and cfg: "config_ok cfg" and ok: "kv_ok cfg now U (kept kv)"
  shows "kv_ok cfg now U' (kept kv')"
  using assms(1)
proof (cases rule: session_move.cases)
  case m_drawn
  with ok kv_ok_mono show ?thesis by blast
next
  case (m_create i token u c)
  then show ?thesis using cfg
    by (auto simp: createSession_def Let_def kv_simps record_ok_def drawn_new_def config_ok_def absTtlSec_def
        intro!: kv_ok_fresh[OF ok])
next
  case (m_start i token ttl actorToken a e actor subject life)
  have "actorToken \<in> U" using kv_okD(1)[OF ok m_start(7)] by (simp add: record_ok_def)
  with m_start show ?thesis using cfg
    by (auto simp: kv_simps record_ok_def drawn_new_def config_ok_def intro!: kv_ok_fresh[OF ok])
next
  case (m_rotate new token s)
  from read_Some[OF m_rotate(4)] obtain e where s: "kept kv token = Some (s, e)" by blast
  have none: "ss_rotatedTo s = None" using m_rotate(6) by (auto simp: plan_refresh_def split: if_splits option.splits)
  have "record_ok cfg now (insert new U) new (rotated cfg now s)"
    using kv_okD(1)[OF ok s] m_rotate(5) cfg none
    by (auto simp: record_ok_def rotated_def isSliding_def config_ok_def absTtlSec_def)
  from kv_ok_rotate[OF ok s _ none m_rotate(5) this] m_rotate none show ?thesis
    by (simp add: rotate_token_def Let_def kv_simps drawn_new_def rotated_def)
next
  case (m_drop token)
  with ok show ?thesis by (simp add: kv_simps kv_ok_drop)
next
  case (m_revoke u)
  with ok show ?thesis by (simp add: kv_simps)
qed

lemma session_move_serves: "session_move cfg now (kv, U) (kv', U') \<Longrightarrow> kv_serves kv' = kv_serves kv"
  by (cases rule: session_move.cases) (auto simp: kv_simps createSession_def rotate_token_def Let_def)

lemma moves_ok:
  "moves cfg now (kv, U) (kv', U') \<Longrightarrow> config_ok cfg \<Longrightarrow> kv_ok cfg now U (kept kv) \<Longrightarrow> kv_ok cfg now U' (kept kv')"
  by (induction rule: rtranclp_induct2) (auto intro: session_move_ok)

lemma auth_step_time: "auth_step cfg (now, kv, U) (now', kv', U') \<Longrightarrow> now \<le> now'"
  by (cases rule: auth_step.cases) auto

lemma auth_step_ok:
  assumes "auth_step cfg (now, kv, U) (now', kv', U')" "config_ok cfg" "kv_ok cfg now U (kept kv)"
  shows "kv_ok cfg now' U' (kept kv')"
  using kv_ok_mono[OF moves_ok[OF auth_step_moves[OF assms(1)] assms(2,3)] auth_step_time[OF assms(1)] order_refl] .

lemma moves_serves: "moves cfg now (kv, U) (kv', U') \<Longrightarrow> kv_serves kv' = kv_serves kv"
  by (induction rule: rtranclp_induct2) (auto dest: session_move_serves)

lemma auth_runs_serves: "auth_runs cfg (t\<^sub>0, kv\<^sub>0, U\<^sub>0) (now, kv, U) \<Longrightarrow> kv_serves kv = kv_serves kv\<^sub>0"
proof (induction "(now, kv, U)" arbitrary: now kv U rule: rtranclp_induct)
  case (step y)
  then show ?case by (cases y) (auto dest!: auth_step_moves moves_serves)
qed simp

lemma empty_ok: "kv_ok cfg now {} (kept (empty_kv serves))"
  by (simp add: kv_ok_def one_live_def links_ok_def empty_kv_def)

lemma auth_runs_ok:
  assumes "auth_runs cfg (t0, empty_kv serves, {}) (now, kv, U)" "config_ok cfg"
  shows "kv_ok cfg now U (kept kv)"
  using assms(1)
proof (induction "(now, kv, U)" arbitrary: now kv U rule: rtranclp_induct)
  case base
  then show ?case using empty_ok by simp
next
  case (step y)
  obtain now1 kv1 U1 where y: "y = (now1, kv1, U1)" by (cases y)
  from step.hyps(2)[unfolded y] assms(2) step.hyps(3)[OF y] show ?case by (rule auth_step_ok)
qed

section \<open>After a revocation\<close>

definition concerns :: "string \<Rightarrow> stored_session \<Rightarrow> bool" where
  \<comment> \<open>a session of the user, or one they opened as somebody else\<close>
  "concerns u s = (ss_userId s = u \<or> (case ss_impersonation s of Some im \<Rightarrow> im_actorId im = u | None \<Rightarrow> False))"

lemma concerns_iff: "concerns u s \<longleftrightarrow> ss_userId s = u \<or> (\<exists>im. ss_impersonation s = Some im \<and> im_actorId im = u)"
  by (auto simp: concerns_def split: option.split)

definition revoked_until :: "string \<Rightarrow> string set \<Rightarrow> ms \<Rightarrow> auth_kv \<Rightarrow> bool" where
  \<comment> \<open>the flag is set to the end of every session of the user that was there\<close>
  "revoked_until u U\<^sub>0 T kv = ((\<exists>f. map_of (kv_revoked kv) u = Some f \<and> T \<le> f)
     \<and> (\<forall>t s e. kept kv t = Some (s, e) \<longrightarrow> ss_sessionId s \<in> U\<^sub>0 \<longrightarrow> concerns u s \<longrightarrow> ss_absoluteExpiresAt s \<le> T))"

lemma revoked_untilD:
  assumes "revoked_until u U\<^sub>0 T kv"
  shows "platform_kv kv \<Longrightarrow> now < T \<Longrightarrow> isUserRevoked now u kv"
    "kept kv t = Some (s, e) \<Longrightarrow> ss_sessionId s \<in> U\<^sub>0 \<Longrightarrow> concerns u s \<Longrightarrow> ss_absoluteExpiresAt s \<le> T"
  using assms unfolding revoked_until_def by (auto simp: isUserRevoked_def platform_kv_def)

lemma revoked_until_sessions:
  assumes "revoked_until u U\<^sub>0 T kv" "kv_revoked kv' = kv_revoked kv"
    and "\<And>t s e. kept kv' t = Some (s, e) \<Longrightarrow> ss_sessionId s \<in> U\<^sub>0 \<Longrightarrow> concerns u s \<Longrightarrow> ss_absoluteExpiresAt s \<le> T"
  shows "revoked_until u U\<^sub>0 T kv'"
  using assms unfolding revoked_until_def by auto

lemma revoked_until_put:
  assumes "revoked_until u U\<^sub>0 T kv" "ss_sessionId s \<notin> U\<^sub>0"
  shows "revoked_until u U\<^sub>0 T (put_session now token s life kv)"
proof (rule revoked_until_sessions[OF assms(1)])
  fix t r x
  assume "kept (put_session now token s life kv) t = Some (r, x)" "ss_sessionId r \<in> U\<^sub>0" "concerns u r"
  with assms(2) show "ss_absoluteExpiresAt r \<le> T" by (auto simp: kv_simps intro: revoked_untilD(2)[OF assms(1)] split: if_splits)
qed (simp add: kv_simps)

lemma effectiveDeadline_le: "effectiveDeadline cfg s \<le> ss_absoluteExpiresAt s"
  by (simp add: effectiveDeadline_def Let_def)

lemma move_keeps_revocation:
  assumes "session_move cfg now (kv, U) (kv', U')" and sub: "U\<^sub>0 \<subseteq> U" and T: "T \<le> now + cf_absMobileTtlSec cfg * 1000"
    and kv: "platform_kv kv" and rv: "revoked_until u U\<^sub>0 T kv"
  shows "revoked_until u U\<^sub>0 T kv'"
  using assms(1)
proof (cases rule: session_move.cases)
  case m_drawn
  with rv show ?thesis by simp
next
  case (m_create i token u' c)
  then have "i \<notin> U\<^sub>0" using sub by (auto simp: drawn_new_def)
  then show ?thesis unfolding m_create by (simp add: createSession_def Let_def revoked_until_put[OF rv])
next
  case (m_start i token ttl actorToken a e actor subject life)
  then have "i \<notin> U\<^sub>0" using sub by (auto simp: drawn_new_def)
  then show ?thesis unfolding m_start by (simp add: revoked_until_put[OF rv])
next
  case (m_rotate new token s)
  from read_Some[OF m_rotate(4)] obtain e where s: "kept kv token = Some (s, e)" by blast
  have now: "\<not> isUserRevoked now (ss_userId s) kv" "now < ss_absoluteExpiresAt s"
    using m_rotate(6) by (auto simp: plan_refresh_def split: if_splits option.splits)
  have other: "ss_sessionId s \<notin> U\<^sub>0 \<or> \<not> concerns u s"
    using revoked_untilD(2)[OF rv s] revoked_untilD(1)[OF rv kv, of now] now m_rotate(5) by (auto simp: concerns_iff)
  have same: "concerns u (rotated cfg now s) = concerns u s" "ss_sessionId (rotated cfg now s) = ss_sessionId s"
    "concerns u (s\<lparr>ss_rotatedTo := Some new\<rparr>) = concerns u s"
    by (simp_all add: concerns_def rotated_def)
  show ?thesis
  proof (rule revoked_until_sessions[OF rv])
    show "kv_revoked kv' = kv_revoked kv" using m_rotate by (simp add: rotate_token_def Let_def kv_simps)
    fix t r x
    assume "kept kv' t = Some (r, x)" "ss_sessionId r \<in> U\<^sub>0" "concerns u r"
    with m_rotate(1) other same show "ss_absoluteExpiresAt r \<le> T"
      by (auto simp: rotate_token_def Let_def kv_simps dest: revoked_untilD(2)[OF rv] split: if_splits)
  qed
next
  case (m_drop token)
  show ?thesis unfolding m_drop
    by (rule revoked_until_sessions[OF rv]) (auto simp: kv_simps dest: revoked_untilD(2)[OF rv] split: if_splits)
next
  case (m_revoke u')
  have "of_int (cf_absMobileTtlSec cfg) \<le> (of_int (kvTtl (of_int (cf_absMobileTtlSec cfg))) :: rat)" by (rule kvTtl_bounds)
  then have "cf_absMobileTtlSec cfg \<le> kvTtl (of_int (cf_absMobileTtlSec cfg))" by simp
  with T have "T \<le> now + kvTtl (of_int (cf_absMobileTtlSec cfg)) * 1000" by linarith
  with m_revoke rv show ?thesis
    by (auto simp: revoked_until_def revokeUser_def update_conv')
qed

end
