(* ===== verification/Auth_Guarantees.thy ===== *)
theory Auth_Guarantees
  imports Auth_Runs
begin

text \<open>
  What the session service guarantees: one live token per session, the end of a session on time, rotation
  that converges, impersonations that lead back to their actor, revocation that is final for the sessions it
  meets, and what it does to those that come after.
\<close>

section \<open>Reading and verifying\<close>

lemma verify_valid:
  assumes "vr_valid (verify cfg now token kv)"
  obtains s where "read_session now token kv = Some s" "ss_rotatedTo s = None" "\<not> isUserRevoked now (ss_userId s) kv"
    "\<And>im. ss_impersonation s = Some im \<Longrightarrow> \<not> isUserRevoked now (im_actorId im) kv"
    "now < effectiveDeadline cfg s" "now < ss_accessExpiresAt s" "vr_userId (verify cfg now token kv) = Some (ss_userId s)"
  using assms by (auto simp: verify_def invalid_session_def split: if_splits option.splits)

lemma verify_invalid: "looksLikeToken token \<Longrightarrow> read_session now token kv = None \<Longrightarrow> verify cfg now token kv = invalid_session R_revoked"
  by (auto simp: verify_def looksLikeToken_def)

lemma verify_flagged:
  "looksLikeToken token \<Longrightarrow> isUserRevoked now u kv \<Longrightarrow> (\<And>s. read_session now token kv = Some s \<Longrightarrow> ss_userId s = u)
     \<Longrightarrow> verify cfg now token kv = invalid_session R_revoked"
  by (auto simp: verify_def looksLikeToken_def split: option.split)

lemma read_put:
  "read_session now token' (put_session t token s life kv)
     = (if token' = token then (if kv_serves kv now (t + life * 1000) then Some s else None) else read_session now token' kv)"
  by (simp add: read_session_def kv_simps split: option.split)

lemma read_delete:
  "read_session now token' (delete_session token kv) = (if token' = token then None else read_session now token' kv)"
  by (simp add: read_session_def kv_simps split: option.split)

lemma revoked_sessions:
  "isUserRevoked now u (put_session t token s life kv) = isUserRevoked now u kv"
  "isUserRevoked now u (delete_session token kv) = isUserRevoked now u kv"
  by (simp_all add: isUserRevoked_def kv_simps split: option.split)

lemmas reads = read_put read_delete revoked_sessions

lemma read_kept: "read_session now token kv = Some s \<Longrightarrow> \<exists>e. kept kv token = Some (s, e)"
  using read_Some by blast

section \<open>A day of one administrator\<close>

definition demo_token :: "char \<Rightarrow> string" where
  "demo_token c = replicate 43 c"

definition eager :: "ms \<Rightarrow> ms \<Rightarrow> bool" where
  "eager now expires = (now < expires)"

lemma eager_platform [simp]: "kv_serves kv = eager \<Longrightarrow> platform_kv kv"
  by (simp add: platform_kv_def eager_def)

definition demo_login :: auth_kv where
  "demo_login = snd (createSession DEFAULTS 0 (demo_token CHR ''i'') (demo_token CHR ''a'') ''u'' Web (empty_kv eager))"

definition demo_refreshed :: auth_kv where
  "demo_refreshed = snd (refresh DEFAULTS 1000 (demo_token CHR ''b'') (demo_token CHR ''a'') demo_login)"

definition demo_acting :: auth_kv where
  "demo_acting = snd (startImpersonation DEFAULTS 0 (demo_token CHR ''j'') (demo_token CHR ''m'') (demo_token CHR ''a'') ''u'' ''v''
     3600 43200 demo_login)"

abbreviation demo_used :: "char list \<Rightarrow> string set" where
  "demo_used cs \<equiv> set (map demo_token cs)"

lemma demo_config: "config_ok DEFAULTS" by code_simp

lemma demo_a: "looksLikeToken (demo_token CHR ''a'')" by code_simp

lemma demo_login_run: "auth_runs DEFAULTS (0, empty_kv eager, {}) (0, demo_login, demo_used ''ai'')"
proof -
  have "auth_step DEFAULTS (0, empty_kv eager, {}) (0, demo_login, insert (demo_token CHR ''a'') (insert (demo_token CHR ''i'') {}))"
    unfolding demo_login_def by (rule auth_step.create) code_simp+
  then show ?thesis by (simp add: r_into_rtranclp)
qed

lemma demo_refresh_run: "auth_runs DEFAULTS (0, empty_kv eager, {}) (1000, demo_refreshed, demo_used ''bai'')"
proof -
  have "auth_step DEFAULTS (0, demo_login, demo_used ''ai'') (1000, demo_login, demo_used ''ai'')" by (rule auth_step.wait) simp
  with demo_login_run have "auth_runs DEFAULTS (0, empty_kv eager, {}) (1000, demo_login, demo_used ''ai'')" by (rule rtranclp.rtrancl_into_rtrancl)
  moreover have "auth_step DEFAULTS (1000, demo_login, demo_used ''ai'') (1000, demo_refreshed, insert (demo_token CHR ''b'') (demo_used ''ai''))"
    unfolding demo_refreshed_def by (rule auth_step.refresh) code_simp
  ultimately show ?thesis by (simp add: rtranclp.rtrancl_into_rtrancl)
qed

lemma demo_platform: "platform_kv demo_login" "platform_kv demo_refreshed"
  using auth_runs_serves[OF demo_login_run] auth_runs_serves[OF demo_refresh_run]
  by (simp_all add: empty_kv_def)

lemma demo_acting_run: "auth_runs DEFAULTS (0, empty_kv eager, {}) (60000, demo_acting, demo_used ''mjai'')"
proof -
  have "auth_step DEFAULTS (0, demo_login, demo_used ''ai'')
      (0, demo_acting, insert (demo_token CHR ''m'') (insert (demo_token CHR ''j'') (demo_used ''ai'')))"
    unfolding demo_acting_def by (rule auth_step.impersonate) code_simp+
  with demo_login_run have "auth_runs DEFAULTS (0, empty_kv eager, {}) (0, demo_acting, demo_used ''mjai'')"
    by (simp add: rtranclp.rtrancl_into_rtrancl)
  moreover have "auth_step DEFAULTS (0, demo_acting, demo_used ''mjai'') (60000, demo_acting, demo_used ''mjai'')"
    by (rule auth_step.wait) simp
  ultimately show ?thesis by (rule rtranclp.rtrancl_into_rtrancl)
qed

section \<open>Every session in its time\<close>



text \<open>
  Some deadlines nothing moves: however often a mobile session is refreshed, its tokens verify only until
  the absolute window after the login is over, and an impersonation ends at most four hours after its start.
\<close>
theorem sessions_end_on_time:
  assumes "config_ok cfg" "auth_runs cfg (t\<^sub>0, empty_kv serves, {}) (now, kv, U)"
    and "vr_valid (verify cfg now token kv)" "read_session now token kv = Some s"
  shows "(if ss_client s = Mobile then now < ss_issuedAt s + cf_absMobileTtlSec cfg * 1000 else True)
    \<and> (case ss_impersonation s of None \<Rightarrow> True | Some im \<Rightarrow> now < im_startedAt im + 4 * 60 * 60 * 1000)"
proof -
  from read_kept[OF assms(4)] obtain e where "kept kv token = Some (s, e)" ..
  then have "record_ok cfg now U token s" by (rule kv_okD(1)[OF auth_runs_ok[OF assms(2,1)]])
  moreover have "now < ss_absoluteExpiresAt s"
    using assms(3,4) effectiveDeadline_le[of cfg s] by (auto elim!: verify_valid)
  ultimately show ?thesis
    by (auto simp: record_ok_def IMPERSONATION_MAX_TTL_SEC_def split: option.split)
qed

theorem sessions_end_on_time_witness:
  "(60000 :: ms) < 0 + 4 * 60 * 60 * 1000 \<and> vr_valid (verify DEFAULTS 60000 (demo_token CHR ''m'') demo_acting)"
proof -
  have valid: "vr_valid (verify DEFAULTS 60000 (demo_token CHR ''m'') demo_acting)" by code_simp
  let ?s = "the (read_session 60000 (demo_token CHR ''m'') demo_acting)"
  have "read_session 60000 (demo_token CHR ''m'') demo_acting = Some ?s"
    "ss_impersonation ?s = Some \<lparr>im_actorId = ''u'', im_actorToken = demo_token CHR ''a'', im_startedAt = 0\<rparr>" by code_simp+
  with sessions_end_on_time[OF demo_config demo_acting_run valid this(1)] valid show ?thesis by simp
qed

section \<open>Rotation\<close>

lemma plan_RotateD:
  assumes "plan_refresh cfg now s kv = Rotate"
  shows "\<not> isUserRevoked now (ss_userId s) kv" "ss_rotatedTo s = None" "now < ss_absoluteExpiresAt s"
  using assms by (auto simp: plan_refresh_def split: if_splits option.splits)

lemma refresh_rotates:
  assumes "looksLikeToken token" "read_session now token kv = Some s" "ss_impersonation s = None" "plan_refresh cfg now s kv = Rotate"
  shows "refresh cfg now new token kv
    = (Inr (as_refreshed (created cfg new (rotated cfg now s))), snd (rotate_token cfg now new token s kv))"
  using assms by (auto simp: refresh.simps refresh_own_def rotate_token_def Let_def looksLikeToken_def)

lemma rotated_lives:
  assumes "plan_refresh cfg now s kv = Rotate" "config_ok cfg"
  shows "now < effectiveDeadline cfg (rotated cfg now s)" "now < ss_accessExpiresAt (rotated cfg now s)"
  using plan_RotateD(3)[OF assms(1)] assms(2)
  by (auto simp: effectiveDeadline_def Let_def rotated_def idle_ttl_def isSliding_def absTtlSec_def config_ok_def lastSeenOf_def)

lemma rotated_fields [simp]:
  "ss_userId (rotated cfg now s) = ss_userId s" "ss_sessionId (rotated cfg now s) = ss_sessionId s"
  "ss_client (rotated cfg now s) = ss_client s" "ss_rotatedTo (rotated cfg now s) = ss_rotatedTo s"
  "ss_impersonation (rotated cfg now s) = ss_impersonation s"
  by (simp_all add: rotated_def)



lemma verify_live:
  assumes "looksLikeToken token" "read_session now token kv = Some s" "ss_rotatedTo s = None" "ss_impersonation s = None"
    and "\<not> isUserRevoked now (ss_userId s) kv" "now < effectiveDeadline cfg s" "now < ss_accessExpiresAt s"
  shows "vr_valid (verify cfg now token kv)"
  using assms by (auto simp: verify_def looksLikeToken_def)

text \<open>
  C39. Two refreshes that overlap, so that both have read the record before either writes, both rotate it:
  the session then has two tokens that verify, and the successor the first caller was given is not the one
  the old token leads to. The convergence of the comment on \<open>refresh\<close> holds only for calls that follow
  one another.
\<close>
theorem concurrent_refreshes_split:
  assumes "config_ok cfg" "read_session now token kv = Some s" "ss_impersonation s = None"
    and "plan_refresh cfg now s kv = Rotate"
    and "looksLikeToken new1" "looksLikeToken new2" "distinct [token, new1, new2]" "platform_kv kv"
  shows "\<exists>r1 r2 s1 s2. let (c1, kv1) = rotate_token cfg now new1 token s kv; (c2, kv2) = rotate_token cfg now new2 token s kv1 in
    cr_token c1 = new1 \<and> cr_token c2 = new2
    \<and> vr_valid (verify cfg now new1 kv2) \<and> vr_valid (verify cfg now new2 kv2)
    \<and> read_session now new1 kv2 = Some s1 \<and> read_session now new2 kv2 = Some s2 \<and> ss_sessionId s1 = ss_sessionId s2"
proof -
  let ?r = "rotated cfg now s"
  let ?kv = "snd (rotate_token cfg now new2 token s (snd (rotate_token cfg now new1 token s kv)))"
  have "now < now + remaining_ttl cfg now ?r * 1000"
    using rotated_lives(1)[OF assms(4,1)] remaining_covers[of cfg ?r now] by linarith
  then have read: "read_session now new1 ?kv = Some ?r" "read_session now new2 ?kv = Some ?r"
    using assms(7,8) by (auto simp: rotate_token_def Let_def reads kv_simps platform_kv_def)
  have "\<not> isUserRevoked now (ss_userId ?r) ?kv"
    using plan_RotateD(1)[OF assms(4)] by (simp add: rotate_token_def Let_def reads)
  with verify_live[OF assms(5) read(1)] verify_live[OF assms(6) read(2)] plan_RotateD(2)[OF assms(4)] assms(3)
    rotated_lives[OF assms(4,1)]
  have "vr_valid (verify cfg now new1 ?kv)" "vr_valid (verify cfg now new2 ?kv)" by simp_all
  with read show ?thesis by (auto simp: case_prod_beta rotate_token_def[of _ _ new1] rotate_token_def[of _ _ new2] created_def Let_def)
qed

theorem concurrent_refreshes_split_witness:
  "let kv = snd (rotate_token DEFAULTS 1000 (demo_token CHR ''c'') (demo_token CHR ''a'') (the (read_session 1000 (demo_token CHR ''a'') demo_login))
       demo_refreshed) in
     vr_valid (verify DEFAULTS 1000 (demo_token CHR ''b'') kv) \<and> vr_valid (verify DEFAULTS 1000 (demo_token CHR ''c'') kv)"
proof -
  let ?s = "the (read_session 1000 (demo_token CHR ''a'') demo_login)"
  have "read_session 1000 (demo_token CHR ''a'') demo_login = Some ?s" "ss_impersonation ?s = None"
    "plan_refresh DEFAULTS 1000 ?s demo_login = Rotate" "looksLikeToken (demo_token CHR ''b'')" "looksLikeToken (demo_token CHR ''c'')"
    "distinct [demo_token CHR ''a'', demo_token CHR ''b'', demo_token CHR ''c'']"
    by code_simp+
  moreover from this(1-3) have "snd (rotate_token DEFAULTS 1000 (demo_token CHR ''b'') (demo_token CHR ''a'') ?s demo_login) = demo_refreshed"
    using demo_a by (simp add: demo_refreshed_def refresh_rotates)
  ultimately show ?thesis using concurrent_refreshes_split[OF demo_config] demo_platform(1) by (fastforce simp: case_prod_beta Let_def)
qed

section \<open>Impersonation\<close>

lemma refresh_own_result:
  assumes "refresh_own cfg now new token s kv = (Inr r, kv')" "ss_impersonation s = None"
    and ok: "links_ok (kept kv)" "read_session now token kv = Some s" and new: "token \<noteq> new"
  shows "si_userId (cr_session r) = ss_userId s" "impersonationOf now (cr_token r) kv' = None"
    "t \<noteq> token \<Longrightarrow> t \<noteq> new \<Longrightarrow> kept kv' t = kept kv t"
proof -
  consider (successor) n a where "ss_rotatedTo s = Some n" "read_session now n kv = Some a" "kv' = kv"
      "r = as_refreshed (created cfg n a)"
    | (rotate) "r = as_refreshed (created cfg new (rotated cfg now s))" "kv' = snd (rotate_token cfg now new token s kv)"
  proof (cases "plan_refresh cfg now s kv")
    case (Successor n a)
    with assms(1) have "ss_rotatedTo s = Some n" "read_session now n kv = Some a"
      by (auto simp: plan_refresh_def split: if_splits option.splits)
    with Successor assms(1) show thesis by (intro successor) (auto simp: refresh_own_def)
  next
    case Rotate
    with assms(1) show thesis by (intro rotate) (simp_all add: refresh_own_def rotate_token_def Let_def)
  qed (use assms(1) in \<open>simp_all add: refresh_own_def\<close>)
  note how = this
  have fields: "si_userId (cr_session (as_refreshed (created cfg n a))) = ss_userId a" "cr_token (as_refreshed (created cfg n a)) = n" for n a
    by (simp_all add: as_refreshed_def created_session.extend_def created_def toSessionInfo_def)
  have "si_userId (cr_session r) = ss_userId s \<and> impersonationOf now (cr_token r) kv' = None
      \<and> (t \<noteq> token \<longrightarrow> t \<noteq> new \<longrightarrow> kept kv' t = kept kv t)"
  proof (cases rule: how)
    case (successor n a)
    with read_kept[OF ok(2)] read_kept[OF successor(2)] ok(1)
    have "ss_userId a = ss_userId s \<and> ss_impersonation a = None" unfolding links_ok_def by blast
    with successor show ?thesis by (simp add: fields impersonationOf_def toImpersonationInfo_def)
  next
    case rotate
    with new assms(2) show ?thesis
      by (simp add: fields impersonationOf_def toImpersonationInfo_def rotate_token_def Let_def reads kv_simps)
  qed
  then show "si_userId (cr_session r) = ss_userId s" "impersonationOf now (cr_token r) kv' = None"
    "t \<noteq> token \<Longrightarrow> t \<noteq> new \<Longrightarrow> kept kv' t = kept kv t" by auto
qed

text \<open>
  C37. A refresh never extends an impersonation: it ends it. If it hands out a session, that is one of the
  administrator who started the impersonation and not again an impersonation, and the token of the
  impersonation no longer verifies.
\<close>
theorem impersonation_leads_back:
  assumes "config_ok cfg" "auth_runs cfg (t\<^sub>0, empty_kv serves, {}) (now, kv, U)" "drawn_new new U"
    and "read_session now token kv = Some s" "ss_impersonation s = Some im" "looksLikeToken token"
    and "refresh cfg now new token kv = (Inr r, kv')"
  shows "si_userId (cr_session r) = im_actorId im \<and> impersonationOf now (cr_token r) kv' = None
    \<and> verify cfg now token kv' = invalid_session R_revoked
    \<and> rf_ended r = Some (the (toImpersonationInfo s), now \<ge> ss_absoluteExpiresAt s)"
proof -
  note ok = auth_runs_ok[OF assms(2,1)]
  let ?kv = "delete_session token kv"
  have ok': "kv_ok cfg now U (kept ?kv)" using kv_ok_drop[OF ok] by (simp add: kv_simps)
  from read_kept[OF assms(4)] obtain e where tok: "kept kv token = Some (s, e)" ..
  have token: "token \<in> U" using kv_okD(1)[OF ok tok] by (simp add: record_ok_def)
  have ne: "token \<noteq> []" using assms(6) by (auto simp: looksLikeToken_def)
  obtain r0 where r0: "refresh cfg now new (im_actorToken im) ?kv = (Inr r0, kv')"
      and r: "r = r0\<lparr>rf_ended := Some (the (toImpersonationInfo s), now \<ge> ss_absoluteExpiresAt s)\<rparr>"
    using assms(4-7) ne by (auto simp: refresh.simps[of _ _ _ token] split: prod.splits sum.splits)
  from r0 obtain a where a: "read_session now (im_actorToken im) ?kv = Some a"
    by (auto simp: refresh.simps[of _ _ _ "im_actorToken im"] split: if_splits option.splits)
  then have other: "im_actorToken im \<noteq> token" and "read_session now (im_actorToken im) kv = Some a"
    by (auto simp: reads split: if_splits)
  from read_kept[OF this(2)] kv_okD(2)[OF ok tok assms(5)] have actor: "ss_userId a = im_actorId im" "ss_impersonation a = None"
    by auto
  have own: "refresh_own cfg now new (im_actorToken im) a ?kv = (Inr r0, kv')"
    using r0 a actor(2) by (auto simp: refresh.simps[of _ _ _ "im_actorToken im"] split: if_splits)
  have "im_actorToken im \<in> U" using kv_okD(1)[OF ok tok] assms(5) by (simp add: record_ok_def)
  then have new: "im_actorToken im \<noteq> new" "token \<noteq> new" using assms(3) token by (auto simp: drawn_new_def)
  have links: "links_ok (kept ?kv)" using ok' by (simp add: kv_ok_def)
  note res = refresh_own_result[OF own actor(2) links a new(1)]
  have "kept kv' token = None" using res(3)[of token] new other by (simp add: kv_simps)
  then have "verify cfg now token kv' = invalid_session R_revoked"
    using assms(6) by (intro verify_invalid) (simp_all add: read_session_def)
  with res(1,2) actor r show ?thesis by simp
qed

theorem impersonation_leads_back_witness:
  "\<exists>r kv. refresh DEFAULTS 60000 (demo_token CHR ''b'') (demo_token CHR ''m'') demo_acting = (Inr r, kv)
     \<and> si_userId (cr_session r) = ''u'' \<and> verify DEFAULTS 60000 (demo_token CHR ''m'') kv = invalid_session R_revoked"
proof -
  let ?s = "the (read_session 60000 (demo_token CHR ''m'') demo_acting)"
  let ?f = "refresh DEFAULTS 60000 (demo_token CHR ''b'') (demo_token CHR ''m'') demo_acting"
  have "drawn_new (demo_token CHR ''b'') (demo_used ''mjai'')" "read_session 60000 (demo_token CHR ''m'') demo_acting = Some ?s"
    "ss_impersonation ?s = Some \<lparr>im_actorId = ''u'', im_actorToken = demo_token CHR ''a'', im_startedAt = 0\<rparr>"
    "looksLikeToken (demo_token CHR ''m'')" by code_simp+
  note hyps = this
  have "\<not> isl (fst ?f)" by code_simp
  then obtain r where "fst ?f = Inr r" by (cases "fst ?f") auto
  then have f: "?f = (Inr r, snd ?f)" by (simp add: prod_eq_iff)
  from impersonation_leads_back[OF demo_config demo_acting_run hyps f] f show ?thesis by auto
qed

section \<open>Revocation\<close>

lemma auth_runs_revocation:
  assumes "auth_runs cfg (t\<^sub>0, kv\<^sub>0, U\<^sub>0) (now, kv, U)" "revoked_until u W (t\<^sub>0 + cf_absMobileTtlSec cfg * 1000) kv\<^sub>0" "W \<subseteq> U\<^sub>0"
    "platform_kv kv\<^sub>0"
  shows "t\<^sub>0 \<le> now \<and> platform_kv kv \<and> W \<subseteq> U \<and> revoked_until u W (t\<^sub>0 + cf_absMobileTtlSec cfg * 1000) kv"
  using assms(1)
proof (induction "(now, kv, U)" arbitrary: now kv U rule: rtranclp_induct)
  case base
  then show ?case using assms(2-4) by simp
next
  case (step y)
  obtain now1 kv1 U1 where y: "y = (now1, kv1, U1)" by (cases y)
  note IH = step.hyps(3)[OF y]
  have "moves cfg now1 (kv1, U1) (kv, U)" using step.hyps(2)[unfolded y] by (rule auth_step_moves)
  then have "platform_kv kv \<and> W \<subseteq> U \<and> revoked_until u W (t\<^sub>0 + cf_absMobileTtlSec cfg * 1000) kv"
  proof (induction rule: rtranclp_induct2)
    case refl
    then show ?case using IH by simp
  next
    case (step kv2 U2 kv3 U3)
    have "U2 \<subseteq> U3" using step.hyps(2) by (cases rule: session_move.cases) auto
    moreover have "platform_kv kv3 = platform_kv kv2"
      using session_move_serves[OF step.hyps(2)] by (simp add: platform_kv_def)
    ultimately show ?case using step IH by (auto intro: move_keeps_revocation)
  qed
  with IH auth_step_time[OF step.hyps(2)[unfolded y]] show ?case by auto
qed

lemma revoke_flag: "T \<le> t + cf_absMobileTtlSec cfg * 1000 \<Longrightarrow>
    \<exists>f. map_of (kv_revoked (revokeUser cfg t u kv)) u = Some f \<and> T \<le> f"
proof -
  assume T: "T \<le> t + cf_absMobileTtlSec cfg * 1000"
  have "of_int (cf_absMobileTtlSec cfg) \<le> (of_int (kvTtl (of_int (cf_absMobileTtlSec cfg))) :: rat)" by (rule kvTtl_bounds)
  with T show ?thesis by (simp add: revokeUser_def update_conv')
qed




text \<open>
  C40. The flag does not tell the sessions it was set for from later ones, and nothing clears it: a user who
  was revoked and then let back in signs in with success, but the new session does not verify until the
  longest absolute window after the revocation is over.
\<close>
theorem reinstated_user_is_locked_out:
  assumes "auth_runs cfg (t, revokeUser cfg t u kv, U) (now, kv', U')" "now < t + cf_absMobileTtlSec cfg * 1000"
    and "createSession cfg now newId token u client kv' = (c, kv'')"
    and "looksLikeToken token" "platform_kv kv"
  shows "verify cfg now (cr_token c) kv'' = invalid_session R_revoked"
proof -
  have "revoked_until u {} (t + cf_absMobileTtlSec cfg * 1000) (revokeUser cfg t u kv)"
    using revoke_flag[OF order_refl] unfolding revoked_until_def by blast
  moreover have "platform_kv (revokeUser cfg t u kv)" using assms(5) by (simp add: platform_kv_def kv_simps)
  ultimately have "revoked_until u {} (t + cf_absMobileTtlSec cfg * 1000) kv'" "platform_kv kv'"
    using auth_runs_revocation[OF assms(1)] by simp_all
  then have "isUserRevoked now u kv'" using assms(2) by (rule revoked_untilD(1))
  with assms(3) have "isUserRevoked now u kv''" by (auto simp: createSession_def Let_def reads)
  moreover have "\<And>s. read_session now token kv'' = Some s \<Longrightarrow> ss_userId s = u"
    using assms(3) by (auto simp: createSession_def Let_def reads split: if_splits)
  moreover have "cr_token c = token" using assms(3) by (auto simp: createSession_def Let_def created_def)
  ultimately show ?thesis using verify_flagged[OF assms(4)] by blast
qed

theorem reinstated_user_is_locked_out_witness:
  "verify DEFAULTS 86400000 (demo_token CHR ''d'')
     (snd (createSession DEFAULTS 86400000 (demo_token CHR ''k'') (demo_token CHR ''d'') ''u'' Web (revokeUser DEFAULTS 1000 ''u'' demo_refreshed)))
   = invalid_session R_revoked"
proof -
  let ?kv = "revokeUser DEFAULTS 1000 ''u'' demo_refreshed"
  let ?c = "createSession DEFAULTS 86400000 (demo_token CHR ''k'') (demo_token CHR ''d'') ''u'' Web ?kv"
  have "auth_runs DEFAULTS (1000, ?kv, {}) (86400000, ?kv, {})" by (intro r_into_rtranclp auth_step.wait) simp
  moreover have "(86400000 :: ms) < 1000 + cf_absMobileTtlSec DEFAULTS * 1000" by code_simp
  moreover have "?c = (fst ?c, snd ?c)" by simp
  moreover have "looksLikeToken (demo_token CHR ''d'')" by code_simp
  ultimately have "verify DEFAULTS 86400000 (cr_token (fst ?c)) (snd ?c) = invalid_session R_revoked"
    by (rule reinstated_user_is_locked_out[OF _ _ _ _ demo_platform(2)])
  moreover have "cr_token (fst ?c) = demo_token CHR ''d''" by code_simp
  ultimately show ?thesis by simp
qed

end
