(* ===== verification/Spec2Isabelle.thy ===== *)
theory Spec2Isabelle
  imports Gantt_Schedule Freeq_Outbox Ticket_Sale Ticket_Export Ticket_Codes Ticket_D1_Runs Identity_Runs Freeq_Liveness Ticket_Alarm Auth_Guarantees
begin

text \<open>
  A verification library for the dub ecosystem, the workers and shared packages that run a conference:
  its ticket shop, its roster with roles and permissions, its schedule, and the plumbing between them.

  \<^bold>\<open>The program and the theories.\<close> Each theory translates the files it names, operation by operation.

  \<^item> \<open>Dub_Prelude\<close>, \<open>Js_Date\<close>, \<open>Js_Bytes\<close>: what the sources use of their language, namely untyped values,
    strings and arrays, \<open>Date\<close> in UTC with its ISO strings, bytes, hexadecimal and base64url. Times in a row
    are ISO strings compared as strings; \<open>iso_string_mono\<close> says that this compares instants.
  \<^item> \<open>Dub_Errors\<close> (\<open>packages/errors\<close>): the error every service throws, its wire form, and its
    reconstruction by the caller. A method that may throw returns a sum whose left side is the error.
  \<^item> \<open>Gantt_Calendar\<close>, \<open>Gantt_Graph\<close>, \<open>Gantt_Schedule\<close> (\<open>packages/gantt-calc\<close>): working-day calendars, the
    deterministic topological sort with its cycle report, and the critical path method over both.
  \<^item> \<open>Freeq_Outbox\<close>, \<open>Freeq_Liveness\<close> (\<open>packages/freeq\<close>): the outbox table that replaces a queue, its
    drain, its retention, and why every message is settled in the end.
  \<^item> \<open>Lp_Forms\<close> (\<open>packages/types/src/lp.ts\<close>): page layouts and custom form fields, read leniently or
    validated strictly.
  \<^item> The ticket shop (\<open>services/lp-tickets\<close>). \<open>Ticket_Store\<close> is the repository interface with its in-memory
    implementation (\<open>types.ts\<close>, \<open>memory-repo.ts\<close>); \<open>Ticket_Checks\<close> the validation and \<open>Ticket_Service\<close>,
    \<open>Ticket_Orders\<close> the methods of \<open>tickets.ts\<close>; \<open>Stripe_Client\<close> the payment client and its webhook
    signatures; \<open>Ticket_Mail\<close> the mails, the buyer list and the signed tokens; \<open>Ticket_Delivery\<close> what happens
    after a purchase; \<open>Ticket_Alarm\<close> the durable object that schedules the reconciliation; \<open>Ticket_D1\<close> the
    repository in production (\<open>d1-repo.ts\<close>), over the tables of the SQL schema.
  \<^item> Access. \<open>Rbac_Policy\<close> (\<open>packages/types\<close>: \<open>identity.ts\<close>, \<open>app-registry.ts\<close>, \<open>policy.ts\<close>) has the
    permission catalog and the algebra of role editing; \<open>Policy_Gate\<close> (\<open>packages/policy-gate\<close>) the middleware
    that decides every request, with the tables of two services; \<open>Authz_Granter\<close> the evaluator, the decision
    cache and the granters the middleware asks; \<open>Identity_Store\<close> and \<open>Identity_Service\<close>
    (\<open>services/identity-roster\<close>) the roster they decide from and every operation on it; \<open>Auth_Sessions\<close>
    (\<open>services/auth-service\<close>: \<open>sessions.ts\<close>, \<open>crypto.ts\<close>) the sessions behind the requests, over a key-value
    store with expiring entries, and \<open>Auth_Runs\<close> every sequence of calls on them.

  A handler of the shop or the roster is a function from the outside world (ids, clock, answers of other
  services), the request and the store to its answer or error and the store it leaves; a store is a record of
  tables, a table the list of its rows in insertion order. A handler reads its clock once, except a mail
  drain, whose clock is a function of the readings. Handlers run one at a time, except where the code
  interleaves: the granter is cut at its awaits, the alarm at its pass, and the rotation of a token at its writes.

  \<^bold>\<open>What is shown.\<close> For the schedule: the sort succeeds exactly on acyclic graphs and yields the
  canonical order; the two passes compute the least and the greatest plan that respects the dependencies,
  for every calendar; slack is zero exactly for what no plan can move. For the outbox: attempts are
  bounded, pending messages are never lost, and enough drains settle each. For the shop:
  \<open>Ticket_Moves\<close> is an abstract specification, a step relation over the store with an invariant,
  \<open>Ticket_Refine\<close> and \<open>Ticket_Safety\<close> show that every method, whatever Stripe and the mail provider answer,
  is a sequence of its steps, and \<open>Ticket_Guarantees\<close> reads the properties off: no seat is sold twice,
  coupons and senders stay within their limits, orders live through their life cycle only, a refunded order
  has no valid ticket. \<open>Ticket_Settle\<close> and \<open>Ticket_Sale\<close> describe settlement and checkout branch by branch;
  \<open>Ticket_Codes\<close> and \<open>Ticket_Export\<close> are the round trips and the export loops. \<open>Ticket_D1_Refine\<close>,
  \<open>Ticket_D1_Steps\<close> and \<open>Ticket_D1_Runs\<close> show that the repository in production answers every admissible
  sequence of calls as the in-memory one. For access: which requests the middleware lets
  through, that a granted key was held within the last minute whatever requests share the cache, and in
  \<open>Identity_Admins\<close> and \<open>Identity_Runs\<close> that an organisation keeps an administrator as long as the calls
  are ones the guards cover, and how it loses the last one otherwise. \<open>Auth_Guarantees\<close> has one live token
  per session, deadlines that no refresh moves, impersonations that lead back to their administrator, and
  what a revocation ends: all that was there, and for its duration also what comes after.

  The interfaces between components are locales, each interpreted on the model: the counting of working
  days a calendar offers the scheduler, the passes over a sorted graph, the contract of an invariant of the
  shop, the simulation of one repository by another, the pages an export reads, and the permission granter
  the middleware asks.

  \<^bold>\<open>Bounds.\<close> Recursions that are not structural have measures, or fuel that is shown to suffice: the
  component search one unit per task (\<open>findCycles_total\<close>; the sort is a loop that \<open>kahn_result\<close> shows to end),
  an export one more than the rows (\<open>export_is_complete\<close>), the reading of the buyer list one per cell, the
  paging of roles one more than the roles (\<open>allRoles_reads_every_role\<close>). \<open>permissionHolders\<close> reads at most 50 pages, as the
  code does. A search that may not end, \<open>nextWorkingDay\<close> without working days, is an option.

  \<^bold>\<open>Conventions.\<close> Strings hold code units below 256; Japanese texts are in English or romanised, and a
  typographic dash is a hyphen; the styling of HTML mails is left out. Numbers of request bodies are exact
  rationals. HMAC, the URL parser, \<open>encodeURIComponent\<close>, the transports and the JSON of a Stripe answer are
  parameters. A JSON column holds the value its text denotes. Logging, best-effort audit records and the
  exceptions of the database driver are left out; write-ahead audit and session revocation may throw.

  \<^bold>\<open>Not modelled.\<close> HTTP routing and the wiring of environments; the D1 repository, the seed data, the
  passkeys and the audit sinks of identity-roster; the other services (members, mail, chat, events, tasks,
  files, deployment, and the sign-in of auth-service), which are queries over their tables or proxies of external interfaces; every user
  interface; the local agent runner.
\<close>

end
